(* ===== verification/Airc_Prelude.thy ===== *)
theory Airc_Prelude
  imports
    Main
    "HOL-Library.Word"
    "HOL-Library.Multiset"
    "HOL-Library.Char_ord"
    "HOL-Library.List_Lexorder"
    "HOL-Library.Product_Lexorder"
begin

text \<open>
  Shared vocabulary of the development: the machine types of the Rust sources, Rust's
  saturating arithmetic, \<open>Result\<close> with the \<open>?\<close> operator, the ordered map of the standard
  library (\<open>BTreeMap\<close>), the string functions the sources call, and the locale of systems
  that run a list of inputs through a step function. Everything here models the language
  and its standard library; no definition of this theory has a line of the repository as
  its source.

  Conventions. \<open>u64\<close> and UUIDs keep their width, because expiry arithmetic and identifier
  order depend on it. \<open>usize\<close> values that count objects held in memory are \<open>nat\<close>: such a
  count cannot reach the width of \<open>usize\<close>. A Rust \<open>String\<close> is its UTF-8 bytes (a
  \<open>string\<close>), so \<open>length\<close> is \<open>str::len\<close> and the order on strings is the byte order.
\<close>

section \<open>Machine types\<close>

type_synonym u64 = "64 word"
type_synonym uuid = "128 word"

named_theorems word_nat_simps \<open>equations that move u64 arithmetic to nat\<close>

definition saturating_add :: "'a::len word \<Rightarrow> 'a word \<Rightarrow> 'a word" where
  "saturating_add a b = (if unat a + unat b < 2 ^ LENGTH('a) then a + b else - 1)"

definition saturating_sub :: "'a::len word \<Rightarrow> 'a word \<Rightarrow> 'a word" where
  "saturating_sub a b = (if b \<le> a then a - b else 0)"

lemma unat_saturating_sub [word_nat_simps]:
  "unat (saturating_sub a b) = unat a - unat b"
  by (simp add: saturating_sub_def unat_sub_if' word_le_nat_alt)

lemma unat_word_max: "unat (- 1 :: 'a::len word) = 2 ^ LENGTH('a) - 1"
  by (simp add: unsigned_minus_1_eq_mask mask_eq_exp_minus_1)

lemma unat_bound: "unat (a :: 'a::len word) \<le> 2 ^ LENGTH('a) - 1"
proof -
  have "unat a < 2 ^ LENGTH('a)"
    by (rule unsigned_less)
  then show ?thesis by linarith
qed

lemma unat_saturating_add [word_nat_simps]:
  "unat (saturating_add a b) = min (unat a + unat b) (2 ^ LENGTH('a) - 1)"
  for a b :: "'a::len word"
proof (cases "unat a + unat b < 2 ^ LENGTH('a)")
  case True
  then show ?thesis
    by (simp add: saturating_add_def unat_word_ariths)
next
  case False
  then show ?thesis
    by (simp add: saturating_add_def unat_word_max)
qed

lemma saturating_add_ge1: "a \<le> saturating_add a b"
  using unat_bound [of a] by (simp add: word_le_nat_alt unat_saturating_add)

lemma saturating_add_ge2: "b \<le> saturating_add a b"
  using unat_bound [of b] by (simp add: word_le_nat_alt unat_saturating_add)

lemma saturating_sub_zero [simp]: "saturating_sub a 0 = a"
  by (simp add: saturating_sub_def)

lemma saturating_sub_le: "saturating_sub a b \<le> a"
  by (simp add: word_le_nat_alt unat_saturating_sub)

lemma add_wraps_less:
  fixes a b :: "'a::len word"
  assumes "2 ^ LENGTH('a) \<le> unat a + unat b"
  shows "a + b < a"
proof -
  let ?n = "2 ^ LENGTH('a) :: nat"
  have lt: "unat a < ?n" "unat b < ?n" by (rule unsigned_less)+
  have "unat (a + b) = (unat a + unat b) mod ?n"
    by (simp add: unat_word_ariths)
  also have "\<dots> = unat a + unat b - ?n"
  proof -
    have "unat a + unat b - ?n < ?n" using lt by linarith
    with assms show ?thesis by (simp add: le_mod_geq)
  qed
  also have "\<dots> < unat a" using assms lt by linarith
  finally show ?thesis by (simp add: word_less_nat_alt)
qed

lemma unat_add_fits:
  fixes a b :: "'a::len word"
  shows "unat a + unat b < 2 ^ LENGTH('a) \<Longrightarrow> unat (a + b) = unat a + unat b"
  by (simp add: unat_word_ariths)

lemmas word_order_nat = word_le_nat_alt word_less_nat_alt

section \<open>Results\<close>

text \<open>\<open>Result<A, E>\<close> is \<open>'e + 'a\<close>; \<open>res_bind\<close> is the \<open>?\<close> operator.\<close>

definition res_bind :: "'e + 'a \<Rightarrow> ('a \<Rightarrow> 'e + 'b) \<Rightarrow> 'e + 'b" where
  "res_bind r f = (case r of Inl e \<Rightarrow> Inl e | Inr a \<Rightarrow> f a)"

definition ok_or :: "'a option \<Rightarrow> 'e \<Rightarrow> 'e + 'a" where
  "ok_or x e = (case x of None \<Rightarrow> Inl e | Some a \<Rightarrow> Inr a)"

lemma res_bind_simps [simp]:
  "res_bind (Inl e) f = Inl e"
  "res_bind (Inr a) f = f a"
  by (simp_all add: res_bind_def)

lemma res_bind_eq_Inr: "res_bind r f = Inr b \<longleftrightarrow> (\<exists>a. r = Inr a \<and> f a = Inr b)"
  by (cases r) auto

lemma res_bind_eq_Inl: "res_bind r f = Inl e \<longleftrightarrow> r = Inl e \<or> (\<exists>a. r = Inr a \<and> f a = Inl e)"
  by (cases r) auto

lemma res_bind_assoc: "res_bind (res_bind r f) g = res_bind r (\<lambda>a. res_bind (f a) g)"
  by (cases r) auto

lemma ok_or_simps [simp]:
  "ok_or None e = Inl e"
  "ok_or (Some a) e = Inr a"
  by (simp_all add: ok_or_def)

lemma ok_or_eq_Inr: "ok_or x e = Inr a \<longleftrightarrow> x = Some a"
  by (cases x) auto

definition is_some_and :: "'a option \<Rightarrow> ('a \<Rightarrow> bool) \<Rightarrow> bool" where
  "is_some_and x p = (case x of None \<Rightarrow> False | Some a \<Rightarrow> p a)"

definition is_none_or :: "'a option \<Rightarrow> ('a \<Rightarrow> bool) \<Rightarrow> bool" where
  "is_none_or x p = (case x of None \<Rightarrow> True | Some a \<Rightarrow> p a)"

lemma is_some_and_simps [simp]:
  "is_some_and None p = False"
  "is_some_and (Some a) p = p a"
  by (simp_all add: is_some_and_def)

lemma is_none_or_simps [simp]:
  "is_none_or None p = True"
  "is_none_or (Some a) p = p a"
  by (simp_all add: is_none_or_def)

lemma find_SomeD: "find P xs = Some x \<Longrightarrow> x \<in> set xs \<and> P x"
  by (induction xs) (auto split: if_splits)

section \<open>The ordered map\<close>

text \<open>
  \<open>BTreeMap\<close> as an association list kept in key order: \<open>map_of\<close> is \<open>get\<close>, iteration is
  the list itself, and \<open>insert\<close> replaces the value of a key it finds.
\<close>

type_synonym ('k, 'v) btree = "('k \<times> 'v) list"

fun bt_insert :: "'k::linorder \<Rightarrow> 'v \<Rightarrow> ('k, 'v) btree \<Rightarrow> ('k, 'v) btree" where
  "bt_insert k v [] = [(k, v)]"
| "bt_insert k v (e # m) =
     (if k < fst e then (k, v) # e # m
      else if k = fst e then (k, v) # m
      else e # bt_insert k v m)"

definition bt_remove :: "'k \<Rightarrow> ('k, 'v) btree \<Rightarrow> ('k, 'v) btree" where
  "bt_remove k m = filter (\<lambda>e. fst e \<noteq> k) m"

definition bt_values :: "('k, 'v) btree \<Rightarrow> 'v list" where
  "bt_values m = map snd m"

definition bt_keys :: "('k, 'v) btree \<Rightarrow> 'k list" where
  "bt_keys m = map fst m"

definition bt_contains :: "('k, 'v) btree \<Rightarrow> 'k \<Rightarrow> bool" where
  "bt_contains m k \<longleftrightarrow> map_of m k \<noteq> None"

definition bt_wf :: "('k::linorder, 'v) btree \<Rightarrow> bool" where
  "bt_wf m \<longleftrightarrow> sorted_wrt (<) (map fst m)"

lemma map_of_bt_insert [simp]: "map_of (bt_insert k v m) = (map_of m)(k \<mapsto> v)"
  by (induction m) (auto simp: fun_eq_iff)

lemma map_of_bt_remove [simp]: "map_of (bt_remove k m) = (map_of m)(k := None)"
  unfolding bt_remove_def by (induction m) (auto simp: fun_eq_iff)

lemma keys_bt_insert: "fst ` set (bt_insert k v m) = insert k (fst ` set m)"
  by (induction m) auto

lemma set_bt_insert_subset: "set (bt_insert k v m) \<subseteq> insert (k, v) (set m)"
  by (induction m) auto

lemma bt_wf_Nil [simp]: "bt_wf []"
  by (simp add: bt_wf_def)

lemma bt_wf_Cons: "bt_wf (e # m) \<longleftrightarrow> (\<forall>k \<in> fst ` set m. fst e < k) \<and> bt_wf m"
  by (auto simp: bt_wf_def)

lemma bt_wf_insert [simp]: "bt_wf m \<Longrightarrow> bt_wf (bt_insert k v m)"
proof (induction m)
  case (Cons e m)
  then show ?case
    by (cases "k < fst e"; cases "k = fst e")
      (auto simp: bt_wf_Cons keys_bt_insert)
qed (simp add: bt_wf_def)

lemma bt_wf_filter: "bt_wf m \<Longrightarrow> bt_wf (filter P m)"
  by (induction m) (auto simp: bt_wf_Cons)

lemma bt_wf_remove [simp]: "bt_wf m \<Longrightarrow> bt_wf (bt_remove k m)"
  by (simp add: bt_remove_def bt_wf_filter)

lemma bt_wf_distinct: "bt_wf m \<Longrightarrow> distinct (map fst m)"
  by (simp add: bt_wf_def strict_sorted_iff)

lemma bt_wf_in_set: "bt_wf m \<Longrightarrow> (k, v) \<in> set m \<longleftrightarrow> map_of m k = Some v"
  by (simp add: bt_wf_distinct)

lemma bt_wf_ext: "bt_wf m \<Longrightarrow> bt_wf n \<Longrightarrow> map_of m = map_of n \<Longrightarrow> m = n"
proof -
  assume wf: "bt_wf m" "bt_wf n" and eq: "map_of m = map_of n"
  then have set_eq: "set m = set n"
    by (simp add: bt_wf_distinct map_of_inject_set)
  have "inj_on fst (set m \<union> set n)"
    using bt_wf_distinct [OF wf(1)] set_eq by (simp add: distinct_map)
  then show "m = n"
    using wf set_eq
    by (intro map_sorted_distinct_set_unique [where f = fst])
      (simp_all add: bt_wf_def strict_sorted_iff)
qed

lemma in_bt_values: "bt_wf m \<Longrightarrow> v \<in> set (bt_values m) \<longleftrightarrow> (\<exists>k. map_of m k = Some v)"
  by (force simp: bt_values_def bt_wf_in_set [symmetric])

text \<open>A well-formed map all of whose entries satisfy a predicate.\<close>

definition keyed :: "('k::linorder \<Rightarrow> 'v \<Rightarrow> bool) \<Rightarrow> ('k, 'v) btree \<Rightarrow> bool" where
  "keyed P m \<longleftrightarrow> bt_wf m \<and> (\<forall>k v. map_of m k = Some v \<longrightarrow> P k v)"

lemma keyed_Nil [simp]: "keyed P []"
  by (simp add: keyed_def)

lemma keyed_insert: "keyed P m \<Longrightarrow> P k v \<Longrightarrow> keyed P (bt_insert k v m)"
  by (simp add: keyed_def)

lemma keyed_remove: "keyed P m \<Longrightarrow> keyed P (bt_remove k m)"
  by (simp add: keyed_def)

lemma keyed_mono: "keyed P m \<Longrightarrow> (\<And>k v. P k v \<Longrightarrow> Q k v) \<Longrightarrow> keyed Q m"
  by (simp add: keyed_def)

lemma keyedD: "keyed P m \<Longrightarrow> map_of m k = Some v \<Longrightarrow> P k v"
  by (simp add: keyed_def)

lemma keyed_update:
  "keyed P m \<Longrightarrow> map_of m k = Some v \<Longrightarrow> (P k v \<Longrightarrow> P k v') \<Longrightarrow> keyed P (bt_insert k v' m)"
  by (simp add: keyed_def)

lemma keyed_wf: "keyed P m \<Longrightarrow> bt_wf m"
  by (simp add: keyed_def)

text \<open>The map interface, as the components that keep a map rely on it.\<close>

locale ordered_map =
  fixes lookup :: "'m \<Rightarrow> 'k \<Rightarrow> 'v option"
    and update :: "'k \<Rightarrow> 'v \<Rightarrow> 'm \<Rightarrow> 'm"
    and delete :: "'k \<Rightarrow> 'm \<Rightarrow> 'm"
    and wf :: "'m \<Rightarrow> bool"
  assumes lookup_update: "lookup (update k v m) = (lookup m)(k \<mapsto> v)"
    and lookup_delete: "lookup (delete k m) = (lookup m)(k := None)"
    and wf_update: "wf m \<Longrightarrow> wf (update k v m)"
    and wf_delete: "wf m \<Longrightarrow> wf (delete k m)"
begin

lemma delete_update_lookup: "lookup (delete k (update k v m)) = (lookup m)(k := None)"
  by (simp add: lookup_update lookup_delete)

lemma update_other: "k \<noteq> l \<Longrightarrow> lookup (update k v m) l = lookup m l"
  by (simp add: lookup_update)

lemma update_pred:
  assumes "\<And>k v. lookup m k = Some v \<Longrightarrow> P k v" and "P a b"
  shows "lookup (update a b m) k = Some v \<Longrightarrow> P k v"
  using assms by (auto simp: lookup_update split: if_splits)

end

interpretation btm: ordered_map map_of bt_insert bt_remove bt_wf
  by unfold_locales auto

section \<open>Runs of a step function\<close>

text \<open>
  A component driven by a sequence of inputs, whose step may refuse an input: replaying a
  log, applying a list of operations. A refusal ends the run.
\<close>

fun run_steps :: "('s \<Rightarrow> 'i \<Rightarrow> 'e + 's) \<Rightarrow> 's \<Rightarrow> 'i list \<Rightarrow> 'e + 's" where
  "run_steps step s [] = Inr s"
| "run_steps step s (i # is) = res_bind (step s i) (\<lambda>s'. run_steps step s' is)"

lemma run_steps_append:
  "run_steps step s (xs @ ys) = res_bind (run_steps step s xs) (\<lambda>s'. run_steps step s' ys)"
  by (induction xs arbitrary: s) (simp_all add: res_bind_assoc)

text \<open>
  A relation between states that every accepted input respects (an invariant of the state,
  or a change the component never makes) extends to whole runs.
\<close>

locale step_system =
  fixes step :: "'s \<Rightarrow> 'i \<Rightarrow> 'e + 's"
    and inv :: "'s \<Rightarrow> bool"
    and keeps :: "'s \<Rightarrow> 's \<Rightarrow> bool"
  assumes step_inv: "inv s \<Longrightarrow> step s i = Inr s' \<Longrightarrow> inv s'"
    and step_keeps: "inv s \<Longrightarrow> step s i = Inr s' \<Longrightarrow> keeps s s'"
    and keeps_refl: "keeps s s"
    and keeps_trans: "keeps s t \<Longrightarrow> keeps t u \<Longrightarrow> keeps s u"
begin

lemma run_inv: "inv s \<Longrightarrow> run_steps step s is = Inr s' \<Longrightarrow> inv s'"
  by (induction "is" arbitrary: s) (auto simp: res_bind_eq_Inr intro: step_inv)

lemma run_keeps: "inv s \<Longrightarrow> run_steps step s is = Inr s' \<Longrightarrow> keeps s s'"
proof (induction "is" arbitrary: s)
  case (Cons i "is")
  then obtain t where t: "step s i = Inr t" "run_steps step t is = Inr s'"
    by (auto simp: res_bind_eq_Inr)
  then have "keeps t s'"
    using Cons step_inv by blast
  then show ?case
    using t(1) Cons.prems(1) step_keeps keeps_trans by blast
qed (simp add: keeps_refl)

end

end
