(* ===== verification/Rust_Str.thy ===== *)
theory Rust_Str
  imports Airc_Prelude
begin

text \<open>
  The functions of \<open>str\<close> the sources call, on UTF-8 bytes: \<open>trim\<close>, the search for a
  whitespace character, ASCII case folding and hex digits, and the decimal rendering of an
  unsigned integer. Whitespace is Unicode's \<open>White_Space\<close> property, as \<open>char::is_whitespace\<close>
  has it; its characters are recognised by their encodings (one, two or three bytes). The
  first byte of an encoding never occurs inside another character, so in a valid string the
  byte search finds exactly the whitespace characters.
\<close>

section \<open>Whitespace\<close>

definition byte_of :: "char \<Rightarrow> nat" where
  "byte_of c = of_char c"

fun ws_bytes :: "nat list \<Rightarrow> bool" where
  "ws_bytes [a] = (9 \<le> a \<and> a \<le> 13 \<or> a = 32)"
| "ws_bytes [a, b] = (a = 0xC2 \<and> (b = 0x85 \<or> b = 0xA0))"
| "ws_bytes [a, b, c] =
     (a = 0xE1 \<and> b = 0x9A \<and> c = 0x80 \<or>
      a = 0xE2 \<and> b = 0x80 \<and> (0x80 \<le> c \<and> c \<le> 0x8A \<or> c = 0xA8 \<or> c = 0xA9 \<or> c = 0xAF) \<or>
      a = 0xE2 \<and> b = 0x81 \<and> c = 0x9F \<or>
      a = 0xE3 \<and> b = 0x80 \<and> c = 0x80)"
| "ws_bytes _ = False"

definition ws_prefix :: "string \<Rightarrow> nat option" where
  "ws_prefix s = find (\<lambda>n. n \<le> length s \<and> ws_bytes (map byte_of (take n s))) [1, 2, 3]"

definition ws_suffix :: "string \<Rightarrow> nat option" where
  "ws_suffix s =
     find (\<lambda>n. n \<le> length s \<and> ws_bytes (map byte_of (drop (length s - n) s))) [1, 2, 3]"

lemma ws_prefix_Some: "ws_prefix s = Some n \<Longrightarrow> 0 < n \<and> n \<le> length s"
  by (auto simp: ws_prefix_def split: if_splits)

lemma ws_suffix_Some: "ws_suffix s = Some n \<Longrightarrow> 0 < n \<and> n \<le> length s"
  by (auto simp: ws_suffix_def split: if_splits)

function trim_start :: "string \<Rightarrow> string" where
  "trim_start s = (case ws_prefix s of None \<Rightarrow> s | Some n \<Rightarrow> trim_start (drop n s))"
  by pat_completeness auto
termination
  by (relation "measure length") (auto dest: ws_prefix_Some)

function trim_end :: "string \<Rightarrow> string" where
  "trim_end s =
     (case ws_suffix s of None \<Rightarrow> s | Some n \<Rightarrow> trim_end (take (length s - n) s))"
  by pat_completeness auto
termination
  by (relation "measure length") (auto dest!: ws_suffix_Some)

declare trim_start.simps [simp del] trim_end.simps [simp del]

definition trim :: "string \<Rightarrow> string" where
  "trim s = trim_end (trim_start s)"

fun contains_ws :: "string \<Rightarrow> bool" where
  "contains_ws [] = False"
| "contains_ws (c # s) = (ws_prefix (c # s) \<noteq> None \<or> contains_ws s)"

lemma contains_ws_drop: "contains_ws (drop n s) \<Longrightarrow> contains_ws s"
proof (induction s arbitrary: n)
  case (Cons c s)
  then show ?case by (cases n) auto
qed simp

lemma ws_prefix_contains: "ws_prefix s = Some n \<Longrightarrow> contains_ws s"
  by (cases s) (auto simp: ws_prefix_def)

lemma ws_suffix_contains:
  assumes "ws_suffix s = Some n"
  shows "contains_ws s"
proof -
  let ?t = "drop (length s - n) s"
  from assms have n: "n \<in> {1, 2, 3}" "n \<le> length s" "ws_bytes (map byte_of ?t)"
    by (auto simp: ws_suffix_def split: if_splits)
  then have "ws_prefix ?t \<noteq> None"
    by (auto simp: ws_prefix_def find_None_iff)
  then have "contains_ws ?t"
    using ws_prefix_contains by blast
  then show ?thesis
    by (rule contains_ws_drop)
qed

text \<open>A string without whitespace is its own trimming.\<close>

lemma trim_no_ws: "\<not> contains_ws s \<Longrightarrow> trim s = s"
proof -
  assume s: "\<not> contains_ws s"
  have "trim_start s = s"
    using s ws_prefix_contains by (subst trim_start.simps) (auto split: option.splits)
  moreover have "trim_end s = s"
    using s ws_suffix_contains by (subst trim_end.simps) (auto split: option.splits)
  ultimately show ?thesis by (simp add: trim_def)
qed

section \<open>ASCII\<close>

definition is_ascii_hexdigit :: "char \<Rightarrow> bool" where
  "is_ascii_hexdigit c =
     (let b = byte_of c in 48 \<le> b \<and> b \<le> 57 \<or> 65 \<le> b \<and> b \<le> 70 \<or> 97 \<le> b \<and> b \<le> 102)"

definition ascii_lower :: "char \<Rightarrow> char" where
  "ascii_lower c = (let b = byte_of c in if 65 \<le> b \<and> b \<le> 90 then char_of (b + 32) else c)"

definition to_ascii_lowercase :: "string \<Rightarrow> string" where
  "to_ascii_lowercase s = map ascii_lower s"

lemma byte_of_char_of: "n < 256 \<Longrightarrow> byte_of (char_of n) = n"
  by (simp add: byte_of_def of_char_of)

lemma ascii_lower_idem [simp]: "ascii_lower (ascii_lower c) = ascii_lower c"
  by (simp add: ascii_lower_def Let_def byte_of_char_of)

lemma hexdigit_ascii_lower: "is_ascii_hexdigit c \<Longrightarrow> is_ascii_hexdigit (ascii_lower c)"
  by (auto simp: is_ascii_hexdigit_def ascii_lower_def Let_def byte_of_char_of)

section \<open>Decimal rendering\<close>

definition digit_char :: "nat \<Rightarrow> char" where
  "digit_char d = char_of (48 + d)"

fun show_nat :: "nat \<Rightarrow> string" where
  "show_nat n =
     (if n < 10 then [digit_char n] else show_nat (n div 10) @ [digit_char (n mod 10)])"

declare show_nat.simps [simp del]

definition show_u64 :: "u64 \<Rightarrow> string" where
  "show_u64 w = show_nat (unat w)"

lemma byte_of_digit_char: "d < 10 \<Longrightarrow> byte_of (digit_char d) = 48 + d"
  by (simp add: digit_char_def byte_of_char_of)

lemma show_nat_digits: "\<forall>c \<in> set (show_nat n). 48 \<le> byte_of c \<and> byte_of c \<le> 57"
proof (induction n rule: show_nat.induct)
  case (1 n)
  show ?case
  proof (cases "n < 10")
    case True
    then show ?thesis by (subst show_nat.simps) (simp add: byte_of_digit_char)
  next
    case False
    with 1 have "\<forall>c \<in> set (show_nat (n div 10)). 48 \<le> byte_of c \<and> byte_of c \<le> 57" by simp
    with False show ?thesis by (subst show_nat.simps) (auto simp: byte_of_digit_char)
  qed
qed

lemma show_nat_not_Nil: "show_nat n \<noteq> []"
  by (subst show_nat.simps) simp

fun read_nat :: "nat \<Rightarrow> string \<Rightarrow> nat" where
  "read_nat acc [] = acc"
| "read_nat acc (c # s) = read_nat (10 * acc + (byte_of c - 48)) s"

lemma read_nat_append: "read_nat a (s @ t) = read_nat (read_nat a s) t"
  by (induction s arbitrary: a) simp_all

lemma read_show_nat: "read_nat 0 (show_nat n) = n"
proof (induction n rule: show_nat.induct)
  case (1 n)
  show ?case
  proof (cases "n < 10")
    case True
    then show ?thesis by (subst show_nat.simps) (simp add: byte_of_digit_char)
  next
    case False
    with 1 show ?thesis
      by (subst show_nat.simps) (simp add: read_nat_append byte_of_digit_char)
  qed
qed

lemma show_u64_inject: "show_u64 a = show_u64 b \<longleftrightarrow> a = b"
  by (metis read_show_nat show_u64_def unsigned_word_eqI)

lemma show_u64_digits: "c \<in> set (show_u64 n) \<Longrightarrow> 48 \<le> byte_of c \<and> byte_of c \<le> 57"
  by (simp add: show_u64_def show_nat_digits)

text \<open>A separator that does not occur in the second part splits a rendered pair.\<close>

lemma split_at_first:
  "as @ c # xs = bs @ c # ys \<Longrightarrow> c \<notin> set as \<Longrightarrow> c \<notin> set bs \<Longrightarrow> as = bs \<and> xs = ys"
proof (induction as arbitrary: bs)
  case Nil
  then show ?case by (cases bs) auto
next
  case (Cons a as)
  then show ?case by (cases bs) auto
qed

lemma split_at_last:
  assumes "xs @ c # ys = us @ c # vs" and "c \<notin> set ys" and "c \<notin> set vs"
  shows "xs = us \<and> ys = vs"
proof -
  have "rev ys @ c # rev xs = rev vs @ c # rev us"
    using assms(1) by (metis append.assoc append_Cons append_Nil rev.simps(2) rev_append)
  then show ?thesis
    using split_at_first [of "rev ys" c "rev xs" "rev vs" "rev us"] assms(2,3) by simp
qed

end
