(* ===== verification/Work_Model.thy ===== *)
theory Work_Model
  imports Rust_Str
begin

text \<open>
  The data model of the work domain (\<open>airc-work/src/ids.rs\<close>, \<open>model.rs\<close>): validated
  names, the closed enumerations of the board, and the records a board holds. A struct is a
  record whose fields carry a prefix (fields of different structs share names in Rust); an
  enum is a datatype whose constructors carry the initials of the enum. The submission and
  rejection records that a card embeds (\<open>event.rs\<close>) are declared here too, before the card.
\<close>

section \<open>Identifiers\<close>

type_synonym work_card_id = uuid
type_synonym lane_id = uuid
type_synonym claim_id = uuid
type_synonym submission_id = uuid
type_synonym work_review_id = uuid
type_synonym workspace_id = uuid
type_synonym goal_id = uuid
type_synonym peer_id = uuid
type_synonym repo_id = string
type_synonym branch_name = string
type_synonym git_object_id = string
type_synonym content_hash = "256 word"

datatype name_error = NE_Empty | NE_ContainsWhitespace

definition repo_id_new :: "string \<Rightarrow> name_error + repo_id" where
  "repo_id_new value =
     (let trimmed = trim value in
      if trimmed = [] then Inl NE_Empty
      else if contains_ws trimmed then Inl NE_ContainsWhitespace
      else Inr trimmed)"

definition branch_name_new :: "string \<Rightarrow> name_error + branch_name" where
  "branch_name_new value =
     (let trimmed = trim value in
      if trimmed = [] then Inl NE_Empty
      else if contains_ws trimmed then Inl NE_ContainsWhitespace
      else Inr trimmed)"

datatype git_object_id_error = GE_Empty | GE_NonHex

definition git_object_id_new :: "string \<Rightarrow> git_object_id_error + git_object_id" where
  "git_object_id_new value =
     (let trimmed = trim value in
      if trimmed = [] then Inl GE_Empty
      else if \<not> list_all is_ascii_hexdigit trimmed then Inl GE_NonHex
      else Inr (to_ascii_lowercase trimmed))"

section \<open>Enumerations\<close>

datatype priority = P0 | P1 | P2 | P3

datatype card_state =
  CS_Open | CS_Claimed | CS_InProgress | CS_Blocked | CS_Review | CS_Merged | CS_Closed

definition is_settled :: "card_state \<Rightarrow> bool" where
  "is_settled s = (case s of CS_Review \<Rightarrow> True | CS_Merged \<Rightarrow> True | CS_Closed \<Rightarrow> True | _ \<Rightarrow> False)"

datatype lane_state = LS_Planned | LS_Active | LS_Blocked | LS_Landing | LS_Done

datatype workspace_status =
  WS_Requested | WS_Allocated | WS_Active | WS_Released | WS_Orphaned | WS_Failed

datatype agent_availability_state = AA_Ready | AA_Busy | AA_Away

datatype dirty_state = DS_Clean | DS_Dirty | DS_Unknown

datatype pr_check_state =
  PC_Queued | PC_Running | PC_Passed | PC_Failed | PC_Cancelled | PC_Skipped

datatype pr_review_state =
  PR_Requested | PR_Commented | PR_Approved | PR_ChangesRequested | PR_Dismissed

datatype pr_merge_state = PM_Open | PM_Draft | PM_Ready | PM_Merged | PM_Closed

datatype drain_candidate_category =
  DC_RebuildableCache | DC_GeneratedArtifact | DC_DownloadedDependency | DC_DockerLayer
| DC_ModelCache | DC_TraceArtifact | DC_Unknown

definition safe_by_default :: "drain_candidate_category \<Rightarrow> bool" where
  "safe_by_default c =
     (case c of DC_RebuildableCache \<Rightarrow> True | DC_DownloadedDependency \<Rightarrow> True | _ \<Rightarrow> False)"

datatype pressure_level = PL_Nominal | PL_Elevated | PL_High | PL_Critical

text \<open>
  \<open>Priority\<close> and \<open>PressureLevel\<close> derive \<open>Ord\<close>: the order of their declarations, by rank.
\<close>

definition priority_rank :: "priority \<Rightarrow> nat" where
  "priority_rank p = (case p of P0 \<Rightarrow> 0 | P1 \<Rightarrow> 1 | P2 \<Rightarrow> 2 | P3 \<Rightarrow> 3)"

definition pressure_rank :: "pressure_level \<Rightarrow> nat" where
  "pressure_rank p =
     (case p of PL_Nominal \<Rightarrow> 0 | PL_Elevated \<Rightarrow> 1 | PL_High \<Rightarrow> 2 | PL_Critical \<Rightarrow> 3)"

lemma priority_rank_inject: "priority_rank p = priority_rank q \<Longrightarrow> p = q"
  by (cases p; cases q) (simp_all add: priority_rank_def)

lemma pressure_rank_inject: "pressure_rank p = pressure_rank q \<Longrightarrow> p = q"
  by (cases p; cases q) (simp_all add: pressure_rank_def)

instantiation priority :: linorder
begin

definition less_eq_priority :: "priority \<Rightarrow> priority \<Rightarrow> bool" where
  "less_eq_priority p q \<longleftrightarrow> priority_rank p \<le> priority_rank q"

definition less_priority :: "priority \<Rightarrow> priority \<Rightarrow> bool" where
  "less_priority p q \<longleftrightarrow> priority_rank p < priority_rank q"

instance
  by standard (auto simp: less_eq_priority_def less_priority_def dest: priority_rank_inject)

end

instantiation pressure_level :: linorder
begin

definition less_eq_pressure_level :: "pressure_level \<Rightarrow> pressure_level \<Rightarrow> bool" where
  "less_eq_pressure_level p q \<longleftrightarrow> pressure_rank p \<le> pressure_rank q"

definition less_pressure_level :: "pressure_level \<Rightarrow> pressure_level \<Rightarrow> bool" where
  "less_pressure_level p q \<longleftrightarrow> pressure_rank p < pressure_rank q"

instance
  by standard
    (auto simp: less_eq_pressure_level_def less_pressure_level_def dest: pressure_rank_inject)

end

section \<open>Records\<close>

record pull_request_ref =
  pr_repo :: repo_id
  pr_number :: u64
  pr_head :: branch_name
  pr_base :: branch_name

record media_ref =
  mr_hash :: content_hash
  mr_size_bytes :: u64
  mr_mime :: "string option"

record work_submission =
  ws_submission_id :: submission_id
  ws_card_id :: work_card_id
  ws_claim_id :: claim_id
  ws_instance :: string
  ws_base_sha :: git_object_id
  ws_artifact :: media_ref
  ws_publisher :: peer_id
  ws_submitted_at_ms :: u64

datatype submission_rejection_reason =
  SR_PublisherMismatch | SR_InvalidBase | SR_InvalidInstance | SR_InvalidArtifact
| SR_WrongClaim | SR_ExpiredClaim | SR_SettledCard | SR_ConflictingId

record rejected_submission =
  rs_submission_id :: submission_id
  rs_card_id :: work_card_id
  rs_publisher :: peer_id
  rs_submitted_at_ms :: u64
  rs_reason :: submission_rejection_reason

datatype claim_origin = CO_Explicit | CO_Automatic | CO_Unknown

record claim_provenance =
  cp_origin :: claim_origin
  cp_selected_at_ms :: u64

record work_card =
  card_id :: work_card_id
  card_repo :: repo_id
  card_title :: string
  card_body :: "string option"
  card_priority :: priority
  card_lane_id :: "lane_id option"
  card_state :: card_state
  card_owner :: "peer_id option"
  card_claim_id :: "claim_id option"
  card_claim_provenance :: "claim_provenance option"
  card_claim_expires_at_ms :: "u64 option"
  card_last_heartbeat_at_ms :: "u64 option"
  card_pull_request :: "pull_request_ref option"
  card_created_by :: peer_id
  card_created_at_ms :: u64
  card_updated_at_ms :: u64
  card_reviews :: "work_card_id option"
  card_submissions :: "work_submission list"
  card_last_submission_rejection :: "rejected_submission option"

record workspace_lease =
  wl_workspace_id :: workspace_id
  wl_card_id :: work_card_id
  wl_claim_id :: claim_id
  wl_owner :: peer_id
  wl_repo :: repo_id
  wl_path :: string
  wl_branch :: branch_name
  wl_base :: branch_name
  wl_status :: workspace_status
  wl_disk_bytes :: "u64 option"
  wl_created_at_ms :: u64
  wl_heartbeat_at_ms :: u64
  wl_released_at_ms :: "u64 option"

record hygiene_report =
  hr_repo :: repo_id
  hr_reporter :: peer_id
  hr_total_bytes :: u64
  hr_rebuildable_bytes :: u64
  hr_workspace_count :: nat
  hr_recorded_at_ms :: u64

record drain_candidate =
  dc_path :: string
  dc_category :: drain_candidate_category
  dc_est_bytes :: u64

record drain_outcome =
  do_bytes_reclaimed :: u64
  do_paths_touched :: "string list"
  do_paths_skipped :: "string list"
  do_errors :: "string list"

section \<open>Validated names\<close>

lemma repo_id_new_ok:
  "repo_id_new s = Inr r \<Longrightarrow> r \<noteq> [] \<and> \<not> contains_ws r \<and> r = trim s"
  by (auto simp: repo_id_new_def Let_def split: if_splits)

lemma branch_name_new_eq: "branch_name_new s = repo_id_new s"
  by (simp add: branch_name_new_def repo_id_new_def)

lemma hexdigit_not_ws:
  assumes "list_all is_ascii_hexdigit s"
  shows "\<not> contains_ws s"
  using assms
proof (induction s)
  case (Cons c s)
  have c: "byte_of c \<noteq> 0xC2" "byte_of c \<noteq> 0xE1" "byte_of c \<noteq> 0xE2" "byte_of c \<noteq> 0xE3"
    "\<not> (9 \<le> byte_of c \<and> byte_of c \<le> 13 \<or> byte_of c = 32)"
    using Cons.prems by (auto simp: is_ascii_hexdigit_def Let_def)
  have "\<not> ws_bytes (map byte_of (take n (c # s)))" if "n \<in> {1, 2, 3}" for n
  proof (rule notI)
    assume "ws_bytes (map byte_of (take n (c # s)))"
    then show False
      using c that by (cases "map byte_of (take n (c # s))" rule: ws_bytes.cases)
        (auto simp: take_Cons' split: if_splits)
  qed
  then have "ws_prefix (c # s) = None"
    unfolding ws_prefix_def find_None_iff by auto
  with Cons show ?case by simp
qed simp

text \<open>Every accepted name is a fixed point of its own constructor.\<close>

lemma repo_id_new_idem: "repo_id_new s = Inr r \<Longrightarrow> repo_id_new r = Inr r"
proof -
  assume "repo_id_new s = Inr r"
  then have r: "r \<noteq> []" "\<not> contains_ws r"
    using repo_id_new_ok by blast+
  then show ?thesis
    by (simp add: repo_id_new_def trim_no_ws)
qed

lemma git_object_id_new_ok:
  assumes "git_object_id_new s = Inr g"
  shows "g \<noteq> []" "list_all is_ascii_hexdigit g" "to_ascii_lowercase g = g"
  using assms
  by (auto simp: git_object_id_new_def Let_def to_ascii_lowercase_def list_all_iff
      hexdigit_ascii_lower split: if_splits)

lemma git_object_id_new_idem:
  "git_object_id_new s = Inr g \<Longrightarrow> git_object_id_new g = Inr g"
  using git_object_id_new_ok [of s g]
  by (simp add: git_object_id_new_def [of g] trim_no_ws hexdigit_not_ws)

end
