(* ===== verification/Work_Card_Event.thy ===== *)
theory Work_Card_Event
  imports Work_Model
begin

text \<open>
  The events of cards, claims, submissions and reviews (\<open>airc-work/src/event.rs\<close>), the
  goal-lifecycle shapes they carry (\<open>goal.rs\<close>, \<open>goal_event.rs\<close>, \<open>recipe.rs\<close>), and the
  admission rules of a submission that need only the card it is made on.
\<close>

section \<open>Code outside the repository\<close>

text \<open>
  SHA-256 (\<open>sha2\<close>), UUID version 5 and the hyphenated rendering of a UUID (\<open>uuid\<close>) belong
  to third-party crates; the operations that use them take them from this record.
\<close>

record work_deps =
  wd_content_hash :: "string \<Rightarrow> content_hash"
  wd_uuid_new_v5 :: "uuid \<Rightarrow> string \<Rightarrow> uuid"
  wd_uuid_display :: "uuid \<Rightarrow> string"

section \<open>Goals\<close>

type_synonym recipe_ref = string

datatype exit_condition =
  EC_DryForTicks "8 word"
| EC_MilestoneClosed work_card_id
| EC_AllCardsClosed
| EC_OperatorOnly

datatype goal_state =
  GS_Fresh
| GS_InProgress "32 word" "32 word"
| GS_Achieved u64
| GS_Abandoned u64 string

record goal =
  goal_id :: goal_id
  goal_title :: string
  goal_default_repo :: repo_id
  goal_state :: goal_state
  goal_exit_condition :: exit_condition
  goal_created_at_ms :: u64

definition goal_fresh :: "goal_id \<Rightarrow> string \<Rightarrow> repo_id \<Rightarrow> exit_condition \<Rightarrow> u64 \<Rightarrow> goal" where
  "goal_fresh i title default_repo exit_cond created_at_ms =
     \<lparr> goal_id = i, goal_title = title, goal_default_repo = default_repo, goal_state = GS_Fresh,
       goal_exit_condition = exit_cond, goal_created_at_ms = created_at_ms \<rparr>"

definition accepts_synthesis :: "goal \<Rightarrow> bool" where
  "accepts_synthesis g =
     (case goal_state g of GS_Fresh \<Rightarrow> True | GS_InProgress _ _ \<Rightarrow> True | _ \<Rightarrow> False)"

datatype external_source = ES_GhIssue | ES_GhPullRequest

datatype card_origin =
  CrO_Operator peer_id
| CrO_Synthesized goal_id recipe_ref peer_id string
| CrO_External external_source string

record goal_created =
  gc_goal_id :: goal_id
  gc_title :: string
  gc_default_repo :: repo_id
  gc_exit_condition :: exit_condition
  gc_recipe_refs :: "recipe_ref list"
  gc_created_by :: peer_id
  gc_created_at_ms :: u64

record goal_achieved =
  ga_goal_id :: goal_id
  ga_condition :: exit_condition
  ga_achieved_by :: peer_id
  ga_achieved_at_ms :: u64

record goal_abandoned =
  gab_goal_id :: goal_id
  gab_abandoned_by :: peer_id
  gab_reason :: string
  gab_abandoned_at_ms :: u64

record goal_dry_tick_recorded =
  gd_goal_id :: goal_id
  gd_synthesizer_peer :: peer_id
  gd_recorded_at_ms :: u64

section \<open>Card and claim events\<close>

record card_created =
  cc_card_id :: work_card_id
  cc_repo :: repo_id
  cc_title :: string
  cc_body :: "string option"
  cc_priority :: priority
  cc_lane_id :: "lane_id option"
  cc_created_by :: peer_id
  cc_created_at_ms :: u64
  cc_reviews :: "work_card_id option"
  cc_origin :: "card_origin option"

record submission_review_requested =
  srr_card :: card_created
  srr_submission_id :: submission_id

record claim_selection =
  sel_claim_id :: claim_id
  sel_owner :: peer_id
  sel_selected_at_ms :: u64

record card_updated =
  cu_claim_selection :: "claim_selection option"
  cu_card_id :: work_card_id
  cu_title :: "string option"
  cu_body :: "string option"
  cu_priority :: "priority option"
  cu_updated_by :: peer_id
  cu_updated_at_ms :: u64

record work_card_claimed =
  cl_selected_at_ms :: "u64 option"
  cl_card_id :: work_card_id
  cl_claim_id :: claim_id
  cl_owner :: peer_id
  cl_ttl_ms :: u64
  cl_claimed_at_ms :: u64
  cl_origin :: claim_origin

record claim_heartbeat =
  hb_card_id :: work_card_id
  hb_claim_id :: claim_id
  hb_owner :: peer_id
  hb_ttl_ms :: u64
  hb_heartbeat_at_ms :: u64

record claim_released =
  rel_card_id :: work_card_id
  rel_claim_id :: claim_id
  rel_owner :: peer_id
  rel_reason :: "string option"
  rel_released_at_ms :: u64
  rel_taken_over_from :: "peer_id option"

record card_state_changed =
  sc_card_id :: work_card_id
  sc_state :: card_state
  sc_changed_by :: peer_id
  sc_changed_at_ms :: u64

section \<open>Submissions and reviews\<close>

datatype work_review_outcome = RO_Passed | RO_Failed | RO_Unknown

record work_submission_review =
  wr_review_id :: work_review_id
  wr_card_id :: work_card_id
  wr_submission_id :: submission_id
  wr_artifact :: media_ref
  wr_review_card_id :: work_card_id
  wr_review_claim_id :: claim_id
  wr_reviewer :: peer_id
  wr_outcome :: work_review_outcome
  wr_evidence :: media_ref
  wr_evidence_text :: "string option"
  wr_reviewed_at_ms :: u64

datatype work_review_rejection_reason =
  RR_RequestorMismatch | RR_ReviewerMismatch | RR_UnknownSubmission | RR_ArtifactMismatch
| RR_WrongReviewCard | RR_WrongClaim | RR_ExpiredClaim | RR_SettledReviewCard
| RR_InvalidEvidence | RR_ConflictingId

record rejected_work_review =
  rwr_review_id :: work_review_id
  rwr_card_id :: work_card_id
  rwr_reviewer :: peer_id
  rwr_reviewed_at_ms :: u64
  rwr_reason :: work_review_rejection_reason

definition same_judgement :: "work_submission_review \<Rightarrow> work_submission_review \<Rightarrow> bool" where
  "same_judgement a b \<longleftrightarrow>
     wr_review_id a = wr_review_id b \<and>
     wr_card_id a = wr_card_id b \<and>
     wr_submission_id a = wr_submission_id b \<and>
     wr_artifact a = wr_artifact b \<and>
     wr_review_card_id a = wr_review_card_id b \<and>
     wr_review_claim_id a = wr_review_claim_id b \<and>
     wr_reviewer a = wr_reviewer b \<and>
     wr_outcome a = wr_outcome b \<and>
     wr_evidence a = wr_evidence b \<and>
     wr_evidence_text a = wr_evidence_text b"

text \<open>
  \<open>validate_review\<close> is \<open>WorkSubmissionReview::validate\<close>; the hash of the inline text is
  recomputed with the third-party digest.
\<close>

definition validate_review ::
  "work_deps \<Rightarrow> work_submission_review \<Rightarrow> work_review_rejection_reason + unit" where
  "validate_review d r =
     (if mr_size_bytes (wr_evidence r) = 0
         \<or> is_some_and (mr_mime (wr_evidence r)) (\<lambda>mime. 128 < length mime)
      then Inl RR_InvalidEvidence
      else case wr_evidence_text r of
        None \<Rightarrow> Inr ()
      | Some text \<Rightarrow>
          if trim text = []
             \<or> 32 * 1024 < length text
             \<or> (of_nat (length text) :: u64) \<noteq> mr_size_bytes (wr_evidence r)
             \<or> wd_content_hash d text \<noteq> mr_hash (wr_evidence r)
          then Inl RR_InvalidEvidence
          else Inr ())"

definition rejected_review ::
  "work_submission_review \<Rightarrow> work_review_rejection_reason \<Rightarrow> rejected_work_review" where
  "rejected_review r reason =
     \<lparr> rwr_review_id = wr_review_id r, rwr_card_id = wr_card_id r, rwr_reviewer = wr_reviewer r,
       rwr_reviewed_at_ms = wr_reviewed_at_ms r, rwr_reason = reason \<rparr>"

definition same_candidate :: "work_submission \<Rightarrow> work_submission \<Rightarrow> bool" where
  "same_candidate a b \<longleftrightarrow>
     ws_submission_id a = ws_submission_id b \<and>
     ws_card_id a = ws_card_id b \<and>
     ws_claim_id a = ws_claim_id b \<and>
     ws_instance a = ws_instance b \<and>
     ws_base_sha a = ws_base_sha b \<and>
     ws_artifact a = ws_artifact b \<and>
     ws_publisher a = ws_publisher b"

definition validate_submission :: "work_submission \<Rightarrow> submission_rejection_reason + unit" where
  "validate_submission s =
     (let base = ws_base_sha s in
      if \<not> (length base = 40 \<or> length base = 64) \<or> \<not> list_all is_ascii_hexdigit base
      then Inl SR_InvalidBase
      else if trim (ws_instance s) = [] \<or> 512 < length (ws_instance s)
      then Inl SR_InvalidInstance
      else if is_some_and (mr_mime (ws_artifact s)) (\<lambda>m. 128 < length m)
      then Inl SR_InvalidArtifact
      else Inr ())"

definition validate_for_card ::
  "work_submission \<Rightarrow> work_card \<Rightarrow> submission_rejection_reason + unit" where
  "validate_for_card s wc =
     (case find (\<lambda>p. ws_submission_id p = ws_submission_id s) (card_submissions wc) of
        Some prior \<Rightarrow> if same_candidate prior s then Inr () else Inl SR_ConflictingId
      | None \<Rightarrow> res_bind (validate_submission s) (\<lambda>_.
          if card_id wc \<noteq> ws_card_id s
             \<or> card_owner wc \<noteq> Some (ws_publisher s)
             \<or> card_claim_id wc \<noteq> Some (ws_claim_id s)
          then Inl SR_WrongClaim
          else if card_state wc \<in> {CS_Merged, CS_Closed}
          then Inl SR_SettledCard
          else if is_none_or (card_claim_expires_at_ms wc) (\<lambda>expiry. expiry \<le> ws_submitted_at_ms s)
          then Inl SR_ExpiredClaim
          else Inr ()))"

definition rejected_of_submission ::
  "work_submission \<Rightarrow> submission_rejection_reason \<Rightarrow> rejected_submission" where
  "rejected_of_submission s reason =
     \<lparr> rs_submission_id = ws_submission_id s, rs_card_id = ws_card_id s,
       rs_publisher = ws_publisher s, rs_submitted_at_ms = ws_submitted_at_ms s,
       rs_reason = reason \<rparr>"

text \<open>\<open>submission_review_card_id\<close> is a function of the parent and the submission.\<close>

definition submission_review_card_id ::
  "work_deps \<Rightarrow> work_card_id \<Rightarrow> submission_id \<Rightarrow> work_card_id" where
  "submission_review_card_id d parent submission =
     wd_uuid_new_v5 d parent (''submission-review:'' @ wd_uuid_display d submission)"

section \<open>Facts\<close>

lemma same_candidate_refl [simp]: "same_candidate s s"
  by (simp add: same_candidate_def)

lemma same_candidate_sym: "same_candidate a b \<Longrightarrow> same_candidate b a"
  by (simp add: same_candidate_def)

lemma same_candidate_trans: "same_candidate a b \<Longrightarrow> same_candidate b c \<Longrightarrow> same_candidate a c"
  by (simp add: same_candidate_def)

lemma same_judgement_refl [simp]: "same_judgement r r"
  by (simp add: same_judgement_def)

text \<open>
  What admission of a new submission id means, read off the guards: the submission is
  well-formed and made by the card's current holder, under the current claim, before its
  expiry, on a card that has not reached a terminal state.
\<close>

lemma validate_for_card_new:
  assumes new: "ws_submission_id s \<notin> ws_submission_id ` set (card_submissions wc)"
  shows "validate_for_card s wc = Inr () \<longleftrightarrow>
     validate_submission s = Inr () \<and> card_id wc = ws_card_id s \<and>
     card_owner wc = Some (ws_publisher s) \<and> card_claim_id wc = Some (ws_claim_id s) \<and>
     card_state wc \<noteq> CS_Merged \<and> card_state wc \<noteq> CS_Closed \<and>
     (\<exists>expiry. card_claim_expires_at_ms wc = Some expiry \<and> ws_submitted_at_ms s < expiry)"
proof -
  have "find (\<lambda>p. ws_submission_id p = ws_submission_id s) (card_submissions wc) = None"
    using new unfolding find_None_iff by (metis image_eqI)
  then show ?thesis
    by (cases "card_claim_expires_at_ms wc")
      (auto simp: validate_for_card_def res_bind_eq_Inr)
qed

end
