(* ===== verification/Work_Infra_Event.thy ===== *)
theory Work_Infra_Event
  imports Work_Model
begin

text \<open>
  The remaining event records of \<open>airc-work/src/event.rs\<close>: lanes, workspaces and their disk
  pressure, observations of git and of pull requests, hygiene reports, manager hats and
  agent availability.
\<close>

section \<open>Lanes and workspaces\<close>

record lane_created =
  lc_lane_id :: lane_id
  lc_repo :: repo_id
  lc_title :: string
  lc_state :: lane_state
  lc_created_by :: peer_id
  lc_created_at_ms :: u64

record lane_state_changed =
  lsc_lane_id :: lane_id
  lsc_state :: lane_state
  lsc_changed_by :: peer_id
  lsc_changed_at_ms :: u64

record workspace_requested =
  wq_workspace_id :: workspace_id
  wq_card_id :: work_card_id
  wq_claim_id :: claim_id
  wq_owner :: peer_id
  wq_repo :: repo_id
  wq_branch :: branch_name
  wq_base :: branch_name
  wq_requested_at_ms :: u64

record workspace_allocated =
  wa_workspace_id :: workspace_id
  wa_path :: string
  wa_allocated_at_ms :: u64

record workspace_heartbeat =
  wh_workspace_id :: workspace_id
  wh_disk_bytes :: "u64 option"
  wh_heartbeat_at_ms :: u64

record workspace_released =
  wrl_workspace_id :: workspace_id
  wrl_released_at_ms :: u64

record workspace_pressure_reported =
  wp_workspace_id :: workspace_id
  wp_repo :: repo_id
  wp_reporter :: peer_id
  wp_total_bytes :: u64
  wp_available_bytes :: u64
  wp_level :: pressure_level
  wp_reported_at_ms :: u64

record workspace_drain_requested =
  dr_workspace_id :: workspace_id
  dr_repo :: repo_id
  dr_requester :: peer_id
  dr_policy_rule_id :: string
  dr_dry_run :: bool
  dr_candidates :: "drain_candidate list"
  dr_requested_at_ms :: u64

record workspace_drain_completed =
  dd_workspace_id :: workspace_id
  dd_repo :: repo_id
  dd_performer :: peer_id
  dd_policy_rule_id :: string
  dd_dry_run :: bool
  dd_outcome :: drain_outcome
  dd_completed_at_ms :: u64

section \<open>Git and pull requests\<close>

record git_commit_observed =
  gco_repo :: repo_id
  gco_commit :: git_object_id
  gco_branch :: "branch_name option"
  gco_summary :: "string option"
  gco_observed_by :: peer_id
  gco_observed_at_ms :: u64

record git_branch_moved =
  gbm_repo :: repo_id
  gbm_branch :: branch_name
  gbm_old_head :: "git_object_id option"
  gbm_new_head :: git_object_id
  gbm_moved_by :: peer_id
  gbm_moved_at_ms :: u64

record git_dirty_state_changed =
  gds_repo :: repo_id
  gds_workspace_id :: "workspace_id option"
  gds_path :: string
  gds_state :: dirty_state
  gds_dirty_paths :: u64
  gds_untracked_paths :: u64
  gds_changed_by :: peer_id
  gds_changed_at_ms :: u64

record pull_request_check_suite_changed =
  pcs_pull_request :: pull_request_ref
  pcs_state :: pr_check_state
  pcs_changed_by :: peer_id
  pcs_changed_at_ms :: u64

record pull_request_review_submitted =
  prs_pull_request :: pull_request_ref
  prs_reviewer :: peer_id
  prs_state :: pr_review_state
  prs_submitted_at_ms :: u64

record pull_request_merge_state_changed =
  pms_pull_request :: pull_request_ref
  pms_state :: pr_merge_state
  pms_changed_by :: peer_id
  pms_changed_at_ms :: u64

record pull_request_linked =
  pl_card_id :: work_card_id
  pl_pull_request :: pull_request_ref
  pl_linked_by :: peer_id
  pl_linked_at_ms :: u64

record pull_request_relinked =
  prl_card_id :: work_card_id
  prl_old_pull_request :: pull_request_ref
  prl_new_pull_request :: pull_request_ref
  prl_relinked_by :: peer_id
  prl_relinked_at_ms :: u64

record pull_request_merged =
  pmg_card_id :: work_card_id
  pmg_pull_request :: pull_request_ref
  pmg_merged_by :: peer_id
  pmg_merged_at_ms :: u64

section \<open>Reports, hats and availability\<close>

record hygiene_report_recorded =
  hrr_report :: hygiene_report

record manager_hat_claimed =
  mhc_repo :: repo_id
  mhc_manager :: peer_id
  mhc_ttl_ms :: u64
  mhc_claimed_at_ms :: u64

record manager_hat_released =
  mhr_repo :: repo_id
  mhr_manager :: peer_id
  mhr_released_at_ms :: u64

record agent_availability_reported =
  aar_repo :: repo_id
  aar_peer :: peer_id
  aar_state :: agent_availability_state
  aar_note :: "string option"
  aar_ttl_ms :: u64
  aar_reported_at_ms :: u64

end
