(* ===== verification/Work_Event.thy ===== *)
theory Work_Event
  imports Work_Card_Event Work_Infra_Event
begin

text \<open>
  \<open>WorkEvent\<close>, the closed union of everything that can happen to a board
  (\<open>airc-work/src/event.rs\<close>), and the instant each event reports.
\<close>

datatype work_event =
  EvCardCreated card_created
| EvCardUpdated card_updated
| EvCardClaimed work_card_claimed
| EvClaimHeartbeat claim_heartbeat
| EvClaimReleased claim_released
| EvCardStateChanged card_state_changed
| EvWorkSubmitted work_submission
| EvWorkSubmissionReviewed work_submission_review
| EvSubmissionReviewRequested submission_review_requested
| EvSubmissionRejected rejected_submission
| EvReviewRejected rejected_work_review
| EvLaneCreated lane_created
| EvLaneStateChanged lane_state_changed
| EvWorkspaceRequested workspace_requested
| EvWorkspaceAllocated workspace_allocated
| EvWorkspaceHeartbeat workspace_heartbeat
| EvWorkspaceReleased workspace_released
| EvWorkspacePressureReported workspace_pressure_reported
| EvWorkspaceDrainRequested workspace_drain_requested
| EvWorkspaceDrainCompleted workspace_drain_completed
| EvGitCommitObserved git_commit_observed
| EvGitBranchMoved git_branch_moved
| EvGitDirtyStateChanged git_dirty_state_changed
| EvPullRequestCheckSuiteChanged pull_request_check_suite_changed
| EvPullRequestReviewSubmitted pull_request_review_submitted
| EvPullRequestMergeStateChanged pull_request_merge_state_changed
| EvPullRequestLinked pull_request_linked
| EvPullRequestRelinked pull_request_relinked
| EvPullRequestMerged pull_request_merged
| EvHygieneReportRecorded hygiene_report_recorded
| EvManagerHatClaimed manager_hat_claimed
| EvManagerHatReleased manager_hat_released
| EvAgentAvailabilityReported agent_availability_reported
| EvGoalCreated goal_created
| EvGoalAchieved goal_achieved
| EvGoalAbandoned goal_abandoned
| EvGoalDryTickRecorded goal_dry_tick_recorded

primrec occurred_at_ms :: "work_event \<Rightarrow> u64" where
  "occurred_at_ms (EvCardCreated e) = cc_created_at_ms e"
| "occurred_at_ms (EvCardUpdated e) = cu_updated_at_ms e"
| "occurred_at_ms (EvCardClaimed e) = cl_claimed_at_ms e"
| "occurred_at_ms (EvClaimHeartbeat e) = hb_heartbeat_at_ms e"
| "occurred_at_ms (EvClaimReleased e) = rel_released_at_ms e"
| "occurred_at_ms (EvCardStateChanged e) = sc_changed_at_ms e"
| "occurred_at_ms (EvWorkSubmitted e) = ws_submitted_at_ms e"
| "occurred_at_ms (EvWorkSubmissionReviewed e) = wr_reviewed_at_ms e"
| "occurred_at_ms (EvSubmissionReviewRequested e) = cc_created_at_ms (srr_card e)"
| "occurred_at_ms (EvSubmissionRejected e) = rs_submitted_at_ms e"
| "occurred_at_ms (EvReviewRejected e) = rwr_reviewed_at_ms e"
| "occurred_at_ms (EvLaneCreated e) = lc_created_at_ms e"
| "occurred_at_ms (EvLaneStateChanged e) = lsc_changed_at_ms e"
| "occurred_at_ms (EvWorkspaceRequested e) = wq_requested_at_ms e"
| "occurred_at_ms (EvWorkspaceAllocated e) = wa_allocated_at_ms e"
| "occurred_at_ms (EvWorkspaceHeartbeat e) = wh_heartbeat_at_ms e"
| "occurred_at_ms (EvWorkspaceReleased e) = wrl_released_at_ms e"
| "occurred_at_ms (EvWorkspacePressureReported e) = wp_reported_at_ms e"
| "occurred_at_ms (EvWorkspaceDrainRequested e) = dr_requested_at_ms e"
| "occurred_at_ms (EvWorkspaceDrainCompleted e) = dd_completed_at_ms e"
| "occurred_at_ms (EvGitCommitObserved e) = gco_observed_at_ms e"
| "occurred_at_ms (EvGitBranchMoved e) = gbm_moved_at_ms e"
| "occurred_at_ms (EvGitDirtyStateChanged e) = gds_changed_at_ms e"
| "occurred_at_ms (EvPullRequestCheckSuiteChanged e) = pcs_changed_at_ms e"
| "occurred_at_ms (EvPullRequestReviewSubmitted e) = prs_submitted_at_ms e"
| "occurred_at_ms (EvPullRequestMergeStateChanged e) = pms_changed_at_ms e"
| "occurred_at_ms (EvPullRequestLinked e) = pl_linked_at_ms e"
| "occurred_at_ms (EvPullRequestRelinked e) = prl_relinked_at_ms e"
| "occurred_at_ms (EvPullRequestMerged e) = pmg_merged_at_ms e"
| "occurred_at_ms (EvHygieneReportRecorded e) = hr_recorded_at_ms (hrr_report e)"
| "occurred_at_ms (EvManagerHatClaimed e) = mhc_claimed_at_ms e"
| "occurred_at_ms (EvManagerHatReleased e) = mhr_released_at_ms e"
| "occurred_at_ms (EvAgentAvailabilityReported e) = aar_reported_at_ms e"
| "occurred_at_ms (EvGoalCreated e) = gc_created_at_ms e"
| "occurred_at_ms (EvGoalAchieved e) = ga_achieved_at_ms e"
| "occurred_at_ms (EvGoalAbandoned e) = gab_abandoned_at_ms e"
| "occurred_at_ms (EvGoalDryTickRecorded e) = gd_recorded_at_ms e"

end
