(* ===== verification/Work_Board.thy ===== *)
theory Work_Board
  imports Work_Event
begin

text \<open>
  The board: the in-memory projection a node builds by replaying work events
  (\<open>airc-work/src/projection.rs\<close>, \<open>projection/apply.rs\<close>). One definition per handler; a
  handler that takes \<open>&mut self\<close> returns the updated board. Every error of the source is
  returned before the first mutation of the handler that raises it, so an error carries no
  board. \<open>card_mut\<close> and \<open>workspace_mut\<close>, which hand out a mutable reference in the source,
  take the mutation as an argument here.
\<close>

section \<open>State\<close>

record lane_record =
  lane_id :: lane_id
  lane_repo :: repo_id
  lane_title :: string
  lane_state :: lane_state
  lane_card_ids :: "work_card_id list"
  lane_created_by :: peer_id
  lane_created_at_ms :: u64
  lane_updated_at_ms :: u64

record workspace_record =
  wrec_lease :: workspace_lease

record branch_tracking_record =
  bt_branch :: branch_name
  bt_head :: git_object_id
  bt_updated_at_ms :: u64

record repo_tracking_record =
  rt_repo :: repo_id
  rt_branches :: "(branch_name, branch_tracking_record) btree"
  rt_observed_commits :: "git_commit_observed list"
  rt_dirty_states :: "git_dirty_state_changed list"

record pull_request_record =
  prr_pull_request :: pull_request_ref
  prr_check_state :: "pr_check_state option"
  prr_review_state :: "pr_review_state option"
  prr_merge_state :: "pr_merge_state option"
  prr_updated_at_ms :: u64

record manager_hat =
  mh_repo :: repo_id
  mh_manager :: peer_id
  mh_expires_at_ms :: u64
  mh_claimed_at_ms :: u64

record agent_availability_record =
  av_report :: agent_availability_reported
  av_expires_at_ms :: u64

record work_board =
  wb_cards :: "(work_card_id, work_card) btree"
  wb_lanes :: "(lane_id, lane_record) btree"
  wb_workspaces :: "(workspace_id, workspace_record) btree"
  wb_workspace_pressure :: "(workspace_id, workspace_pressure_reported) btree"
  wb_pending_drains :: "(workspace_id \<times> string, workspace_drain_requested) btree"
  wb_drain_history :: "workspace_drain_completed list"
  wb_repo_tracking :: "(repo_id, repo_tracking_record) btree"
  wb_pull_requests :: "(string, pull_request_record) btree"
  wb_manager_hats :: "(repo_id, manager_hat) btree"
  wb_agent_availability :: "(string, agent_availability_record) btree"
  wb_hygiene_reports :: "hygiene_report list"
  wb_submission_reviews :: "(work_review_id, work_submission_review) btree"
  wb_review_rejections :: "(work_card_id, rejected_work_review) btree"
  wb_review_requests :: "(work_card_id, submission_review_requested) btree"
  wb_review_request_rejections :: "(work_card_id, work_review_rejection_reason) btree"

record stale_claim =
  st_card_id :: work_card_id
  st_claim_id :: claim_id
  st_owner :: peer_id
  st_expired_at_ms :: u64

record board_snapshot =
  bs_cards :: "work_card list"
  bs_submission_reviews :: "work_submission_review list"
  bs_lanes :: "lane_record list"
  bs_workspaces :: "workspace_record list"
  bs_repo_tracking :: "repo_tracking_record list"
  bs_pull_requests :: "pull_request_record list"
  bs_manager_hats :: "manager_hat list"
  bs_agent_availability :: "agent_availability_record list"
  bs_hygiene_reports :: "hygiene_report list"

datatype projection_error =
  PE_DuplicateCard work_card_id
| PE_UnknownCard work_card_id
| PE_DuplicateLane lane_id
| PE_UnknownLane lane_id
| PE_UnknownWorkspace workspace_id

definition is_missing_window_anchor :: "projection_error \<Rightarrow> bool" where
  "is_missing_window_anchor e =
     (case e of PE_UnknownCard _ \<Rightarrow> True | PE_UnknownLane _ \<Rightarrow> True
      | PE_UnknownWorkspace _ \<Rightarrow> True | _ \<Rightarrow> False)"

definition board_new :: work_board where
  "board_new =
     \<lparr> wb_cards = [], wb_lanes = [], wb_workspaces = [], wb_workspace_pressure = [],
       wb_pending_drains = [], wb_drain_history = [], wb_repo_tracking = [],
       wb_pull_requests = [], wb_manager_hats = [], wb_agent_availability = [],
       wb_hygiene_reports = [], wb_submission_reviews = [], wb_review_rejections = [],
       wb_review_requests = [], wb_review_request_rejections = [] \<rparr>"

section \<open>Reading the board\<close>

definition board_card :: "work_board \<Rightarrow> work_card_id \<Rightarrow> work_card option" where
  "board_card b i = map_of (wb_cards b) i"

definition card_ids :: "work_board \<Rightarrow> work_card_id list" where
  "card_ids b = bt_keys (wb_cards b)"

definition board_workspace :: "work_board \<Rightarrow> workspace_id \<Rightarrow> workspace_record option" where
  "board_workspace b i = map_of (wb_workspaces b) i"

definition review_request :: "work_board \<Rightarrow> work_card_id \<Rightarrow> submission_review_requested option" where
  "review_request b i = map_of (wb_review_requests b) i"

definition review_request_rejection ::
  "work_board \<Rightarrow> work_card_id \<Rightarrow> work_review_rejection_reason option" where
  "review_request_rejection b i = map_of (wb_review_request_rejections b) i"

definition submission_review :: "work_board \<Rightarrow> work_review_id \<Rightarrow> work_submission_review option" where
  "submission_review b i = map_of (wb_submission_reviews b) i"

definition submission_reviews_for :: "work_board \<Rightarrow> submission_id \<Rightarrow> work_submission_review list" where
  "submission_reviews_for b s =
     filter (\<lambda>r. wr_submission_id r = s) (bt_values (wb_submission_reviews b))"

definition submission_reviews_for_card ::
  "work_board \<Rightarrow> work_card_id \<Rightarrow> work_submission_review list" where
  "submission_reviews_for_card b c =
     filter (\<lambda>r. wr_card_id r = c) (bt_values (wb_submission_reviews b))"

definition last_review_rejection :: "work_board \<Rightarrow> work_card_id \<Rightarrow> rejected_work_review option" where
  "last_review_rejection b c = map_of (wb_review_rejections b) c"

definition workspace_pressure ::
  "work_board \<Rightarrow> workspace_id \<Rightarrow> workspace_pressure_reported option" where
  "workspace_pressure b w = map_of (wb_workspace_pressure b) w"

definition pending_drains_for :: "work_board \<Rightarrow> workspace_id \<Rightarrow> workspace_drain_requested list" where
  "pending_drains_for b w = map snd (filter (\<lambda>((ws, _), _). ws = w) (wb_pending_drains b))"

definition drain_history_for :: "work_board \<Rightarrow> workspace_id \<Rightarrow> workspace_drain_completed list" where
  "drain_history_for b w = filter (\<lambda>d. dd_workspace_id d = w) (wb_drain_history b)"

definition repo_tracking :: "work_board \<Rightarrow> repo_id \<Rightarrow> repo_tracking_record option" where
  "repo_tracking b r = map_of (wb_repo_tracking b) r"

definition pull_request_key :: "repo_id \<Rightarrow> u64 \<Rightarrow> string" where
  "pull_request_key repo number = repo @ ''#'' @ show_u64 number"

definition board_pull_request :: "work_board \<Rightarrow> repo_id \<Rightarrow> u64 \<Rightarrow> pull_request_record option" where
  "board_pull_request b repo number = map_of (wb_pull_requests b) (pull_request_key repo number)"

definition candidate_for_review ::
  "work_board \<Rightarrow> work_card_id \<Rightarrow> submission_id option
   \<Rightarrow> work_review_rejection_reason + work_submission" where
  "candidate_for_review b review_card requested =
     res_bind (ok_or (board_card b review_card) RR_WrongReviewCard) (\<lambda>review.
     res_bind (ok_or (card_reviews review) RR_WrongReviewCard) (\<lambda>parent_id.
     res_bind (ok_or (board_card b parent_id) RR_UnknownSubmission) (\<lambda>parent.
     let bound = map_option srr_submission_id (review_request b review_card) in
     if is_some_and requested (\<lambda>asked. is_some_and bound (\<lambda>actual. asked \<noteq> actual))
     then Inl RR_WrongReviewCard
     else ok_or
       (case (case requested of Some r \<Rightarrow> Some r | None \<Rightarrow> bound) of
          Some i \<Rightarrow> find (\<lambda>s. ws_submission_id s = i) (card_submissions parent)
        | None \<Rightarrow> (case card_submissions parent of [] \<Rightarrow> None | s # _ \<Rightarrow> Some s))
       RR_UnknownSubmission)))"

definition board_snapshot_of :: "work_board \<Rightarrow> board_snapshot" where
  "board_snapshot_of b =
     \<lparr> bs_cards = bt_values (wb_cards b),
       bs_submission_reviews = bt_values (wb_submission_reviews b),
       bs_lanes = bt_values (wb_lanes b),
       bs_workspaces = bt_values (wb_workspaces b),
       bs_repo_tracking = bt_values (wb_repo_tracking b),
       bs_pull_requests = bt_values (wb_pull_requests b),
       bs_manager_hats = bt_values (wb_manager_hats b),
       bs_agent_availability = bt_values (wb_agent_availability b),
       bs_hygiene_reports = wb_hygiene_reports b \<rparr>"

definition review_cards_for :: "work_board \<Rightarrow> work_card_id \<Rightarrow> work_card list" where
  "review_cards_for b parent_id =
     filter (\<lambda>c. card_reviews c = Some parent_id) (bt_values (wb_cards b))"

definition stale_claim_of :: "u64 \<Rightarrow> work_card \<Rightarrow> stale_claim option" where
  "stale_claim_of now_ms c =
     (case (card_owner c, card_claim_id c, card_claim_expires_at_ms c) of
        (Some owner, Some claim_id, Some expires_at_ms) \<Rightarrow>
          if expires_at_ms \<le> now_ms
          then Some \<lparr> st_card_id = card_id c, st_claim_id = claim_id, st_owner = owner,
                      st_expired_at_ms = expires_at_ms \<rparr>
          else None
      | _ \<Rightarrow> None)"

definition stale_claims :: "work_board \<Rightarrow> u64 \<Rightarrow> stale_claim list" where
  "stale_claims b now_ms =
     List.map_filter (stale_claim_of now_ms)
       (filter (\<lambda>c. card_state c \<notin> {CS_Merged, CS_Closed}) (bt_values (wb_cards b)))"

section \<open>Admission against the board\<close>

definition validate_review_for_board ::
  "work_deps \<Rightarrow> work_submission_review \<Rightarrow> work_board \<Rightarrow> work_review_rejection_reason + unit" where
  "validate_review_for_board d r b =
     (case submission_review b (wr_review_id r) of
        Some prior \<Rightarrow> if same_judgement prior r then Inr () else Inl RR_ConflictingId
      | None \<Rightarrow>
          res_bind (validate_review d r) (\<lambda>_.
          res_bind (ok_or (board_card b (wr_card_id r)) RR_UnknownSubmission) (\<lambda>parent.
          res_bind (ok_or (find (\<lambda>s. ws_submission_id s = wr_submission_id r)
                             (card_submissions parent)) RR_UnknownSubmission) (\<lambda>submitted.
          if wr_artifact r \<noteq> ws_artifact submitted then Inl RR_ArtifactMismatch
          else res_bind (ok_or (board_card b (wr_review_card_id r)) RR_WrongReviewCard) (\<lambda>review_card.
          if card_reviews review_card \<noteq> Some (wr_card_id r) \<or> card_repo review_card \<noteq> card_repo parent
          then Inl RR_WrongReviewCard
          else if is_some_and (review_request b (wr_review_card_id r))
                    (\<lambda>q. srr_submission_id q \<noteq> wr_submission_id r)
          then Inl RR_WrongReviewCard
          else if card_owner review_card \<noteq> Some (wr_reviewer r)
                  \<or> card_claim_id review_card \<noteq> Some (wr_review_claim_id r)
          then Inl RR_WrongClaim
          else if is_settled (card_state review_card) then Inl RR_SettledReviewCard
          else if is_none_or (card_claim_expires_at_ms review_card)
                    (\<lambda>expiry. expiry \<le> wr_reviewed_at_ms r)
          then Inl RR_ExpiredClaim
          else Inr ())))))"

definition validate_request_for_board ::
  "work_deps \<Rightarrow> submission_review_requested \<Rightarrow> work_board \<Rightarrow> work_review_rejection_reason + unit" where
  "validate_request_for_board d q b =
     res_bind (ok_or (cc_reviews (srr_card q)) RR_WrongReviewCard) (\<lambda>parent_id.
     res_bind (ok_or (board_card b parent_id) RR_UnknownSubmission) (\<lambda>parent.
     res_bind (ok_or (find (\<lambda>s. ws_submission_id s = srr_submission_id q)
                        (card_submissions parent)) RR_UnknownSubmission) (\<lambda>submitted.
     if cc_created_by (srr_card q) \<noteq> ws_publisher submitted then Inl RR_RequestorMismatch
     else if cc_repo (srr_card q) \<noteq> card_repo parent
             \<or> cc_card_id (srr_card q) \<noteq> submission_review_card_id d parent_id (srr_submission_id q)
     then Inl RR_WrongReviewCard
     else case board_card b (cc_card_id (srr_card q)) of
       None \<Rightarrow> Inr ()
     | Some existing \<Rightarrow>
         if card_reviews existing \<noteq> Some parent_id
            \<or> card_repo existing \<noteq> cc_repo (srr_card q)
            \<or> is_none_or (review_request b (cc_card_id (srr_card q)))
                (\<lambda>r. srr_submission_id r \<noteq> srr_submission_id q)
         then Inl RR_ConflictingId
         else Inr ())))"

section \<open>Claims\<close>

definition TAKEOVER_ON_RECORD_SINCE_MS :: u64 where
  "TAKEOVER_ON_RECORD_SINCE_MS = 1791129600000"

definition end_claim :: "work_card \<Rightarrow> work_card" where
  "end_claim c = c\<lparr> card_owner := None, card_claim_id := None, card_claim_provenance := None,
                     card_claim_expires_at_ms := None \<rparr>"

definition renew_owner_lease :: "peer_id \<Rightarrow> u64 \<Rightarrow> work_card \<Rightarrow> work_card" where
  "renew_owner_lease actor at_ms c =
     (if card_owner c \<noteq> Some actor \<or> card_claim_id c = None then c
      else case (card_claim_expires_at_ms c, card_last_heartbeat_at_ms c) of
        (Some expires, Some beat) \<Rightarrow>
          let renewed = saturating_add at_ms (saturating_sub expires beat) in
          if expires < renewed
          then c\<lparr> card_claim_expires_at_ms := Some renewed,
                  card_last_heartbeat_at_ms := Some at_ms \<rparr>
          else c
      | _ \<Rightarrow> c)"

section \<open>Handlers\<close>

definition card_mut ::
  "work_board \<Rightarrow> work_card_id \<Rightarrow> (work_card \<Rightarrow> work_card) \<Rightarrow> projection_error + work_board" where
  "card_mut b i f =
     res_bind (ok_or (map_of (wb_cards b) i) (PE_UnknownCard i)) (\<lambda>c.
       Inr (b\<lparr> wb_cards := bt_insert i (f c) (wb_cards b) \<rparr>))"

definition workspace_mut ::
  "work_board \<Rightarrow> workspace_id \<Rightarrow> (workspace_lease \<Rightarrow> workspace_lease)
   \<Rightarrow> projection_error + work_board" where
  "workspace_mut b i f =
     res_bind (ok_or (map_of (wb_workspaces b) i) (PE_UnknownWorkspace i)) (\<lambda>w.
       Inr (b\<lparr> wb_workspaces := bt_insert i (wrec_lease_update f w) (wb_workspaces b) \<rparr>))"

definition repo_tracking_new :: "repo_id \<Rightarrow> repo_tracking_record" where
  "repo_tracking_new repo =
     \<lparr> rt_repo = repo, rt_branches = [], rt_observed_commits = [], rt_dirty_states = [] \<rparr>"

definition repo_tracking_mut ::
  "work_board \<Rightarrow> repo_id \<Rightarrow> (repo_tracking_record \<Rightarrow> repo_tracking_record) \<Rightarrow> work_board" where
  "repo_tracking_mut b repo f =
     (let r = (case map_of (wb_repo_tracking b) repo of Some r \<Rightarrow> r | None \<Rightarrow> repo_tracking_new repo)
      in b\<lparr> wb_repo_tracking := bt_insert repo (f r) (wb_repo_tracking b) \<rparr>)"

definition card_of_created :: "card_created \<Rightarrow> work_card" where
  "card_of_created e =
     \<lparr> card_id = cc_card_id e, card_repo = cc_repo e, card_title = cc_title e,
       card_body = cc_body e, card_priority = cc_priority e, card_lane_id = cc_lane_id e,
       card_state = CS_Open, card_owner = None, card_claim_id = None,
       card_claim_provenance = None, card_claim_expires_at_ms = None,
       card_last_heartbeat_at_ms = None, card_pull_request = None,
       card_created_by = cc_created_by e, card_created_at_ms = cc_created_at_ms e,
       card_updated_at_ms = cc_created_at_ms e, card_reviews = cc_reviews e,
       card_submissions = [], card_last_submission_rejection = None \<rparr>"

definition lane_push_card :: "work_card_id \<Rightarrow> lane_id option \<Rightarrow> work_board \<Rightarrow> work_board" where
  "lane_push_card i l b =
     (case l of
        None \<Rightarrow> b
      | Some lid \<Rightarrow>
          (case map_of (wb_lanes b) lid of
             None \<Rightarrow> b
           | Some lane \<Rightarrow> b\<lparr> wb_lanes :=
               bt_insert lid (lane\<lparr> lane_card_ids := lane_card_ids lane @ [i] \<rparr>) (wb_lanes b) \<rparr>))"

definition apply_card_created :: "work_board \<Rightarrow> card_created \<Rightarrow> projection_error + work_board" where
  "apply_card_created b e =
     (if bt_contains (wb_cards b) (cc_card_id e) then Inl (PE_DuplicateCard (cc_card_id e))
      else Inr (lane_push_card (cc_card_id e) (cc_lane_id e)
        (b\<lparr> wb_cards := bt_insert (cc_card_id e) (card_of_created e) (wb_cards b) \<rparr>)))"

definition claim_card :: "work_card_claimed \<Rightarrow> work_card \<Rightarrow> work_card" where
  "claim_card e c =
     (if is_some_and (card_claim_expires_at_ms c) (\<lambda>expires. cl_claimed_at_ms e < expires) then c
      else if TAKEOVER_ON_RECORD_SINCE_MS \<le> cl_claimed_at_ms e
              \<and> card_claim_id c \<noteq> None
              \<and> is_some_and (card_owner c) (\<lambda>owner. owner \<noteq> cl_owner e)
              \<and> card_state c \<notin> {CS_Merged, CS_Closed}
      then c
      else c\<lparr> card_state := CS_Claimed,
              card_owner := Some (cl_owner e),
              card_claim_id := Some (cl_claim_id e),
              card_claim_provenance := Some
                \<lparr> cp_origin = cl_origin e,
                  cp_selected_at_ms =
                    (case cl_selected_at_ms e of Some t \<Rightarrow> t | None \<Rightarrow> cl_claimed_at_ms e) \<rparr>,
              card_claim_expires_at_ms := Some (cl_claimed_at_ms e + cl_ttl_ms e),
              card_last_heartbeat_at_ms := Some (cl_claimed_at_ms e),
              card_updated_at_ms := cl_claimed_at_ms e \<rparr>)"

definition apply_card_claimed ::
  "work_board \<Rightarrow> work_card_claimed \<Rightarrow> projection_error + work_board" where
  "apply_card_claimed b e = card_mut b (cl_card_id e) (claim_card e)"

definition submit_card :: "work_submission \<Rightarrow> work_card \<Rightarrow> work_card" where
  "submit_card e c =
     (if \<exists>prior \<in> set (card_submissions c). same_candidate prior e then c
      else case validate_for_card e c of
        Inl reason \<Rightarrow> c\<lparr> card_last_submission_rejection := Some (rejected_of_submission e reason) \<rparr>
      | Inr _ \<Rightarrow>
          let c' = c\<lparr> card_submissions := e # card_submissions c,
                      card_updated_at_ms := max (card_updated_at_ms c) (ws_submitted_at_ms e) \<rparr>
          in if card_claim_id c' = Some (ws_claim_id e)
             then renew_owner_lease (ws_publisher e) (ws_submitted_at_ms e) c'
             else c')"

definition apply_work_submitted ::
  "work_board \<Rightarrow> work_submission \<Rightarrow> projection_error + work_board" where
  "apply_work_submitted b e = card_mut b (ws_card_id e) (submit_card e)"

definition heartbeat_card :: "claim_heartbeat \<Rightarrow> work_card \<Rightarrow> work_card" where
  "heartbeat_card e c =
     (if card_claim_id c \<noteq> Some (hb_claim_id e) then c
      else c\<lparr> card_claim_expires_at_ms := Some (hb_heartbeat_at_ms e + hb_ttl_ms e),
              card_last_heartbeat_at_ms := Some (hb_heartbeat_at_ms e),
              card_updated_at_ms := hb_heartbeat_at_ms e \<rparr>)"

definition apply_claim_heartbeat ::
  "work_board \<Rightarrow> claim_heartbeat \<Rightarrow> projection_error + work_board" where
  "apply_claim_heartbeat b e = card_mut b (hb_card_id e) (heartbeat_card e)"

definition release_card :: "claim_released \<Rightarrow> work_card \<Rightarrow> work_card" where
  "release_card e c =
     (if card_claim_id c \<noteq> Some (rel_claim_id e) then c
      else (end_claim (c\<lparr> card_state :=
              (if card_state c \<in> {CS_Claimed, CS_InProgress, CS_Blocked} then CS_Open
               else card_state c) \<rparr>))
           \<lparr> card_updated_at_ms := rel_released_at_ms e \<rparr>)"

definition apply_claim_released ::
  "work_board \<Rightarrow> claim_released \<Rightarrow> projection_error + work_board" where
  "apply_claim_released b e = card_mut b (rel_card_id e) (release_card e)"

definition select_claim :: "card_updated \<Rightarrow> work_card \<Rightarrow> work_card" where
  "select_claim e c =
     (case cu_claim_selection e of
        None \<Rightarrow> c
      | Some sel \<Rightarrow>
          if card_claim_id c = Some (sel_claim_id sel)
             \<and> card_owner c = Some (sel_owner sel)
             \<and> cu_updated_by e = sel_owner sel
             \<and> is_some_and (card_claim_expires_at_ms c) (\<lambda>end_ms. sel_selected_at_ms sel < end_ms)
             \<and> \<not> is_settled (card_state c)
             \<and> is_none_or (card_claim_provenance c)
                 (\<lambda>p. cp_selected_at_ms p \<le> sel_selected_at_ms sel)
          then c\<lparr> card_claim_provenance := Some
                    \<lparr> cp_origin = CO_Explicit, cp_selected_at_ms = sel_selected_at_ms sel \<rparr> \<rparr>
          else c)"

definition update_card :: "card_updated \<Rightarrow> work_card \<Rightarrow> work_card" where
  "update_card e c =
     (let c1 = select_claim e c;
          c2 = (case cu_title e of Some title \<Rightarrow> c1\<lparr> card_title := title \<rparr> | None \<Rightarrow> c1);
          c3 = (case cu_body e of Some body \<Rightarrow> c2\<lparr> card_body := Some body \<rparr> | None \<Rightarrow> c2);
          c4 = (case cu_priority e of Some p \<Rightarrow> c3\<lparr> card_priority := p \<rparr> | None \<Rightarrow> c3)
      in c4\<lparr> card_updated_at_ms := cu_updated_at_ms e \<rparr>)"

definition apply_card_updated :: "work_board \<Rightarrow> card_updated \<Rightarrow> projection_error + work_board" where
  "apply_card_updated b e = card_mut b (cu_card_id e) (update_card e)"

definition change_card_state :: "card_state_changed \<Rightarrow> work_card \<Rightarrow> work_card" where
  "change_card_state e c =
     (let c' = c\<lparr> card_state := sc_state e, card_updated_at_ms := sc_changed_at_ms e \<rparr> in
      if sc_state e = CS_Open then end_claim c'
      else renew_owner_lease (sc_changed_by e) (sc_changed_at_ms e) c')"

definition apply_card_state_changed ::
  "work_board \<Rightarrow> card_state_changed \<Rightarrow> projection_error + work_board" where
  "apply_card_state_changed b e = card_mut b (sc_card_id e) (change_card_state e)"

definition apply_lane_created :: "work_board \<Rightarrow> lane_created \<Rightarrow> projection_error + work_board" where
  "apply_lane_created b e =
     (if bt_contains (wb_lanes b) (lc_lane_id e) then Inl (PE_DuplicateLane (lc_lane_id e))
      else Inr (b\<lparr> wb_lanes := bt_insert (lc_lane_id e)
             \<lparr> lane_id = lc_lane_id e, lane_repo = lc_repo e, lane_title = lc_title e,
               lane_state = lc_state e, lane_card_ids = [], lane_created_by = lc_created_by e,
               lane_created_at_ms = lc_created_at_ms e, lane_updated_at_ms = lc_created_at_ms e \<rparr>
             (wb_lanes b) \<rparr>))"

definition apply_lane_state_changed ::
  "work_board \<Rightarrow> lane_state_changed \<Rightarrow> projection_error + work_board" where
  "apply_lane_state_changed b e =
     res_bind (ok_or (map_of (wb_lanes b) (lsc_lane_id e)) (PE_UnknownLane (lsc_lane_id e))) (\<lambda>lane.
       Inr (b\<lparr> wb_lanes := bt_insert (lsc_lane_id e)
              (lane\<lparr> lane_state := lsc_state e, lane_updated_at_ms := lsc_changed_at_ms e \<rparr>)
              (wb_lanes b) \<rparr>))"

definition apply_workspace_requested ::
  "work_board \<Rightarrow> workspace_requested \<Rightarrow> projection_error + work_board" where
  "apply_workspace_requested b e =
     (if \<not> bt_contains (wb_cards b) (wq_card_id e) then Inl (PE_UnknownCard (wq_card_id e))
      else Inr (b\<lparr> wb_workspaces := bt_insert (wq_workspace_id e)
             \<lparr> wrec_lease =
                 \<lparr> wl_workspace_id = wq_workspace_id e, wl_card_id = wq_card_id e,
                   wl_claim_id = wq_claim_id e, wl_owner = wq_owner e, wl_repo = wq_repo e,
                   wl_path = [], wl_branch = wq_branch e, wl_base = wq_base e,
                   wl_status = WS_Requested, wl_disk_bytes = None,
                   wl_created_at_ms = wq_requested_at_ms e,
                   wl_heartbeat_at_ms = wq_requested_at_ms e, wl_released_at_ms = None \<rparr> \<rparr>
             (wb_workspaces b) \<rparr>))"

definition apply_workspace_allocated ::
  "work_board \<Rightarrow> workspace_allocated \<Rightarrow> projection_error + work_board" where
  "apply_workspace_allocated b e =
     workspace_mut b (wa_workspace_id e)
       (\<lambda>l. l\<lparr> wl_path := wa_path e, wl_status := WS_Allocated,
               wl_heartbeat_at_ms := wa_allocated_at_ms e \<rparr>)"

definition apply_workspace_heartbeat ::
  "work_board \<Rightarrow> workspace_heartbeat \<Rightarrow> projection_error + work_board" where
  "apply_workspace_heartbeat b e =
     workspace_mut b (wh_workspace_id e)
       (\<lambda>l. l\<lparr> wl_status := WS_Active, wl_disk_bytes := wh_disk_bytes e,
               wl_heartbeat_at_ms := wh_heartbeat_at_ms e \<rparr>)"

definition apply_workspace_released ::
  "work_board \<Rightarrow> workspace_released \<Rightarrow> projection_error + work_board" where
  "apply_workspace_released b e =
     workspace_mut b (wrl_workspace_id e)
       (\<lambda>l. l\<lparr> wl_status := WS_Released, wl_released_at_ms := Some (wrl_released_at_ms e) \<rparr>)"

definition apply_workspace_pressure_reported ::
  "work_board \<Rightarrow> workspace_pressure_reported \<Rightarrow> work_board" where
  "apply_workspace_pressure_reported b e =
     b\<lparr> wb_workspace_pressure := bt_insert (wp_workspace_id e) e (wb_workspace_pressure b) \<rparr>"

definition apply_workspace_drain_requested ::
  "work_board \<Rightarrow> workspace_drain_requested \<Rightarrow> work_board" where
  "apply_workspace_drain_requested b e =
     b\<lparr> wb_pending_drains :=
          bt_insert (dr_workspace_id e, dr_policy_rule_id e) e (wb_pending_drains b) \<rparr>"

definition apply_workspace_drain_completed ::
  "work_board \<Rightarrow> workspace_drain_completed \<Rightarrow> work_board" where
  "apply_workspace_drain_completed b e =
     b\<lparr> wb_pending_drains := bt_remove (dd_workspace_id e, dd_policy_rule_id e) (wb_pending_drains b),
        wb_drain_history := wb_drain_history b @ [e] \<rparr>"

definition apply_git_commit_observed :: "work_board \<Rightarrow> git_commit_observed \<Rightarrow> work_board" where
  "apply_git_commit_observed b e =
     repo_tracking_mut b (gco_repo e) (\<lambda>r.
       let r' = r\<lparr> rt_observed_commits := rt_observed_commits r @ [e] \<rparr> in
       case gco_branch e of
         None \<Rightarrow> r'
       | Some branch \<Rightarrow> r'\<lparr> rt_branches := bt_insert branch
           \<lparr> bt_branch = branch, bt_head = gco_commit e, bt_updated_at_ms = gco_observed_at_ms e \<rparr>
           (rt_branches r') \<rparr>)"

definition apply_git_branch_moved :: "work_board \<Rightarrow> git_branch_moved \<Rightarrow> work_board" where
  "apply_git_branch_moved b e =
     repo_tracking_mut b (gbm_repo e) (\<lambda>r.
       r\<lparr> rt_branches := bt_insert (gbm_branch e)
           \<lparr> bt_branch = gbm_branch e, bt_head = gbm_new_head e, bt_updated_at_ms = gbm_moved_at_ms e \<rparr>
           (rt_branches r) \<rparr>)"

definition apply_git_dirty_state_changed :: "work_board \<Rightarrow> git_dirty_state_changed \<Rightarrow> work_board" where
  "apply_git_dirty_state_changed b e =
     repo_tracking_mut b (gds_repo e) (\<lambda>r. r\<lparr> rt_dirty_states := rt_dirty_states r @ [e] \<rparr>)"

definition pr_from_check :: "pull_request_check_suite_changed \<Rightarrow> pull_request_record" where
  "pr_from_check e =
     \<lparr> prr_pull_request = pcs_pull_request e, prr_check_state = Some (pcs_state e),
       prr_review_state = None, prr_merge_state = None, prr_updated_at_ms = pcs_changed_at_ms e \<rparr>"

definition pr_from_review :: "pull_request_review_submitted \<Rightarrow> pull_request_record" where
  "pr_from_review e =
     \<lparr> prr_pull_request = prs_pull_request e, prr_check_state = None,
       prr_review_state = Some (prs_state e), prr_merge_state = None,
       prr_updated_at_ms = prs_submitted_at_ms e \<rparr>"

definition pr_from_merge :: "pull_request_merge_state_changed \<Rightarrow> pull_request_record" where
  "pr_from_merge e =
     \<lparr> prr_pull_request = pms_pull_request e, prr_check_state = None, prr_review_state = None,
       prr_merge_state = Some (pms_state e), prr_updated_at_ms = pms_changed_at_ms e \<rparr>"

definition pr_apply_check ::
  "pull_request_check_suite_changed \<Rightarrow> pull_request_record \<Rightarrow> pull_request_record" where
  "pr_apply_check e r = r\<lparr> prr_pull_request := pcs_pull_request e,
     prr_check_state := Some (pcs_state e), prr_updated_at_ms := pcs_changed_at_ms e \<rparr>"

definition pr_apply_review ::
  "pull_request_review_submitted \<Rightarrow> pull_request_record \<Rightarrow> pull_request_record" where
  "pr_apply_review e r = r\<lparr> prr_pull_request := prs_pull_request e,
     prr_review_state := Some (prs_state e), prr_updated_at_ms := prs_submitted_at_ms e \<rparr>"

definition pr_apply_merge ::
  "pull_request_merge_state_changed \<Rightarrow> pull_request_record \<Rightarrow> pull_request_record" where
  "pr_apply_merge e r = r\<lparr> prr_pull_request := pms_pull_request e,
     prr_merge_state := Some (pms_state e), prr_updated_at_ms := pms_changed_at_ms e \<rparr>"

text \<open>\<open>entry(key).and_modify(f).or_insert_with(new)\<close> on the pull-request map.\<close>

definition pr_entry ::
  "pull_request_ref \<Rightarrow> (pull_request_record \<Rightarrow> pull_request_record) \<Rightarrow> pull_request_record
   \<Rightarrow> work_board \<Rightarrow> work_board" where
  "pr_entry p f new b =
     (let key = pull_request_key (pr_repo p) (pr_number p) in
      b\<lparr> wb_pull_requests := bt_insert key
           (case map_of (wb_pull_requests b) key of Some r \<Rightarrow> f r | None \<Rightarrow> new)
           (wb_pull_requests b) \<rparr>)"

definition apply_pull_request_check_suite_changed ::
  "work_board \<Rightarrow> pull_request_check_suite_changed \<Rightarrow> work_board" where
  "apply_pull_request_check_suite_changed b e =
     pr_entry (pcs_pull_request e) (pr_apply_check e) (pr_from_check e) b"

definition apply_pull_request_review_submitted ::
  "work_board \<Rightarrow> pull_request_review_submitted \<Rightarrow> work_board" where
  "apply_pull_request_review_submitted b e =
     pr_entry (prs_pull_request e) (pr_apply_review e) (pr_from_review e) b"

definition apply_pull_request_merge_state_changed ::
  "work_board \<Rightarrow> pull_request_merge_state_changed \<Rightarrow> work_board" where
  "apply_pull_request_merge_state_changed b e =
     pr_entry (pms_pull_request e) (pr_apply_merge e) (pr_from_merge e) b"

definition link_card :: "pull_request_linked \<Rightarrow> work_card \<Rightarrow> work_card" where
  "link_card e c = c\<lparr> card_pull_request := Some (pl_pull_request e), card_state := CS_Review,
     card_updated_at_ms := pl_linked_at_ms e \<rparr>"

definition apply_pull_request_linked ::
  "work_board \<Rightarrow> pull_request_linked \<Rightarrow> projection_error + work_board" where
  "apply_pull_request_linked b e = card_mut b (pl_card_id e) (link_card e)"

definition relink_card :: "pull_request_relinked \<Rightarrow> work_card \<Rightarrow> work_card" where
  "relink_card e c =
     (if card_state c \<in> {CS_Merged, CS_Closed} then c
      else c\<lparr> card_pull_request := Some (prl_new_pull_request e), card_state := CS_Review,
              card_updated_at_ms := prl_relinked_at_ms e \<rparr>)"

definition apply_pull_request_relinked ::
  "work_board \<Rightarrow> pull_request_relinked \<Rightarrow> projection_error + work_board" where
  "apply_pull_request_relinked b e = card_mut b (prl_card_id e) (relink_card e)"

definition merge_card :: "pull_request_merged \<Rightarrow> work_card \<Rightarrow> work_card" where
  "merge_card e c = c\<lparr> card_pull_request := Some (pmg_pull_request e), card_state := CS_Merged,
     card_updated_at_ms := pmg_merged_at_ms e \<rparr>"

definition apply_pull_request_merged ::
  "work_board \<Rightarrow> pull_request_merged \<Rightarrow> projection_error + work_board" where
  "apply_pull_request_merged b e = card_mut b (pmg_card_id e) (merge_card e)"

definition apply_hygiene_report_recorded :: "work_board \<Rightarrow> hygiene_report_recorded \<Rightarrow> work_board" where
  "apply_hygiene_report_recorded b e =
     b\<lparr> wb_hygiene_reports := wb_hygiene_reports b @ [hrr_report e] \<rparr>"

definition apply_manager_hat_claimed :: "work_board \<Rightarrow> manager_hat_claimed \<Rightarrow> work_board" where
  "apply_manager_hat_claimed b e =
     b\<lparr> wb_manager_hats := bt_insert (mhc_repo e)
          \<lparr> mh_repo = mhc_repo e, mh_manager = mhc_manager e,
            mh_expires_at_ms = mhc_claimed_at_ms e + mhc_ttl_ms e,
            mh_claimed_at_ms = mhc_claimed_at_ms e \<rparr> (wb_manager_hats b) \<rparr>"

definition apply_manager_hat_released :: "work_board \<Rightarrow> manager_hat_released \<Rightarrow> work_board" where
  "apply_manager_hat_released b e =
     (if is_some_and (map_of (wb_manager_hats b) (mhr_repo e)) (\<lambda>hat. mh_manager hat = mhr_manager e)
      then b\<lparr> wb_manager_hats := bt_remove (mhr_repo e) (wb_manager_hats b) \<rparr>
      else b)"

definition availability_key :: "work_deps \<Rightarrow> repo_id \<Rightarrow> peer_id \<Rightarrow> string" where
  "availability_key d repo peer = repo @ '':'' @ wd_uuid_display d peer"

definition apply_agent_availability_reported ::
  "work_deps \<Rightarrow> work_board \<Rightarrow> agent_availability_reported \<Rightarrow> work_board" where
  "apply_agent_availability_reported d b e =
     b\<lparr> wb_agent_availability := bt_insert (availability_key d (aar_repo e) (aar_peer e))
          \<lparr> av_report = e, av_expires_at_ms = aar_reported_at_ms e + aar_ttl_ms e \<rparr>
          (wb_agent_availability b) \<rparr>"

definition apply_review_requested ::
  "work_deps \<Rightarrow> work_board \<Rightarrow> submission_review_requested \<Rightarrow> projection_error + work_board" where
  "apply_review_requested d b e =
     (let i = cc_card_id (srr_card e) in
      case validate_request_for_board d e b of
        Inr _ \<Rightarrow>
          res_bind
            (if bt_contains (wb_cards b) i then Inr b
             else res_bind (apply_card_created b (srr_card e)) (\<lambda>b'.
                    Inr (b'\<lparr> wb_review_requests := bt_insert i e (wb_review_requests b') \<rparr>)))
            (\<lambda>b'. Inr (b'\<lparr> wb_review_request_rejections :=
                             bt_remove i (wb_review_request_rejections b') \<rparr>))
      | Inl reason \<Rightarrow>
          Inr (b\<lparr> wb_review_request_rejections :=
                    bt_insert i reason (wb_review_request_rejections b) \<rparr>))"

definition apply_submission_reviewed ::
  "work_deps \<Rightarrow> work_board \<Rightarrow> work_submission_review \<Rightarrow> work_board" where
  "apply_submission_reviewed d b e =
     (case validate_review_for_board d e b of
        Inr _ \<Rightarrow>
          (case map_of (wb_submission_reviews b) (wr_review_id e) of
             Some _ \<Rightarrow> b
           | None \<Rightarrow> b\<lparr> wb_submission_reviews :=
                          bt_insert (wr_review_id e) e (wb_submission_reviews b) \<rparr>)
      | Inl reason \<Rightarrow>
          b\<lparr> wb_review_rejections :=
               bt_insert (wr_card_id e) (rejected_review e reason) (wb_review_rejections b) \<rparr>)"

definition apply_review_rejected :: "work_board \<Rightarrow> rejected_work_review \<Rightarrow> work_board" where
  "apply_review_rejected b e =
     b\<lparr> wb_review_rejections := bt_insert (rwr_card_id e) e (wb_review_rejections b) \<rparr>"

definition apply_submission_rejected ::
  "work_board \<Rightarrow> rejected_submission \<Rightarrow> projection_error + work_board" where
  "apply_submission_rejected b e =
     card_mut b (rs_card_id e) (\<lambda>c. c\<lparr> card_last_submission_rejection := Some e \<rparr>)"

section \<open>Replay\<close>

primrec apply_event :: "work_deps \<Rightarrow> work_board \<Rightarrow> work_event \<Rightarrow> projection_error + work_board" where
  "apply_event d b (EvCardCreated e) = apply_card_created b e"
| "apply_event d b (EvCardUpdated e) = apply_card_updated b e"
| "apply_event d b (EvCardClaimed e) = apply_card_claimed b e"
| "apply_event d b (EvClaimHeartbeat e) = apply_claim_heartbeat b e"
| "apply_event d b (EvClaimReleased e) = apply_claim_released b e"
| "apply_event d b (EvCardStateChanged e) = apply_card_state_changed b e"
| "apply_event d b (EvWorkSubmitted e) = apply_work_submitted b e"
| "apply_event d b (EvSubmissionReviewRequested e) = apply_review_requested d b e"
| "apply_event d b (EvWorkSubmissionReviewed e) = Inr (apply_submission_reviewed d b e)"
| "apply_event d b (EvReviewRejected e) = Inr (apply_review_rejected b e)"
| "apply_event d b (EvSubmissionRejected e) = apply_submission_rejected b e"
| "apply_event d b (EvLaneCreated e) = apply_lane_created b e"
| "apply_event d b (EvLaneStateChanged e) = apply_lane_state_changed b e"
| "apply_event d b (EvWorkspaceRequested e) = apply_workspace_requested b e"
| "apply_event d b (EvWorkspaceAllocated e) = apply_workspace_allocated b e"
| "apply_event d b (EvWorkspaceHeartbeat e) = apply_workspace_heartbeat b e"
| "apply_event d b (EvWorkspaceReleased e) = apply_workspace_released b e"
| "apply_event d b (EvWorkspacePressureReported e) = Inr (apply_workspace_pressure_reported b e)"
| "apply_event d b (EvWorkspaceDrainRequested e) = Inr (apply_workspace_drain_requested b e)"
| "apply_event d b (EvWorkspaceDrainCompleted e) = Inr (apply_workspace_drain_completed b e)"
| "apply_event d b (EvGitCommitObserved e) = Inr (apply_git_commit_observed b e)"
| "apply_event d b (EvGitBranchMoved e) = Inr (apply_git_branch_moved b e)"
| "apply_event d b (EvGitDirtyStateChanged e) = Inr (apply_git_dirty_state_changed b e)"
| "apply_event d b (EvPullRequestCheckSuiteChanged e) =
     Inr (apply_pull_request_check_suite_changed b e)"
| "apply_event d b (EvPullRequestReviewSubmitted e) = Inr (apply_pull_request_review_submitted b e)"
| "apply_event d b (EvPullRequestMergeStateChanged e) =
     Inr (apply_pull_request_merge_state_changed b e)"
| "apply_event d b (EvPullRequestLinked e) = apply_pull_request_linked b e"
| "apply_event d b (EvPullRequestRelinked e) = apply_pull_request_relinked b e"
| "apply_event d b (EvPullRequestMerged e) = apply_pull_request_merged b e"
| "apply_event d b (EvHygieneReportRecorded e) = Inr (apply_hygiene_report_recorded b e)"
| "apply_event d b (EvManagerHatClaimed e) = Inr (apply_manager_hat_claimed b e)"
| "apply_event d b (EvManagerHatReleased e) = Inr (apply_manager_hat_released b e)"
| "apply_event d b (EvAgentAvailabilityReported e) = Inr (apply_agent_availability_reported d b e)"
| "apply_event d b (EvGoalCreated e) = Inr b"
| "apply_event d b (EvGoalAchieved e) = Inr b"
| "apply_event d b (EvGoalAbandoned e) = Inr b"
| "apply_event d b (EvGoalDryTickRecorded e) = Inr b"

definition replay :: "work_deps \<Rightarrow> work_event list \<Rightarrow> projection_error + work_board" where
  "replay d events = run_steps (apply_event d) board_new events"

definition apply_windowed ::
  "work_deps \<Rightarrow> work_board \<Rightarrow> work_event \<Rightarrow> projection_error + work_board" where
  "apply_windowed d b e =
     (case apply_event d b e of
        Inr b' \<Rightarrow> Inr b'
      | Inl err \<Rightarrow> if is_missing_window_anchor err then Inr b else Inl err)"

definition replay_window :: "work_deps \<Rightarrow> work_event list \<Rightarrow> projection_error + work_board" where
  "replay_window d events = run_steps (apply_windowed d) board_new events"

end
