(* ===== verification/Work_Board_Inv.thy ===== *)
theory Work_Board_Inv
  imports Work_Board "HOL-Library.Sublist"
begin

text \<open>
  The invariant of the board and the relation between a board and its successors, with the
  proof that every handler keeps both. Together with the locale \<open>step_system\<close> they give the
  properties of whole replays.
\<close>

section \<open>The invariant\<close>

text \<open>
  A card is filed under its own id; its owner, claim, provenance and expiry are set and
  cleared together; an open card is held by nobody; a card with an expiry has a heartbeat;
  the submissions it holds name it and have distinct ids.
\<close>

definition claim_coherent :: "work_card \<Rightarrow> bool" where
  "claim_coherent c \<longleftrightarrow>
     (card_owner c = None \<longleftrightarrow> card_claim_id c = None) \<and>
     (card_claim_provenance c = None \<longleftrightarrow> card_claim_id c = None) \<and>
     (card_claim_expires_at_ms c = None \<longleftrightarrow> card_claim_id c = None) \<and>
     (card_claim_expires_at_ms c \<noteq> None \<longrightarrow> card_last_heartbeat_at_ms c \<noteq> None) \<and>
     (card_state c = CS_Open \<longrightarrow> card_claim_id c = None)"

definition card_inv :: "work_card_id \<Rightarrow> work_card \<Rightarrow> bool" where
  "card_inv i c \<longleftrightarrow>
     card_id c = i \<and> claim_coherent c \<and>
     distinct (map ws_submission_id (card_submissions c)) \<and>
     (\<forall>s \<in> set (card_submissions c). ws_card_id s = i)"

definition cards_inv :: "work_board \<Rightarrow> bool" where
  "cards_inv b \<longleftrightarrow> keyed card_inv (wb_cards b)"

text \<open>Every other map is keyed by the identity its values carry.\<close>

definition maps_inv :: "work_deps \<Rightarrow> work_board \<Rightarrow> bool" where
  "maps_inv d b \<longleftrightarrow>
     keyed (\<lambda>i l. lane_id l = i) (wb_lanes b) \<and>
     keyed (\<lambda>i w. wl_workspace_id (wrec_lease w) = i \<and>
                  bt_contains (wb_cards b) (wl_card_id (wrec_lease w))) (wb_workspaces b) \<and>
     keyed (\<lambda>i p. wp_workspace_id p = i) (wb_workspace_pressure b) \<and>
     keyed (\<lambda>i p. (dr_workspace_id p, dr_policy_rule_id p) = i) (wb_pending_drains b) \<and>
     keyed (\<lambda>i r. rt_repo r = i \<and> keyed (\<lambda>br t. bt_branch t = br) (rt_branches r))
       (wb_repo_tracking b) \<and>
     keyed (\<lambda>i p. pull_request_key (pr_repo (prr_pull_request p)) (pr_number (prr_pull_request p)) = i)
       (wb_pull_requests b) \<and>
     keyed (\<lambda>i h. mh_repo h = i) (wb_manager_hats b) \<and>
     keyed (\<lambda>i a. availability_key d (aar_repo (av_report a)) (aar_peer (av_report a)) = i)
       (wb_agent_availability b)"

text \<open>
  Accepted reviews and review handoffs refer to submissions that the board holds, with the
  artifact they judge and the publisher who may request the review.
\<close>

definition review_ok ::
  "(work_card_id, work_card) btree \<Rightarrow> work_review_id \<Rightarrow> work_submission_review \<Rightarrow> bool" where
  "review_ok m i r \<longleftrightarrow> wr_review_id r = i \<and>
     (\<exists>p s. map_of m (wr_card_id r) = Some p \<and> s \<in> set (card_submissions p) \<and>
            ws_submission_id s = wr_submission_id r \<and> ws_artifact s = wr_artifact r)"

definition request_ok ::
  "work_deps \<Rightarrow> (work_card_id, work_card) btree \<Rightarrow> work_card_id \<Rightarrow> submission_review_requested \<Rightarrow> bool" where
  "request_ok d m i q \<longleftrightarrow> cc_card_id (srr_card q) = i \<and>
     (\<exists>parent c p s. cc_reviews (srr_card q) = Some parent \<and>
        i = submission_review_card_id d parent (srr_submission_id q) \<and>
        map_of m i = Some c \<and> card_reviews c = Some parent \<and>
        map_of m parent = Some p \<and> s \<in> set (card_submissions p) \<and>
        ws_submission_id s = srr_submission_id q \<and> ws_publisher s = cc_created_by (srr_card q))"

definition evidence_inv :: "work_deps \<Rightarrow> work_board \<Rightarrow> bool" where
  "evidence_inv d b \<longleftrightarrow>
     keyed (review_ok (wb_cards b)) (wb_submission_reviews b) \<and> keyed (request_ok d (wb_cards b)) (wb_review_requests b) \<and>
     keyed (\<lambda>i r. rwr_card_id r = i) (wb_review_rejections b) \<and>
     bt_wf (wb_review_request_rejections b)"

definition board_inv :: "work_deps \<Rightarrow> work_board \<Rightarrow> bool" where
  "board_inv d b \<longleftrightarrow> cards_inv b \<and> maps_inv d b \<and> evidence_inv d b"

section \<open>What a successor keeps\<close>

text \<open>
  A card keeps its identity, repository, lane, authorship and review link for ever, and its
  submissions only grow at the front. Accepted reviews and handoffs are never altered, and
  the drain and hygiene histories are append-only.
\<close>

definition card_keeps :: "work_card \<Rightarrow> work_card \<Rightarrow> bool" where
  "card_keeps c c' \<longleftrightarrow>
     card_id c' = card_id c \<and> card_repo c' = card_repo c \<and> card_lane_id c' = card_lane_id c \<and>
     card_created_by c' = card_created_by c \<and> card_created_at_ms c' = card_created_at_ms c \<and>
     card_reviews c' = card_reviews c \<and> suffix (card_submissions c) (card_submissions c')"

definition cards_keep ::
  "(work_card_id, work_card) btree \<Rightarrow> (work_card_id, work_card) btree \<Rightarrow> bool" where
  "cards_keep m m' \<longleftrightarrow>
     (\<forall>i c. map_of m i = Some c \<longrightarrow> (\<exists>c'. map_of m' i = Some c' \<and> card_keeps c c'))"

definition board_keeps :: "work_board \<Rightarrow> work_board \<Rightarrow> bool" where
  "board_keeps b b' \<longleftrightarrow>
     cards_keep (wb_cards b) (wb_cards b') \<and>
     map_of (wb_submission_reviews b) \<subseteq>\<^sub>m map_of (wb_submission_reviews b') \<and>
     map_of (wb_review_requests b) \<subseteq>\<^sub>m map_of (wb_review_requests b') \<and>
     prefix (wb_drain_history b) (wb_drain_history b') \<and>
     prefix (wb_hygiene_reports b) (wb_hygiene_reports b')"

lemma card_keeps_refl [simp]: "card_keeps c c"
  by (simp add: card_keeps_def)

lemma card_keeps_trans: "card_keeps a b \<Longrightarrow> card_keeps b c \<Longrightarrow> card_keeps a c"
  by (auto simp: card_keeps_def)

lemma cards_keep_refl [simp]: "cards_keep m m"
  by (auto simp: cards_keep_def)

lemma cards_keepE:
  assumes "cards_keep m m'" "map_of m i = Some c"
  obtains c' where "map_of m' i = Some c'" "card_keeps c c'"
  using assms by (auto simp: cards_keep_def)

lemma cards_keep_trans: "cards_keep a b \<Longrightarrow> cards_keep b c \<Longrightarrow> cards_keep a c"
  unfolding cards_keep_def using card_keeps_trans by meson

lemma cards_keep_insert_new: "map_of m i = None \<Longrightarrow> cards_keep m (bt_insert i c m)"
  by (auto simp: cards_keep_def)

lemma cards_keep_insert:
  "map_of m i = Some c \<Longrightarrow> card_keeps c c' \<Longrightarrow> cards_keep m (bt_insert i c' m)"
  by (auto simp: cards_keep_def)

lemma cards_keep_contains: "cards_keep m m' \<Longrightarrow> bt_contains m i \<Longrightarrow> bt_contains m' i"
  by (auto simp: cards_keep_def bt_contains_def)

lemma board_keeps_refl: "board_keeps b b"
  by (simp add: board_keeps_def)

lemma board_keeps_trans: "board_keeps a b \<Longrightarrow> board_keeps b c \<Longrightarrow> board_keeps a c"
  unfolding board_keeps_def using cards_keep_trans map_le_trans by (meson prefix_order.trans)

lemma review_ok_keep:
  assumes "cards_keep m m'" "review_ok m i r"
  shows "review_ok m' i r"
proof -
  obtain p s where p: "map_of m (wr_card_id r) = Some p" "s \<in> set (card_submissions p)"
    "ws_submission_id s = wr_submission_id r" "ws_artifact s = wr_artifact r" "wr_review_id r = i"
    using assms(2) by (auto simp: review_ok_def)
  moreover obtain p' where "map_of m' (wr_card_id r) = Some p'" "card_keeps p p'"
    using assms(1) p(1) by (auto simp: cards_keep_def)
  ultimately show ?thesis
    unfolding review_ok_def card_keeps_def by (meson set_mono_suffix subsetD)
qed

lemma request_ok_keep:
  assumes keep: "cards_keep m m'" and ok: "request_ok d m i q"
  shows "request_ok d m' i q"
proof -
  obtain parent c p s where q: "cc_card_id (srr_card q) = i" "cc_reviews (srr_card q) = Some parent"
      "i = submission_review_card_id d parent (srr_submission_id q)"
      "ws_submission_id s = srr_submission_id q" "ws_publisher s = cc_created_by (srr_card q)"
    and c: "map_of m i = Some c" "card_reviews c = Some parent"
    and p: "map_of m parent = Some p" "s \<in> set (card_submissions p)"
    using ok unfolding request_ok_def by blast
  obtain c' where c': "map_of m' i = Some c'" "card_reviews c' = Some parent"
    using c(2) by (rule_tac cards_keepE [OF keep c(1)]) (auto simp: card_keeps_def)
  obtain p' where p': "map_of m' parent = Some p'" "card_keeps p p'"
    by (rule cards_keepE [OF keep p(1)])
  have "s \<in> set (card_submissions p')"
    using p(2) p'(2) by (auto simp: card_keeps_def dest: set_mono_suffix)
  then show ?thesis
    unfolding request_ok_def using q c' p'(1) by blast
qed

section \<open>Cards\<close>

definition card_step :: "work_card_id \<Rightarrow> (work_card \<Rightarrow> work_card) \<Rightarrow> bool" where
  "card_step i f \<longleftrightarrow> (\<forall>c. card_inv i c \<longrightarrow> card_inv i (f c) \<and> card_keeps c (f c))"

lemmas card_step_simps =
  card_step_def card_inv_def claim_coherent_def card_keeps_def

lemma end_claim_simps [simp]:
  "card_owner (end_claim c) = None" "card_claim_id (end_claim c) = None"
  "card_claim_provenance (end_claim c) = None" "card_claim_expires_at_ms (end_claim c) = None"
  "card_id (end_claim c) = card_id c" "card_state (end_claim c) = card_state c"
  "card_submissions (end_claim c) = card_submissions c" "card_repo (end_claim c) = card_repo c"
  "card_lane_id (end_claim c) = card_lane_id c" "card_created_by (end_claim c) = card_created_by c"
  "card_created_at_ms (end_claim c) = card_created_at_ms c" "card_reviews (end_claim c) = card_reviews c"
  "card_last_heartbeat_at_ms (end_claim c) = card_last_heartbeat_at_ms c"
  by (simp_all add: end_claim_def)

lemma renew_owner_lease_cases:
  "renew_owner_lease actor at_ms c = c \<or>
   (\<exists>expires beat renewed. card_owner c = Some actor \<and> card_claim_id c \<noteq> None \<and>
      card_claim_expires_at_ms c = Some expires \<and> card_last_heartbeat_at_ms c = Some beat \<and>
      renewed = saturating_add at_ms (saturating_sub expires beat) \<and> expires < renewed \<and>
      renew_owner_lease actor at_ms c =
        c\<lparr> card_claim_expires_at_ms := Some renewed, card_last_heartbeat_at_ms := Some at_ms \<rparr>)"
  by (auto simp: renew_owner_lease_def Let_def split: option.splits)

lemma card_step_renew: "card_step i (renew_owner_lease actor at_ms)"
  unfolding card_step_def
proof (intro allI impI)
  fix c
  assume "card_inv i c"
  with renew_owner_lease_cases [of actor at_ms c]
  show "card_inv i (renew_owner_lease actor at_ms c) \<and> card_keeps c (renew_owner_lease actor at_ms c)"
    by (elim disjE exE conjE) (auto simp: card_inv_def claim_coherent_def card_keeps_def)
qed

lemma card_step_claim: "card_step i (claim_card e)"
  by (auto simp: card_step_simps claim_card_def)

lemma card_step_heartbeat: "card_step i (heartbeat_card e)"
  by (auto simp: card_step_simps heartbeat_card_def)

lemma card_step_release: "card_step i (release_card e)"
  by (auto simp: card_step_simps release_card_def)

lemma card_step_link: "card_step i (link_card e)"
  by (auto simp: card_step_simps link_card_def)

lemma card_step_relink: "card_step i (relink_card e)"
  by (auto simp: card_step_simps relink_card_def)

lemma card_step_merge: "card_step i (merge_card e)"
  by (auto simp: card_step_simps merge_card_def)

lemma card_step_note_rejection:
  "card_step i (\<lambda>c. c\<lparr> card_last_submission_rejection := r \<rparr>)"
  by (auto simp: card_step_simps)

lemma card_step_update: "card_step i (update_card e)"
  by (auto simp: card_step_simps update_card_def select_claim_def Let_def split: option.splits)

lemma card_step_change_state: "card_step i (change_card_state e)"
  unfolding card_step_def
proof (intro allI impI)
  fix c
  assume inv: "card_inv i c"
  let ?c = "c\<lparr> card_state := sc_state e, card_updated_at_ms := sc_changed_at_ms e \<rparr>"
  have keep: "card_keeps c ?c"
    by (simp add: card_keeps_def)
  show "card_inv i (change_card_state e c) \<and> card_keeps c (change_card_state e c)"
  proof (cases "sc_state e = CS_Open")
    case True
    then show ?thesis
      using inv by (auto simp: change_card_state_def card_inv_def claim_coherent_def card_keeps_def)
  next
    case False
    then have "card_inv i ?c"
      using inv by (auto simp: card_inv_def claim_coherent_def)
    then show ?thesis
      using False keep card_step_renew [of i "sc_changed_by e" "sc_changed_at_ms e"]
      by (auto simp: change_card_state_def card_step_def intro: card_keeps_trans)
  qed
qed

text \<open>
  A submission the card admits has a fresh id, names the card, and comes from the holder.
\<close>

lemma submit_cases:
  obtains (same) prior where "prior \<in> set (card_submissions c)" "same_candidate prior e"
      "submit_card e c = c"
  | (rejected) reason where "validate_for_card e c = Inl reason"
      "\<not> (\<exists>prior \<in> set (card_submissions c). same_candidate prior e)"
      "submit_card e c = c\<lparr> card_last_submission_rejection := Some (rejected_of_submission e reason) \<rparr>"
  | (accepted) "ws_submission_id e \<notin> ws_submission_id ` set (card_submissions c)"
      "validate_for_card e c = Inr ()"
      "submit_card e c = renew_owner_lease (ws_publisher e) (ws_submitted_at_ms e)
         (c\<lparr> card_submissions := e # card_submissions c,
             card_updated_at_ms := max (card_updated_at_ms c) (ws_submitted_at_ms e) \<rparr>)"
proof (cases "\<exists>prior \<in> set (card_submissions c). same_candidate prior e")
  case True
  then show ?thesis
    using same by (auto simp: submit_card_def)
next
  case False
  show ?thesis
  proof (cases "validate_for_card e c")
    case (Inl reason)
    then show ?thesis
      using rejected False by (simp add: submit_card_def)
  next
    case (Inr u)
    then have new: "ws_submission_id e \<notin> ws_submission_id ` set (card_submissions c)"
      using False
      by (auto simp: validate_for_card_def find_None_iff find_Some_iff split: option.splits if_splits)
    then have "card_claim_id c = Some (ws_claim_id e)"
      using Inr validate_for_card_new [of e c] by simp
    then show ?thesis
      using accepted new Inr False by (simp add: submit_card_def)
  qed
qed

lemma card_step_submit: "card_step (ws_card_id e) (submit_card e)"
  unfolding card_step_def
proof (intro allI impI)
  fix c
  assume inv: "card_inv (ws_card_id e) c"
  show "card_inv (ws_card_id e) (submit_card e c) \<and> card_keeps c (submit_card e c)"
  proof (cases rule: submit_cases [of c e])
    case accepted
    let ?c = "c\<lparr> card_submissions := e # card_submissions c,
             card_updated_at_ms := max (card_updated_at_ms c) (ws_submitted_at_ms e) \<rparr>"
    have "card_inv (ws_card_id e) ?c" "card_keeps c ?c"
      using inv accepted(1)
      by (auto simp: card_inv_def claim_coherent_def card_keeps_def suffix_ConsI)
    then show ?thesis
      using accepted(3) card_step_renew [of "ws_card_id e" "ws_publisher e" "ws_submitted_at_ms e"]
      by (auto simp: card_step_def intro: card_keeps_trans)
  next
    case (rejected reason)
    then show ?thesis
      using inv by (auto simp: card_inv_def claim_coherent_def card_keeps_def)
  qed (simp add: inv)
qed

section \<open>Boards\<close>

lemma card_mut_Inr:
  "card_mut b i f = Inr b' \<longleftrightarrow>
     (\<exists>c. map_of (wb_cards b) i = Some c \<and> b' = b\<lparr> wb_cards := bt_insert i (f c) (wb_cards b) \<rparr>)"
  by (auto simp: card_mut_def res_bind_eq_Inr ok_or_eq_Inr)

lemma workspace_mut_Inr:
  "workspace_mut b i f = Inr b' \<longleftrightarrow>
     (\<exists>w. map_of (wb_workspaces b) i = Some w \<and>
        b' = b\<lparr> wb_workspaces := bt_insert i (wrec_lease_update f w) (wb_workspaces b) \<rparr>)"
  by (auto simp: workspace_mut_def res_bind_eq_Inr ok_or_eq_Inr)

lemma evidence_inv_keep:
  assumes "evidence_inv d b" and "cards_keep (wb_cards b) (wb_cards b')"
    and "wb_submission_reviews b' = wb_submission_reviews b"
    and "wb_review_requests b' = wb_review_requests b"
    and "wb_review_rejections b' = wb_review_rejections b"
    and "wb_review_request_rejections b' = wb_review_request_rejections b"
  shows "evidence_inv d b'"
  using assms(1) unfolding evidence_inv_def assms(3-6)
  by (auto elim!: keyed_mono review_ok_keep [OF assms(2)] request_ok_keep [OF assms(2)])

lemma maps_inv_cards:
  assumes "maps_inv d b" "cards_keep (wb_cards b) m"
  shows "maps_inv d (b\<lparr> wb_cards := m \<rparr>)"
proof -
  have "keyed (\<lambda>i w. wl_workspace_id (wrec_lease w) = i \<and>
      bt_contains (wb_cards b) (wl_card_id (wrec_lease w))) (wb_workspaces b)"
    using assms(1) by (simp add: maps_inv_def)
  then have "keyed (\<lambda>i w. wl_workspace_id (wrec_lease w) = i \<and>
      bt_contains m (wl_card_id (wrec_lease w))) (wb_workspaces b)"
    by (rule keyed_mono) (blast intro: cards_keep_contains [OF assms(2)])
  then show ?thesis
    using assms(1) by (simp add: maps_inv_def)
qed

text \<open>Replacing a card by one that keeps it, or filing a new one, keeps the board.\<close>

lemma board_put_card:
  assumes inv: "board_inv d b" and card: "card_inv i c'"
    and keep: "cards_keep (wb_cards b) (bt_insert i c' (wb_cards b))"
  shows "board_inv d (b\<lparr> wb_cards := bt_insert i c' (wb_cards b) \<rparr>)"
    and "board_keeps b (b\<lparr> wb_cards := bt_insert i c' (wb_cards b) \<rparr>)"
proof -
  have "evidence_inv d (b\<lparr> wb_cards := bt_insert i c' (wb_cards b) \<rparr>)"
    by (rule evidence_inv_keep [of d b]) (use inv keep in \<open>simp_all add: board_inv_def\<close>)
  then show "board_inv d (b\<lparr> wb_cards := bt_insert i c' (wb_cards b) \<rparr>)"
    using inv card keep by (simp add: board_inv_def cards_inv_def maps_inv_cards keyed_insert)
  show "board_keeps b (b\<lparr> wb_cards := bt_insert i c' (wb_cards b) \<rparr>)"
    using keep by (simp add: board_keeps_def)
qed

definition board_step :: "work_deps \<Rightarrow> work_board \<Rightarrow> work_board \<Rightarrow> bool" where
  "board_step d b b' \<longleftrightarrow> (board_inv d b \<longrightarrow> board_inv d b' \<and> board_keeps b b')"

lemma board_step_refl [simp]: "board_step d b b"
  by (simp add: board_step_def board_keeps_refl)

lemma board_step_card_mut:
  assumes "card_step i f" "card_mut b i f = Inr b'"
  shows "board_step d b b'"
  unfolding board_step_def
proof (intro impI)
  assume inv: "board_inv d b"
  obtain c where c: "map_of (wb_cards b) i = Some c"
      "b' = b\<lparr> wb_cards := bt_insert i (f c) (wb_cards b) \<rparr>"
    using assms(2) by (auto simp: card_mut_Inr)
  have "card_inv i c"
    using inv c(1) by (auto simp: board_inv_def cards_inv_def dest: keyedD)
  then have fc: "card_inv i (f c)" "card_keeps c (f c)"
    using assms(1) by (simp_all add: card_step_def)
  have "cards_keep (wb_cards b) (bt_insert i (f c) (wb_cards b))"
    using c(1) fc(2) by (rule cards_keep_insert)
  then show "board_inv d b' \<and> board_keeps b b'"
    using board_put_card [OF inv fc(1)] c(2) by simp
qed

lemma board_step_created:
  assumes "apply_card_created b e = Inr b'"
  shows "board_step d b b'"
  unfolding board_step_def
proof (intro impI)
  assume inv: "board_inv d b"
  let ?i = "cc_card_id e"
  let ?b = "b\<lparr> wb_cards := bt_insert ?i (card_of_created e) (wb_cards b) \<rparr>"
  have new: "map_of (wb_cards b) ?i = None" and b': "b' = lane_push_card ?i (cc_lane_id e) ?b"
    using assms by (auto simp: apply_card_created_def bt_contains_def split: if_splits)
  have "card_inv ?i (card_of_created e)"
    by (simp add: card_inv_def claim_coherent_def card_of_created_def)
  then have b: "board_inv d ?b" "board_keeps b ?b"
    using board_put_card [OF inv _ cards_keep_insert_new [OF new]] by blast+
  have "board_inv d (lane_push_card i l c) \<and> board_keeps b (lane_push_card i l c)"
    if c: "board_inv d c" "board_keeps b c" for i l c
  proof -
    have "evidence_inv d (lane_push_card i l c)"
      by (rule evidence_inv_keep [of d c])
        (use c in \<open>auto simp: board_inv_def lane_push_card_def split: option.splits\<close>)
    moreover have "maps_inv d (lane_push_card i l c)"
      using c(1) by (auto simp: board_inv_def maps_inv_def lane_push_card_def
          intro!: keyed_insert dest: keyedD split: option.splits)
    moreover have "cards_inv (lane_push_card i l c)" "board_keeps b (lane_push_card i l c)"
      using c by (auto simp: board_inv_def cards_inv_def lane_push_card_def board_keeps_def
          split: option.splits)
    ultimately show ?thesis by (simp add: board_inv_def)
  qed
  with b show "board_inv d b' \<and> board_keeps b b'"
    unfolding b' by blast
qed

text \<open>A handler that touches none of the cards and none of the evidence.\<close>

lemma board_step_mapsI:
  assumes "maps_inv d b \<Longrightarrow> maps_inv d b'" and "wb_cards b' = wb_cards b"
    and "wb_submission_reviews b' = wb_submission_reviews b"
    and "wb_review_requests b' = wb_review_requests b"
    and "wb_review_rejections b' = wb_review_rejections b"
    and "wb_review_request_rejections b' = wb_review_request_rejections b"
    and "prefix (wb_drain_history b) (wb_drain_history b')"
    and "prefix (wb_hygiene_reports b) (wb_hygiene_reports b')"
  shows "board_step d b b'"
  using assms evidence_inv_keep [of d b b']
  by (auto simp: board_step_def board_inv_def cards_inv_def board_keeps_def)

lemmas board_handlers =
  apply_lane_created_def apply_lane_state_changed_def apply_workspace_requested_def
  apply_workspace_allocated_def apply_workspace_heartbeat_def apply_workspace_released_def
  apply_workspace_pressure_reported_def apply_workspace_drain_requested_def
  apply_workspace_drain_completed_def apply_hygiene_report_recorded_def
  apply_manager_hat_claimed_def apply_manager_hat_released_def
  apply_agent_availability_reported_def

lemma board_step_lane_created: "apply_lane_created b e = Inr b' \<Longrightarrow> board_step d b b'"
  by (rule board_step_mapsI)
    (auto simp: board_handlers maps_inv_def intro!: keyed_insert split: if_splits)

lemma board_step_lane_state: "apply_lane_state_changed b e = Inr b' \<Longrightarrow> board_step d b b'"
  by (rule board_step_mapsI)
    (auto simp: board_handlers maps_inv_def res_bind_eq_Inr ok_or_eq_Inr,
     erule (1) keyed_update, simp)

lemma board_step_workspace_requested:
  "apply_workspace_requested b e = Inr b' \<Longrightarrow> board_step d b b'"
  by (rule board_step_mapsI)
    (auto simp: board_handlers maps_inv_def intro!: keyed_insert split: if_splits)

lemma board_step_workspace_mut:
  assumes "workspace_mut b i f = Inr b'"
    and "\<And>l. wl_workspace_id (f l) = wl_workspace_id l" "\<And>l. wl_card_id (f l) = wl_card_id l"
  shows "board_step d b b'"
  using assms(1) unfolding workspace_mut_Inr
  by (elim exE conjE, intro board_step_mapsI)
    (auto simp: maps_inv_def, erule (1) keyed_update, simp add: assms(2,3))

lemma board_step_reports:
  "board_step d b (apply_workspace_pressure_reported b wp)"
  "board_step d b (apply_workspace_drain_requested b dr)"
  "board_step d b (apply_workspace_drain_completed b dd)"
  "board_step d b (apply_hygiene_report_recorded b hr)"
  "board_step d b (apply_manager_hat_claimed b mc)"
  "board_step d b (apply_manager_hat_released b mr)"
  "board_step d b (apply_agent_availability_reported d b aa)"
  by (rule board_step_mapsI; simp add: board_handlers maps_inv_def keyed_insert keyed_remove)+

lemma board_step_repo_tracking_mut:
  assumes "\<And>r. rt_repo (f r) = rt_repo r"
    and "\<And>r. keyed (\<lambda>br t. bt_branch t = br) (rt_branches r) \<Longrightarrow>
             keyed (\<lambda>br t. bt_branch t = br) (rt_branches (f r))"
  shows "board_step d b (repo_tracking_mut b repo f)"
proof (cases "map_of (wb_repo_tracking b) repo")
  case None
  then show ?thesis
    by (intro board_step_mapsI)
      (auto simp: repo_tracking_mut_def repo_tracking_new_def maps_inv_def assms(1)
        intro!: keyed_insert assms(2))
next
  case (Some r)
  then show ?thesis
    by (intro board_step_mapsI)
      (auto simp: repo_tracking_mut_def maps_inv_def,
       erule (1) keyed_update, simp add: assms)
qed

lemma board_step_git:
  "board_step d b (apply_git_commit_observed b gc)"
  "board_step d b (apply_git_branch_moved b gb)"
  "board_step d b (apply_git_dirty_state_changed b gd)"
  by (simp_all add: apply_git_commit_observed_def apply_git_branch_moved_def
      apply_git_dirty_state_changed_def,
      auto intro!: board_step_repo_tracking_mut keyed_insert simp: Let_def split: option.splits)

lemma board_step_pr_entry:
  assumes "\<And>r. prr_pull_request (f r) = p" "prr_pull_request new = p"
  shows "board_step d b (pr_entry p f new b)"
  by (rule board_step_mapsI)
    (auto simp: pr_entry_def Let_def maps_inv_def assms intro!: keyed_insert split: option.splits)

lemma board_step_pull_requests:
  "board_step d b (apply_pull_request_check_suite_changed b pc)"
  "board_step d b (apply_pull_request_review_submitted b pr)"
  "board_step d b (apply_pull_request_merge_state_changed b pm)"
  unfolding apply_pull_request_check_suite_changed_def apply_pull_request_review_submitted_def
    apply_pull_request_merge_state_changed_def
  by (rule board_step_pr_entry;
      simp add: pr_apply_check_def pr_from_check_def pr_apply_review_def pr_from_review_def
        pr_apply_merge_def pr_from_merge_def)+

section \<open>Evidence\<close>

lemma board_inv_card:
  assumes "board_inv d b" "map_of (wb_cards b) i = Some c"
  shows "card_inv i c"
  using assms by (auto simp: board_inv_def cards_inv_def dest: keyedD)

lemma validate_request_Inr:
  assumes "validate_request_for_board d q b = Inr u"
  obtains parent p s where "cc_reviews (srr_card q) = Some parent"
    "map_of (wb_cards b) parent = Some p" "s \<in> set (card_submissions p)"
    "ws_submission_id s = srr_submission_id q" "ws_publisher s = cc_created_by (srr_card q)"
    "cc_repo (srr_card q) = card_repo p"
    "cc_card_id (srr_card q) = submission_review_card_id d parent (srr_submission_id q)"
  using assms
  by (auto simp: validate_request_for_board_def res_bind_eq_Inr ok_or_eq_Inr board_card_def
      dest!: find_SomeD split: if_splits)

lemma validate_review_Inr:
  assumes "validate_review_for_board d r b = Inr u" "submission_review b (wr_review_id r) = None"
  obtains p s c expiry where "validate_review d r = Inr ()"
    "map_of (wb_cards b) (wr_card_id r) = Some p" "s \<in> set (card_submissions p)"
    "ws_submission_id s = wr_submission_id r" "ws_artifact s = wr_artifact r"
    "map_of (wb_cards b) (wr_review_card_id r) = Some c" "card_reviews c = Some (wr_card_id r)"
    "card_repo c = card_repo p" "card_owner c = Some (wr_reviewer r)"
    "card_claim_id c = Some (wr_review_claim_id r)" "\<not> is_settled (card_state c)"
    "card_claim_expires_at_ms c = Some expiry" "wr_reviewed_at_ms r < expiry"
  using assms
  by (auto simp: validate_review_for_board_def res_bind_eq_Inr ok_or_eq_Inr board_card_def
      is_none_or_def not_le dest!: find_SomeD split: if_splits option.splits)

lemma board_step_rejection_maps:
  "rwr_card_id r = i \<Longrightarrow>
     board_step d b (b\<lparr> wb_review_rejections := bt_insert i r (wb_review_rejections b) \<rparr>)"
  "board_step d b (b\<lparr> wb_review_request_rejections := bt_insert j x (wb_review_request_rejections b) \<rparr>)"
  "board_step d b (b\<lparr> wb_review_request_rejections := bt_remove j (wb_review_request_rejections b) \<rparr>)"
  by (auto simp: board_step_def board_inv_def cards_inv_def maps_inv_def evidence_inv_def
      board_keeps_def keyed_insert)

lemma board_step_trans: "board_step d a b \<Longrightarrow> board_step d b c \<Longrightarrow> board_step d a c"
  by (auto simp: board_step_def intro: board_keeps_trans)

lemma board_step_reviewed: "board_step d b (apply_submission_reviewed d b r)"
proof (cases "validate_review_for_board d r b")
  case (Inl reason)
  then show ?thesis
    by (simp add: apply_submission_reviewed_def board_step_rejection_maps rejected_review_def)
next
  case (Inr u)
  show ?thesis
  proof (cases "submission_review b (wr_review_id r)")
    case None
    from Inr None obtain p s where "map_of (wb_cards b) (wr_card_id r) = Some p"
        "s \<in> set (card_submissions p)" "ws_submission_id s = wr_submission_id r"
        "ws_artifact s = wr_artifact r"
      by (rule validate_review_Inr)
    then have ok: "review_ok (wb_cards b) (wr_review_id r) r"
      by (auto simp: review_ok_def)
    have none: "map_of (wb_submission_reviews b) (wr_review_id r) = None"
      using None by (simp add: submission_review_def)
    then have "apply_submission_reviewed d b r =
        b\<lparr> wb_submission_reviews := bt_insert (wr_review_id r) r (wb_submission_reviews b) \<rparr>"
      using Inr by (simp add: apply_submission_reviewed_def)
    moreover have "board_step d b
        (b\<lparr> wb_submission_reviews := bt_insert (wr_review_id r) r (wb_submission_reviews b) \<rparr>)"
      using ok none unfolding board_step_def board_inv_def cards_inv_def maps_inv_def evidence_inv_def board_keeps_def
      by (auto simp: keyed_insert map_le_def)
    ultimately show ?thesis by simp
  qed (use Inr in \<open>simp add: apply_submission_reviewed_def submission_review_def\<close>)
qed

lemma board_step_review_requested:
  assumes "apply_review_requested d b q = Inr b'"
  shows "board_step d b b'"
proof (cases "validate_request_for_board d q b")
  case (Inl reason)
  then show ?thesis
    using assms by (auto simp: apply_review_requested_def board_step_rejection_maps)
next
  case (Inr u)
  let ?i = "cc_card_id (srr_card q)"
  show ?thesis
  proof (cases "bt_contains (wb_cards b) ?i")
    case True
    then show ?thesis
      using assms Inr by (auto simp: apply_review_requested_def board_step_rejection_maps)
  next
    case False
    from assms Inr False obtain b1 where created: "apply_card_created b (srr_card q) = Inr b1"
      and b': "b' = b1\<lparr> wb_review_requests := bt_insert ?i q (wb_review_requests b1),
          wb_review_request_rejections := bt_remove ?i (wb_review_request_rejections b1) \<rparr>"
      by (auto simp: apply_review_requested_def res_bind_eq_Inr Let_def)
    let ?b2 = "b1\<lparr> wb_review_requests := bt_insert ?i q (wb_review_requests b1) \<rparr>"
    obtain parent p s where q: "cc_reviews (srr_card q) = Some parent"
        "map_of (wb_cards b) parent = Some p" "s \<in> set (card_submissions p)"
        "ws_submission_id s = srr_submission_id q" "ws_publisher s = cc_created_by (srr_card q)"
        "?i = submission_review_card_id d parent (srr_submission_id q)"
      using Inr by (rule validate_request_Inr) blast
    have cards: "map_of (wb_cards b1) = (map_of (wb_cards b))(?i \<mapsto> card_of_created (srr_card q))"
      and same: "wb_review_requests b1 = wb_review_requests b"
      using created by (auto simp: apply_card_created_def lane_push_card_def bt_contains_def
          split: if_splits option.splits)
    have "request_ok d (wb_cards b1) ?i q"
      using q False cards by (auto simp: request_ok_def bt_contains_def card_of_created_def)
    moreover have "map_of (wb_review_requests b) ?i = None" if "board_inv d b"
      using that False keyedD [of "request_ok d (wb_cards b)" "wb_review_requests b" ?i]
      by (cases "map_of (wb_review_requests b) ?i")
        (auto simp: board_inv_def evidence_inv_def request_ok_def bt_contains_def)
    ultimately have "board_step d b ?b2"
      using board_step_created [OF created, of d] same
      unfolding board_step_def board_inv_def cards_inv_def maps_inv_def evidence_inv_def board_keeps_def
      by (auto simp: keyed_insert map_le_def)
    then show ?thesis
      using board_step_trans board_step_rejection_maps(3) [of d ?b2 ?i] unfolding b' by simp
  qed
qed

section \<open>Every event\<close>

lemma board_step_apply:
  assumes "apply_event d b e = Inr b'"
  shows "board_step d b b'"
  using assms
  by (cases e)
    (auto simp: apply_card_updated_def apply_card_claimed_def apply_claim_heartbeat_def
      apply_claim_released_def apply_card_state_changed_def apply_work_submitted_def
      apply_pull_request_linked_def apply_pull_request_relinked_def apply_pull_request_merged_def
      apply_submission_rejected_def apply_workspace_allocated_def apply_workspace_heartbeat_def
      apply_workspace_released_def apply_review_rejected_def
      intro: board_step_card_mut card_step_update card_step_claim card_step_heartbeat
      card_step_release card_step_change_state card_step_submit card_step_link card_step_relink
      card_step_merge card_step_note_rejection board_step_created board_step_lane_created
      board_step_lane_state board_step_workspace_requested board_step_workspace_mut
      board_step_reports board_step_git board_step_pull_requests board_step_reviewed
      board_step_review_requested board_step_rejection_maps)

lemma board_step_windowed:
  assumes "apply_windowed d b e = Inr b'"
  shows "board_step d b b'"
  using assms board_step_apply [of d b e]
  by (auto simp: apply_windowed_def split: sum.splits if_splits)

lemma board_inv_new: "board_inv d board_new"
  by (simp add: board_inv_def cards_inv_def maps_inv_def evidence_inv_def board_new_def)

interpretation replay_sys: step_system "apply_event d" "board_inv d" board_keeps for d
  by unfold_locales
    (auto dest: board_step_apply simp: board_step_def board_keeps_refl intro: board_keeps_trans)

interpretation window_sys: step_system "apply_windowed d" "board_inv d" board_keeps for d
  by unfold_locales
    (auto dest: board_step_windowed simp: board_step_def board_keeps_refl intro: board_keeps_trans)

end
