(* ===== verification/Work_Board_Props.thy ===== *)
theory Work_Board_Props
  imports Work_Board_Inv
begin

text \<open>
  What a replayed board guarantees: the properties of replay, of claims and leases, and of
  submissions, reviews and pull-request records, each stated over the handlers of
  \<open>Work_Board\<close>, with the values that their witnesses use.
\<close>

section \<open>Sample values\<close>

definition sample_deps :: work_deps where
  "sample_deps = \<lparr> wd_content_hash = (\<lambda>s. of_nat (length s)),
     wd_uuid_new_v5 = (\<lambda>u s. u + of_nat (length s)),
     wd_uuid_display = (\<lambda>u. replicate 36 (CHR ''0'')) \<rparr>"

definition sample_created :: card_created where
  "sample_created = \<lparr> cc_card_id = 1, cc_repo = ''org/repo'', cc_title = ''t'', cc_body = None,
     cc_priority = P1, cc_lane_id = None, cc_created_by = 7, cc_created_at_ms = 10,
     cc_reviews = None, cc_origin = None \<rparr>"

definition sample_claimed :: work_card_claimed where
  "sample_claimed = \<lparr> cl_selected_at_ms = None, cl_card_id = 1, cl_claim_id = 3, cl_owner = 2,
     cl_ttl_ms = 100, cl_claimed_at_ms = 20, cl_origin = CO_Explicit \<rparr>"

definition sample_submission :: work_submission where
  "sample_submission = \<lparr> ws_submission_id = 5, ws_card_id = 1, ws_claim_id = 3,
     ws_instance = ''i'', ws_base_sha = replicate 40 (CHR ''a''),
     ws_artifact = \<lparr> mr_hash = 9, mr_size_bytes = 4, mr_mime = None \<rparr>, ws_publisher = 2,
     ws_submitted_at_ms = 30 \<rparr>"

definition sample_log :: "work_event list" where
  "sample_log = [EvCardCreated sample_created, EvCardClaimed sample_claimed]"

definition sample_board :: work_board where
  "sample_board = board_new\<lparr> wb_cards := [(1, claim_card sample_claimed (card_of_created sample_created))] \<rparr>"

definition sample_card :: work_card where
  "sample_card = claim_card sample_claimed (card_of_created sample_created)"

definition sample_takeover :: work_card_claimed where
  "sample_takeover = sample_claimed\<lparr> cl_owner := 8, cl_claim_id := 4, cl_claimed_at_ms := 130 \<rparr>"

definition sample_release :: claim_released where
  "sample_release = \<lparr> rel_card_id = 1, rel_claim_id = 3, rel_owner = 8, rel_reason = None,
     rel_released_at_ms = 40, rel_taken_over_from = Some 2 \<rparr>"

definition sample_review_board :: work_board where
  "sample_review_board = board_new\<lparr> wb_cards :=
     [(1, sample_card\<lparr> card_submissions := [sample_submission] \<rparr>),
      (11, claim_card (sample_claimed\<lparr> cl_card_id := 11, cl_owner := 6, cl_claim_id := 12 \<rparr>)
             (card_of_created (sample_created\<lparr> cc_card_id := 11, cc_reviews := Some 1 \<rparr>)))] \<rparr>"

definition sample_review :: work_submission_review where
  "sample_review = \<lparr> wr_review_id = 20, wr_card_id = 1, wr_submission_id = 5,
     wr_artifact = \<lparr> mr_hash = 9, mr_size_bytes = 4, mr_mime = None \<rparr>, wr_review_card_id = 11,
     wr_review_claim_id = 12, wr_reviewer = 6, wr_outcome = RO_Passed,
     wr_evidence = \<lparr> mr_hash = 1, mr_size_bytes = 1, mr_mime = None \<rparr>, wr_evidence_text = None,
     wr_reviewed_at_ms = 50 \<rparr>"

lemmas sample_defs =
  sample_deps_def sample_created_def sample_claimed_def sample_submission_def sample_log_def

lemma sample_replay: "replay d sample_log = Inr sample_board"
  by (simp add: replay_def sample_log_def sample_board_def apply_card_created_def bt_contains_def
      board_new_def apply_card_claimed_def card_mut_def lane_push_card_def)
    (simp add: sample_defs)

lemma sample_board_inv: "board_inv d sample_board"
  using sample_replay [of d] replay_sys.run_inv [OF board_inv_new] by (simp add: replay_def)

lemma sample_board_card: "board_card sample_board 1 = Some sample_card"
  by (simp add: board_card_def sample_board_def sample_card_def)

lemma sample_card_simps:
  "card_id sample_card = 1" "card_owner sample_card = Some 2" "card_claim_id sample_card = Some 3"
  "card_claim_expires_at_ms sample_card = Some 120" "card_last_heartbeat_at_ms sample_card = Some 20"
  "card_state sample_card = CS_Claimed" "card_submissions sample_card = []"
  by (simp_all add: sample_card_def claim_card_def card_of_created_def sample_defs)

section \<open>Replay\<close>

lemma replay_append: "replay d (xs @ ys) = res_bind (replay d xs) (\<lambda>b. run_steps (apply_event d) b ys)"
  by (simp add: replay_def run_steps_append)

text \<open>
  C6. Every board that replay produces, complete or windowed, satisfies the board
  invariant: cards are filed under their ids with coherent claims and distinct submissions,
  every map is keyed by the identity of its values, and every accepted review and review
  handoff refers to a submission the board holds.
\<close>

theorem replay_invariant:
  assumes "replay d events = Inr b \<or> replay_window d events = Inr b"
  shows "board_inv d b"
  using assms replay_sys.run_inv [OF board_inv_new] window_sys.run_inv [OF board_inv_new]
  by (auto simp: replay_def replay_window_def)

theorem replay_invariant_witness:
  "replay sample_deps sample_log = Inr sample_board \<and> board_inv sample_deps sample_board"
  using replay_invariant [of sample_deps sample_log sample_board]
  by (simp add: sample_replay)

text \<open>
  C30. Extending a log never rewrites what the shorter log had settled: cards keep identity,
  repository, lane, authorship, review link and all their accepted submissions; accepted
  reviews and review handoffs are unchanged; drain and hygiene histories only grow.
\<close>

theorem replay_keeps_history:
  assumes "replay d (xs @ ys) = Inr b"
  shows "\<exists>a. replay d xs = Inr a \<and> board_keeps a b"
proof -
  obtain a where a: "replay d xs = Inr a" "run_steps (apply_event d) a ys = Inr b"
    using assms by (auto simp: replay_append res_bind_eq_Inr)
  then have "board_inv d a"
    using replay_sys.run_inv [OF board_inv_new] by (simp add: replay_def)
  then show ?thesis
    using a replay_sys.run_keeps by blast
qed

theorem replay_keeps_history_witness:
  "\<exists>a. replay sample_deps [EvCardCreated sample_created] = Inr a \<and> board_keeps a sample_board"
  using replay_keeps_history [of sample_deps "[EvCardCreated sample_created]"
      "[EvCardClaimed sample_claimed]" sample_board] sample_replay [of sample_deps]
  by (simp add: sample_log_def)

lemma run_windowed_of_run:
  "run_steps (apply_event d) s es = Inr b \<Longrightarrow> run_steps (apply_windowed d) s es = Inr b"
  by (induction es arbitrary: s) (auto simp: res_bind_eq_Inr apply_windowed_def)

lemma run_windowed_error:
  "run_steps (apply_windowed d) s es = Inl err \<Longrightarrow> \<not> is_missing_window_anchor err"
  by (induction es arbitrary: s)
    (auto simp: res_bind_eq_Inl apply_windowed_def split: sum.splits if_splits)

lemma run_windowed_subseq:
  "run_steps (apply_windowed d) s es = Inr b \<Longrightarrow>
     \<exists>fs. subseq fs es \<and> run_steps (apply_event d) s fs = Inr b"
proof (induction es arbitrary: s)
  case (Cons e es)
  then obtain t where t: "apply_windowed d s e = Inr t" "run_steps (apply_windowed d) t es = Inr b"
    by (auto simp: res_bind_eq_Inr)
  then obtain fs where fs: "subseq fs es" "run_steps (apply_event d) t fs = Inr b"
    using Cons.IH by blast
  show ?case
  proof (cases "apply_event d s e")
    case (Inl err)
    then have "t = s" using t(1) by (auto simp: apply_windowed_def split: if_splits)
    then show ?thesis using fs by (auto intro: subseq_Cons')
  next
    case (Inr u)
    then have "run_steps (apply_event d) s (e # fs) = Inr b"
      using t(1) fs(2) by (simp add: apply_windowed_def)
    then show ?thesis using fs(1) by (metis subseq_Cons2)
  qed
qed (auto intro: exI [of _ "[]"])

text \<open>
  C34. Replay of a bounded window: it agrees with complete replay whenever that succeeds; the
  only errors it reports are structural (a duplicate card or lane), never a missing anchor;
  and what it builds is the complete replay of the events it did not skip.
\<close>

theorem replay_window_refines:
  "(replay d es = Inr b \<longrightarrow> replay_window d es = Inr b) \<and>
   (replay_window d es = Inl err \<longrightarrow> (\<exists>i. err = PE_DuplicateCard i \<or> err = PE_DuplicateLane i)) \<and>
   (replay_window d es = Inr b \<longrightarrow> (\<exists>fs. subseq fs es \<and> replay d fs = Inr b))"
proof (intro conjI impI)
  assume "replay_window d es = Inl err"
  then have "\<not> is_missing_window_anchor err"
    using run_windowed_error by (simp add: replay_window_def)
  then show "\<exists>i. err = PE_DuplicateCard i \<or> err = PE_DuplicateLane i"
    by (cases err) (auto simp: is_missing_window_anchor_def)
qed (simp_all add: replay_def replay_window_def run_windowed_of_run run_windowed_subseq)

theorem replay_window_refines_witness:
  "replay_window sample_deps sample_log = Inr sample_board"
  using replay_window_refines [of sample_deps sample_log sample_board]
  by (simp add: sample_replay)

section \<open>Claims and leases\<close>

lemma card_mut_lookup:
  assumes "card_mut b j f = Inr b'" "map_of (wb_cards b) i = Some c"
  shows "map_of (wb_cards b') i = Some (if i = j then f c else c)"
  using assms by (auto simp: card_mut_Inr)

text \<open>The effect of an event on a card that already exists.\<close>

definition card_effect :: "work_event \<Rightarrow> work_card_id \<Rightarrow> work_card \<Rightarrow> work_card" where
  "card_effect e i c =
     (case e of
        EvCardUpdated x \<Rightarrow> if i = cu_card_id x then update_card x c else c
      | EvCardClaimed x \<Rightarrow> if i = cl_card_id x then claim_card x c else c
      | EvClaimHeartbeat x \<Rightarrow> if i = hb_card_id x then heartbeat_card x c else c
      | EvClaimReleased x \<Rightarrow> if i = rel_card_id x then release_card x c else c
      | EvCardStateChanged x \<Rightarrow> if i = sc_card_id x then change_card_state x c else c
      | EvWorkSubmitted x \<Rightarrow> if i = ws_card_id x then submit_card x c else c
      | EvSubmissionRejected x \<Rightarrow>
          if i = rs_card_id x then c\<lparr> card_last_submission_rejection := Some x \<rparr> else c
      | EvPullRequestLinked x \<Rightarrow> if i = pl_card_id x then link_card x c else c
      | EvPullRequestRelinked x \<Rightarrow> if i = prl_card_id x then relink_card x c else c
      | EvPullRequestMerged x \<Rightarrow> if i = pmg_card_id x then merge_card x c else c
      | _ \<Rightarrow> c)"

lemma workspace_mut_cards: "workspace_mut b i f = Inr b' \<Longrightarrow> wb_cards b' = wb_cards b"
  by (auto simp: workspace_mut_Inr)

lemma apply_card_created_lookup:
  "apply_card_created b e = Inr b' \<Longrightarrow> map_of (wb_cards b) i = Some c \<Longrightarrow> map_of (wb_cards b') i = Some c"
  by (auto simp: apply_card_created_def lane_push_card_def bt_contains_def
      split: if_splits option.splits)

lemma apply_review_requested_lookup:
  "apply_review_requested d b e = Inr b' \<Longrightarrow> map_of (wb_cards b) i = Some c \<Longrightarrow>
     map_of (wb_cards b') i = Some c"
  by (auto simp: apply_review_requested_def res_bind_eq_Inr Let_def
      dest: apply_card_created_lookup split: sum.splits if_splits)

lemma apply_event_card:
  assumes "apply_event d b e = Inr b'" "map_of (wb_cards b) i = Some c"
  shows "map_of (wb_cards b') i = Some (card_effect e i c)"
proof (cases e)
  case (EvSubmissionReviewRequested x)
  then show ?thesis
    using assms apply_review_requested_lookup by (simp add: card_effect_def)
next
  case (EvCardCreated x)
  then show ?thesis
    using assms apply_card_created_lookup by (simp add: card_effect_def)
qed (use assms in \<open>auto simp: card_effect_def card_mut_lookup apply_card_updated_def apply_card_claimed_def
      apply_claim_heartbeat_def apply_claim_released_def apply_card_state_changed_def
      apply_work_submitted_def apply_pull_request_linked_def apply_pull_request_relinked_def
      apply_pull_request_merged_def apply_submission_rejected_def apply_workspace_allocated_def
      apply_workspace_heartbeat_def apply_workspace_released_def apply_review_rejected_def
      apply_submission_reviewed_def board_handlers res_bind_eq_Inr repo_tracking_mut_def Let_def
      apply_git_commit_observed_def apply_git_branch_moved_def apply_git_dirty_state_changed_def
      apply_pull_request_check_suite_changed_def apply_pull_request_review_submitted_def
      apply_pull_request_merge_state_changed_def pr_entry_def
      dest: workspace_mut_cards split: sum.splits option.splits if_splits\<close>)

lemma renew_holder [simp]:
  "card_owner (renew_owner_lease p t c) = card_owner c"
  "card_claim_id (renew_owner_lease p t c) = card_claim_id c"
  using renew_owner_lease_cases [of p t c] by auto

lemma renew_submissions [simp]:
  "card_submissions (renew_owner_lease p t c) = card_submissions c"
  using renew_owner_lease_cases [of p t c] by auto

lemma submit_holder [simp]:
  "card_owner (submit_card e c) = card_owner c" "card_claim_id (submit_card e c) = card_claim_id c"
  by (auto simp: submit_card_def Let_def split: sum.splits)

lemma update_holder [simp]:
  "card_owner (update_card e c) = card_owner c" "card_claim_id (update_card e c) = card_claim_id c"
  by (auto simp: update_card_def select_claim_def Let_def split: option.splits)

text \<open>
  C29. A held card changes hands in three ways only: its claim is released by id; it is
  reopened; or it is claimed anew at or after the expiry of the current claim, and then,
  from the instant takeovers are on record, only by the holder herself unless the card is
  merged or closed. Every other event leaves the holder in place.
\<close>

theorem holder_changes:
  assumes "board_inv d b" "board_card b i = Some c" "card_owner c = Some p" "card_claim_id c = Some k"
    and "apply_event d b e = Inr b'" "board_card b' i = Some c'"
    and "(card_owner c', card_claim_id c') \<noteq> (Some p, Some k)"
  shows
    "(\<exists>r. e = EvClaimReleased r \<and> rel_card_id r = i \<and> rel_claim_id r = k \<and>
          card_owner c' = None \<and> card_claim_id c' = None) \<or>
     (\<exists>s. e = EvCardStateChanged s \<and> sc_card_id s = i \<and> sc_state s = CS_Open \<and>
          card_owner c' = None \<and> card_claim_id c' = None) \<or>
     (\<exists>cl expiry. e = EvCardClaimed cl \<and> cl_card_id cl = i \<and>
          card_claim_expires_at_ms c = Some expiry \<and> expiry \<le> cl_claimed_at_ms cl \<and>
          (cl_claimed_at_ms cl < TAKEOVER_ON_RECORD_SINCE_MS \<or> cl_owner cl = p \<or>
           card_state c = CS_Merged \<or> card_state c = CS_Closed) \<and>
          card_owner c' = Some (cl_owner cl) \<and> card_claim_id c' = Some (cl_claim_id cl))"
proof -
  have inv: "card_inv i c"
    using assms(1,2) by (auto simp: board_card_def intro: board_inv_card)
  have c': "c' = card_effect e i c"
    using apply_event_card [OF assms(5)] assms(2,6) by (simp add: board_card_def)
  have expiry: "\<exists>x. card_claim_expires_at_ms c = Some x"
    using inv assms(4) by (auto simp: card_inv_def claim_coherent_def)
  show ?thesis
  proof (cases e)
    case (EvCardClaimed cl)
    then show ?thesis
      using assms(3,4,7) c' expiry
      by (auto simp: card_effect_def claim_card_def not_le split: if_splits)
  qed (use assms(3,4,7) c' in \<open>auto simp: card_effect_def heartbeat_card_def release_card_def
        change_card_state_def link_card_def relink_card_def merge_card_def Let_def split: if_splits\<close>)
qed

theorem holder_changes_witness:
  "\<exists>b'. apply_event sample_deps sample_board (EvClaimReleased sample_release) = Inr b' \<and>
        board_card b' 1 = Some (release_card sample_release sample_card) \<and>
        card_owner (release_card sample_release sample_card) = None"
proof -
  obtain b' where b': "apply_event sample_deps sample_board (EvClaimReleased sample_release) = Inr b'"
      "board_card b' 1 = Some (release_card sample_release sample_card)"
    using sample_board_card
    by (simp add: apply_claim_released_def card_mut_def board_card_def sample_release_def)
  have "(card_owner (release_card sample_release sample_card),
         card_claim_id (release_card sample_release sample_card)) \<noteq> (Some 2, Some 3)"
    by (simp add: release_card_def sample_card_simps sample_release_def)
  from holder_changes [OF sample_board_inv sample_board_card sample_card_simps(2,3) b' this] b'
  show ?thesis by auto
qed

text \<open>
  The owner's own activity renews her lease and never shortens it; unless the sum
  saturates, a renewed lease runs for exactly the ttl the previous one had.
\<close>

theorem renew_never_shortens:
  assumes "card_claim_expires_at_ms c = Some expires" "card_last_heartbeat_at_ms c = Some beat"
    and "beat \<le> expires"
  shows "\<exists>expires' beat'.
    card_claim_expires_at_ms (renew_owner_lease actor t c) = Some expires' \<and>
    card_last_heartbeat_at_ms (renew_owner_lease actor t c) = Some beat' \<and>
    expires \<le> expires' \<and>
    (unat t + unat (expires - beat) < 2 ^ 64 \<longrightarrow> beat' \<le> expires' \<and> expires' - beat' = expires - beat)"
proof -
  have ttl: "saturating_sub expires beat = expires - beat"
    using assms(3) by (simp add: saturating_sub_def)
  from renew_owner_lease_cases [of actor t c] show ?thesis
  proof (elim disjE exE conjE)
    fix x y r
    assume x: "card_claim_expires_at_ms c = Some x" "card_last_heartbeat_at_ms c = Some y"
      "r = saturating_add t (saturating_sub x y)" "x < r"
      "renew_owner_lease actor t c =
         c\<lparr> card_claim_expires_at_ms := Some r, card_last_heartbeat_at_ms := Some t \<rparr>"
    then have r: "r = saturating_add t (expires - beat)" "expires \<le> r"
      using assms ttl by auto
    have "t \<le> r \<and> r - t = expires - beat" if "unat t + unat (expires - beat) < 2 ^ 64"
      using that saturating_add_ge1 [of t "expires - beat"] by (simp add: r(1) saturating_add_def)
    then show ?thesis using x(5) r(2) by simp
  qed (use assms in simp)
qed

theorem renew_never_shortens_witness:
  "\<exists>x. card_claim_expires_at_ms (renew_owner_lease 2 50 sample_card) = Some x \<and> 120 \<le> x"
proof -
  have "(20 :: u64) \<le> 120" by simp
  from renew_never_shortens [OF sample_card_simps(4,5) this, of 2 50]
  show ?thesis by blast
qed

text \<open>
  C39. The expiry a granted claim records is the sum of its instant and its ttl only while
  that sum fits in 64 bits; otherwise the unchecked addition wraps, the recorded expiry lies
  before the claim itself, and the claim is reported stale at the instant it is made.
\<close>

theorem claim_expiry_wraps:
  assumes "claim_card e c \<noteq> c" "card_state c \<noteq> CS_Merged" "card_state c \<noteq> CS_Closed"
  shows "\<exists>x. card_claim_expires_at_ms (claim_card e c) = Some x \<and>
    (if unat (cl_claimed_at_ms e) + unat (cl_ttl_ms e) < 2 ^ 64
     then unat x = unat (cl_claimed_at_ms e) + unat (cl_ttl_ms e)
     else x < cl_claimed_at_ms e \<and> stale_claim_of (cl_claimed_at_ms e) (claim_card e c) \<noteq> None)"
proof -
  have granted: "card_claim_expires_at_ms (claim_card e c) = Some (cl_claimed_at_ms e + cl_ttl_ms e)"
      "card_owner (claim_card e c) = Some (cl_owner e)" "card_claim_id (claim_card e c) = Some (cl_claim_id e)"
    using assms(1) by (auto simp: claim_card_def split: if_splits)
  let ?a = "cl_claimed_at_ms e" and ?t = "cl_ttl_ms e"
  have "?a + ?t < ?a" if "\<not> unat ?a + unat ?t < 2 ^ 64"
    by (rule add_wraps_less) (use that in simp)
  moreover have "unat (?a + ?t) = unat ?a + unat ?t" if "unat ?a + unat ?t < 2 ^ 64"
    by (rule unat_add_fits) (use that in simp)
  ultimately show ?thesis
    using granted
    by (cases "unat ?a + unat ?t < 2 ^ 64") (auto simp: stale_claim_of_def dest: less_imp_le)
qed

theorem claim_expiry_wraps_witness:
  "card_claim_expires_at_ms (claim_card (sample_claimed\<lparr> cl_ttl_ms := - 10 \<rparr>)
     (card_of_created sample_created)) = Some 10 \<and> (10 :: u64) < 20"
  using claim_expiry_wraps [of "sample_claimed\<lparr> cl_ttl_ms := - 10 \<rparr>" "card_of_created sample_created"]
  by (simp add: claim_card_def card_of_created_def sample_defs)

section \<open>Submissions\<close>

lemma bt_insert_same: "bt_wf m \<Longrightarrow> map_of m k = Some v \<Longrightarrow> bt_insert k v m = m"
  by (rule bt_wf_ext) auto

lemma card_mut_noop:
  assumes "board_inv d b" "map_of (wb_cards b) i = Some c" "f c = c"
  shows "card_mut b i f = Inr b"
proof -
  have "bt_wf (wb_cards b)"
    using assms(1) by (auto simp: board_inv_def cards_inv_def dest: keyed_wf)
  then show ?thesis
    using assms(2,3) by (simp add: card_mut_def bt_insert_same)
qed

text \<open>
  A submission, once accepted, is idempotent for ever: after any further events that
  replay accepts, a retry of the same candidate (whatever instant the retry carries) leaves
  the board exactly as it is, so the first publication time stands.
\<close>

theorem submission_retry_noop:
  assumes "board_inv d b" "apply_work_submitted b e = Inr b1"
    and "board_card b1 (ws_card_id e) = Some c" "e \<in> set (card_submissions c)"
    and "run_steps (apply_event d) b1 later = Inr b2" "same_candidate e retry"
  shows "apply_work_submitted b2 retry = Inr b2"
proof -
  have inv1: "board_inv d b1"
    using assms(1) board_step_apply [of d b "EvWorkSubmitted e" b1] assms(2)
    by (simp add: board_step_def)
  then have inv2: "board_inv d b2" and "board_keeps b1 b2"
    using assms(5) replay_sys.run_inv replay_sys.run_keeps by blast+
  then obtain c2 where c2: "map_of (wb_cards b2) (ws_card_id e) = Some c2" "card_keeps c c2"
    using assms(3) by (auto simp: board_keeps_def board_card_def elim: cards_keepE)
  then have "e \<in> set (card_submissions c2)"
    using assms(4) by (auto simp: card_keeps_def dest: set_mono_suffix)
  then have "submit_card retry c2 = c2"
    using assms(6) by (auto simp: submit_card_def)
  moreover have "ws_card_id retry = ws_card_id e"
    using assms(6) by (simp add: same_candidate_def)
  ultimately show ?thesis
    using card_mut_noop [OF inv2] c2(1) by (simp add: apply_work_submitted_def)
qed

lemma sample_submission_valid: "validate_for_card sample_submission sample_card = Inr ()"
proof -
  have "validate_submission sample_submission = Inr ()"
    by code_simp
  then show ?thesis
    by (simp add: validate_for_card_def sample_card_simps) (simp add: sample_submission_def)
qed

lemma sample_submit:
  obtains b1 c where "apply_work_submitted sample_board sample_submission = Inr b1"
    "board_card b1 (ws_card_id sample_submission) = Some c" "sample_submission \<in> set (card_submissions c)"
proof -
  have i: "ws_card_id sample_submission = 1"
    by (simp add: sample_submission_def)
  have c: "map_of (wb_cards sample_board) 1 = Some sample_card"
    using sample_board_card by (simp add: board_card_def)
  then obtain b1 where b1: "apply_work_submitted sample_board sample_submission = Inr b1"
    by (auto simp: apply_work_submitted_def card_mut_def i)
  moreover have "board_card b1 1 = Some (submit_card sample_submission sample_card)"
    using b1 card_mut_lookup [OF _ c] by (simp add: apply_work_submitted_def board_card_def i)
  moreover have "sample_submission \<in> set (card_submissions (submit_card sample_submission sample_card))"
    by (rule submit_cases [of sample_card sample_submission])
      (auto simp: sample_card_simps sample_submission_valid)
  ultimately show ?thesis
    using that i by simp
qed

theorem submission_retry_noop_witness:
  "\<exists>b1. apply_work_submitted sample_board sample_submission = Inr b1 \<and>
        apply_work_submitted b1 (sample_submission\<lparr> ws_submitted_at_ms := 99 \<rparr>) = Inr b1"
proof -
  obtain b1 c where b1: "apply_work_submitted sample_board sample_submission = Inr b1"
      "board_card b1 (ws_card_id sample_submission) = Some c" "sample_submission \<in> set (card_submissions c)"
    by (rule sample_submit)
  from submission_retry_noop [OF sample_board_inv [of sample_deps] b1, of "[]" b1
      "sample_submission\<lparr> ws_submitted_at_ms := 99 \<rparr>"]
  show ?thesis
    using b1(1) by (simp add: same_candidate_def)
qed

section \<open>Reviews\<close>

lemma is_settled_iff: "is_settled st \<longleftrightarrow> st \<in> {CS_Review, CS_Merged, CS_Closed}"
  by (cases st) (simp_all add: is_settled_def)

lemma review_admission_cases:
  assumes "submission_review b (wr_review_id r) = None"
    and "board_card b (wr_card_id r) = Some p"
    and "find (\<lambda>x. ws_submission_id x = wr_submission_id r) (card_submissions p) = Some s"
    and "board_card b (wr_review_card_id r) = Some c"
  shows "validate_review_for_board d r b = Inr () \<longleftrightarrow>
     validate_review d r = Inr () \<and> wr_artifact r = ws_artifact s \<and>
     card_reviews c = Some (wr_card_id r) \<and> card_repo c = card_repo p \<and>
     (\<forall>q. review_request b (wr_review_card_id r) = Some q \<longrightarrow>
          srr_submission_id q = wr_submission_id r) \<and>
     card_owner c = Some (wr_reviewer r) \<and> card_claim_id c = Some (wr_review_claim_id r) \<and>
     card_state c \<notin> {CS_Review, CS_Merged, CS_Closed} \<and>
     (\<exists>expiry. card_claim_expires_at_ms c = Some expiry \<and> wr_reviewed_at_ms r < expiry)"
  using assms
  by (cases "validate_review d r"; cases "card_claim_expires_at_ms c";
      cases "review_request b (wr_review_card_id r)")
    (auto simp: validate_review_for_board_def is_settled_iff not_le)

text \<open>
  A verdict with a new id enters the board exactly when its evidence is well-formed, it
  judges the artifact of a submission the parent card holds, and it comes from the holder of
  a live, unsettled claim on a card that reviews this parent in the same repository and is
  bound to no other submission. Otherwise a rejection is recorded for the parent, and in
  neither case is any other verdict touched.
\<close>

theorem review_admission:
  assumes "submission_review b (wr_review_id r) = None"
  shows "submission_review (apply_submission_reviewed d b r) =
     (if validate_review d r = Inr () \<and>
         (\<exists>p s c expiry. board_card b (wr_card_id r) = Some p \<and>
            find (\<lambda>x. ws_submission_id x = wr_submission_id r) (card_submissions p) = Some s \<and>
            wr_artifact r = ws_artifact s \<and>
            board_card b (wr_review_card_id r) = Some c \<and> card_reviews c = Some (wr_card_id r) \<and>
            card_repo c = card_repo p \<and>
            (\<forall>q. review_request b (wr_review_card_id r) = Some q \<longrightarrow>
                 srr_submission_id q = wr_submission_id r) \<and>
            card_owner c = Some (wr_reviewer r) \<and> card_claim_id c = Some (wr_review_claim_id r) \<and>
            card_state c \<notin> {CS_Review, CS_Merged, CS_Closed} \<and>
            card_claim_expires_at_ms c = Some expiry \<and> wr_reviewed_at_ms r < expiry)
      then (submission_review b)(wr_review_id r \<mapsto> r)
      else submission_review b)"
    (is "_ = (if ?ok then _ else _)")
proof -
  have "validate_review_for_board d r b = Inr () \<longleftrightarrow> ?ok"
  proof (cases "board_card b (wr_card_id r)")
    case None
    then show ?thesis
      using assms by (cases "validate_review d r") (simp_all add: validate_review_for_board_def)
  next
    case p: (Some p)
    show ?thesis
    proof (cases "find (\<lambda>x. ws_submission_id x = wr_submission_id r) (card_submissions p)")
      case None
      then show ?thesis
        using assms p by (cases "validate_review d r") (simp_all add: validate_review_for_board_def)
    next
      case s: (Some s)
      show ?thesis
      proof (cases "board_card b (wr_review_card_id r)")
        case None
        then show ?thesis
          using assms p s by (cases "validate_review d r") (simp_all add: validate_review_for_board_def)
      next
        case c: (Some c)
        show ?thesis
          unfolding review_admission_cases [OF assms p s c] p c using s by auto
      qed
    qed
  qed
  moreover have "submission_review (apply_submission_reviewed d b r) =
      (if validate_review_for_board d r b = Inr () then (submission_review b)(wr_review_id r \<mapsto> r)
       else submission_review b)"
    using assms
    by (cases "validate_review_for_board d r b")
      (auto simp: apply_submission_reviewed_def submission_review_def fun_eq_iff)
  ultimately show ?thesis by simp
qed

theorem review_admission_witness:
  "submission_review (apply_submission_reviewed sample_deps sample_review_board sample_review) 20 =
     Some sample_review"
proof -
  have none: "submission_review sample_review_board (wr_review_id sample_review) = None"
    by (simp add: submission_review_def sample_review_board_def board_new_def)
  show ?thesis
    unfolding review_admission [OF none]
    by (simp add: board_card_def review_request_def sample_review_board_def sample_review_def
        board_new_def validate_review_def claim_card_def card_of_created_def sample_card_def sample_defs)
qed

section \<open>Reading the board\<close>

lemma set_map_filter_iff: "y \<in> set (List.map_filter f xs) \<longleftrightarrow> (\<exists>x \<in> set xs. f x = Some y)"
  by (force simp: List.map_filter_def)

lemma stale_claim_of_Some:
  "stale_claim_of now c = Some st \<longleftrightarrow>
     card_id c = st_card_id st \<and> card_owner c = Some (st_owner st) \<and>
     card_claim_id c = Some (st_claim_id st) \<and>
     card_claim_expires_at_ms c = Some (st_expired_at_ms st) \<and> st_expired_at_ms st \<le> now"
  by (cases st) (auto simp: stale_claim_of_def split: option.splits)

lemma map_map_filter_sub:
  assumes "\<And>x y. f x = Some y \<Longrightarrow> g y = h x"
  shows "map g (List.map_filter f xs) = map h (filter (\<lambda>x. f x \<noteq> None) xs)"
  using assms by (induction xs) (auto simp: List.map_filter_def)

lemma card_ids_of_values: "board_inv d b \<Longrightarrow> map card_id (bt_values (wb_cards b)) = bt_keys (wb_cards b)"
  by (auto simp: bt_values_def bt_keys_def board_inv_def cards_inv_def keyed_def card_inv_def
      bt_wf_in_set [symmetric])

text \<open>
  The stale-claim report is exact: it names a claim precisely when some card that is
  neither merged nor closed holds it and its expiry has passed, and it names each card at
  most once.
\<close>

theorem stale_claims_exact:
  assumes "board_inv d b"
  shows "distinct (map st_card_id (stale_claims b now)) \<and>
    (st \<in> set (stale_claims b now) \<longleftrightarrow>
     (\<exists>c. board_card b (st_card_id st) = Some c \<and> card_state c \<noteq> CS_Merged \<and> card_state c \<noteq> CS_Closed \<and>
        card_owner c = Some (st_owner st) \<and> card_claim_id c = Some (st_claim_id st) \<and>
        card_claim_expires_at_ms c = Some (st_expired_at_ms st) \<and> st_expired_at_ms st \<le> now))"
proof
  have wf: "bt_wf (wb_cards b)" and inv: "\<And>i c. map_of (wb_cards b) i = Some c \<Longrightarrow> card_id c = i"
    using assms by (auto simp: board_inv_def cards_inv_def keyed_def card_inv_def)
  have "map st_card_id (stale_claims b now) = map card_id (filter (\<lambda>c. stale_claim_of now c \<noteq> None)
      (filter (\<lambda>c. card_state c \<notin> {CS_Merged, CS_Closed}) (bt_values (wb_cards b))))"
    unfolding stale_claims_def by (rule map_map_filter_sub) (simp add: stale_claim_of_Some)
  moreover have "distinct (map card_id (bt_values (wb_cards b)))"
    using wf by (simp add: card_ids_of_values [OF assms] bt_keys_def bt_wf_distinct)
  ultimately show "distinct (map st_card_id (stale_claims b now))"
    by (simp add: distinct_map_filter)
  show "st \<in> set (stale_claims b now) \<longleftrightarrow>
     (\<exists>c. board_card b (st_card_id st) = Some c \<and> card_state c \<noteq> CS_Merged \<and> card_state c \<noteq> CS_Closed \<and>
        card_owner c = Some (st_owner st) \<and> card_claim_id c = Some (st_claim_id st) \<and>
        card_claim_expires_at_ms c = Some (st_expired_at_ms st) \<and> st_expired_at_ms st \<le> now)"
    using inv
    by (auto simp: stale_claims_def set_map_filter_iff stale_claim_of_Some in_bt_values [OF wf]
        board_card_def)
qed

theorem stale_claims_exact_witness:
  "\<lparr> st_card_id = 1, st_claim_id = 3, st_owner = 2, st_expired_at_ms = 120 \<rparr>
     \<in> set (stale_claims sample_board 120)"
  using stale_claims_exact [OF sample_board_inv [of sample_deps],
      of 120 "\<lparr> st_card_id = 1, st_claim_id = 3, st_owner = 2, st_expired_at_ms = 120 \<rparr>"]
  by (simp add: sample_board_card sample_card_simps)

lemma pull_request_key_inject:
  "pull_request_key r n = pull_request_key r' n' \<longleftrightarrow> r = r' \<and> n = n'"
proof -
  have digits: "CHR ''#'' \<notin> set (show_u64 m)" for m
    using show_u64_digits [of "CHR ''#''" m] by (auto simp: byte_of_def)
  show ?thesis
    using split_at_last [of r "CHR ''#''" "show_u64 n" r' "show_u64 n'"] digits
    by (auto simp: pull_request_key_def show_u64_inject)
qed

text \<open>
  Pull-request records are kept apart by repository and number (the text key that
  joins them is injective): a merge-state observation updates the merge state of exactly the
  pull request it names, creating the record if there is none, keeps the check and review
  states earlier observations reported, and leaves every other record as it was.
\<close>

theorem pull_request_observation:
  "board_pull_request (apply_pull_request_merge_state_changed b e) repo n =
     (if repo = pr_repo (pms_pull_request e) \<and> n = pr_number (pms_pull_request e)
      then Some (case board_pull_request b repo n of
          None \<Rightarrow> \<lparr> prr_pull_request = pms_pull_request e, prr_check_state = None,
                    prr_review_state = None, prr_merge_state = Some (pms_state e),
                    prr_updated_at_ms = pms_changed_at_ms e \<rparr>
        | Some r \<Rightarrow> \<lparr> prr_pull_request = pms_pull_request e, prr_check_state = prr_check_state r,
                    prr_review_state = prr_review_state r, prr_merge_state = Some (pms_state e),
                    prr_updated_at_ms = pms_changed_at_ms e \<rparr>)
      else board_pull_request b repo n)"
  by (auto simp: board_pull_request_def apply_pull_request_merge_state_changed_def pr_entry_def Let_def
      pull_request_key_inject pr_apply_merge_def pr_from_merge_def split: option.splits)

end
