(* ===== verification/Work_Drain.thy ===== *)
theory Work_Drain
  imports Work_Model
begin

text \<open>
  The drain policy (\<open>airc-work/src/drain_policy.rs\<close>): a pure decision on whether a leased
  worktree may be deleted, from the lease, the clock and what is known of git and of the
  pull request.
\<close>

datatype pr_terminal_state = PT_Merged | PT_Closed

datatype admit_reason =
  AR_Released
| AR_Orphaned
| AR_HeartbeatExpired u64 u64
| AR_PrTerminal pr_terminal_state
| AR_BranchLandedClean

datatype report_only_reason =
  RO_Failed
| RO_DirtyWorkingTree nat
| RO_PrOpen u64
| RO_BranchNotLanded
| RO_NoAdmitRule

datatype drain_decision =
  DD_Admit admit_reason
| DD_ReportOnly report_only_reason
| DD_Keep

record policy_config =
  pc_heartbeat_stale_ms :: u64

definition DEFAULT_HEARTBEAT_STALE_MS :: u64 where
  "DEFAULT_HEARTBEAT_STALE_MS = 24 * 60 * 60 * 1000"

definition policy_config_default :: policy_config where
  "policy_config_default = \<lparr> pc_heartbeat_stale_ms = DEFAULT_HEARTBEAT_STALE_MS \<rparr>"

record git_status_summary =
  gs_dirty_paths :: nat
  gs_branch_merged_to_base :: bool

datatype pr_status = PS_Open u64 | PS_Merged u64 | PS_Closed u64 | PS_NotFound

record policy_inputs =
  pi_now_ms :: u64
  pi_git :: "git_status_summary option"
  pi_pr :: "pr_status option"
  pi_config :: policy_config

definition evaluate_git :: "git_status_summary option \<Rightarrow> drain_decision" where
  "evaluate_git git =
     (case git of
        Some g \<Rightarrow>
          if 0 < gs_dirty_paths g then DD_ReportOnly (RO_DirtyWorkingTree (gs_dirty_paths g))
          else if gs_branch_merged_to_base g then DD_Admit AR_BranchLandedClean
          else DD_ReportOnly RO_BranchNotLanded
      | None \<Rightarrow> DD_ReportOnly RO_NoAdmitRule)"

definition evaluate_live :: "workspace_lease \<Rightarrow> policy_inputs \<Rightarrow> drain_decision" where
  "evaluate_live lease inputs =
     (let age = saturating_sub (pi_now_ms inputs) (wl_heartbeat_at_ms lease);
          stale = pc_heartbeat_stale_ms (pi_config inputs) in
      if stale < age then DD_Admit (AR_HeartbeatExpired age stale)
      else case pi_pr inputs of
        Some (PS_Merged _) \<Rightarrow> DD_Admit (AR_PrTerminal PT_Merged)
      | Some (PS_Closed _) \<Rightarrow> DD_Admit (AR_PrTerminal PT_Closed)
      | Some (PS_Open number) \<Rightarrow> DD_ReportOnly (RO_PrOpen number)
      | Some PS_NotFound \<Rightarrow> evaluate_git (pi_git inputs)
      | None \<Rightarrow> evaluate_git (pi_git inputs))"

definition evaluate_drain :: "workspace_lease \<Rightarrow> policy_inputs \<Rightarrow> drain_decision" where
  "evaluate_drain lease inputs =
     (case wl_status lease of
        WS_Released \<Rightarrow> DD_Admit AR_Released
      | WS_Orphaned \<Rightarrow> DD_Admit AR_Orphaned
      | WS_Failed \<Rightarrow> DD_ReportOnly RO_Failed
      | WS_Requested \<Rightarrow> DD_Keep
      | WS_Allocated \<Rightarrow> evaluate_live lease inputs
      | WS_Active \<Rightarrow> evaluate_live lease inputs)"

text \<open>
  When the policy admits deletion: the owner released the lease or it was orphaned; or
  the worktree is live and its heartbeat is older than the threshold (never so under a clock
  that runs behind the heartbeat), or its pull request is merged or closed, or no pull
  request is known and git reports a clean tree whose branch has landed. In every other case
  the worktree is kept or only reported; a dirty tree in particular is admitted only through
  release, orphaning, staleness or a terminal pull request.
\<close>

theorem drain_admits_iff:
  "(\<exists>r. evaluate_drain lease inputs = DD_Admit r) \<longleftrightarrow>
     wl_status lease \<in> {WS_Released, WS_Orphaned} \<or>
     wl_status lease \<in> {WS_Allocated, WS_Active} \<and>
     (unat (wl_heartbeat_at_ms lease) + unat (pc_heartbeat_stale_ms (pi_config inputs))
        < unat (pi_now_ms inputs) \<or>
      (\<exists>n. pi_pr inputs = Some (PS_Merged n) \<or> pi_pr inputs = Some (PS_Closed n)) \<or>
      (pi_pr inputs = None \<or> pi_pr inputs = Some PS_NotFound) \<and>
      (\<exists>g. pi_git inputs = Some g \<and> gs_dirty_paths g = 0 \<and> gs_branch_merged_to_base g))"
proof -
  have stale: "pc_heartbeat_stale_ms (pi_config inputs)
      < saturating_sub (pi_now_ms inputs) (wl_heartbeat_at_ms lease) \<longleftrightarrow>
    unat (wl_heartbeat_at_ms lease) + unat (pc_heartbeat_stale_ms (pi_config inputs))
      < unat (pi_now_ms inputs)"
    by (simp add: word_less_nat_alt unat_saturating_sub less_diff_conv add.commute)
  have live: "(\<exists>r. evaluate_live lease inputs = DD_Admit r) \<longleftrightarrow>
      unat (wl_heartbeat_at_ms lease) + unat (pc_heartbeat_stale_ms (pi_config inputs))
        < unat (pi_now_ms inputs) \<or>
      (\<exists>n. pi_pr inputs = Some (PS_Merged n) \<or> pi_pr inputs = Some (PS_Closed n)) \<or>
      (pi_pr inputs = None \<or> pi_pr inputs = Some PS_NotFound) \<and>
      (\<exists>g. pi_git inputs = Some g \<and> gs_dirty_paths g = 0 \<and> gs_branch_merged_to_base g)"
    by (auto simp: evaluate_live_def evaluate_git_def Let_def stale
        split: option.splits pr_status.splits)
  show ?thesis
    by (cases "wl_status lease") (simp_all add: evaluate_drain_def live)
qed

end
