(* ===== verification/Core_Headers.thy ===== *)
theory Core_Headers
  imports Rust_Str "HOL-Library.Sublist"
begin

text \<open>
  Envelope headers and the predicates subscriptions place on them
  (\<open>airc-core/src/headers.rs\<close>). \<open>HeaderView\<close> is a \<open>HashMap\<close> built from the header map;
  its iteration order is never read, so it is the association list the builder collects.
\<close>

type_synonym headers = "(string, string) btree"

definition HEADER_AIRC_CLIENT :: string where
  "HEADER_AIRC_CLIENT = ''airc.client''"

datatype header_filter =
  HF_Any
| HF_Exact string string
| HF_Prefix string string
| HF_All "header_filter list"
| HF_AnyOf "header_filter list"
| HF_Has string
| HF_Not header_filter

fun filter_matches :: "header_filter \<Rightarrow> headers \<Rightarrow> bool" where
  "filter_matches HF_Any h = True"
| "filter_matches (HF_Exact key value) h = (map_of h key = Some value)"
| "filter_matches (HF_Prefix key value_prefix) h =
     is_some_and (map_of h key) (\<lambda>value. prefix value_prefix value)"
| "filter_matches (HF_All filters) h = list_all (\<lambda>f. filter_matches f h) filters"
| "filter_matches (HF_AnyOf filters) h = list_ex (\<lambda>f. filter_matches f h) filters"
| "filter_matches (HF_Has key) h = (map_of h key \<noteq> None)"
| "filter_matches (HF_Not inner) h = (\<not> filter_matches inner h)"

text \<open>\<open>collect\<close> into a \<open>HashMap\<close> inserts pairs in order, a later pair replacing an earlier.\<close>

definition header_view_build :: "headers \<Rightarrow> (string \<times> string) list" where
  "header_view_build h = fold (\<lambda>(k, v) view. (k, v) # filter (\<lambda>e. fst e \<noteq> k) view) h []"

definition header_view_get :: "(string \<times> string) list \<Rightarrow> string \<Rightarrow> string option" where
  "header_view_get view key = map_of view key"

fun matches_view :: "header_filter \<Rightarrow> (string \<times> string) list \<Rightarrow> bool" where
  "matches_view HF_Any view = True"
| "matches_view (HF_Exact key value) view = (header_view_get view key = Some value)"
| "matches_view (HF_Prefix key value_prefix) view =
     is_some_and (header_view_get view key) (\<lambda>value. prefix value_prefix value)"
| "matches_view (HF_All filters) view = list_all (\<lambda>f. matches_view f view) filters"
| "matches_view (HF_AnyOf filters) view = list_ex (\<lambda>f. matches_view f view) filters"
| "matches_view (HF_Has key) view = (header_view_get view key \<noteq> None)"
| "matches_view (HF_Not inner) view = (\<not> matches_view inner view)"

lemma map_of_filter_other: "map_of (filter (\<lambda>e. fst e \<noteq> k) m) = (map_of m)(k := None)"
  by (induction m) (auto simp: fun_eq_iff)

lemma header_view_fold:
  "map_of (fold (\<lambda>(k, v) view. (k, v) # filter (\<lambda>e. fst e \<noteq> k) view) h acc) =
     map_of acc ++ map_of (rev h)"
proof (induction h arbitrary: acc)
  case (Cons e h)
  obtain k v where e: "e = (k, v)" by (cases e)
  have "map_of ((k, v) # filter (\<lambda>e. fst e \<noteq> k) acc) = (map_of acc)(k \<mapsto> v)"
    by (simp add: map_of_filter_other fun_eq_iff)
  then show ?case
    by (simp add: e Cons.IH map_add_def fun_eq_iff split: option.splits)
qed simp

lemma header_view_lookup: "bt_wf h \<Longrightarrow> header_view_get (header_view_build h) = map_of h"
proof -
  assume "bt_wf h"
  then have "map_of (rev h) = map_of h"
    by (intro map_of_eqI) (auto simp: bt_wf_distinct rev_map [symmetric] map_of_eq_None_iff
        dest: bt_wf_distinct)
  then show ?thesis
    by (simp add: header_view_build_def header_view_get_def header_view_fold fun_eq_iff)
qed

text \<open>
  The fan-out path decides exactly as the one-shot path: matching a filter against the
  view built from the headers accepts the same envelopes as matching it against the headers.
\<close>

theorem matches_view_agrees:
  assumes "bt_wf h"
  shows "matches_view f (header_view_build h) = filter_matches f h"
  by (induction f) (auto simp: header_view_lookup [OF assms] list_all_iff list_ex_iff)

theorem matches_view_agrees_witness:
  "matches_view (HF_Not (HF_Has ''airc.heartbeat'')) (header_view_build [(''forge.body_hint'', ''x'')])"
  using matches_view_agrees [of "[(''forge.body_hint'', ''x'')]" "HF_Not (HF_Has ''airc.heartbeat'')"]
  by (simp add: bt_wf_def)

end
