(* ===== verification/Core_Transcript.thy ===== *)
theory Core_Transcript
  imports Core_Headers
begin

text \<open>
  Transcript events, their cursors and pages, and the self-echo rules
  (\<open>airc-core/src/transcript.rs\<close>, \<open>body.rs\<close>, \<open>cursor.rs\<close>, \<open>filter.rs\<close>, \<open>receipt.rs\<close>,
  \<open>attachment.rs\<close>). \<open>json\<close> is the value type of the JSON crate, with numbers left as their
  text. Rust's \<open>sort_by\<close> is stable, as \<open>sort_key\<close> is.
\<close>

section \<open>Data\<close>

type_synonym event_id = uuid
type_synonym room_id = uuid
type_synonym client_id = uuid
type_synonym file_id = uuid

datatype json =
  JNull
| JBool bool
| JNumber string
| JString string
| JArray "json list"
| JObject "(string \<times> json) list"

datatype body = BodyJson json | BodyBinary "8 word list"

definition json_get :: "json \<Rightarrow> string \<Rightarrow> json option" where
  "json_get j key = (case j of JObject m \<Rightarrow> map_of m key | _ \<Rightarrow> None)"

definition json_as_str :: "json \<Rightarrow> string option" where
  "json_as_str j = (case j of JString s \<Rightarrow> Some s | _ \<Rightarrow> None)"

definition body_text :: "string \<Rightarrow> body" where
  "body_text s = BodyJson (JObject [(''text'', JString s)])"

definition body_as_text :: "body \<Rightarrow> string option" where
  "body_as_text b =
     (case b of
        BodyJson (JObject m) \<Rightarrow> Option.bind (map_of m ''text'') json_as_str
      | BodyJson (JString s) \<Rightarrow> Some s
      | _ \<Rightarrow> None)"

datatype receipt_kind = RK_Delivered | RK_Read | RK_Applied

record receipt =
  rc_event_id :: event_id
  rc_peer_id :: uuid
  rc_client_id :: client_id
  rc_kind :: receipt_kind
  rc_received_at_ms :: u64

record attachment_manifest =
  am_file_id :: file_id
  am_name :: string
  am_media_type :: "string option"
  am_size_bytes :: u64
  am_content_hash :: string
  am_local_path :: "string option"
  am_remote_ref :: "string option"

datatype transcript_kind =
  TK_Message | TK_Command | TK_CommandResult | TK_Attachment | TK_Receipt | TK_Presence
| TK_SessionControl | TK_System | TK_PeerArrived | TK_PeerDeparted | TK_WireEstablished
| TK_WireLost | TK_RoomJoined | TK_RoomParted | TK_SubscriptionAdvanced | TK_IdentityPublished
| TK_DoctrinePublished | TK_WallPostPublished | TK_ChannelPurposePublished

definition is_lifecycle :: "transcript_kind \<Rightarrow> bool" where
  "is_lifecycle k \<longleftrightarrow>
     k \<in> {TK_PeerArrived, TK_PeerDeparted, TK_WireEstablished, TK_WireLost, TK_RoomJoined,
          TK_RoomParted, TK_SubscriptionAdvanced, TK_IdentityPublished, TK_DoctrinePublished,
          TK_WallPostPublished, TK_ChannelPurposePublished}"

primrec as_wire_str :: "transcript_kind \<Rightarrow> string" where
  "as_wire_str TK_Message = ''message''"
| "as_wire_str TK_Attachment = ''attachment''"
| "as_wire_str TK_Receipt = ''receipt''"
| "as_wire_str TK_Presence = ''presence''"
| "as_wire_str TK_SessionControl = ''session_control''"
| "as_wire_str TK_System = ''system''"
| "as_wire_str TK_Command = ''command''"
| "as_wire_str TK_CommandResult = ''command_result''"
| "as_wire_str TK_PeerArrived = ''peer_arrived''"
| "as_wire_str TK_PeerDeparted = ''peer_departed''"
| "as_wire_str TK_WireEstablished = ''wire_established''"
| "as_wire_str TK_WireLost = ''wire_lost''"
| "as_wire_str TK_RoomJoined = ''room_joined''"
| "as_wire_str TK_RoomParted = ''room_parted''"
| "as_wire_str TK_SubscriptionAdvanced = ''subscription_advanced''"
| "as_wire_str TK_IdentityPublished = ''identity_published''"
| "as_wire_str TK_DoctrinePublished = ''doctrine_published''"
| "as_wire_str TK_WallPostPublished = ''wall_post_published''"
| "as_wire_str TK_ChannelPurposePublished = ''channel_purpose_published''"

definition from_wire_str :: "string \<Rightarrow> transcript_kind option" where
  "from_wire_str s =
     (if s = ''message'' then Some TK_Message
      else if s = ''command'' then Some TK_Command
      else if s = ''command_result'' then Some TK_CommandResult
      else if s = ''attachment'' then Some TK_Attachment
      else if s = ''receipt'' then Some TK_Receipt
      else if s = ''presence'' then Some TK_Presence
      else if s = ''session_control'' then Some TK_SessionControl
      else if s = ''system'' then Some TK_System
      else if s = ''peer_arrived'' then Some TK_PeerArrived
      else if s = ''peer_departed'' then Some TK_PeerDeparted
      else if s = ''wire_established'' then Some TK_WireEstablished
      else if s = ''wire_lost'' then Some TK_WireLost
      else if s = ''room_joined'' then Some TK_RoomJoined
      else if s = ''room_parted'' then Some TK_RoomParted
      else if s = ''subscription_advanced'' then Some TK_SubscriptionAdvanced
      else if s = ''identity_published'' then Some TK_IdentityPublished
      else if s = ''doctrine_published'' then Some TK_DoctrinePublished
      else if s = ''wall_post_published'' then Some TK_WallPostPublished
      else if s = ''channel_purpose_published'' then Some TK_ChannelPurposePublished
      else None)"

datatype mention_target = MT_All | MT_Peer uuid | MT_Room room_id

record transcript_event =
  te_event_id :: event_id
  te_room_id :: room_id
  te_peer_id :: uuid
  te_client_id :: client_id
  te_kind :: transcript_kind
  te_occurred_at_ms :: u64
  te_lamport :: u64
  te_target :: mention_target
  te_headers :: headers
  te_body :: "body option"
  te_attachment :: "attachment_manifest option"
  te_receipt :: "receipt option"
  te_metadata :: json

section \<open>Cursors and pages\<close>

record transcript_cursor =
  tc_lamport :: u64
  tc_event_id :: event_id

record transcript_page =
  tp_room_id :: room_id
  tp_events :: "transcript_event list"
  tp_newer :: "transcript_cursor option"
  tp_older :: "transcript_cursor option"

definition event_cursor :: "transcript_event \<Rightarrow> transcript_cursor" where
  "event_cursor e = \<lparr> tc_lamport = te_lamport e, tc_event_id = te_event_id e \<rparr>"

definition cursor_before :: "transcript_cursor \<Rightarrow> transcript_cursor \<Rightarrow> bool" where
  "cursor_before left right \<longleftrightarrow>
     tc_lamport left < tc_lamport right \<or>
     tc_lamport left = tc_lamport right \<and> tc_event_id left < tc_event_id right"

text \<open>\<open>event_order\<close> compares lamport first and the event id second.\<close>

definition event_order :: "transcript_event \<Rightarrow> u64 \<times> event_id" where
  "event_order e = (te_lamport e, te_event_id e)"

definition last_opt :: "'a list \<Rightarrow> 'a option" where
  "last_opt xs = (if xs = [] then None else Some (last xs))"

definition first_opt :: "'a list \<Rightarrow> 'a option" where
  "first_opt xs = (if xs = [] then None else Some (hd xs))"

definition page_for :: "room_id \<Rightarrow> transcript_event list \<Rightarrow> transcript_page" where
  "page_for room events =
     \<lparr> tp_room_id = room, tp_events = events, tp_newer = map_option event_cursor (last_opt events),
       tp_older = map_option event_cursor (first_opt events) \<rparr>"

definition newest_slice :: "nat \<Rightarrow> 'a list \<Rightarrow> 'a list" where
  "newest_slice limit xs = (if limit < length xs then drop (length xs - limit) xs else xs)"

definition page_recent :: "room_id \<Rightarrow> transcript_event list \<Rightarrow> nat \<Rightarrow> transcript_page" where
  "page_recent room events limit = page_for room (newest_slice limit (sort_key event_order events))"

definition page_before ::
  "room_id \<Rightarrow> transcript_event list \<Rightarrow> transcript_cursor \<Rightarrow> nat \<Rightarrow> transcript_page" where
  "page_before room events before limit =
     page_for room (newest_slice limit
       (sort_key event_order (filter (\<lambda>e. cursor_before (event_cursor e) before) events)))"

section \<open>Self echoes\<close>

datatype self_filter = SF_IncludeAll | SF_ExcludeSameClient | SF_ExcludeSamePeer

definition is_self_echo :: "transcript_event \<Rightarrow> uuid \<Rightarrow> client_id \<Rightarrow> self_filter \<Rightarrow> bool" where
  "is_self_echo e peer client f =
     (case f of
        SF_IncludeAll \<Rightarrow> False
      | SF_ExcludeSameClient \<Rightarrow> te_client_id e = client
      | SF_ExcludeSamePeer \<Rightarrow> te_peer_id e = peer)"

definition filter_self_echoes ::
  "transcript_event list \<Rightarrow> uuid \<Rightarrow> client_id \<Rightarrow> self_filter \<Rightarrow> transcript_event list" where
  "filter_self_echoes events peer client f =
     filter (\<lambda>e. \<not> is_self_echo e peer client f) events"

record runtime_self =
  rtself_client_id :: client_id
  rtself_runtime_client :: "string option"

definition is_self :: "runtime_self \<Rightarrow> headers \<Rightarrow> client_id \<Rightarrow> bool" where
  "is_self r h client =
     (case map_of h HEADER_AIRC_CLIENT of
        Some tag \<Rightarrow> rtself_runtime_client r = Some tag
      | None \<Rightarrow> client = rtself_client_id r)"

definition is_self_event :: "runtime_self \<Rightarrow> transcript_event \<Rightarrow> bool" where
  "is_self_event r e = is_self r (te_headers e) (te_client_id e)"

section \<open>Facts\<close>

lemma cursor_before_order:
  "cursor_before (event_cursor a) (event_cursor b) \<longleftrightarrow> event_order a < event_order b"
  by (auto simp: cursor_before_def event_cursor_def event_order_def less_prod_def)

lemma body_text_as_text: "body_as_text (body_text s) = Some s"
  by (simp add: body_as_text_def body_text_def json_as_str_def)

text \<open>
  The storage discriminator of a transcript kind round-trips: every kind reads back from
  its string, and every string that reads back is the string of the kind it yields.
\<close>

theorem wire_str_round_trip:
  "from_wire_str (as_wire_str k) = Some k \<and> (from_wire_str s = Some k \<longleftrightarrow> s = as_wire_str k)"
proof
  show rt: "from_wire_str (as_wire_str k) = Some k"
    by (cases k) (simp_all add: from_wire_str_def)
  show "from_wire_str s = Some k \<longleftrightarrow> s = as_wire_str k"
  proof
    assume "from_wire_str s = Some k"
    then show "s = as_wire_str k"
      unfolding from_wire_str_def by (simp split: if_splits)
  qed (simp add: rt)
qed

lemma drop_take_append: "j \<le> i \<Longrightarrow> i \<le> length xs \<Longrightarrow> drop j (take i xs) @ drop i xs = drop j xs"
proof -
  assume *: "j \<le> i" "i \<le> length xs"
  have "drop j (take i xs @ drop i xs) = drop j (take i xs) @ drop (j - length (take i xs)) (drop i xs)"
    by (rule drop_append)
  then show ?thesis using * by simp
qed

lemma newest_slice_eq: "newest_slice n xs = drop (length xs - n) xs"
  by (simp add: newest_slice_def)

lemma sort_key_filter_less:
  assumes "sorted (map f xs)" "distinct (map f xs)" "i < length xs"
  shows "filter (\<lambda>x. f x < f (xs ! i)) xs = take i xs"
proof -
  have "filter (\<lambda>x. f x < f (xs ! i)) (take i xs) = take i xs"
    using assms by (intro filter_True)
      (auto simp: in_set_conv_nth sorted_iff_nth_mono distinct_conv_nth order_less_le)
  moreover have "filter (\<lambda>x. f x < f (xs ! i)) (drop i xs) = []"
    using assms by (intro filter_False)
      (auto simp: in_set_conv_nth sorted_iff_nth_mono not_less)
  ultimately show ?thesis
    by (metis append_Nil2 append_take_drop_id filter_append)
qed

text \<open>
  Scrollback pages the transcript without gap or overlap: when cursors are distinct, the
  page of \<open>m\<close> events before the oldest event of the recent page of \<open>n\<close>, followed by that
  page, is the recent page of \<open>n + m\<close>.
\<close>

theorem scrollback_continues:
  assumes distinct: "distinct (map event_order events)"
    and older: "tp_older (page_recent room events n) = Some cur"
  shows "tp_events (page_before room events cur m) @ tp_events (page_recent room events n) =
    tp_events (page_recent room events (n + m))"
proof -
  let ?xs = "sort_key event_order events"
  let ?i = "length ?xs - n"
  have nonempty: "drop ?i ?xs \<noteq> []" and cur: "cur = event_cursor (hd (drop ?i ?xs))"
    using older by (auto simp: page_recent_def page_for_def newest_slice_eq first_opt_def
        split: if_splits)
  then have i: "?i < length ?xs" and hd: "hd (drop ?i ?xs) = ?xs ! ?i"
    by (auto simp: hd_drop_conv_nth)
  have "distinct (map event_order ?xs)"
    using distinct by (metis mset_map mset_sort mset_eq_imp_distinct_iff)
  then have "filter (\<lambda>x. event_order x < event_order (?xs ! ?i)) ?xs = take ?i ?xs"
    using i by (intro sort_key_filter_less) auto
  then have "sort_key event_order (filter (\<lambda>e. cursor_before (event_cursor e) cur) events) = take ?i ?xs"
    unfolding cur hd by (simp add: cursor_before_order filter_sort [symmetric])
  then have "tp_events (page_before room events cur m) = drop (?i - m) (take ?i ?xs)"
    using i by (simp add: page_before_def page_for_def newest_slice_eq min_def)
  moreover have "drop (?i - m) (take ?i ?xs) @ drop ?i ?xs = drop (?i - m) ?xs"
    using i by (intro drop_take_append) auto
  ultimately show ?thesis
    by (simp add: page_recent_def page_for_def newest_slice_eq)
qed

definition sample_event :: "u64 \<Rightarrow> transcript_event" where
  "sample_event n = \<lparr> te_event_id = 1, te_room_id = 2, te_peer_id = 3, te_client_id = 4,
     te_kind = TK_Message, te_occurred_at_ms = n, te_lamport = n, te_target = MT_All,
     te_headers = [], te_body = None, te_attachment = None, te_receipt = None,
     te_metadata = JNull \<rparr>"

theorem scrollback_continues_witness:
  "tp_events (page_before 2 [sample_event 3, sample_event 2] \<lparr> tc_lamport = 3, tc_event_id = 1 \<rparr> 1)
     @ tp_events (page_recent 2 [sample_event 3, sample_event 2] 1)
   = tp_events (page_recent 2 [sample_event 3, sample_event 2] (1 + 1))"
  by (rule scrollback_continues)
    (simp_all add: event_order_def sample_event_def page_recent_def page_for_def newest_slice_eq
      first_opt_def event_cursor_def)

end
