(* ===== verification/Work_Codec.thy ===== *)
theory Work_Codec
  imports Work_Board Core_Transcript
begin

text \<open>
  The codec of work events (\<open>airc-work/src/codec/mod.rs\<close>, \<open>codec/headers.rs\<close>): the routing
  headers an event is published with and the checks a body passes before it is believed.
  The JSON form of an event is derived by the serialisation crate; it is the parameter
  record \<open>work_json\<close>.
\<close>

section \<open>Parameters and constants\<close>

record work_json =
  wj_to_value :: "work_event \<Rightarrow> string + json"
  wj_from_value :: "json \<Rightarrow> string + work_event"

definition HEADER_FORGE_BODY_HINT :: string where
  "HEADER_FORGE_BODY_HINT = ''forge.body_hint''"

definition BODY_HINT_FORGE_WORK_EVENT :: string where
  "BODY_HINT_FORGE_WORK_EVENT = ''forge.work.event.v1''"

definition BODY_HINT_FORGE_WORK_REVIEW :: string where
  "BODY_HINT_FORGE_WORK_REVIEW = ''forge.work.review.v1''"

definition HEADER_FORGE_WORK_EVENT_KIND :: string where
  "HEADER_FORGE_WORK_EVENT_KIND = ''forge.work.kind''"

definition HEADER_FORGE_WORK_REPO :: string where
  "HEADER_FORGE_WORK_REPO = ''forge.work.repo''"

definition HEADER_FORGE_WORK_CARD_ID :: string where
  "HEADER_FORGE_WORK_CARD_ID = ''forge.work.card_id''"

definition HEADER_FORGE_WORK_LANE_ID :: string where
  "HEADER_FORGE_WORK_LANE_ID = ''forge.work.lane_id''"

definition HEADER_FORGE_WORK_CLAIM_ID :: string where
  "HEADER_FORGE_WORK_CLAIM_ID = ''forge.work.claim_id''"

definition HEADER_FORGE_WORK_WORKSPACE_ID :: string where
  "HEADER_FORGE_WORK_WORKSPACE_ID = ''forge.work.workspace_id''"

definition HEADER_FORGE_WORK_POLICY_RULE_ID :: string where
  "HEADER_FORGE_WORK_POLICY_RULE_ID = ''forge.work.policy_rule_id''"

definition HEADER_FORGE_WORK_GIT_BRANCH :: string where
  "HEADER_FORGE_WORK_GIT_BRANCH = ''forge.work.git_branch''"

definition HEADER_FORGE_WORK_GIT_COMMIT :: string where
  "HEADER_FORGE_WORK_GIT_COMMIT = ''forge.work.git_commit''"

definition HEADER_FORGE_WORK_PR_NUMBER :: string where
  "HEADER_FORGE_WORK_PR_NUMBER = ''forge.work.pr_number''"

definition HEADER_FORGE_WORK_STATE :: string where
  "HEADER_FORGE_WORK_STATE = ''forge.work.state''"

definition HEADER_FORGE_WORK_GOAL_ID :: string where
  "HEADER_FORGE_WORK_GOAL_ID = ''forge.work.goal_id''"

section \<open>Hints and kinds\<close>

definition is_work_event_hint :: "string \<Rightarrow> bool" where
  "is_work_event_hint hint \<longleftrightarrow>
     hint = BODY_HINT_FORGE_WORK_EVENT \<or> hint = BODY_HINT_FORGE_WORK_REVIEW"

definition work_event_body_hint :: "work_event \<Rightarrow> string" where
  "work_event_body_hint e =
     (case e of
        EvWorkSubmissionReviewed _ \<Rightarrow> BODY_HINT_FORGE_WORK_REVIEW
      | EvSubmissionReviewRequested _ \<Rightarrow> BODY_HINT_FORGE_WORK_REVIEW
      | EvReviewRejected _ \<Rightarrow> BODY_HINT_FORGE_WORK_REVIEW
      | _ \<Rightarrow> BODY_HINT_FORGE_WORK_EVENT)"

primrec event_kind :: "work_event \<Rightarrow> string" where
  "event_kind (EvCardCreated _) = ''card_created''"
| "event_kind (EvCardUpdated _) = ''card_updated''"
| "event_kind (EvCardClaimed _) = ''card_claimed''"
| "event_kind (EvClaimHeartbeat _) = ''claim_heartbeat''"
| "event_kind (EvClaimReleased _) = ''claim_released''"
| "event_kind (EvCardStateChanged _) = ''card_state_changed''"
| "event_kind (EvWorkSubmitted _) = ''work_submitted''"
| "event_kind (EvWorkSubmissionReviewed _) = ''work_submission_reviewed''"
| "event_kind (EvSubmissionReviewRequested _) = ''submission_review_requested''"
| "event_kind (EvSubmissionRejected _) = ''submission_rejected''"
| "event_kind (EvReviewRejected _) = ''review_rejected''"
| "event_kind (EvLaneCreated _) = ''lane_created''"
| "event_kind (EvLaneStateChanged _) = ''lane_state_changed''"
| "event_kind (EvWorkspaceRequested _) = ''workspace_requested''"
| "event_kind (EvWorkspaceAllocated _) = ''workspace_allocated''"
| "event_kind (EvWorkspaceHeartbeat _) = ''workspace_heartbeat''"
| "event_kind (EvWorkspaceReleased _) = ''workspace_released''"
| "event_kind (EvWorkspacePressureReported _) = ''workspace_pressure_reported''"
| "event_kind (EvWorkspaceDrainRequested _) = ''workspace_drain_requested''"
| "event_kind (EvWorkspaceDrainCompleted _) = ''workspace_drain_completed''"
| "event_kind (EvGitCommitObserved _) = ''git_commit_observed''"
| "event_kind (EvGitBranchMoved _) = ''git_branch_moved''"
| "event_kind (EvGitDirtyStateChanged _) = ''git_dirty_state_changed''"
| "event_kind (EvPullRequestCheckSuiteChanged _) = ''pull_request_check_suite_changed''"
| "event_kind (EvPullRequestReviewSubmitted _) = ''pull_request_review_submitted''"
| "event_kind (EvPullRequestMergeStateChanged _) = ''pull_request_merge_state_changed''"
| "event_kind (EvPullRequestLinked _) = ''pull_request_linked''"
| "event_kind (EvPullRequestRelinked _) = ''pull_request_relinked''"
| "event_kind (EvPullRequestMerged _) = ''pull_request_merged''"
| "event_kind (EvHygieneReportRecorded _) = ''hygiene_report_recorded''"
| "event_kind (EvManagerHatClaimed _) = ''manager_hat_claimed''"
| "event_kind (EvManagerHatReleased _) = ''manager_hat_released''"
| "event_kind (EvAgentAvailabilityReported _) = ''agent_availability_reported''"
| "event_kind (EvGoalCreated _) = ''goal_created''"
| "event_kind (EvGoalAchieved _) = ''goal_achieved''"
| "event_kind (EvGoalAbandoned _) = ''goal_abandoned''"
| "event_kind (EvGoalDryTickRecorded _) = ''goal_dry_tick_recorded''"

section \<open>Headers\<close>

definition insert_id_header :: "work_deps \<Rightarrow> string \<Rightarrow> uuid \<Rightarrow> headers \<Rightarrow> headers" where
  "insert_id_header d key i h = bt_insert key (wd_uuid_display d i) h"

definition project_claim :: "work_deps \<Rightarrow> work_card_id \<Rightarrow> claim_id \<Rightarrow> headers \<Rightarrow> headers" where
  "project_claim d card_i claim h =
     insert_id_header d HEADER_FORGE_WORK_CLAIM_ID claim
       (insert_id_header d HEADER_FORGE_WORK_CARD_ID card_i h)"

definition project_pull_request :: "pull_request_ref \<Rightarrow> headers \<Rightarrow> headers" where
  "project_pull_request p h =
     bt_insert HEADER_FORGE_WORK_GIT_BRANCH (pr_head p)
       (bt_insert HEADER_FORGE_WORK_PR_NUMBER (show_u64 (pr_number p))
         (bt_insert HEADER_FORGE_WORK_REPO (pr_repo p) h))"

definition availability_state_name :: "agent_availability_state \<Rightarrow> string" where
  "availability_state_name s = (case s of AA_Ready \<Rightarrow> ''Ready'' | AA_Busy \<Rightarrow> ''Busy'' | AA_Away \<Rightarrow> ''Away'')"

primrec project_domain_headers :: "work_deps \<Rightarrow> work_event \<Rightarrow> headers \<Rightarrow> headers" where
  "project_domain_headers d (EvWorkSubmitted e) h =
     bt_insert HEADER_FORGE_WORK_GIT_COMMIT (ws_base_sha e)
       (project_claim d (ws_card_id e) (ws_claim_id e) h)"
| "project_domain_headers d (EvWorkSubmissionReviewed e) h =
     project_claim d (wr_card_id e) (wr_review_claim_id e) h"
| "project_domain_headers d (EvSubmissionReviewRequested e) h =
     bt_insert HEADER_FORGE_WORK_REPO (cc_repo (srr_card e))
       (insert_id_header d HEADER_FORGE_WORK_CARD_ID (cc_card_id (srr_card e)) h)"
| "project_domain_headers d (EvSubmissionRejected e) h = h"
| "project_domain_headers d (EvReviewRejected e) h = h"
| "project_domain_headers d (EvCardCreated e) h =
     (let h' = bt_insert HEADER_FORGE_WORK_REPO (cc_repo e)
                 (insert_id_header d HEADER_FORGE_WORK_CARD_ID (cc_card_id e) h) in
      case cc_lane_id e of
        Some lane \<Rightarrow> insert_id_header d HEADER_FORGE_WORK_LANE_ID lane h'
      | None \<Rightarrow> h')"
| "project_domain_headers d (EvCardUpdated e) h =
     insert_id_header d HEADER_FORGE_WORK_CARD_ID (cu_card_id e) h"
| "project_domain_headers d (EvCardClaimed e) h = project_claim d (cl_card_id e) (cl_claim_id e) h"
| "project_domain_headers d (EvClaimHeartbeat e) h = project_claim d (hb_card_id e) (hb_claim_id e) h"
| "project_domain_headers d (EvClaimReleased e) h = project_claim d (rel_card_id e) (rel_claim_id e) h"
| "project_domain_headers d (EvCardStateChanged e) h =
     insert_id_header d HEADER_FORGE_WORK_CARD_ID (sc_card_id e) h"
| "project_domain_headers d (EvLaneCreated e) h =
     bt_insert HEADER_FORGE_WORK_REPO (lc_repo e)
       (insert_id_header d HEADER_FORGE_WORK_LANE_ID (lc_lane_id e) h)"
| "project_domain_headers d (EvLaneStateChanged e) h =
     insert_id_header d HEADER_FORGE_WORK_LANE_ID (lsc_lane_id e) h"
| "project_domain_headers d (EvWorkspaceRequested e) h =
     bt_insert HEADER_FORGE_WORK_REPO (wq_repo e)
       (project_claim d (wq_card_id e) (wq_claim_id e)
         (insert_id_header d HEADER_FORGE_WORK_WORKSPACE_ID (wq_workspace_id e) h))"
| "project_domain_headers d (EvWorkspaceAllocated e) h =
     insert_id_header d HEADER_FORGE_WORK_WORKSPACE_ID (wa_workspace_id e) h"
| "project_domain_headers d (EvWorkspaceHeartbeat e) h =
     insert_id_header d HEADER_FORGE_WORK_WORKSPACE_ID (wh_workspace_id e) h"
| "project_domain_headers d (EvWorkspaceReleased e) h =
     insert_id_header d HEADER_FORGE_WORK_WORKSPACE_ID (wrl_workspace_id e) h"
| "project_domain_headers d (EvWorkspacePressureReported e) h =
     bt_insert HEADER_FORGE_WORK_REPO (wp_repo e)
       (insert_id_header d HEADER_FORGE_WORK_WORKSPACE_ID (wp_workspace_id e) h)"
| "project_domain_headers d (EvWorkspaceDrainRequested e) h =
     bt_insert HEADER_FORGE_WORK_POLICY_RULE_ID (dr_policy_rule_id e)
       (bt_insert HEADER_FORGE_WORK_REPO (dr_repo e)
         (insert_id_header d HEADER_FORGE_WORK_WORKSPACE_ID (dr_workspace_id e) h))"
| "project_domain_headers d (EvWorkspaceDrainCompleted e) h =
     bt_insert HEADER_FORGE_WORK_POLICY_RULE_ID (dd_policy_rule_id e)
       (bt_insert HEADER_FORGE_WORK_REPO (dd_repo e)
         (insert_id_header d HEADER_FORGE_WORK_WORKSPACE_ID (dd_workspace_id e) h))"
| "project_domain_headers d (EvGitCommitObserved e) h =
     (let h' = bt_insert HEADER_FORGE_WORK_GIT_COMMIT (gco_commit e)
                 (bt_insert HEADER_FORGE_WORK_REPO (gco_repo e) h) in
      case gco_branch e of
        Some branch \<Rightarrow> bt_insert HEADER_FORGE_WORK_GIT_BRANCH branch h'
      | None \<Rightarrow> h')"
| "project_domain_headers d (EvGitBranchMoved e) h =
     bt_insert HEADER_FORGE_WORK_GIT_COMMIT (gbm_new_head e)
       (bt_insert HEADER_FORGE_WORK_GIT_BRANCH (gbm_branch e)
         (bt_insert HEADER_FORGE_WORK_REPO (gbm_repo e) h))"
| "project_domain_headers d (EvGitDirtyStateChanged e) h =
     (let h' = bt_insert HEADER_FORGE_WORK_REPO (gds_repo e) h in
      case gds_workspace_id e of
        Some w \<Rightarrow> insert_id_header d HEADER_FORGE_WORK_WORKSPACE_ID w h'
      | None \<Rightarrow> h')"
| "project_domain_headers d (EvPullRequestCheckSuiteChanged e) h =
     project_pull_request (pcs_pull_request e) h"
| "project_domain_headers d (EvPullRequestReviewSubmitted e) h =
     project_pull_request (prs_pull_request e) h"
| "project_domain_headers d (EvPullRequestMergeStateChanged e) h =
     project_pull_request (pms_pull_request e) h"
| "project_domain_headers d (EvPullRequestLinked e) h =
     project_pull_request (pl_pull_request e)
       (insert_id_header d HEADER_FORGE_WORK_CARD_ID (pl_card_id e) h)"
| "project_domain_headers d (EvPullRequestRelinked e) h =
     project_pull_request (prl_new_pull_request e)
       (insert_id_header d HEADER_FORGE_WORK_CARD_ID (prl_card_id e) h)"
| "project_domain_headers d (EvPullRequestMerged e) h =
     project_pull_request (pmg_pull_request e)
       (insert_id_header d HEADER_FORGE_WORK_CARD_ID (pmg_card_id e) h)"
| "project_domain_headers d (EvHygieneReportRecorded e) h =
     bt_insert HEADER_FORGE_WORK_REPO (hr_repo (hrr_report e)) h"
| "project_domain_headers d (EvManagerHatClaimed e) h = bt_insert HEADER_FORGE_WORK_REPO (mhc_repo e) h"
| "project_domain_headers d (EvManagerHatReleased e) h = bt_insert HEADER_FORGE_WORK_REPO (mhr_repo e) h"
| "project_domain_headers d (EvAgentAvailabilityReported e) h =
     bt_insert HEADER_FORGE_WORK_STATE (to_ascii_lowercase (availability_state_name (aar_state e)))
       (bt_insert HEADER_FORGE_WORK_REPO (aar_repo e) h)"
| "project_domain_headers d (EvGoalCreated e) h =
     bt_insert HEADER_FORGE_WORK_REPO (gc_default_repo e)
       (insert_id_header d HEADER_FORGE_WORK_GOAL_ID (gc_goal_id e) h)"
| "project_domain_headers d (EvGoalAchieved e) h =
     insert_id_header d HEADER_FORGE_WORK_GOAL_ID (ga_goal_id e) h"
| "project_domain_headers d (EvGoalAbandoned e) h =
     insert_id_header d HEADER_FORGE_WORK_GOAL_ID (gab_goal_id e) h"
| "project_domain_headers d (EvGoalDryTickRecorded e) h =
     insert_id_header d HEADER_FORGE_WORK_GOAL_ID (gd_goal_id e) h"

definition work_event_headers :: "work_deps \<Rightarrow> work_event \<Rightarrow> headers" where
  "work_event_headers d e =
     project_domain_headers d e
       (bt_insert HEADER_FORGE_WORK_EVENT_KIND (event_kind e)
         (bt_insert HEADER_FORGE_BODY_HINT (work_event_body_hint e) []))"

section \<open>Encoding and decoding\<close>

datatype codec_error =
  CE_ReviewRequestAuthorMismatch
| CE_MissingBody
| CE_NonJsonBody
| CE_BodyHintMismatch "string option" string
| CE_VariantHintMismatch "string option" string
| CE_Json string

definition map_err :: "('e \<Rightarrow> 'f) \<Rightarrow> 'e + 'a \<Rightarrow> 'f + 'a" where
  "map_err f r = (case r of Inl e \<Rightarrow> Inl (f e) | Inr a \<Rightarrow> Inr a)"

definition encode_work_event ::
  "work_deps \<Rightarrow> work_json \<Rightarrow> work_event \<Rightarrow> codec_error + (headers \<times> body)" where
  "encode_work_event d j e =
     res_bind (map_err CE_Json (wj_to_value j e)) (\<lambda>v. Inr (work_event_headers d e, BodyJson v))"

definition require_work_event_hint :: "headers \<Rightarrow> codec_error + unit" where
  "require_work_event_hint h =
     (case map_of h HEADER_FORGE_BODY_HINT of
        Some value \<Rightarrow>
          if is_work_event_hint value then Inr ()
          else Inl (CE_BodyHintMismatch (Some value) BODY_HINT_FORGE_WORK_EVENT)
      | None \<Rightarrow> Inl (CE_BodyHintMismatch None BODY_HINT_FORGE_WORK_EVENT))"

definition decode_work_event ::
  "work_json \<Rightarrow> headers \<Rightarrow> body option \<Rightarrow> codec_error + work_event" where
  "decode_work_event j h b =
     res_bind (require_work_event_hint h) (\<lambda>_.
     case b of
       None \<Rightarrow> Inl CE_MissingBody
     | Some (BodyBinary _) \<Rightarrow> Inl CE_NonJsonBody
     | Some (BodyJson value) \<Rightarrow>
         res_bind (map_err CE_Json (wj_from_value j value)) (\<lambda>e.
         let expected = work_event_body_hint e in
         if map_of h HEADER_FORGE_BODY_HINT \<noteq> Some expected
         then Inl (CE_VariantHintMismatch (map_of h HEADER_FORGE_BODY_HINT) expected)
         else Inr e))"

text \<open>The header predicate of \<open>work_event_subscription\<close>.\<close>

definition work_event_subscription_filter :: header_filter where
  "work_event_subscription_filter =
     HF_AnyOf (map (\<lambda>value. HF_Exact HEADER_FORGE_BODY_HINT value)
       [BODY_HINT_FORGE_WORK_EVENT, BODY_HINT_FORGE_WORK_REVIEW])"

section \<open>Round trip\<close>

lemmas header_key_defs =
  HEADER_FORGE_BODY_HINT_def HEADER_FORGE_WORK_EVENT_KIND_def HEADER_FORGE_WORK_REPO_def
  HEADER_FORGE_WORK_CARD_ID_def HEADER_FORGE_WORK_LANE_ID_def HEADER_FORGE_WORK_CLAIM_ID_def
  HEADER_FORGE_WORK_WORKSPACE_ID_def HEADER_FORGE_WORK_POLICY_RULE_ID_def
  HEADER_FORGE_WORK_GIT_BRANCH_def HEADER_FORGE_WORK_GIT_COMMIT_def
  HEADER_FORGE_WORK_PR_NUMBER_def HEADER_FORGE_WORK_STATE_def HEADER_FORGE_WORK_GOAL_ID_def

text \<open>No domain header overwrites the body hint or the kind.\<close>

lemma project_domain_headers_keep:
  assumes "k = HEADER_FORGE_BODY_HINT \<or> k = HEADER_FORGE_WORK_EVENT_KIND"
  shows "map_of (project_domain_headers d e h) k = map_of h k"
proof (cases e)
qed (use assms in \<open>auto simp: project_claim_def project_pull_request_def insert_id_header_def
      header_key_defs Let_def split: option.splits\<close>)

lemma work_event_headers_hint:
  "map_of (work_event_headers d e) HEADER_FORGE_BODY_HINT = Some (work_event_body_hint e)"
  "map_of (work_event_headers d e) HEADER_FORGE_WORK_EVENT_KIND = Some (event_kind e)"
  by (simp_all add: work_event_headers_def project_domain_headers_keep)
    (simp add: header_key_defs)

lemma body_hint_is_work: "is_work_event_hint (work_event_body_hint e)"
  by (cases e) (simp_all add: work_event_body_hint_def is_work_event_hint_def)

text \<open>
  C40. Publishing and decoding a work event gives it back: whenever the JSON form of the event
  reads back as the event, the headers it is published with pass every check of the decoder,
  and the subscription for work events matches them.
\<close>

theorem work_event_round_trip:
  assumes "wj_to_value j e = Inr v" "wj_from_value j v = Inr e"
  shows "\<exists>h b. encode_work_event d j e = Inr (h, b) \<and> decode_work_event j h (Some b) = Inr e \<and>
    filter_matches work_event_subscription_filter h"
proof (intro exI conjI)
  show "encode_work_event d j e = Inr (work_event_headers d e, BodyJson v)"
    by (simp add: encode_work_event_def assms(1) map_err_def)
  show "decode_work_event j (work_event_headers d e) (Some (BodyJson v)) = Inr e"
    by (simp add: decode_work_event_def require_work_event_hint_def work_event_headers_hint
        body_hint_is_work assms(2) map_err_def)
  show "filter_matches work_event_subscription_filter (work_event_headers d e)"
    using body_hint_is_work [of e]
    by (auto simp: work_event_subscription_filter_def work_event_headers_hint is_work_event_hint_def)
qed

text \<open>A concrete instance of the parameters, for witnesses: every body reads as one event.\<close>

definition sample_tick :: work_event where
  "sample_tick = EvGoalDryTickRecorded
     \<lparr> gd_goal_id = 1, gd_synthesizer_peer = 2, gd_recorded_at_ms = 3 \<rparr>"

definition plain_deps :: work_deps where
  "plain_deps = \<lparr> wd_content_hash = (\<lambda>_. 0), wd_uuid_new_v5 = (\<lambda>u _. u), wd_uuid_display = (\<lambda>_. ''u'') \<rparr>"

definition plain_json :: "work_event \<Rightarrow> work_json" where
  "plain_json e = \<lparr> wj_to_value = (\<lambda>_. Inr JNull), wj_from_value = (\<lambda>_. Inr e) \<rparr>"

theorem work_event_round_trip_witness:
  "\<exists>h b. encode_work_event plain_deps (plain_json sample_tick) sample_tick = Inr (h, b) \<and>
     decode_work_event (plain_json sample_tick) h (Some b) = Inr sample_tick"
  using work_event_round_trip [of "plain_json sample_tick" sample_tick JNull plain_deps]
  by (auto simp: plain_json_def)

end
