(* ===== verification/Core_Select.thy ===== *)
theory Core_Select
  imports Core_Transcript
begin

text \<open>
  Bounded selection over unordered rows (\<open>airc-core/src/bounded_selection.rs\<close>) and bounded
  history counts (\<open>history_count.rs\<close>), each with the reference definition it implements.
\<close>

section \<open>Bounded selection\<close>

text \<open>
  \<open>select\<close> scans every row but keeps at most \<open>limit\<close> of them, in a \<open>BTreeMap\<close> keyed by the
  row's key and its ordinal. One step of the scan, then the loop.
\<close>

definition select_step ::
  "('a \<Rightarrow> 'k::linorder) \<Rightarrow> nat \<Rightarrow> bool \<Rightarrow> (('k \<times> nat), 'a) btree \<Rightarrow> nat \<Rightarrow> 'a
   \<Rightarrow> (('k \<times> nat), 'a) btree" where
  "select_step key limit tail selected ordinal row =
     (let k = (key row, ordinal) in
      if length selected = limit
      then
        (if is_some_and (if tail then first_opt selected else last_opt selected)
              (\<lambda>boundary. if tail then k \<le> fst boundary else fst boundary \<le> k)
         then selected
         else bt_insert k row (if tail then tl selected else butlast selected))
      else bt_insert k row selected)"

fun select_loop ::
  "('a \<Rightarrow> 'k::linorder) \<Rightarrow> nat \<Rightarrow> bool \<Rightarrow> (('k \<times> nat), 'a) btree \<Rightarrow> nat \<Rightarrow> 'a list
   \<Rightarrow> (('k \<times> nat), 'a) btree" where
  "select_loop key limit tail selected ordinal [] = selected"
| "select_loop key limit tail selected ordinal (row # rows) =
     select_loop key limit tail (select_step key limit tail selected ordinal row) (Suc ordinal) rows"

definition select :: "'a list \<Rightarrow> ('a \<Rightarrow> 'k::linorder) \<Rightarrow> nat \<Rightarrow> bool \<Rightarrow> 'a list" where
  "select rows key limit tail =
     (if limit = 0 then [] else bt_values (select_loop key limit tail [] 0 rows))"

section \<open>History counts\<close>

definition HISTORY_COUNT_CAP :: nat where
  "HISTORY_COUNT_CAP = 999"

record history_count =
  hc_count :: u64
  hc_oldest_ms :: "u64 option"
  hc_newest_ms :: "u64 option"
  hc_more :: bool

definition history_count_default :: history_count where
  "history_count_default = \<lparr> hc_count = 0, hc_oldest_ms = None, hc_newest_ms = None, hc_more = False \<rparr>"

definition pick :: "u64 option \<Rightarrow> u64 option \<Rightarrow> (u64 \<Rightarrow> u64 \<Rightarrow> u64) \<Rightarrow> u64 option" where
  "pick a b f =
     (case (a, b) of (Some a, Some b) \<Rightarrow> Some (f a b) | (a, None) \<Rightarrow> a | (None, b) \<Rightarrow> b)"

definition hc_merge :: "history_count \<Rightarrow> history_count \<Rightarrow> history_count" where
  "hc_merge a b =
     \<lparr> hc_count = hc_count a + hc_count b,
       hc_oldest_ms = pick (hc_oldest_ms a) (hc_oldest_ms b) min,
       hc_newest_ms = pick (hc_newest_ms a) (hc_newest_ms b) max,
       hc_more = (hc_more a \<or> hc_more b) \<rparr>"

definition with_event :: "history_count \<Rightarrow> u64 \<Rightarrow> history_count" where
  "with_event c t =
     hc_merge c \<lparr> hc_count = 1, hc_oldest_ms = Some t, hc_newest_ms = Some t, hc_more = False \<rparr>"

fun of_newest_loop :: "nat \<Rightarrow> history_count \<Rightarrow> u64 list \<Rightarrow> history_count" where
  "of_newest_loop i c [] = c"
| "of_newest_loop i c (t # ts) =
     (if i = HISTORY_COUNT_CAP then c\<lparr> hc_more := True \<rparr>
      else of_newest_loop (Suc i) (with_event c t) ts)"

definition of_newest :: "u64 list \<Rightarrow> history_count" where
  "of_newest times_newest_first = of_newest_loop 0 history_count_default times_newest_first"

section \<open>Selection is a slice of the sorted rows\<close>

lemma bt_insert_append_left:
  "\<forall>e \<in> set ys. k < fst e \<Longrightarrow> bt_insert k v (xs @ ys) = bt_insert k v xs @ ys"
proof (induction xs)
  case Nil
  then show ?case by (cases ys) auto
qed auto

lemma bt_insert_append_right:
  "\<forall>e \<in> set xs. fst e < k \<Longrightarrow> bt_insert k v (xs @ ys) = xs @ bt_insert k v ys"
  by (induction xs) (auto simp: not_less_iff_gr_or_eq)

lemma length_bt_insert: "k \<notin> fst ` set m \<Longrightarrow> length (bt_insert k v m) = Suc (length m)"
  by (induction m) auto

text \<open>The slice of the full sorted map that the scan keeps.\<close>

definition kept :: "nat \<Rightarrow> bool \<Rightarrow> 'e list \<Rightarrow> 'e list" where
  "kept limit tail s = (if tail then drop (length s - limit) s else take limit s)"

lemma kept_Nil [simp]: "kept limit tail [] = []"
  by (simp add: kept_def)

lemma kept_short: "length s \<le> limit \<Longrightarrow> kept limit tail s = s"
  by (simp add: kept_def)

lemma select_step_tail:
  assumes wf: "bt_wf (a @ b)" and "(key row, n) \<notin> fst ` set (a @ b)"
    and len: "length b = limit" "b \<noteq> []"
  shows "select_step key limit True b n row = kept limit True (bt_insert (key row, n) row (a @ b))"
proof -
  define k where "k = (key row, n)"
  have new: "k \<notin> fst ` set (a @ b)"
    using assms(2) by (simp add: k_def)
  obtain e b' where b: "b = e # b'" using len(2) by (cases b) auto
  have above: "\<forall>x \<in> set b'. fst e < fst x" and below: "\<forall>x \<in> set a. fst x < fst e"
    using wf by (auto simp: b bt_wf_def sorted_wrt_append)
  show ?thesis
  proof (cases "k < fst e")
    case True
    then have "bt_insert k row (a @ b) = bt_insert k row a @ b"
      using above by (intro bt_insert_append_left) (auto simp: b intro: less_trans)
    then show ?thesis
      using True len by (simp add: select_step_def kept_def first_opt_def b order_less_imp_le not_le flip: k_def)
  next
    case False
    then have gt: "fst e < k"
      using new by (auto simp: b not_less order_le_less)
    then have "bt_insert k row (a @ b) = (a @ [e]) @ bt_insert k row b'"
      using below by (subst bt_insert_append_right [symmetric]) (auto simp: b intro: less_trans)
    moreover have "length (bt_insert k row b') = limit"
      using new len(1) by (simp add: length_bt_insert b image_Un)
    moreover have "\<not> k \<le> fst e"
      using gt by simp
    ultimately show ?thesis
      using gt len by (simp add: select_step_def kept_def first_opt_def b flip: k_def)
  qed
qed

lemma select_step_head:
  assumes wf: "bt_wf (b @ a)" and "(key row, n) \<notin> fst ` set (b @ a)"
    and len: "length b = limit" "b \<noteq> []"
  shows "select_step key limit False b n row = kept limit False (bt_insert (key row, n) row (b @ a))"
proof -
  define k where "k = (key row, n)"
  have new: "k \<notin> fst ` set (b @ a)"
    using assms(2) by (simp add: k_def)
  obtain b' e where b: "b = b' @ [e]" using len(2) by (cases b rule: rev_cases) auto
  have above: "\<forall>x \<in> set a. fst e < fst x" and below: "\<forall>x \<in> set b'. fst x < fst e"
    using wf by (auto simp: b bt_wf_def sorted_wrt_append)
  show ?thesis
  proof (cases "fst e < k")
    case True
    then have "bt_insert k row (b @ a) = b @ bt_insert k row a"
      using below by (intro bt_insert_append_right) (auto simp: b intro: less_trans)
    then show ?thesis
      using True len by (simp add: select_step_def kept_def last_opt_def b butlast_append take_Cons' order_less_imp_le not_le flip: k_def)
  next
    case False
    then have lt: "k < fst e"
      using new by (auto simp: b not_less order_le_less)
    then have "bt_insert k row (b' @ (e # a)) = bt_insert k row b' @ (e # a)"
      using above by (intro bt_insert_append_left) (auto intro: less_trans)
    moreover have "length (bt_insert k row b') = limit"
      using new len(1) by (simp add: length_bt_insert b image_Un)
    moreover have "\<not> fst e \<le> k"
      using lt by simp
    ultimately show ?thesis
      using lt len by (simp add: select_step_def kept_def last_opt_def b butlast_append take_Cons' flip: k_def)
  qed
qed

lemma select_step_kept:
  assumes wf: "bt_wf s" and new: "(key row, n) \<notin> fst ` set s" and pos: "0 < limit"
  shows "select_step key limit tail (kept limit tail s) n row =
    kept limit tail (bt_insert (key row, n) row s)"
proof (cases "length s < limit")
  case True
  then have "length (bt_insert (key row, n) row s) \<le> limit"
    using new by (simp add: length_bt_insert)
  then show ?thesis
    using True by (simp add: kept_short select_step_def)
next
  case False
  show ?thesis
  proof (cases tail)
    case True
    have "kept limit tail s \<noteq> []" "length (kept limit tail s) = limit"
      using False pos True by (auto simp: kept_def)
    then show ?thesis
      using select_step_tail [of "take (length s - limit) s" "drop (length s - limit) s"] wf new True
      by (simp add: kept_def)
  next
    case tail: False
    have "kept limit tail s \<noteq> []" "length (kept limit tail s) = limit"
      using False pos tail by (auto simp: kept_def)
    then show ?thesis
      using select_step_head [of "take limit s" "drop limit s"] wf new tail
      by (simp add: kept_def)
  qed
qed

text \<open>The full map the scan would build without a limit.\<close>

fun ranked :: "('a \<Rightarrow> 'k::linorder) \<Rightarrow> (('k \<times> nat), 'a) btree \<Rightarrow> nat \<Rightarrow> 'a list \<Rightarrow> (('k \<times> nat), 'a) btree" where
  "ranked key m n [] = m"
| "ranked key m n (r # rs) = ranked key (bt_insert (key r, n) r m) (Suc n) rs"

definition fresh_from :: "nat \<Rightarrow> (('k \<times> nat), 'a) btree \<Rightarrow> bool" where
  "fresh_from n m \<longleftrightarrow> (\<forall>e \<in> set m. snd (fst e) < n)"

lemma fresh_from_new: "fresh_from n m \<Longrightarrow> (k, n) \<notin> fst ` set m"
  by (force simp: fresh_from_def)

lemma fresh_from_insert: "fresh_from n m \<Longrightarrow> fresh_from (Suc n) (bt_insert (k, n) v m)"
  using set_bt_insert_subset [of "(k, n)" v m] by (fastforce simp: fresh_from_def)

lemma select_loop_kept:
  assumes "bt_wf s" "fresh_from n s" "0 < limit"
  shows "select_loop key limit tail (kept limit tail s) n rows = kept limit tail (ranked key s n rows)"
  using assms(1,2)
proof (induction rows arbitrary: s n)
  case (Cons r rs)
  then show ?case
    by (simp add: select_step_kept assms(3) fresh_from_new fresh_from_insert)
qed simp

lemma ranked_values_insert:
  assumes "bt_wf m" "fresh_from n m" "\<forall>e \<in> set m. fst (fst e) = key (snd e)"
  shows "map snd (bt_insert (key r, n) r m) =
    takeWhile (\<lambda>x. key x \<le> key r) (map snd m) @ r # dropWhile (\<lambda>x. key x \<le> key r) (map snd m)"
  using assms
proof (induction m)
  case (Cons e m)
  then have e: "fst (fst e) = key (snd e)" "snd (fst e) < n"
    by (auto simp: fresh_from_def)
  have "key r < key (snd e) \<Longrightarrow> (key r, n) < fst e"
    using e by (cases "fst e") auto
  moreover have "\<not> key r < key (snd e) \<Longrightarrow> fst e < (key r, n)"
    using e by (cases "fst e") auto
  ultimately show ?case
    using Cons e by (auto simp: bt_wf_Cons fresh_from_def not_less)
qed simp

lemma ranked_append: "ranked key m n (xs @ [r]) = bt_insert (key r, n + length xs) r (ranked key m n xs)"
  by (induction xs arbitrary: m n) auto

lemma ranked_facts:
  "bt_wf (ranked key [] 0 rows) \<and> fresh_from (length rows) (ranked key [] 0 rows) \<and>
   (\<forall>e \<in> set (ranked key [] 0 rows). fst (fst e) = key (snd e))"
proof (induction rows rule: rev_induct)
  case (snoc r rs)
  have "\<forall>e \<in> set (bt_insert (key r, length rs) r (ranked key [] 0 rs)). fst (fst e) = key (snd e)"
    using snoc set_bt_insert_subset [of "(key r, length rs)" r "ranked key [] 0 rs"] by force
  then show ?case
    using snoc by (simp add: ranked_append fresh_from_insert)
qed (simp add: fresh_from_def)

lemma sort_key_snoc:
  "sort_key f (xs @ [r]) =
     takeWhile (\<lambda>x. f x \<le> f r) (sort_key f xs) @ r # dropWhile (\<lambda>x. f x \<le> f r) (sort_key f xs)"
    (is "_ = ?tw @ r # ?dw")
proof (rule properties_for_sort_key)
  have split: "?tw @ ?dw = sort_key f xs" by simp
  have above: "f r < f x" if "x \<in> set ?dw" for x
  proof -
    have "?dw \<noteq> []" using that by fastforce
    then obtain y ys where dw: "?dw = y # ys" by (meson neq_Nil_conv)
    have "\<not> f y \<le> f r" using dw by (metis hd_dropWhile list.distinct(1) list.sel(1))
    moreover have "sorted (map f (?tw @ ?dw))" unfolding split by simp
    then have "f y \<le> f x" using that dw by (auto simp: sorted_append)
    ultimately show ?thesis by simp
  qed
  show "mset (?tw @ r # ?dw) = mset (xs @ [r])"
  proof -
    have "mset (?tw @ r # ?dw) = add_mset r (mset (?tw @ ?dw))"
      by (simp only: mset_append mset.simps union_mset_add_mset_right)
    then show ?thesis unfolding split by simp
  qed
  show "sorted (map f (?tw @ r # ?dw))"
  proof -
    have "sorted (map f (?tw @ ?dw))" unfolding split by simp
    then have "sorted (map f ?tw)" "sorted (map f ?dw)" "\<forall>x \<in> set ?tw. \<forall>y \<in> set ?dw. f x \<le> f y"
      unfolding map_append sorted_append set_map by blast+
    then show ?thesis
      using above by (auto simp: sorted_append less_imp_le dest: set_takeWhileD)
  qed
  fix k
  have "filter (\<lambda>x. f k = f x) ?tw @ filter (\<lambda>x. f k = f x) ?dw = filter (\<lambda>x. f k = f x) xs"
    unfolding filter_append [symmetric] split
    using sort_key_stable [of f "f k" xs] by (simp add: eq_commute)
  moreover have "filter (\<lambda>x. f k = f x) ?dw = []" if "f k = f r"
    unfolding filter_empty_conv using that above by (metis less_irrefl)
  ultimately show "filter (\<lambda>x. f k = f x) (?tw @ r # ?dw) = filter (\<lambda>x. f k = f x) (xs @ [r])"
    by (cases "f k = f r") auto
qed

lemma ranked_values_sort: "map snd (ranked key [] 0 rows) = sort_key key rows"
proof (induction rows rule: rev_induct)
  case (snoc r rs)
  then show ?case
    using ranked_facts [of key rs] ranked_values_insert [of "ranked key [] 0 rs" "length rs" key r]
    by (simp add: ranked_append sort_key_snoc)
qed simp

lemma select_sorted:
  "select rows key limit tail =
     (if tail then drop (length rows - limit) (sort_key key rows)
      else take limit (sort_key key rows))"
proof (cases "limit = 0")
  case False
  have "select_loop key limit tail [] 0 rows = kept limit tail (ranked key [] 0 rows)"
    using select_loop_kept [of "[]" 0 limit key tail rows] False
    by (simp add: fresh_from_def)
  moreover have "length (ranked key [] 0 rows) = length rows"
    using arg_cong [OF ranked_values_sort [of key rows], of length] by simp
  ultimately show ?thesis
    using False
    by (simp add: select_def bt_values_def kept_def ranked_values_sort [symmetric] drop_map take_map)
qed (simp add: select_def)

text \<open>
  Bounded selection equals its specification: the first (or, with \<open>tail\<close>, the last)
  \<open>limit\<close> rows of the stable sort by key, although it never holds more than \<open>limit\<close> rows.
\<close>

theorem select_correct:
  "select rows key limit tail =
     (if tail then drop (length rows - limit) (sort_key key rows)
      else take limit (sort_key key rows))"
  by (rule select_sorted)

section \<open>History counts\<close>

lemma with_event_simps:
  "hc_count (with_event c t) = hc_count c + 1"
  "hc_more (with_event c t) = hc_more c"
  "hc_oldest_ms (with_event c t) = Some (case hc_oldest_ms c of None \<Rightarrow> t | Some x \<Rightarrow> min x t)"
  "hc_newest_ms (with_event c t) = Some (case hc_newest_ms c of None \<Rightarrow> t | Some x \<Rightarrow> max x t)"
  by (auto simp: with_event_def hc_merge_def pick_def split: option.splits)

lemma of_newest_loop_take:
  assumes "i \<le> HISTORY_COUNT_CAP"
  shows "of_newest_loop i c ts =
    (let c' = fold (\<lambda>t c. with_event c t) (take (HISTORY_COUNT_CAP - i) ts) c in
     if HISTORY_COUNT_CAP - i < length ts then c'\<lparr> hc_more := True \<rparr> else c')"
  using assms
proof (induction ts arbitrary: i c)
  case (Cons t ts)
  show ?case
  proof (cases "i = HISTORY_COUNT_CAP")
    case False
    then obtain k where k: "HISTORY_COUNT_CAP - i = Suc k" "HISTORY_COUNT_CAP - Suc i = k"
      using Cons.prems by (metis Suc_diff_Suc le_neq_implies_less)
    then show ?thesis
      using Cons.IH [of "Suc i" "with_event c t"] Cons.prems False by (simp add: Let_def)
  qed simp
qed simp

lemma fold_with_event:
  "fold (\<lambda>t c. with_event c t) ts history_count_default =
     \<lparr> hc_count = of_nat (length ts),
       hc_oldest_ms = (if ts = [] then None else Some (Min (set ts))),
       hc_newest_ms = (if ts = [] then None else Some (Max (set ts))), hc_more = False \<rparr>"
proof (induction ts rule: rev_induct)
  case (snoc t ts)
  have "with_event c t = \<lparr> hc_count = hc_count c + 1,
      hc_oldest_ms = Some (case hc_oldest_ms c of None \<Rightarrow> t | Some x \<Rightarrow> min x t),
      hc_newest_ms = Some (case hc_newest_ms c of None \<Rightarrow> t | Some x \<Rightarrow> max x t),
      hc_more = hc_more c \<rparr>" for c
    using with_event_simps [of c t] by simp
  then show ?case
    using snoc by (simp add: min.commute max.commute)
qed (simp add: history_count_default_def)

text \<open>
  A bounded count reads at most \<open>HISTORY_COUNT_CAP + 1\<close> times and is exact up to the
  cap: it counts the newest events up to the cap, reports the oldest and newest instant
  among those counted, and says \<open>more\<close> precisely when the range holds more than the cap.
\<close>

theorem of_newest_exact:
  "of_newest ts = (let n = min (length ts) HISTORY_COUNT_CAP; seen = take n ts in
     \<lparr> hc_count = of_nat n,
       hc_oldest_ms = (if seen = [] then None else Some (Min (set seen))),
       hc_newest_ms = (if seen = [] then None else Some (Max (set seen))),
       hc_more = (HISTORY_COUNT_CAP < length ts) \<rparr>)
   \<and> of_newest ts = of_newest (take (HISTORY_COUNT_CAP + 1) ts)"
proof -
  have *: "of_newest ts = (let n = min (length ts) HISTORY_COUNT_CAP; seen = take n ts in
     \<lparr> hc_count = of_nat n,
       hc_oldest_ms = (if seen = [] then None else Some (Min (set seen))),
       hc_newest_ms = (if seen = [] then None else Some (Max (set seen))),
       hc_more = (HISTORY_COUNT_CAP < length ts) \<rparr>)" for ts
    by (simp add: of_newest_def of_newest_loop_take fold_with_event Let_def min_def)
  show ?thesis
    by (simp add: * Let_def min_def)
qed

lemma of_newest_take: "of_newest (take (HISTORY_COUNT_CAP + 1) ts) = of_newest ts"
  by (simp add: of_newest_def of_newest_loop_take Let_def min_def)

lemma of_newest_complete:
  "\<not> hc_more (of_newest (rev ts)) \<Longrightarrow> of_newest (rev ts) = fold (\<lambda>t c. with_event c t) ts history_count_default"
  by (auto simp: of_newest_def of_newest_loop_take Let_def fold_with_event HISTORY_COUNT_CAP_def split: if_splits)

end
