(* ===== verification/Core_Addressing.thy ===== *)
theory Core_Addressing
  imports Core_Transcript
begin

text \<open>
  Who an event is addressed to (\<open>airc-core/src/addressing.rs\<close>) and the predicate of a
  bounded history scan (\<open>history_match.rs\<close>). \<open>char::is_alphanumeric\<close> is a Unicode table:
  it is the parameter \<open>alnum\<close>, which maps a string to the byte length of its first
  character when that character is alphanumeric.
\<close>

function trim_separators :: "string \<Rightarrow> string" where
  "trim_separators s =
     (case s of
        [] \<Rightarrow> []
      | c # t \<Rightarrow>
          if c = CHR '','' then trim_separators t
          else (case ws_prefix s of Some n \<Rightarrow> trim_separators (drop n s) | None \<Rightarrow> s))"
  by pat_completeness auto
termination
  by (relation "measure length") (auto dest: ws_prefix_Some)

function name_length :: "(string \<Rightarrow> nat option) \<Rightarrow> string \<Rightarrow> nat" where
  "name_length alnum s =
     (case s of
        [] \<Rightarrow> 0
      | c # t \<Rightarrow>
          if c = CHR ''-'' \<or> c = CHR ''_'' then Suc (name_length alnum t)
          else (case alnum s of
                  Some n \<Rightarrow> if 0 < n \<and> n \<le> length s then n + name_length alnum (drop n s) else 0
                | None \<Rightarrow> 0))"
  by pat_completeness auto
termination
  by (relation "measure (\<lambda>(_, s). length s)") auto

declare trim_separators.simps [simp del] name_length.simps [simp del]

definition starts_with_separator :: "string \<Rightarrow> bool" where
  "starts_with_separator s \<longleftrightarrow> (case s of [] \<Rightarrow> False | c # _ \<Rightarrow> c = CHR '','' \<or> ws_prefix s \<noteq> None)"

lemma length_trim_separators: "length (trim_separators s) \<le> length s"
proof (induction s rule: trim_separators.induct)
  case (1 s)
  show ?case
  proof (cases s)
    case Nil
    then show ?thesis by (subst trim_separators.simps) simp
  next
    case (Cons c t)
    show ?thesis
    proof (cases "c = CHR '',''")
      case True
      then show ?thesis
        using 1(1) [OF Cons True] Cons by (subst trim_separators.simps) simp
    next
      case False
      then show ?thesis
        using 1(2) [OF Cons False] Cons
        by (subst trim_separators.simps) (auto split: option.splits)
    qed
  qed
qed

function leading_mentions :: "(string \<Rightarrow> nat option) \<Rightarrow> string \<Rightarrow> string list" where
  "leading_mentions alnum rest =
     (case trim_separators rest of
        [] \<Rightarrow> []
      | c # after \<Rightarrow>
          if c \<noteq> CHR ''@'' then []
          else let end_pos = name_length alnum after in
            if end_pos = 0 then []
            else take end_pos after #
              leading_mentions alnum
                (if starts_with_separator (drop end_pos after) then drop end_pos after else []))"
  by pat_completeness auto
termination
proof (relation "measure (\<lambda>(_, s). length s)")
  fix alnum :: "string \<Rightarrow> nat option" and rest c after
  fix x
  assume *: "trim_separators rest = c # after" "\<not> c \<noteq> CHR ''@''" "x = name_length alnum after" "x \<noteq> 0"
  have "length (c # after) \<le> length rest"
    using length_trim_separators [of rest] *(1) by simp
  then show "((alnum, if starts_with_separator (drop x after) then drop x after else []), alnum, rest)
      \<in> measure (\<lambda>(_, s). length s)"
    by auto
qed simp

declare leading_mentions.simps [simp del]

record addressing =
  ad_peer :: "uuid option"
  ad_leading_mention :: bool

definition addressing_of :: "(string \<Rightarrow> nat option) \<Rightarrow> uuid option \<Rightarrow> body option \<Rightarrow> addressing" where
  "addressing_of alnum peer b =
     \<lparr> ad_peer = peer,
       ad_leading_mention =
         is_some_and (Option.bind b body_as_text) (\<lambda>text. leading_mentions alnum text \<noteq> []) \<rparr>"

definition addressing_of_target ::
  "(string \<Rightarrow> nat option) \<Rightarrow> mention_target \<Rightarrow> body option \<Rightarrow> addressing" where
  "addressing_of_target alnum target b =
     addressing_of alnum (case target of MT_Peer p \<Rightarrow> Some p | MT_All \<Rightarrow> None | MT_Room _ \<Rightarrow> None) b"

definition addressing_of_event :: "(string \<Rightarrow> nat option) \<Rightarrow> transcript_event \<Rightarrow> addressing" where
  "addressing_of_event alnum e = addressing_of_target alnum (te_target e) (te_body e)"

record addressee_filter =
  af_peer :: uuid

definition admitted_by :: "addressing \<Rightarrow> addressee_filter \<Rightarrow> bool" where
  "admitted_by a f \<longleftrightarrow> ad_peer a = Some (af_peer f) \<or> ad_leading_mention a"

record history_match =
  hm_headers :: header_filter
  hm_addressed_to :: "addressee_filter option"

definition history_match_headers :: "header_filter \<Rightarrow> history_match" where
  "history_match_headers f = \<lparr> hm_headers = f, hm_addressed_to = None \<rparr>"

definition matches_with :: "history_match \<Rightarrow> headers \<Rightarrow> addressing \<Rightarrow> bool" where
  "matches_with m h a \<longleftrightarrow>
     filter_matches (hm_headers m) h \<and> is_none_or (hm_addressed_to m) (admitted_by a)"

definition matches_event :: "(string \<Rightarrow> nat option) \<Rightarrow> history_match \<Rightarrow> transcript_event \<Rightarrow> bool" where
  "matches_event alnum m e = matches_with m (te_headers e) (addressing_of_event alnum e)"

end
