(* ===== verification/Store_Rows.thy ===== *)
theory Store_Rows
  imports Airc_Prelude
begin

text \<open>
  What the backends of the store share: its errors (\<open>airc-store/src/error.rs\<close>), the checked
  conversions at the database boundary (\<open>sqlite.rs\<close>) and the typed rows that callers see
  (\<open>beacon.rs\<close>, \<open>local_identity.rs\<close>, \<open>mesh_identity.rs\<close>, \<open>refresh_lock.rs\<close>,
  \<open>scoped_state.rs\<close>, \<open>subscriptions.rs\<close>, \<open>account_registry.rs\<close>, and the identity card of
  \<open>airc-core/src/identity.rs\<close>). An \<open>i64\<close> is an \<open>int\<close> that the conversions keep in range.
\<close>

section \<open>Errors and conversions\<close>

text \<open>Errors of libraries (the driver, the file system, the decoder) carry no payload here.\<close>

datatype store_error =
    ST_Io
  | ST_Database
  | ST_LockPoisoned
  | ST_NotAdmitted
  | ST_Migration string
  | ST_AheadOfBinary "string list"
  | ST_DuplicateEventId uuid
  | ST_UnknownTranscriptKind string
  | ST_InvalidStoredValue string int
  | ST_InvalidStoredEnumString string string
  | ST_NotFound string
  | ST_PeerPubkeyConflict uuid string string
  | ST_WrongPubkeyLength nat
  | ST_Base64
  | ST_Codec

definition u64_to_i64 :: "string \<Rightarrow> u64 \<Rightarrow> store_error + int" where
  "u64_to_i64 field value =
     (if uint value < 2 ^ 63 then Inr (uint value) else Inl (ST_InvalidStoredValue field (uint value)))"

definition i64_to_u64 :: "string \<Rightarrow> int \<Rightarrow> store_error + u64" where
  "i64_to_u64 field value =
     (if 0 \<le> value then Inr (word_of_int value) else Inl (ST_InvalidStoredValue field value))"

text \<open>The casts between \<open>u64\<close> and \<open>i64\<close> (\<open>as\<close>) keep the bits.\<close>

definition as_i64 :: "u64 \<Rightarrow> int" where
  "as_i64 w = sint w"

definition as_u64 :: "int \<Rightarrow> u64" where
  "as_u64 i = word_of_int i"

lemma as_u64_as_i64 [simp]: "as_u64 (as_i64 w) = w"
  by (simp add: as_u64_def as_i64_def)

lemma as_i64_inject [simp]: "as_i64 v = as_i64 w \<longleftrightarrow> v = w"
  by (metis as_u64_as_i64)

lemma as_i64_small: "uint w < 2 ^ 63 \<Longrightarrow> as_i64 w = uint w"
proof -
  assume "uint w < 2 ^ 63"
  moreover have "- (2 ^ 63) \<le> uint w"
    by (rule order_trans [OF _ uint_ge_0]) simp
  ultimately show ?thesis
    by (simp add: as_i64_def sint_uint signed_take_bit_int_eq_self)
qed

lemma u64_to_i64_Ok: "u64_to_i64 f w = Inr i \<longleftrightarrow> uint w < 2 ^ 63 \<and> i = uint w"
  by (auto simp: u64_to_i64_def)

lemma i64_to_u64_Ok: "0 \<le> i \<Longrightarrow> i64_to_u64 f i = Inr (word_of_int i)"
  by (simp add: i64_to_u64_def)

text \<open>\<open>collect\<close> of an iterator of results: the first error wins.\<close>

fun collect_results :: "('a \<Rightarrow> 'e + 'b) \<Rightarrow> 'a list \<Rightarrow> 'e + 'b list" where
  "collect_results f [] = Inr []"
| "collect_results f (a # as) = res_bind (f a) (\<lambda>b. res_bind (collect_results f as) (\<lambda>bs. Inr (b # bs)))"

lemma collect_results_Ok:
  "\<forall>a \<in> set as. \<exists>b. f a = Inr b \<Longrightarrow> collect_results f as = Inr (map (\<lambda>a. projr (f a)) as)"
  by (induction as) auto

section \<open>Rows\<close>

record identity_card =
  ic_name :: string
  ic_pronouns :: string
  ic_role :: string
  ic_bio :: string
  ic_status :: string
  ic_fingerprint :: string
  ic_integrations :: "(string, string) btree"

record stored_local_identity =
  li_peer_id :: uuid
  li_client_id :: uuid
  li_version :: "32 word"
  li_created_at_ms :: u64
  li_identity :: identity_card
  li_agent_name :: string

definition DEFAULT_AGENT_NAME :: string where
  "DEFAULT_AGENT_NAME = ''default''"

record stored_subscription =
  ss_channel_name :: string
  ss_room_id :: uuid
  ss_wire :: string
  ss_joined_at_ms :: u64
  ss_is_default :: bool
  ss_parted :: bool

record stored_mesh_identity =
  mi_scope :: string
  mi_identity :: string
  mi_source :: string
  mi_resolved_at_ms :: u64
  mi_ttl_ms :: u64

record stored_beacon =
  sb_mesh_identity :: string
  sb_peer_id :: uuid
  sb_scope_home :: string
  sb_subscribed_channels :: "string list"
  sb_pid :: "32 word"
  sb_published_at_ms :: u64
  sb_heartbeat_at_ms :: u64

record stored_refresh_lock =
  rl_mesh_identity :: string
  rl_held_at_ms :: u64
  rl_holder_pid :: "32 word"

datatype refresh_lock_outcome = RL_Acquired | RL_HeldFresh u64

record stored_scoped_state =
  sc_scope_key :: string
  sc_key :: string
  sc_value_json :: string
  sc_version :: int
  sc_updated_at_ms :: int
  sc_updated_by :: "string option"

record stored_account_registry =
  sa_mesh_identity :: string
  sa_schema_version :: "16 word"
  sa_generated_at_ms :: u64
  sa_document_json :: string
  sa_updated_at_ms :: u64

record stored_gist_sentinel =
  sg_mesh_identity :: string
  sg_gist_id :: string
  sg_updated_at_ms :: u64

end
