(* ===== verification/Store_Memory.thy ===== *)
theory Store_Memory
  imports Core_Select Core_Addressing Store_Rows
begin

text \<open>
  The event store behind boards and resumption, as \<open>airc-store/src/memory.rs\<close> implements it:
  an unordered vector of events and a checkpoint per consumer; the other tables of the
  store are in \<open>Store_Memory_Tables\<close>. A poisoned mutex requires a panic while the lock is
  held, which no operation can raise, so it has no branch here. The interface its clients rely on is the locale
  \<open>transcript_log\<close>, which the store interprets.
\<close>

section \<open>The store\<close>

record memory_store =
  ms_local_identities :: "(string, stored_local_identity) btree"
  ms_events :: "transcript_event list"
  ms_runtime_cursors :: "(string, transcript_cursor) btree"
  ms_subscriptions :: "stored_subscription list"
  ms_mesh_identities :: "(string, stored_mesh_identity) btree"
  ms_beacons :: "(string \<times> uuid, stored_beacon) btree"
  ms_refresh_locks :: "(string, stored_refresh_lock) btree"
  ms_scoped_state :: "(string \<times> string, stored_scoped_state) btree"

definition memory_store_new :: memory_store where
  "memory_store_new =
     \<lparr> ms_local_identities = [], ms_events = [], ms_runtime_cursors = [], ms_subscriptions = [],
       ms_mesh_identities = [], ms_beacons = [], ms_refresh_locks = [], ms_scoped_state = [] \<rparr>"

definition strictly_after :: "transcript_event \<Rightarrow> transcript_cursor \<Rightarrow> bool" where
  "strictly_after e c =
     (if tc_lamport c < te_lamport e then True
      else if te_lamport e = tc_lamport c then tc_event_id c < te_event_id e
      else False)"

definition store_append :: "memory_store \<Rightarrow> transcript_event \<Rightarrow> store_error + memory_store" where
  "store_append s ev =
     (if list_ex (\<lambda>e. te_event_id e = te_event_id ev) (ms_events s)
      then Inl (ST_DuplicateEventId (te_event_id ev))
      else Inr (s\<lparr> ms_events := ms_events s @ [ev] \<rparr>))"

definition in_channel :: "room_id option \<Rightarrow> transcript_event \<Rightarrow> bool" where
  "in_channel channel e = is_none_or channel (\<lambda>room. te_room_id e = room)"

definition store_page_recent :: "memory_store \<Rightarrow> room_id option \<Rightarrow> nat \<Rightarrow> transcript_event list" where
  "store_page_recent s channel limit =
     newest_slice limit (sort_key event_order (filter (in_channel channel) (ms_events s)))"

definition store_matching_history ::
  "(string \<Rightarrow> nat option) \<Rightarrow> memory_store \<Rightarrow> transcript_cursor \<Rightarrow> transcript_cursor \<Rightarrow> room_id list
   \<Rightarrow> history_match \<Rightarrow> nat \<Rightarrow> bool \<Rightarrow> transcript_event list" where
  "store_matching_history alnum s after through channels rule limit tail =
     select
       (filter (\<lambda>e. te_room_id e \<in> set channels \<and> strictly_after e after \<and>
                    \<not> strictly_after e through \<and> matches_event alnum rule e) (ms_events s))
       (\<lambda>e. (te_lamport e, te_event_id e)) limit tail"

definition store_resume_from ::
  "memory_store \<Rightarrow> transcript_cursor \<Rightarrow> room_id option \<Rightarrow> nat \<Rightarrow> store_error + transcript_event list" where
  "store_resume_from s cursor channel limit =
     Inr (take limit (sort_key event_order
       (filter (\<lambda>e. strictly_after e cursor) (filter (in_channel channel) (ms_events s)))))"

text \<open>\<open>max_by\<close> returns the last of several maximal elements.\<close>

fun max_by_order :: "transcript_event list \<Rightarrow> transcript_event option" where
  "max_by_order [] = None"
| "max_by_order (e # es) =
     (case max_by_order es of
        None \<Rightarrow> Some e
      | Some m \<Rightarrow> if event_order m < event_order e then Some e else Some m)"

definition latest_cursor :: "memory_store \<Rightarrow> room_id option \<Rightarrow> transcript_cursor option" where
  "latest_cursor s channel =
     map_option event_cursor (max_by_order (filter (in_channel channel) (ms_events s)))"

definition load_runtime_cursor :: "memory_store \<Rightarrow> string \<Rightarrow> transcript_cursor option" where
  "load_runtime_cursor s consumer = map_of (ms_runtime_cursors s) consumer"

definition save_runtime_cursor :: "memory_store \<Rightarrow> string \<Rightarrow> transcript_cursor \<Rightarrow> memory_store" where
  "save_runtime_cursor s consumer cursor =
     s\<lparr> ms_runtime_cursors := bt_insert consumer
          (case map_of (ms_runtime_cursors s) consumer of
             Some previous \<Rightarrow>
               if (tc_lamport previous, tc_event_id previous) < (tc_lamport cursor, tc_event_id cursor)
               then cursor else previous
           | None \<Rightarrow> cursor)
          (ms_runtime_cursors s) \<rparr>"

definition store_count_history ::
  "memory_store \<Rightarrow> transcript_cursor \<Rightarrow> transcript_cursor \<Rightarrow> room_id list \<Rightarrow> header_filter
   \<Rightarrow> runtime_self option \<Rightarrow> history_count" where
  "store_count_history s after through channels hf exclude =
     fold (\<lambda>e count. with_event count (te_occurred_at_ms e))
       (filter (\<lambda>e. te_room_id e \<in> set channels \<and> strictly_after e after \<and>
                    \<not> strictly_after e through \<and> filter_matches hf (te_headers e) \<and>
                    \<not> is_some_and exclude (\<lambda>rule. is_self_event rule e)) (ms_events s))
       history_count_default"

section \<open>The interface its clients rely on\<close>

lemma strictly_after_order:
  "strictly_after e c \<longleftrightarrow> (tc_lamport c, tc_event_id c) < event_order e"
  by (auto simp: strictly_after_def event_order_def less_prod_def)

lemma distinct_map_sort_key: "distinct (map f xs) \<Longrightarrow> distinct (map f (sort_key g xs))"
  by (simp add: distinct_map)

lemma sort_key_filter_greater:
  assumes "sorted (map f xs)" "distinct (map f xs)" "i < length xs"
  shows "filter (\<lambda>x. f (xs ! i) < f x) xs = drop (Suc i) xs"
proof -
  have mono: "f (xs ! j) \<le> f (xs ! k)" if "j \<le> k" "k < length xs" for j k
    using assms(1) sorted_nth_mono [of "map f xs" j k] that by simp
  have inj: "f (xs ! j) \<noteq> f (xs ! k)" if "j \<noteq> k" "j < length xs" "k < length xs" for j k
    using assms(2) nth_eq_iff_index_eq [of "map f xs" j k] that by simp
  have "\<not> f (xs ! i) < f x" if x: "x \<in> set (take (Suc i) xs)" for x
  proof -
    obtain k where "k < Suc i" "x = xs ! k"
      using x by (auto simp: in_set_conv_nth)
    then show ?thesis
      using mono [of k i] assms(3) by (simp add: not_less)
  qed
  then have "filter (\<lambda>x. f (xs ! i) < f x) (take (Suc i) xs) = []"
    by (simp add: filter_empty_conv)
  moreover have "f (xs ! i) < f x" if x: "x \<in> set (drop (Suc i) xs)" for x
  proof -
    obtain k where k: "k < length xs - Suc i" "x = xs ! (Suc i + k)"
      using x by (auto simp: in_set_conv_nth)
    then have "Suc i + k < length xs" by linarith
    then have "f (xs ! i) \<le> f x" "f (xs ! i) \<noteq> f x"
      using mono [of i "Suc i + k"] inj [of i "Suc i + k"] assms(3) k(2) by simp_all
    then show ?thesis by (rule le_neq_trans)
  qed
  then have "filter (\<lambda>x. f (xs ! i) < f x) (drop (Suc i) xs) = drop (Suc i) xs"
    by (rule filter_True [rule_format]) simp
  ultimately show ?thesis
    by (metis append_Nil append_take_drop_id filter_append)
qed

locale transcript_log =
  fixes stored :: "'s \<Rightarrow> transcript_event list"
    and resume :: "'s \<Rightarrow> transcript_cursor \<Rightarrow> room_id option \<Rightarrow> nat \<Rightarrow> 'e + transcript_event list"
  assumes resume_law:
    "resume s cursor channel limit =
       Inr (take limit (sort_key event_order
         (filter (\<lambda>e. in_channel channel e \<and> strictly_after e cursor) (stored s))))"
begin

text \<open>What lies after a cursor, in transcript order.\<close>

definition rest :: "'s \<Rightarrow> room_id option \<Rightarrow> transcript_cursor \<Rightarrow> transcript_event list" where
  "rest s channel cursor =
     sort_key event_order (filter (\<lambda>e. in_channel channel e \<and> strictly_after e cursor) (stored s))"

lemma resume_rest: "resume s cursor channel limit = Inr (take limit (rest s channel cursor))"
  by (simp add: resume_law rest_def)

lemma rest_distinct:
  "distinct (map event_order (stored s)) \<Longrightarrow> distinct (map event_order (rest s channel cursor))"
  by (simp add: rest_def distinct_map_sort_key distinct_map_filter)

text \<open>Resuming from the last event of a page continues exactly where the page ended.\<close>

lemma rest_after_page:
  assumes "distinct (map event_order (stored s))" "i < length (rest s channel cursor)"
  shows "rest s channel (event_cursor (rest s channel cursor ! i)) = drop (Suc i) (rest s channel cursor)"
proof -
  define xs where "xs = rest s channel cursor"
  define e where "e = xs ! i"
  have "e \<in> set xs" using assms(2) by (simp add: e_def xs_def)
  then have e: "strictly_after e cursor"
    by (simp add: xs_def rest_def)
  have after: "strictly_after x (event_cursor e) \<longleftrightarrow>
      strictly_after x cursor \<and> event_order e < event_order x" for x
  proof -
    have cursor: "(tc_lamport (event_cursor e), tc_event_id (event_cursor e)) = event_order e"
      by (simp add: event_cursor_def event_order_def)
    have "(tc_lamport cursor, tc_event_id cursor) < event_order e"
      using e by (simp only: strictly_after_order)
    then have "event_order e < event_order x \<Longrightarrow> (tc_lamport cursor, tc_event_id cursor) < event_order x"
      by (rule less_trans)
    then show ?thesis
      unfolding strictly_after_order cursor by blast
  qed
  have "rest s channel (event_cursor e) = filter (\<lambda>x. event_order e < event_order x) xs"
    unfolding rest_def xs_def after filter_sort filter_filter
    by (rule arg_cong [of _ _ "sort_key event_order"], rule filter_cong) auto
  also have "\<dots> = drop (Suc i) xs"
    using assms rest_distinct unfolding e_def
    by (intro sort_key_filter_greater) (auto simp: xs_def rest_def)
  finally show ?thesis by (simp add: e_def xs_def)
qed

end

interpretation mem_log: transcript_log ms_events store_resume_from
  by unfold_locales (simp add: store_resume_from_def conj_commute)

section \<open>Facts\<close>

text \<open>Appending keeps the event ids of the store distinct.\<close>

lemma store_append_distinct:
  "distinct (map te_event_id (ms_events s)) \<Longrightarrow> store_append s ev = Inr s' \<Longrightarrow>
     distinct (map te_event_id (ms_events s'))"
  by (auto simp: store_append_def list_ex_iff split: if_splits) metis

lemma distinct_ids_order:
  "distinct (map te_event_id es) \<Longrightarrow> distinct (map event_order es)"
  by (auto simp: distinct_map inj_on_def event_order_def)

text \<open>
  The history query of the store is exact: it returns the first (or last) \<open>limit\<close> of the
  events of the given channels that lie after one cursor, not after the other, and match the
  rule, in transcript order.
\<close>

theorem matching_history_exact:
  "store_matching_history alnum s after through channels rule limit tail =
     (let hits = sort_key event_order (filter (\<lambda>e. te_room_id e \<in> set channels \<and>
            (tc_lamport after, tc_event_id after) < event_order e \<and>
            event_order e \<le> (tc_lamport through, tc_event_id through) \<and>
            matches_event alnum rule e) (ms_events s))
      in if tail then drop (length hits - limit) hits else take limit hits)"
proof -
  have eo: "(\<lambda>e. (te_lamport e, te_event_id e)) = event_order"
    by (simp add: fun_eq_iff event_order_def)
  show ?thesis
    unfolding store_matching_history_def select_sorted eo
    by (simp add: strictly_after_order not_less Let_def)
qed

text \<open>
  A consumer's checkpoint never moves backwards: after a save it is the later of what was
  stored and what was offered, and no other consumer's checkpoint changes.
\<close>

theorem runtime_cursor_monotone:
  "load_runtime_cursor (save_runtime_cursor s consumer cursor) other =
     (if other = consumer
      then Some (case load_runtime_cursor s consumer of
             None \<Rightarrow> cursor
           | Some previous \<Rightarrow> if cursor_before previous cursor then cursor else previous)
      else load_runtime_cursor s other)"
  by (auto simp: load_runtime_cursor_def save_runtime_cursor_def cursor_before_def less_prod_def
      split: option.splits)

text \<open>
  The in-memory count does not stop at the cap: on a range with more than
  \<open>HISTORY_COUNT_CAP\<close> matching events it counts them all and reports that there are no more,
  where the bounded count of the same instants stops at the cap.
\<close>

theorem memory_count_uncapped:
  assumes "HISTORY_COUNT_CAP < length (ms_events s)" "length (ms_events s) < 2 ^ 64"
    and "\<forall>e \<in> set (ms_events s). te_room_id e \<in> set channels \<and> strictly_after e after \<and>
           \<not> strictly_after e through \<and> filter_matches hf (te_headers e)"
  shows "unat (hc_count (store_count_history s after through channels hf None)) = length (ms_events s) \<and>
    \<not> hc_more (store_count_history s after through channels hf None) \<and>
    unat (hc_count (of_newest (map te_occurred_at_ms (rev (ms_events s))))) = HISTORY_COUNT_CAP \<and>
    hc_more (of_newest (map te_occurred_at_ms (rev (ms_events s))))"
proof -
  have all: "filter (\<lambda>e. te_room_id e \<in> set channels \<and> strictly_after e after \<and>
      \<not> strictly_after e through \<and> filter_matches hf (te_headers e)) (ms_events s) = ms_events s"
    using assms(3) by (intro filter_True) auto
  have "store_count_history s after through channels hf None =
      fold (\<lambda>t c. with_event c t) (map te_occurred_at_ms (ms_events s)) history_count_default"
    by (simp add: store_count_history_def all fold_map comp_def)
  then have "hc_count (store_count_history s after through channels hf None) = of_nat (length (ms_events s))"
      "\<not> hc_more (store_count_history s after through channels hf None)"
    by (simp_all add: fold_with_event)
  moreover have "unat (of_nat (length (ms_events s)) :: u64) = length (ms_events s)"
    using assms(2) by (simp add: unsigned_of_nat take_bit_nat_eq_self)
  moreover have "unat (hc_count (of_newest (map te_occurred_at_ms (rev (ms_events s))))) = HISTORY_COUNT_CAP"
      "hc_more (of_newest (map te_occurred_at_ms (rev (ms_events s))))"
    using assms(1) by (simp_all add: of_newest_def of_newest_loop_take fold_with_event Let_def
        HISTORY_COUNT_CAP_def unsigned_of_nat)
  ultimately show ?thesis by simp
qed

theorem memory_count_uncapped_witness:
  "unat (hc_count (store_count_history
      (memory_store_new\<lparr> ms_events := replicate 1000 (sample_event 5) \<rparr>)
      \<lparr> tc_lamport = 0, tc_event_id = 0 \<rparr> \<lparr> tc_lamport = 9, tc_event_id = 0 \<rparr> [2] HF_Any None)) = 1000"
proof -
  let ?s = "(memory_store_new\<lparr> ms_events := replicate 1000 (sample_event 5) \<rparr>)"
  have "HISTORY_COUNT_CAP < length (ms_events ?s)" "length (ms_events ?s) < 2 ^ 64"
    by (simp_all add: HISTORY_COUNT_CAP_def)
  moreover have "\<forall>e \<in> set (ms_events ?s). te_room_id e \<in> set [2] \<and>
      strictly_after e \<lparr> tc_lamport = 0, tc_event_id = 0 \<rparr> \<and>
      \<not> strictly_after e \<lparr> tc_lamport = 9, tc_event_id = 0 \<rparr> \<and> filter_matches HF_Any (te_headers e)"
    by (simp add: sample_event_def strictly_after_def)
  ultimately show ?thesis
    using memory_count_uncapped [of ?s "[2]" "\<lparr> tc_lamport = 0, tc_event_id = 0 \<rparr>"
        "\<lparr> tc_lamport = 9, tc_event_id = 0 \<rparr>" HF_Any] by simp
qed

end
