(* ===== verification/Work_Replay.thy ===== *)
theory Work_Replay
  imports Work_Codec Work_Board_Inv Store_Memory
begin

text \<open>
  From transcripts to boards: decoding with the author's identity checked
  (\<open>airc-work/src/replay.rs\<close>) and the projection queries over a stored log
  (\<open>airc-work-store/src/lib.rs\<close>). \<open>eprintln!\<close> of a skipped event is not modelled.
\<close>

section \<open>Replay of transcripts\<close>

record work_replay_item =
  wri_cursor :: transcript_cursor
  wri_event :: work_event

datatype replay_error =
  RE_RejectedReview event_id codec_error
| RE_RejectedSubmission event_id codec_error
| RE_NotWorkEvent event_id
| RE_Codec event_id codec_error
| RE_Projection event_id projection_error

definition transcript_is_work_event :: "transcript_event \<Rightarrow> bool" where
  "transcript_is_work_event t =
     is_some_and (map_of (te_headers t) HEADER_FORGE_BODY_HINT) is_work_event_hint"

definition classify_codec_error :: "transcript_event \<Rightarrow> codec_error \<Rightarrow> replay_error" where
  "classify_codec_error t source =
     (let body_kind =
            (case te_body t of
               Some (BodyJson value) \<Rightarrow> Option.bind (json_get value ''kind'') json_as_str
             | _ \<Rightarrow> None);
          kind = (case body_kind of
                    Some k \<Rightarrow> Some k
                  | None \<Rightarrow> map_of (te_headers t) HEADER_FORGE_WORK_EVENT_KIND)
      in
      if map_of (te_headers t) HEADER_FORGE_BODY_HINT = Some BODY_HINT_FORGE_WORK_REVIEW
         \<or> kind = Some ''work_submission_reviewed''
      then RE_RejectedReview (te_event_id t) source
      else if kind = Some ''work_submitted'' then RE_RejectedSubmission (te_event_id t) source
      else RE_Codec (te_event_id t) source)"

text \<open>
  The checks of \<open>decode_transcript_work_event\<close> after decoding, one per event family, in the
  order of the source.
\<close>

definition authenticate_update :: "peer_id \<Rightarrow> work_event \<Rightarrow> work_event" where
  "authenticate_update author e =
     (case e of
        EvCardUpdated u \<Rightarrow>
          if is_some_and (cu_claim_selection u)
               (\<lambda>choice. sel_owner choice \<noteq> author \<or> cu_updated_by u \<noteq> author)
          then EvCardUpdated (u\<lparr> cu_claim_selection := None \<rparr>)
          else e
      | _ \<Rightarrow> e)"

definition authenticate_submission :: "peer_id \<Rightarrow> work_event \<Rightarrow> work_event" where
  "authenticate_submission author e =
     (case e of
        EvWorkSubmitted s \<Rightarrow>
          (case (if ws_publisher s \<noteq> author then Some SR_PublisherMismatch
                 else (case validate_submission s of Inl r \<Rightarrow> Some r | Inr _ \<Rightarrow> None)) of
             Some reason \<Rightarrow>
               EvSubmissionRejected ((rejected_of_submission s reason)\<lparr> rs_publisher := author \<rparr>)
           | None \<Rightarrow> e)
      | _ \<Rightarrow> e)"

definition authenticate_review :: "work_deps \<Rightarrow> peer_id \<Rightarrow> work_event \<Rightarrow> work_event" where
  "authenticate_review d author e =
     (case e of
        EvWorkSubmissionReviewed r \<Rightarrow>
          (case (if wr_reviewer r \<noteq> author then Some RR_ReviewerMismatch
                 else (case validate_review d r of Inl x \<Rightarrow> Some x | Inr _ \<Rightarrow> None)) of
             Some reason \<Rightarrow>
               EvReviewRejected ((rejected_review r reason)\<lparr> rwr_reviewer := author \<rparr>)
           | None \<Rightarrow> e)
      | _ \<Rightarrow> e)"

definition authenticate_request :: "transcript_event \<Rightarrow> work_event \<Rightarrow> replay_error + work_event" where
  "authenticate_request t e =
     (case e of
        EvSubmissionReviewRequested q \<Rightarrow>
          if cc_created_by (srr_card q) \<noteq> te_peer_id t
          then Inl (RE_RejectedReview (te_event_id t) CE_ReviewRequestAuthorMismatch)
          else Inr e
      | _ \<Rightarrow> Inr e)"

definition decode_transcript_work_event ::
  "work_deps \<Rightarrow> work_json \<Rightarrow> transcript_event \<Rightarrow> replay_error + work_replay_item" where
  "decode_transcript_work_event d j t =
     (if \<not> transcript_is_work_event t then Inl (RE_NotWorkEvent (te_event_id t))
      else
        res_bind (map_err (classify_codec_error t) (decode_work_event j (te_headers t) (te_body t))) (\<lambda>e.
        let author = te_peer_id t;
            e' = authenticate_review d author (authenticate_submission author (authenticate_update author e))
        in res_bind (authenticate_request t e') (\<lambda>e''.
        Inr \<lparr> wri_cursor = event_cursor t, wri_event = e'' \<rparr>)))"

definition is_rejection :: "replay_error \<Rightarrow> bool" where
  "is_rejection e = (case e of RE_RejectedSubmission _ _ \<Rightarrow> True | RE_RejectedReview _ _ \<Rightarrow> True | _ \<Rightarrow> False)"

definition project_step ::
  "work_deps \<Rightarrow> work_json \<Rightarrow> work_board \<Rightarrow> transcript_event \<Rightarrow> replay_error + work_board" where
  "project_step d j b t =
     (case decode_transcript_work_event d j t of
        Inl err \<Rightarrow> if is_rejection err then Inr b else Inl err
      | Inr item \<Rightarrow> map_err (RE_Projection (te_event_id t)) (apply_event d b (wri_event item)))"

definition project_transcript_work_events ::
  "work_deps \<Rightarrow> work_json \<Rightarrow> transcript_event list \<Rightarrow> replay_error + work_board" where
  "project_transcript_work_events d j events =
     run_steps (project_step d j) board_new (sort_key event_order events)"

section \<open>Boards from a store\<close>

record work_event_page =
  wep_events :: "work_event list"
  wep_newest_cursor :: "transcript_cursor option"

datatype 'e work_store_error =
  WSE_Store 'e
| WSE_Replay replay_error
| WSE_Projection projection_error

fun decode_events ::
  "work_deps \<Rightarrow> work_json \<Rightarrow> transcript_event list \<Rightarrow> replay_error + work_event list" where
  "decode_events d j [] = Inr []"
| "decode_events d j (t # ts) =
     (if \<not> transcript_is_work_event t then decode_events d j ts
      else case decode_transcript_work_event d j t of
        Inr item \<Rightarrow> res_bind (decode_events d j ts) (\<lambda>es. Inr (wri_event item # es))
      | Inl err \<Rightarrow> if is_rejection err then decode_events d j ts else Inl err)"

definition decode_page ::
  "work_deps \<Rightarrow> work_json \<Rightarrow> transcript_event list \<Rightarrow> 'e work_store_error + work_event_page" where
  "decode_page d j ts =
     res_bind (map_err WSE_Replay (decode_events d j ts)) (\<lambda>es.
       Inr \<lparr> wep_events = es, wep_newest_cursor = map_option event_cursor (last_opt ts) \<rparr>)"

text \<open>
  \<open>apply_transcripts\<close> mutates the board it is given: events before a failing one stay
  applied, so the board is returned beside the result.
\<close>

fun apply_all :: "work_deps \<Rightarrow> work_board \<Rightarrow> work_event list \<Rightarrow> (projection_error + unit) \<times> work_board" where
  "apply_all d b [] = (Inr (), b)"
| "apply_all d b (e # es) =
     (case apply_windowed d b e of Inl err \<Rightarrow> (Inl err, b) | Inr b' \<Rightarrow> apply_all d b' es)"

definition apply_transcripts ::
  "work_deps \<Rightarrow> work_json \<Rightarrow> work_board \<Rightarrow> transcript_event list
   \<Rightarrow> ('e work_store_error + transcript_cursor option) \<times> work_board" where
  "apply_transcripts d j b ts =
     (case decode_page d j ts of
        Inl err \<Rightarrow> (Inl err, b)
      | Inr page \<Rightarrow>
          (case apply_all d b (wep_events page) of
             (Inl err, b') \<Rightarrow> (Inl (WSE_Projection err), b')
           | (Inr _, b') \<Rightarrow> (Inr (wep_newest_cursor page), b')))"

definition project_transcripts ::
  "work_deps \<Rightarrow> work_json \<Rightarrow> transcript_event list \<Rightarrow> 'e work_store_error + work_board" where
  "project_transcripts d j ts =
     (case apply_transcripts d j board_new ts of (Inl err, _) \<Rightarrow> Inl err | (Inr _, b) \<Rightarrow> Inr b)"

definition project_recent ::
  "work_deps \<Rightarrow> work_json \<Rightarrow> (room_id option \<Rightarrow> nat \<Rightarrow> 'e + transcript_event list)
   \<Rightarrow> room_id option \<Rightarrow> nat \<Rightarrow> 'e work_store_error + work_board" where
  "project_recent d j store_page channel limit =
     res_bind (map_err WSE_Store (store_page channel limit)) (\<lambda>ts.
     res_bind (decode_page d j ts) (\<lambda>page.
     map_err WSE_Projection (replay_window d (wep_events page))))"

definition project_from ::
  "work_deps \<Rightarrow> work_json \<Rightarrow> (transcript_cursor \<Rightarrow> room_id option \<Rightarrow> nat \<Rightarrow> 'e + transcript_event list)
   \<Rightarrow> transcript_cursor \<Rightarrow> room_id option \<Rightarrow> nat \<Rightarrow> 'e work_store_error + work_board" where
  "project_from d j resume cursor channel limit =
     res_bind (map_err WSE_Store (resume cursor channel limit)) (\<lambda>ts.
     res_bind (decode_page d j ts) (\<lambda>page.
     map_err WSE_Projection (replay d (wep_events page))))"

text \<open>
  The paging loop of \<open>project_complete\<close>; \<open>resume\<close> is the store's \<open>resume_from\<close> on the
  channel. A loop that never reached a short page would not return: its value is \<open>None\<close>.
\<close>

partial_function (option) collect_pages ::
  "work_deps \<Rightarrow> work_json \<Rightarrow> (transcript_cursor \<Rightarrow> 'e + transcript_event list) \<Rightarrow> nat
   \<Rightarrow> transcript_cursor \<Rightarrow> work_event list \<Rightarrow> ('e work_store_error + work_event list) option" where
  "collect_pages d j resume page_len cursor events =
     (case resume cursor of
        Inl e \<Rightarrow> Some (Inl (WSE_Store e))
      | Inr ts \<Rightarrow>
          if ts = [] then Some (Inr events)
          else (case decode_page d j ts of
            Inl e \<Rightarrow> Some (Inl e)
          | Inr page \<Rightarrow>
              if length ts < page_len then Some (Inr (events @ wep_events page))
              else collect_pages d j resume page_len (event_cursor (last ts)) (events @ wep_events page)))"

definition project_complete ::
  "work_deps \<Rightarrow> work_json \<Rightarrow> (transcript_cursor \<Rightarrow> room_id option \<Rightarrow> nat \<Rightarrow> 'e + transcript_event list)
   \<Rightarrow> room_id option \<Rightarrow> nat \<Rightarrow> ('e work_store_error + work_board) option" where
  "project_complete d j resume channel page_size =
     (let page_len = max page_size 1 in
      map_option (\<lambda>r. res_bind r (\<lambda>events. map_err WSE_Projection (replay_window d events)))
        (collect_pages d j (\<lambda>c. resume c channel page_len) page_len
           \<lparr> tc_lamport = 0, tc_event_id = 0 \<rparr> []))"

section \<open>Authentication\<close>

text \<open>What a peer may say in its own name.\<close>

definition authored_by :: "work_deps \<Rightarrow> peer_id \<Rightarrow> work_event \<Rightarrow> bool" where
  "authored_by d author e =
     (case e of
        EvWorkSubmitted s \<Rightarrow> ws_publisher s = author \<and> validate_submission s = Inr ()
      | EvWorkSubmissionReviewed r \<Rightarrow> wr_reviewer r = author \<and> validate_review d r = Inr ()
      | EvSubmissionReviewRequested q \<Rightarrow> cc_created_by (srr_card q) = author
      | EvCardUpdated u \<Rightarrow>
          is_none_or (cu_claim_selection u)
            (\<lambda>choice. sel_owner choice = author \<and> cu_updated_by u = author)
      | _ \<Rightarrow> True)"

lemma authenticate_authored:
  assumes "authenticate_request t (authenticate_review d (te_peer_id t)
      (authenticate_submission (te_peer_id t) (authenticate_update (te_peer_id t) e))) = Inr x"
  shows "authored_by d (te_peer_id t) x"
  using assms
  by (cases e)
    (auto simp: authored_by_def authenticate_request_def authenticate_review_def
      authenticate_submission_def authenticate_update_def is_some_and_def is_none_or_def
      split: if_splits option.splits sum.splits)



section \<open>Order independence\<close>

lemma filter_eq_single: "distinct zs \<Longrightarrow> k \<in> set zs \<Longrightarrow> filter (\<lambda>x. x = k) zs = [k]"
  by (induction zs) (auto simp: filter_empty_conv)

text \<open>
  C33. The projected board depends on the set of transcripts and not on the order in which
  they arrive: any two arrivals of the same transcripts, with distinct positions in the log,
  project to the same result, error included.
\<close>

theorem projection_order_independent:
  assumes "mset xs = mset ys" "distinct (map event_order xs)"
  shows "project_transcript_work_events d j xs = project_transcript_work_events d j ys"
proof -
  have "sort_key event_order xs = sort_key event_order ys"
  proof (rule properties_for_sort_key)
    show "mset (sort_key event_order ys) = mset xs"
      using assms(1) by simp
    show "sorted (map event_order (sort_key event_order ys))" by simp
    fix k
    assume "k \<in> set (sort_key event_order ys)"
    then have k: "k \<in> set xs" "k \<in> set ys"
      using assms(1) by (auto dest: mset_eq_setD)
    have one: "filter (\<lambda>x. event_order k = event_order x) zs = [k]"
      if "distinct (map event_order zs)" "k \<in> set zs" for zs
    proof -
      have "filter (\<lambda>x. event_order k = event_order x) zs = filter (\<lambda>x. x = k) zs"
        using that by (intro filter_cong) (auto simp: distinct_map inj_on_def)
      then show ?thesis
        using that by (simp add: distinct_map filter_eq_single)
    qed
    have "distinct (map event_order ys)"
      using assms by (metis mset_map mset_eq_imp_distinct_iff)
    then have "distinct (map event_order (sort_key event_order ys))"
      by (metis mset_map mset_sort mset_eq_imp_distinct_iff)
    then show "filter (\<lambda>x. event_order k = event_order x) (sort_key event_order ys) =
        filter (\<lambda>x. event_order k = event_order x) xs"
      using one [OF assms(2) k(1)] one [of "sort_key event_order ys"] k(2) by simp
  qed
  then show ?thesis
    by (simp add: project_transcript_work_events_def)
qed

theorem projection_order_independent_witness:
  "project_transcript_work_events plain_deps (plain_json sample_tick) [sample_event 2, sample_event 3] =
     project_transcript_work_events plain_deps (plain_json sample_tick) [sample_event 3, sample_event 2]"
  by (rule projection_order_independent) (simp_all add: event_order_def sample_event_def)

section \<open>Incremental resume\<close>

lemma decode_events_append:
  "decode_events d j (xs @ ys) =
     res_bind (decode_events d j xs) (\<lambda>es. res_bind (decode_events d j ys) (\<lambda>fs. Inr (es @ fs)))"
proof (induction xs)
  case Nil
  then show ?case by (cases "decode_events d j ys") simp_all
next
  case (Cons t ts)
  then show ?case
    by (cases "decode_events d j ts"; cases "decode_events d j ys") (auto split: sum.splits)
qed

lemma apply_all_run:
  "apply_all d b es = (Inr (), b') \<longleftrightarrow> run_steps (apply_windowed d) b es = Inr b'"
  by (induction es arbitrary: b) (auto split: sum.splits)

lemma apply_transcripts_ok:
  "apply_transcripts d j b ts = (Inr c, b') \<longleftrightarrow>
     (\<exists>es. decode_events d j ts = Inr es \<and> run_steps (apply_windowed d) b es = Inr b') \<and>
     c = map_option event_cursor (last_opt ts)"
  by (cases "decode_events d j ts")
    (auto simp: apply_transcripts_def decode_page_def map_err_def apply_all_run [symmetric]
      split: prod.splits sum.splits)

lemma project_transcripts_eq:
  "project_transcripts d j ts =
     res_bind (map_err WSE_Replay (decode_events d j ts)) (\<lambda>es. map_err WSE_Projection (replay_window d es))"
proof -
  have run: "(case apply_all d b es of (Inl err, b') \<Rightarrow> Inl err | (Inr _, b') \<Rightarrow> Inr b') =
      run_steps (apply_windowed d) b es" for b es
    by (induction es arbitrary: b) (auto split: sum.splits)
  show ?thesis
    by (cases "decode_events d j ts")
      (auto simp: project_transcripts_def apply_transcripts_def decode_page_def map_err_def
        replay_window_def run [symmetric] split: prod.splits sum.splits)
qed

lemma project_transcripts_ok:
  "project_transcripts d j ts = Inr b \<longleftrightarrow>
     (\<exists>es. decode_events d j ts = Inr es \<and> run_steps (apply_windowed d) board_new es = Inr b)"
  by (cases "decode_events d j ts")
    (auto simp: project_transcripts_eq map_err_def replay_window_def split: sum.splits)

text \<open>
  Resuming a cached board is the same as projecting from scratch: a log of two parts
  projects to a board exactly when its first part projects and applying the second part to
  that board succeeds with it.
\<close>

theorem incremental_resume:
  "(project_transcripts d j (xs @ ys) = (Inr b :: 'e work_store_error + work_board)) \<longleftrightarrow>
   (\<exists>a c. project_transcripts d j xs = (Inr a :: 'e work_store_error + work_board) \<and>
      apply_transcripts d j a ys = (Inr c :: 'e work_store_error + transcript_cursor option, b))"
  by (auto simp: project_transcripts_ok apply_transcripts_ok decode_events_append res_bind_eq_Inr
      run_steps_append)

section \<open>Complete projection\<close>

context transcript_log
begin

lemma collect_pages_complete:
  assumes distinct: "distinct (map event_order (stored s))" and pos: "0 < n"
  shows "collect_pages d j (\<lambda>c. resume s c channel n) n cursor acc =
    Some (res_bind (map_err WSE_Replay (decode_events d j (rest s channel cursor))) (\<lambda>es. Inr (acc @ es)))"
proof (induction "length (rest s channel cursor)" arbitrary: cursor acc rule: less_induct)
  case less
  let ?xs = "rest s channel cursor"
  let ?page = "take n ?xs"
  show ?case
  proof (cases "?xs = []")
    case True
    then show ?thesis
      by (subst collect_pages.simps) (simp add: resume_rest map_err_def)
  next
    case False
    show ?thesis
    proof (cases "length ?page < n")
      case True
      then have "?page = ?xs" by simp
      then show ?thesis
        using False True pos
        by (subst collect_pages.simps)
          (cases "decode_events d j ?xs"; simp add: resume_rest decode_page_def map_err_def)
    next
      case full: False
      then have n: "n - 1 < length ?xs" "n \<le> length ?xs" using False pos by auto
      have "last ?page = ?xs ! (n - 1)"
        using n pos False by (simp add: last_conv_nth min_absorb2)
      then have rest: "rest s channel (event_cursor (last ?page)) = drop n ?xs"
        using rest_after_page [OF distinct n(1)] pos by simp
      have "length (drop n ?xs) < length ?xs" using n pos by simp
      then have IH: "collect_pages d j (\<lambda>c. resume s c channel n) n (event_cursor (last ?page)) acc' =
          Some (res_bind (map_err WSE_Replay (decode_events d j (drop n ?xs))) (\<lambda>es. Inr (acc' @ es)))" for acc'
        using less [of "event_cursor (last ?page)" acc'] rest by simp
      have "decode_events d j ?xs = decode_events d j (?page @ drop n ?xs)" by simp
      then have split: "decode_events d j ?xs = res_bind (decode_events d j ?page)
          (\<lambda>es. res_bind (decode_events d j (drop n ?xs)) (\<lambda>fs. Inr (es @ fs)))"
        by (simp only: decode_events_append)
      show ?thesis
        unfolding split using False full pos
        by (subst collect_pages.simps)
          (cases "decode_events d j ?page"; cases "decode_events d j (drop n ?xs)";
           simp add: resume_rest decode_page_def map_err_def IH [unfolded resume_rest])
    qed
  qed
qed

end

text \<open>
  C32. The complete projection of a stored log returns, for any page size, and yields exactly
  the projection of the whole channel in transcript order: paging neither loses nor repeats
  an event.
\<close>

theorem project_complete_whole:
  assumes "distinct (map te_event_id (ms_events s))"
    and "\<forall>e \<in> set (ms_events s). event_order e \<noteq> (0, 0)"
  shows "project_complete d j (store_resume_from s) channel page_size =
    Some (project_transcripts d j (sort_key event_order (filter (in_channel channel) (ms_events s))))"
proof -
  let ?zero = "\<lparr> tc_lamport = 0, tc_event_id = 0 \<rparr>"
  have after: "strictly_after e ?zero" if "e \<in> set (ms_events s)" for e
    using assms(2) that by (auto simp: strictly_after_def event_order_def word_gt_0)
  have "mem_log.rest s channel ?zero = sort_key event_order (filter (in_channel channel) (ms_events s))"
    unfolding mem_log.rest_def
    by (rule arg_cong [of _ _ "sort_key event_order"], rule filter_cong) (auto simp: after)
  then show ?thesis
    using mem_log.collect_pages_complete [OF distinct_ids_order [OF assms(1)], of "max page_size 1" d j channel ?zero "[]"]
    by (simp add: project_complete_def Let_def project_transcripts_eq res_bind_assoc)
qed

theorem project_complete_whole_witness:
  "project_complete plain_deps (plain_json sample_tick)
      (store_resume_from (memory_store_new\<lparr> ms_events := [sample_event 5] \<rparr>)) (Some 2) 1 =
    Some (project_transcripts plain_deps (plain_json sample_tick) [sample_event 5])"
  using project_complete_whole [of "(memory_store_new\<lparr> ms_events := [sample_event 5] \<rparr>)"
      plain_deps "plain_json sample_tick" "Some 2" 1]
  by (simp add: event_order_def sample_event_def in_channel_def)

end
