(* ===== verification/Bus_Envelope.thy ===== *)
theory Bus_Envelope
  imports Core_Addressing Core_Transcript
begin

text \<open>
  The envelope of the event server, its generational order and its filters
  (\<open>airc-bus/src/envelope.rs\<close>, \<open>seq.rs\<close>, \<open>filter.rs\<close>, \<open>addressing.rs\<close>, \<open>clock.rs\<close>).
  \<open>bus_deps\<close> holds the three functions of other crates that the sources call: the Unicode
  test on characters (\<open>bd_alnum\<close>, as in the core addressing theory), the JSON decoding of a
  payload (\<open>bd_from_payload\<close>) and the text of an identifier (\<open>bd_uuid_display\<close>). A shared
  handle \<open>Arc<Envelope>\<close> is the envelope: no operation changes one after it was published.
\<close>

record bus_deps =
  bd_alnum :: "string \<Rightarrow> nat option"
  bd_from_payload :: "8 word list \<Rightarrow> body option"
  bd_uuid_display :: "uuid \<Rightarrow> string"

section \<open>Owner-assigned order\<close>

datatype seq = Seq (sq_epoch: u64) (sq_counter: u64)

text \<open>The derived order compares the fields in their order of declaration.\<close>

instantiation seq :: linorder
begin

definition less_seq :: "seq \<Rightarrow> seq \<Rightarrow> bool" where
  "less_seq a b \<longleftrightarrow> (sq_epoch a, sq_counter a) < (sq_epoch b, sq_counter b)"

definition less_eq_seq :: "seq \<Rightarrow> seq \<Rightarrow> bool" where
  "less_eq_seq a b \<longleftrightarrow> (sq_epoch a, sq_counter a) \<le> (sq_epoch b, sq_counter b)"

instance
  by standard (auto simp: less_seq_def less_eq_seq_def intro: seq.expand)

end

datatype cursor = Cursor (cu_seq: seq) (cu_event_id: event_id)

definition is_before :: "cursor \<Rightarrow> cursor \<Rightarrow> bool" where
  "is_before self other =
     (if cu_seq self < cu_seq other then True
      else if cu_seq other < cu_seq self then False
      else cu_event_id self < cu_event_id other)"

definition is_after :: "cursor \<Rightarrow> cursor \<Rightarrow> bool" where
  "is_after self gate = is_before gate self"

text \<open>\<open>is_before\<close> is the strict part of a linear order, so the library's order applies.\<close>

instantiation cursor :: linorder
begin

definition less_cursor :: "cursor \<Rightarrow> cursor \<Rightarrow> bool" where
  "less_cursor a b \<longleftrightarrow> is_before a b"

definition less_eq_cursor :: "cursor \<Rightarrow> cursor \<Rightarrow> bool" where
  "less_eq_cursor a b \<longleftrightarrow> a = b \<or> is_before a b"

lemma is_before_key:
  "is_before a b \<longleftrightarrow> (cu_seq a, cu_event_id a) < (cu_seq b, cu_event_id b)"
  by (auto simp: is_before_def)

instance
  by standard
    (auto simp: less_cursor_def less_eq_cursor_def is_before_key intro: cursor.expand)

end

lemma is_before_less [simp]: "is_before a b \<longleftrightarrow> a < b"
  by (simp add: less_cursor_def)

lemma is_after_less [simp]: "is_after a b \<longleftrightarrow> b < a"
  by (simp add: is_after_def)

lemma seq_less_iff:
  "Seq e c < Seq e' c' \<longleftrightarrow> e < e' \<or> e = e' \<and> c < c'"
  by (auto simp: less_seq_def)

lemma cursor_less_iff:
  "Cursor s i < Cursor s' i' \<longleftrightarrow> s < s' \<or> s = s' \<and> i < i'"
  by (auto simp flip: is_before_less simp: is_before_def)

section \<open>Envelopes\<close>

datatype target =
  TargetAll
| TargetEndpoint string
| TargetPeer uuid
| TargetReply uuid
| TargetCapability string

datatype kind =
  KMessage | KEvent | KCommand | KCommandResult | KSignal | KStreamChunk | KControl

datatype delivery_class =
  DC_Durable | DC_EphemeralLatest | DC_EphemeralWindow | DC_RequestResponse | DC_StreamChunk

definition is_durable :: "delivery_class \<Rightarrow> bool" where
  "is_durable d \<longleftrightarrow> d = DC_Durable"

definition is_ephemeral_latest :: "delivery_class \<Rightarrow> bool" where
  "is_ephemeral_latest d \<longleftrightarrow> d = DC_EphemeralLatest"

record envelope =
  en_event_id :: event_id
  en_channel :: room_id
  en_from :: "uuid \<times> client_id"
  en_target :: target
  en_kind :: kind
  en_delivery :: delivery_class
  en_seq :: seq
  en_occurred_at_ms :: u64
  en_correlation_id :: "uuid option"
  en_coalesce_key :: "string option"
  en_headers :: headers
  en_payload :: "8 word list"

text \<open>\<open>Envelope::new\<close> mints a random id; here it is an argument.\<close>

definition envelope_new ::
  "event_id \<Rightarrow> room_id \<Rightarrow> uuid \<times> client_id \<Rightarrow> kind \<Rightarrow> delivery_class \<Rightarrow> 8 word list \<Rightarrow> envelope" where
  "envelope_new event_id channel from k delivery payload =
     \<lparr> en_event_id = event_id, en_channel = channel, en_from = from, en_target = TargetAll,
       en_kind = k, en_delivery = delivery, en_seq = Seq 0 0, en_occurred_at_ms = 0,
       en_correlation_id = None, en_coalesce_key = None, en_headers = [], en_payload = payload \<rparr>"

definition with_target :: "envelope \<Rightarrow> target \<Rightarrow> envelope" where
  "with_target e t = e\<lparr> en_target := t \<rparr>"

definition with_coalesce_key :: "envelope \<Rightarrow> string \<Rightarrow> envelope" where
  "with_coalesce_key e k = e\<lparr> en_coalesce_key := Some k \<rparr>"

definition with_correlation_id :: "envelope \<Rightarrow> uuid \<Rightarrow> envelope" where
  "with_correlation_id e i = e\<lparr> en_correlation_id := Some i \<rparr>"

definition with_header :: "envelope \<Rightarrow> string \<Rightarrow> string \<Rightarrow> envelope" where
  "with_header e k v = e\<lparr> en_headers := bt_insert k v (en_headers e) \<rparr>"

definition with_event_id :: "envelope \<Rightarrow> event_id \<Rightarrow> envelope" where
  "with_event_id e i = e\<lparr> en_event_id := i \<rparr>"

definition env_cursor :: "envelope \<Rightarrow> cursor" where
  "env_cursor e = Cursor (en_seq e) (en_event_id e)"

abbreviation env_durable :: "envelope \<Rightarrow> bool" where
  "env_durable e \<equiv> is_durable (en_delivery e)"

abbreviation env_ephemeral :: "envelope \<Rightarrow> bool" where
  "env_ephemeral e \<equiv> is_ephemeral_latest (en_delivery e)"

section \<open>Filters and addressing\<close>

record bus_filter =
  bf_channel :: room_id
  bf_kinds :: "kind list option"
  bf_delivery :: "delivery_class list option"
  bf_headers :: header_filter

definition filter_channel :: "room_id \<Rightarrow> bus_filter" where
  "filter_channel channel =
     \<lparr> bf_channel = channel, bf_kinds = None, bf_delivery = None, bf_headers = HF_Any \<rparr>"

definition bus_filter_matches :: "bus_filter \<Rightarrow> envelope \<Rightarrow> bool" where
  "bus_filter_matches f e =
     (if en_channel e \<noteq> bf_channel f then False
      else if \<not> is_none_or (bf_kinds f) (\<lambda>ks. en_kind e \<in> set ks) then False
      else if \<not> is_none_or (bf_delivery f) (\<lambda>ds. en_delivery e \<in> set ds) then False
      else filter_matches (bf_headers f) (en_headers e))"

lemma bus_filter_headers:
  "bus_filter_matches f e \<Longrightarrow> filter_matches (bf_headers f) (en_headers e)"
  by (auto simp: bus_filter_matches_def split: if_splits)

definition bus_addressing_of :: "bus_deps \<Rightarrow> target \<Rightarrow> 8 word list \<Rightarrow> addressing" where
  "bus_addressing_of d t payload =
     addressing_of (bd_alnum d) (case t of TargetPeer p \<Rightarrow> Some p | _ \<Rightarrow> None) (bd_from_payload d payload)"

definition env_addressing :: "bus_deps \<Rightarrow> envelope \<Rightarrow> addressing" where
  "env_addressing d e = bus_addressing_of d (en_target e) (en_payload e)"

definition matches_history :: "bus_deps \<Rightarrow> envelope \<Rightarrow> history_match \<Rightarrow> bool" where
  "matches_history d e rule = matches_with rule (en_headers e) (env_addressing d e)"

section \<open>Sequence numbers across restarts\<close>

text \<open>
  The persisted epoch cell is a \<open>u64\<close>; \<open>fetch_add\<close> wraps. A daemon start bumps the cell and
  begins a fresh in-memory counter at any seed.
\<close>

type_synonym epoch_store = u64

record seq_source =
  ss_epoch :: u64
  ss_counter :: u64

definition bump_and_load :: "epoch_store \<Rightarrow> u64 \<times> epoch_store" where
  "bump_and_load cell = (cell + 1, cell + 1)"

definition start_at_counter :: "epoch_store \<Rightarrow> u64 \<Rightarrow> seq_source \<times> epoch_store" where
  "start_at_counter cell start_counter =
     (let (epoch, cell') = bump_and_load cell
      in (\<lparr> ss_epoch = epoch, ss_counter = start_counter \<rparr>, cell'))"

definition seq_start :: "epoch_store \<Rightarrow> seq_source \<times> epoch_store" where
  "seq_start cell = start_at_counter cell 0"

definition seq_next :: "seq_source \<Rightarrow> seq \<times> seq_source" where
  "seq_next src = (Seq (ss_epoch src) (ss_counter src), src\<lparr> ss_counter := ss_counter src + 1 \<rparr>)"

text \<open>A daemon's history: starts, each with a seed, and the numbers drawn between them.\<close>

datatype daemon_op = Restart u64 | Draw

fun run_daemon :: "seq_source \<Rightarrow> epoch_store \<Rightarrow> daemon_op list \<Rightarrow> seq list" where
  "run_daemon src cell [] = []"
| "run_daemon src cell (Restart seed # ops) =
     (case start_at_counter cell seed of (src', cell') \<Rightarrow> run_daemon src' cell' ops)"
| "run_daemon src cell (Draw # ops) =
     (case seq_next src of (s, src') \<Rightarrow> s # run_daemon src' cell ops)"

fun restarts :: "daemon_op list \<Rightarrow> nat" where
  "restarts [] = 0"
| "restarts (Restart _ # ops) = Suc (restarts ops)"
| "restarts (Draw # ops) = restarts ops"

text \<open>No counter of a lifetime reaches the end of its width.\<close>

fun counters_fit :: "u64 \<Rightarrow> daemon_op list \<Rightarrow> bool" where
  "counters_fit c [] = True"
| "counters_fit c (Restart seed # ops) = counters_fit seed ops"
| "counters_fit c (Draw # ops) = (c < - 1 \<and> counters_fit (c + 1) ops)"

lemma word_suc_less: "c < - 1 \<Longrightarrow> unat (c + 1) = Suc (unat c)" for c :: u64
proof -
  assume "c < - 1"
  then have "unat c < 2 ^ 64 - 1"
    using unat_word_max [where 'a = 64] by (simp add: word_less_nat_alt)
  then show ?thesis by (simp add: unat_word_ariths)
qed

lemma run_daemon_lower:
  assumes "counters_fit (ss_counter src) ops" "unat cell + restarts ops < 2 ^ 64"
    and "ss_epoch src = cell" "s \<in> set (run_daemon src cell ops)"
  shows "Seq (ss_epoch src) (ss_counter src) \<le> s \<or> cell < sq_epoch s"
  using assms
proof (induction src cell ops rule: run_daemon.induct)
  case (2 src cell seed ops)
  have "cell < cell + 1"
    using 2(3) by (simp add: word_less_nat_alt unat_word_ariths)
  then show ?case
    using 2 by (auto simp: start_at_counter_def bump_and_load_def less_eq_seq_def unat_word_ariths)
next
  case (3 src cell ops)
  have "ss_counter src < ss_counter src + 1"
    using 3(2) by (simp add: word_less_nat_alt word_suc_less)
  then show ?case
    using 3 by (auto simp: seq_next_def less_eq_seq_def)
qed simp

text \<open>
  Sequence numbers are never reissued. Over any history of a daemon (starts with
  arbitrary counter seeds, so a seed may rewind below numbers already drawn, interleaved
  with draws), the numbers drawn are strictly increasing in the order they are drawn, as
  long as the epoch cell and the counter of a lifetime do not wrap around their 64 bits.
\<close>

theorem seq_never_reissued:
  assumes "counters_fit (ss_counter src) ops" "unat cell + restarts ops < 2 ^ 64"
    and "ss_epoch src = cell"
  shows "sorted_wrt (<) (run_daemon src cell ops)"
  using assms
proof (induction src cell ops rule: run_daemon.induct)
  case (2 src cell seed ops)
  then show ?case
    by (simp add: start_at_counter_def bump_and_load_def unat_word_ariths)
next
  case (3 src cell ops)
  let ?src' = "src\<lparr>ss_counter := ss_counter src + 1\<rparr>"
  have step: "ss_counter src < ss_counter src + 1"
    using 3(2) by (simp add: word_less_nat_alt word_suc_less)
  have "Seq (ss_epoch src) (ss_counter src) < s" if "s \<in> set (run_daemon ?src' cell ops)" for s
  proof -
    have "Seq (ss_epoch src) (ss_counter src + 1) \<le> s \<or> cell < sq_epoch s"
      using run_daemon_lower [of ?src' ops cell s] 3(2-4) that by simp
    then show ?thesis
      using step 3(4) by (cases s) (auto simp: seq_less_iff less_eq_seq_def)
  qed
  then show ?case
    using 3 by (simp add: seq_next_def)
qed simp

theorem seq_never_reissued_witness:
  "run_daemon \<lparr> ss_epoch = 4, ss_counter = 0 \<rparr> 4 [Restart 7, Draw, Draw, Restart 0, Draw] =
     [Seq 5 7, Seq 5 8, Seq 6 0] \<and>
   sorted_wrt (<) (run_daemon \<lparr> ss_epoch = 4, ss_counter = 0 \<rparr> 4
     [Restart 7, Draw, Draw, Restart 0, Draw])"
proof
  let ?src = "\<lparr> ss_epoch = 4, ss_counter = 0 \<rparr>"
  let ?ops = "[Restart 7, Draw, Draw, Restart 0, Draw]"
  show "run_daemon ?src 4 ?ops = [Seq 5 7, Seq 5 8, Seq 6 0]"
    by code_simp
  have "counters_fit (ss_counter ?src) ?ops" "ss_epoch ?src = 4" by code_simp+
  moreover have "unat (4 :: u64) + restarts ?ops < 2 ^ 64" by simp
  ultimately show "sorted_wrt (<) (run_daemon ?src 4 ?ops)"
    using seq_never_reissued by blast
qed

end
