(* ===== verification/Bus_Ring.thy ===== *)
theory Bus_Ring
  imports Bus_Envelope "HOL-Library.Sublist"
begin

text \<open>
  The per-channel hot ring (\<open>airc-bus/src/ring.rs\<close>): recent envelopes in push order,
  bounded by entry count and by retained bytes, a durable entry pinned until the
  write-behind task confirms it. Byte totals are sums of lengths of objects in memory and
  are \<open>nat\<close>; the subtraction of \<open>remove_at\<close> never underflows because the total is exact
  (\<open>ring_ok\<close>).
\<close>

section \<open>Operations\<close>

record slot =
  sl_env :: envelope
  sl_pinned :: bool

record hot_ring =
  hr_slots :: "slot list"
  hr_capacity :: nat
  hr_byte_budget :: nat
  hr_bytes :: nat

definition retained_bytes :: "envelope \<Rightarrow> nat" where
  "retained_bytes e =
     length (en_payload e) + sum_list (map (\<lambda>(k, v). length k + length v) (en_headers e)) +
     (case en_coalesce_key e of None \<Rightarrow> 0 | Some k \<Rightarrow> length k)"

definition ring_new :: "nat \<Rightarrow> nat \<Rightarrow> hot_ring" where
  "ring_new capacity byte_budget =
     \<lparr> hr_slots = [], hr_capacity = max capacity 1, hr_byte_budget = byte_budget, hr_bytes = 0 \<rparr>"

definition over_bounds :: "hot_ring \<Rightarrow> bool" where
  "over_bounds r \<longleftrightarrow>
     hr_capacity r < length (hr_slots r) \<or>
     1 < length (hr_slots r) \<and> hr_byte_budget r < hr_bytes r"

definition remove_at :: "hot_ring \<Rightarrow> nat \<Rightarrow> hot_ring" where
  "remove_at r index =
     (if index < length (hr_slots r)
      then r\<lparr> hr_slots := take index (hr_slots r) @ drop (Suc index) (hr_slots r),
              hr_bytes := hr_bytes r - retained_bytes (sl_env (hr_slots r ! index)) \<rparr>
      else r)"

fun position :: "('a \<Rightarrow> bool) \<Rightarrow> 'a list \<Rightarrow> nat option" where
  "position p [] = None"
| "position p (x # xs) = (if p x then Some 0 else map_option Suc (position p xs))"

lemma position_Some:
  "position p xs = Some i \<Longrightarrow> i < length xs \<and> p (xs ! i) \<and> (\<forall>j < i. \<not> p (xs ! j))"
proof (induction xs arbitrary: i)
  case (Cons x xs)
  then show ?case
    by (cases i) (auto simp: less_Suc_eq_0_disj split: if_splits)
qed simp

lemma position_None: "position p xs = None \<longleftrightarrow> (\<forall>x \<in> set xs. \<not> p x)"
  by (induction xs) auto

lemma length_remove_at [simp]:
  "index < length (hr_slots r) \<Longrightarrow> length (hr_slots (remove_at r index)) = length (hr_slots r) - 1"
  by (simp add: remove_at_def)

text \<open>The eviction loop: every round that continues removes one slot.\<close>

function evict_to_capacity :: "hot_ring \<Rightarrow> hot_ring" where
  "evict_to_capacity r =
     (if over_bounds r then
        (case hr_slots r of
           [] \<Rightarrow> r
         | front # _ \<Rightarrow>
             if \<not> sl_pinned front then evict_to_capacity (remove_at r 0)
             else
               (case position (\<lambda>s. \<not> env_durable (sl_env s)) (hr_slots r) of
                  Some index \<Rightarrow>
                    if index + 1 < length (hr_slots r) \<or> hr_capacity r < length (hr_slots r)
                    then evict_to_capacity (remove_at r index) else r
                | None \<Rightarrow> r))
      else r)"
  by pat_completeness auto

termination
proof (relation "measure (\<lambda>r. length (hr_slots r))", goal_cases)
  case (3 r front rest index)
  then show ?case
    using position_Some [OF 3(4)] by (simp add: length_remove_at)
qed auto

declare evict_to_capacity.simps [simp del]

definition ring_push :: "hot_ring \<Rightarrow> envelope \<Rightarrow> hot_ring" where
  "ring_push r e =
     evict_to_capacity (r\<lparr> hr_bytes := hr_bytes r + retained_bytes e,
       hr_slots := hr_slots r @ [\<lparr> sl_env = e, sl_pinned = env_durable e \<rparr>] \<rparr>)"

fun unpin_first :: "event_id \<Rightarrow> slot list \<Rightarrow> slot list" where
  "unpin_first i [] = []"
| "unpin_first i (s # ss) =
     (if en_event_id (sl_env s) = i then s\<lparr> sl_pinned := False \<rparr> # ss else s # unpin_first i ss)"

definition mark_persisted :: "hot_ring \<Rightarrow> event_id \<Rightarrow> hot_ring" where
  "mark_persisted r i = evict_to_capacity (r\<lparr> hr_slots := unpin_first i (hr_slots r) \<rparr>)"

abbreviation ring_envs :: "hot_ring \<Rightarrow> envelope list" where
  "ring_envs r \<equiv> map sl_env (hr_slots r)"

definition replay_after :: "hot_ring \<Rightarrow> cursor option \<Rightarrow> envelope list" where
  "replay_after r from = filter (\<lambda>e. is_none_or from (\<lambda>c. is_after (env_cursor e) c)) (ring_envs r)"

definition newest_cursor :: "hot_ring \<Rightarrow> cursor option" where
  "newest_cursor r = map_option env_cursor (last_opt (ring_envs r))"

definition newest_durable_cursor :: "hot_ring \<Rightarrow> cursor option" where
  "newest_durable_cursor r = map_option env_cursor (find env_durable (rev (ring_envs r)))"

definition oldest_cursor :: "hot_ring \<Rightarrow> cursor option" where
  "oldest_cursor r = map_option env_cursor (first_opt (ring_envs r))"

definition pinned_count :: "hot_ring \<Rightarrow> nat" where
  "pinned_count r = length (filter sl_pinned (hr_slots r))"

section \<open>What a ring holds of its channel's log\<close>

text \<open>
  \<open>thins post envs\<close>: \<open>envs\<close> is \<open>post\<close> less some entries that are not durable.
  \<open>ring_covers log persisted r\<close>: the log splits in two; every durable of the first part is
  persisted, and the ring holds the second part less some entries that are not durable.
\<close>

definition thins :: "envelope list \<Rightarrow> envelope list \<Rightarrow> bool" where
  "thins post envs \<longleftrightarrow> subseq envs post \<and> filter env_durable envs = filter env_durable post"

definition ring_covers :: "envelope list \<Rightarrow> event_id set \<Rightarrow> hot_ring \<Rightarrow> bool" where
  "ring_covers log persisted r \<longleftrightarrow>
     (\<exists>pre post. log = pre @ post \<and>
        (\<forall>e \<in> set pre. env_durable e \<longrightarrow> en_event_id e \<in> persisted) \<and> thins post (ring_envs r))"

definition slot_ok :: "event_id set \<Rightarrow> slot \<Rightarrow> bool" where
  "slot_ok persisted s \<longleftrightarrow>
     (if sl_pinned s then env_durable (sl_env s)
      else env_durable (sl_env s) \<longrightarrow> en_event_id (sl_env s) \<in> persisted)"

definition ring_ok :: "envelope list \<Rightarrow> event_id set \<Rightarrow> hot_ring \<Rightarrow> bool" where
  "ring_ok log persisted r \<longleftrightarrow>
     0 < hr_capacity r \<and> hr_bytes r = sum_list (map retained_bytes (ring_envs r)) \<and>
     list_all (slot_ok persisted) (hr_slots r) \<and> ring_covers log persisted r"

text \<open>Within bounds, or held above them by unpersisted durables only.\<close>

definition ring_settled :: "hot_ring \<Rightarrow> bool" where
  "ring_settled r \<longleftrightarrow>
     \<not> over_bounds r \<or>
     (\<exists>front rest. hr_slots r = front # rest \<and> sl_pinned front \<and>
        (\<forall>s \<in> set (if hr_capacity r < length (hr_slots r) then hr_slots r else butlast (hr_slots r)).
           env_durable (sl_env s)))"

lemma thins_Cons_split:
  assumes "thins post (h # t)"
  obtains a b where "post = a @ h # b" "\<forall>e \<in> set a. \<not> env_durable e" "thins b t"
proof -
  from assms obtain a b where ab: "post = a @ h # b" "subseq t b"
    by (auto simp: thins_def dest: list_emb_ConsD)
  have eq: "filter env_durable (h # t) = filter env_durable a @ filter env_durable (h # b)"
    using assms ab(1) by (simp add: thins_def)
  have le: "length (filter env_durable t) \<le> length (filter env_durable b)"
    using subseq_filter [OF ab(2)] by (rule list_emb_length)
  have "length (filter env_durable (h # t)) =
      length (filter env_durable a) + length (filter env_durable (h # b))"
    using eq by (simp flip: length_append)
  with le have "filter env_durable a = []"
    by (simp split: if_splits)
  then have "\<forall>e \<in> set a. \<not> env_durable e" "filter env_durable t = filter env_durable b"
    using eq by (auto simp: filter_empty_conv split: if_splits)
  with ab that show thesis
    by (simp add: thins_def)
qed

lemma thins_snoc: "thins post envs \<Longrightarrow> thins (post @ [e]) (envs @ [e])"
  by (simp add: thins_def)

lemma thins_drop_nondurable:
  assumes "thins post (a @ x # b)" "\<not> env_durable x"
  shows "thins post (a @ b)"
proof -
  have "subseq (a @ b) (a @ x # b)"
    by (simp add: subseq_append' list_emb_Cons)
  with assms show ?thesis
    unfolding thins_def by (auto intro: subseq_order.trans)
qed

lemma remove_at_split:
  assumes "index < length (hr_slots r)"
  obtains a s b where "hr_slots r = a @ s # b" "length a = index" "s = hr_slots r ! index"
    "hr_slots (remove_at r index) = a @ b"
    "hr_bytes (remove_at r index) = hr_bytes r - retained_bytes (sl_env s)"
    "hr_capacity (remove_at r index) = hr_capacity r"
    "hr_byte_budget (remove_at r index) = hr_byte_budget r"
  using assms that [of "take index (hr_slots r)" "hr_slots r ! index" "drop (Suc index) (hr_slots r)"]
  by (simp add: remove_at_def id_take_nth_drop [symmetric])

lemma ring_ok_remove_front:
  assumes "ring_ok log persisted r" "hr_slots r = front # rest" "\<not> sl_pinned front"
  shows "ring_ok log persisted (remove_at r 0)"
proof -
  from assms obtain pre post where c: "log = pre @ post"
      "\<forall>e \<in> set pre. env_durable e \<longrightarrow> en_event_id e \<in> persisted"
      "thins post (sl_env front # map sl_env rest)"
    by (auto simp: ring_ok_def ring_covers_def)
  obtain a b where ab: "post = a @ sl_env front # b" "\<forall>e \<in> set a. \<not> env_durable e"
      "thins b (map sl_env rest)"
    using thins_Cons_split [OF c(3)] by blast
  have "env_durable (sl_env front) \<longrightarrow> en_event_id (sl_env front) \<in> persisted"
    using assms by (simp add: ring_ok_def slot_ok_def)
  then have "\<forall>e \<in> set (pre @ a @ [sl_env front]). env_durable e \<longrightarrow> en_event_id e \<in> persisted"
    using c(2) ab(2) by auto
  then have "ring_covers log persisted (remove_at r 0)"
    unfolding ring_covers_def using c(1) ab assms(2)
    by (intro exI [of _ "pre @ a @ [sl_env front]"] exI [of _ b]) (simp add: remove_at_def)
  then show ?thesis
    using assms by (simp add: ring_ok_def remove_at_def)
qed

lemma ring_ok_remove_nondurable:
  assumes "ring_ok log persisted r" "index < length (hr_slots r)"
    and "\<not> env_durable (sl_env (hr_slots r ! index))"
  shows "ring_ok log persisted (remove_at r index)"
proof -
  obtain a s b where s: "hr_slots r = a @ s # b" "s = hr_slots r ! index"
    and r: "hr_slots (remove_at r index) = a @ b"
      "hr_bytes (remove_at r index) = hr_bytes r - retained_bytes (sl_env s)"
      "hr_capacity (remove_at r index) = hr_capacity r"
    by (rule remove_at_split [OF assms(2)]) blast
  have "\<not> env_durable (sl_env s)" using assms(3) s(2) by simp
  then have "thins post (ring_envs (remove_at r index))" if "thins post (ring_envs r)" for post
    using that thins_drop_nondurable [of post "map sl_env a" "sl_env s" "map sl_env b"]
    by (simp add: s(1) r(1))
  then have "ring_covers log persisted (remove_at r index)"
    using assms(1) unfolding ring_ok_def ring_covers_def by blast
  then show ?thesis
    using assms(1) by (simp add: ring_ok_def r s(1))
qed

text \<open>One round of the loop: it stops settled, drops an unpinned front, or drops a lossy entry.\<close>

lemma evict_cases:
  obtains (stop) "evict_to_capacity r = r" "ring_settled r"
  | (front) front rest where "hr_slots r = front # rest" "\<not> sl_pinned front"
      "evict_to_capacity r = evict_to_capacity (remove_at r 0)"
  | (lossy) i where "i < length (hr_slots r)" "\<not> env_durable (sl_env (hr_slots r ! i))"
      "evict_to_capacity r = evict_to_capacity (remove_at r i)"
proof (cases "over_bounds r")
  case over: True
  then obtain front rest where slots: "hr_slots r = front # rest"
    by (cases "hr_slots r") (auto simp: over_bounds_def)
  let ?lossy = "\<lambda>s. \<not> env_durable (sl_env s)"
  show thesis
  proof (cases "sl_pinned front")
    case False
    then show thesis
      using front [OF slots] over slots evict_to_capacity.simps [of r] by simp
  next
    case pin: True
    show thesis
    proof (cases "position ?lossy (hr_slots r)")
      case None
      then have "\<forall>s \<in> set (hr_slots r). env_durable (sl_env s)"
        unfolding position_None by simp
      then have "ring_settled r"
        using slots pin unfolding ring_settled_def by (auto dest: in_set_butlastD split: if_splits)
      then show thesis
        using stop over slots pin None evict_to_capacity.simps [of r] by simp
    next
      case (Some i)
      note i = position_Some [OF Some]
      show thesis
      proof (cases "i + 1 < length (hr_slots r) \<or> hr_capacity r < length (hr_slots r)")
        case True
        then show thesis
          using lossy [of i] i over slots pin Some evict_to_capacity.simps [of r] by simp
      next
        case False
        then have "\<forall>s \<in> set (butlast (hr_slots r)). env_durable (sl_env s)"
          using i by (auto simp: in_set_conv_nth nth_butlast)
        then have "ring_settled r"
          using slots pin False by (auto simp: ring_settled_def)
        then show thesis
          using stop over slots pin Some False evict_to_capacity.simps [of r] by simp
      qed
    qed
  qed
next
  case False
  then show thesis
    using stop evict_to_capacity.simps [of r] by (simp add: ring_settled_def)
qed

lemma evict_ok: "ring_ok log persisted r \<Longrightarrow> ring_ok log persisted (evict_to_capacity r)"
proof (induction "length (hr_slots r)" arbitrary: r rule: less_induct)
  case less
  show ?case
  proof (cases r rule: evict_cases)
    case stop
    then show ?thesis using less by simp
  next
    case (front front rest)
    then show ?thesis
      using less.hyps [of "remove_at r 0"] ring_ok_remove_front [OF less.prems] by simp
  next
    case (lossy i)
    then show ?thesis
      using less.hyps [of "remove_at r i"] ring_ok_remove_nondurable [OF less.prems] by simp
  qed
qed

lemma evict_settled: "ring_settled (evict_to_capacity r)"
proof (induction "length (hr_slots r)" arbitrary: r rule: less_induct)
  case less
  show ?case
    by (cases r rule: evict_cases) (use less in auto)
qed

lemma ring_ok_push: "ring_ok log persisted r \<Longrightarrow> ring_ok (log @ [e]) persisted (ring_push r e)"
proof -
  assume ok: "ring_ok log persisted r"
  then obtain pre post where "log = pre @ post"
      "\<forall>e \<in> set pre. env_durable e \<longrightarrow> en_event_id e \<in> persisted" "thins post (ring_envs r)"
    by (auto simp: ring_ok_def ring_covers_def)
  then have "ring_covers (log @ [e]) persisted
      (r\<lparr> hr_bytes := hr_bytes r + retained_bytes e,
         hr_slots := hr_slots r @ [\<lparr> sl_env = e, sl_pinned = env_durable e \<rparr>] \<rparr>)"
    unfolding ring_covers_def using thins_snoc
    by (intro exI [of _ pre] exI [of _ "post @ [e]"]) simp
  then show ?thesis
    unfolding ring_push_def using ok by (intro evict_ok) (simp add: ring_ok_def slot_ok_def)
qed

lemma envs_unpin_first [simp]: "map sl_env (unpin_first i ss) = map sl_env ss"
  by (induction ss) auto

lemma slot_ok_mono: "slot_ok persisted s \<Longrightarrow> persisted \<subseteq> persisted' \<Longrightarrow> slot_ok persisted' s"
  by (auto simp: slot_ok_def split: if_splits)

lemma slots_ok_unpin:
  "list_all (slot_ok persisted) ss \<Longrightarrow> list_all (slot_ok (insert i persisted)) (unpin_first i ss)"
proof (induction ss)
  case (Cons s ss)
  then have all: "list_all (slot_ok (insert i persisted)) (s # ss)"
    unfolding list_all_iff by (blast intro: slot_ok_mono)
  have "slot_ok (insert (en_event_id (sl_env s)) persisted) (s\<lparr> sl_pinned := False \<rparr>)"
    by (simp add: slot_ok_def)
  with all Cons show ?case by auto
qed simp

lemma ring_ok_mark:
  assumes "ring_ok log persisted r"
  shows "ring_ok log (insert i persisted) (mark_persisted r i)"
proof -
  have "ring_covers log (insert i persisted) (r\<lparr> hr_slots := unpin_first i (hr_slots r) \<rparr>)"
    using assms unfolding ring_ok_def ring_covers_def by auto
  then show ?thesis
    unfolding mark_persisted_def using assms
    by (intro evict_ok) (simp add: ring_ok_def slots_ok_unpin)
qed

lemma ring_ok_new: "ring_ok [] {} (ring_new capacity byte_budget)"
  by (simp add: ring_ok_def ring_new_def ring_covers_def thins_def)

section \<open>The cache interface\<close>

lemma subseq_sorted_wrt: "subseq xs ys \<Longrightarrow> sorted_wrt R ys \<Longrightarrow> sorted_wrt R xs"
  by (induction rule: list_emb.induct) (auto dest: list_emb_set)

text \<open>
  What the router relies on: pushes extend the covered log, a confirmation extends the
  persisted set, and a cache covers its log. For a log in cursor order this gives the seam
  of every replay: the durables before the oldest retained entry are all persisted, and
  together with the retained durables they are all of the channel's durables.
\<close>

locale recent_cache =
  fixes envs :: "'r \<Rightarrow> envelope list"
    and push :: "'r \<Rightarrow> envelope \<Rightarrow> 'r"
    and mark :: "'r \<Rightarrow> event_id \<Rightarrow> 'r"
    and ok :: "envelope list \<Rightarrow> event_id set \<Rightarrow> 'r \<Rightarrow> bool"
  assumes ok_push: "ok log persisted r \<Longrightarrow> ok (log @ [e]) persisted (push r e)"
    and ok_mark: "ok log persisted r \<Longrightarrow> ok log (insert i persisted) (mark r i)"
    and covers: "ok log persisted r \<Longrightarrow>
      \<exists>pre post. log = pre @ post \<and>
        (\<forall>e \<in> set pre. env_durable e \<longrightarrow> en_event_id e \<in> persisted) \<and> thins post (envs r)"
begin

lemma envs_in_log: "ok log persisted r \<Longrightarrow> set (envs r) \<subseteq> set log"
  using covers [of log persisted r] by (auto simp: thins_def dest: list_emb_set)

lemma envs_sorted:
  assumes "ok log persisted r" "sorted_wrt (<) (map env_cursor log)"
  shows "sorted_wrt (<) (map env_cursor (envs r))"
proof -
  obtain pre post where "log = pre @ post" "subseq (envs r) post"
    using covers [OF assms(1)] by (auto simp: thins_def)
  then have "subseq (map env_cursor (envs r)) (map env_cursor log)"
    by (auto intro: subseq_map subseq_drop_many)
  then show ?thesis
    using assms(2) by (rule subseq_sorted_wrt)
qed

text \<open>The two legs of a replay, for a log in cursor order.\<close>

lemma seam:
  assumes "ok log persisted r" "sorted_wrt (<) (map env_cursor log)"
  obtains older where
    "filter env_durable log = older @ filter env_durable (envs r)"
    "\<forall>e \<in> set older. en_event_id e \<in> persisted"
    "\<forall>e \<in> set older. \<forall>x \<in> set (envs r). env_cursor e < env_cursor x"
proof -
  obtain pre post where c: "log = pre @ post"
      "\<forall>e \<in> set pre. env_durable e \<longrightarrow> en_event_id e \<in> persisted" "thins post (envs r)"
    using covers [OF assms(1)] by blast
  have "set (envs r) \<subseteq> set post"
    using c(3) by (auto simp: thins_def dest: list_emb_set)
  moreover have "\<forall>e \<in> set pre. \<forall>x \<in> set post. env_cursor e < env_cursor x"
    using assms(2) c(1) by (auto simp: sorted_wrt_append)
  ultimately show thesis
    using that [of "filter env_durable pre"] c by (auto simp: thins_def)
qed

end

interpretation hot: recent_cache ring_envs ring_push mark_persisted ring_ok
proof unfold_locales
  fix log persisted r e i
  assume ok: "ring_ok log persisted r"
  show "ring_ok (log @ [e]) persisted (ring_push r e)" by (rule ring_ok_push [OF ok])
  show "ring_ok log (insert i persisted) (mark_persisted r i)" by (rule ring_ok_mark [OF ok])
  show "\<exists>pre post. log = pre @ post \<and>
      (\<forall>e \<in> set pre. env_durable e \<longrightarrow> en_event_id e \<in> persisted) \<and> thins post (ring_envs r)"
    using ok by (simp add: ring_ok_def ring_covers_def)
qed

section \<open>Every history of a ring\<close>

datatype ring_op = RingPush envelope | RingPersisted event_id

fun ring_apply :: "hot_ring \<Rightarrow> ring_op \<Rightarrow> hot_ring" where
  "ring_apply r (RingPush e) = ring_push r e"
| "ring_apply r (RingPersisted i) = mark_persisted r i"

fun pushed :: "ring_op list \<Rightarrow> envelope list" where
  "pushed [] = []"
| "pushed (RingPush e # ops) = e # pushed ops"
| "pushed (RingPersisted i # ops) = pushed ops"

fun confirmed :: "ring_op list \<Rightarrow> event_id set" where
  "confirmed [] = {}"
| "confirmed (RingPush e # ops) = confirmed ops"
| "confirmed (RingPersisted i # ops) = insert i (confirmed ops)"

lemma ring_run_ok:
  "ring_ok log persisted r \<Longrightarrow>
   ring_ok (log @ pushed ops) (persisted \<union> confirmed ops) (fold (\<lambda>op r. ring_apply r op) ops r)"
proof (induction ops arbitrary: log persisted r)
  case (Cons op ops)
  then show ?case
    using hot.ok_push hot.ok_mark by (cases op) fastforce+
qed simp

lemma ring_run_settled:
  "ring_settled r \<Longrightarrow> ring_settled (fold (\<lambda>op r. ring_apply r op) ops r)"
proof (induction ops arbitrary: r)
  case (Cons op ops)
  have "ring_settled (ring_apply r op)"
    by (cases op) (simp_all add: ring_push_def mark_persisted_def evict_settled)
  then show ?case using Cons by simp
qed simp

text \<open>
  C36. The hot ring never loses an unpersisted durable. After any sequence of pushes and
  confirmations: the byte total is the sum over the retained entries; only durables are
  pinned and an unpinned durable was confirmed; the pushed log splits into a first part all
  of whose durables were confirmed and a second part that the ring retains, in order, less
  some non-durable entries; and the ring is within its two bounds, or its front is an
  unpersisted durable and (up to the newest entry, when only the byte bound is exceeded)
  every entry is durable.
\<close>

theorem ring_invariant:
  "ring_ok (pushed ops) (confirmed ops) (fold (\<lambda>op r. ring_apply r op) ops (ring_new capacity budget)) \<and>
   ring_settled (fold (\<lambda>op r. ring_apply r op) ops (ring_new capacity budget))"
proof
  show "ring_ok (pushed ops) (confirmed ops)
      (fold (\<lambda>op r. ring_apply r op) ops (ring_new capacity budget))"
    using ring_run_ok [OF ring_ok_new] by simp
  have "ring_settled (ring_new capacity budget)"
    by (simp add: ring_settled_def over_bounds_def ring_new_def)
  then show "ring_settled (fold (\<lambda>op r. ring_apply r op) ops (ring_new capacity budget))"
    by (rule ring_run_settled)
qed

text \<open>
  A push can be a no-op. When a ring is at capacity with durables only and its front is
  not yet persisted, pushing an envelope that is not durable leaves the ring exactly as it
  was: the newest entry is the one evicted, and the live edge of the channel
  (\<open>newest_cursor\<close>) does not advance.
\<close>

theorem push_drops_newest:
  assumes "hr_slots r = front # rest" "sl_pinned front"
    and "\<forall>s \<in> set (hr_slots r). env_durable (sl_env s)"
    and "hr_capacity r \<le> length (hr_slots r)" "\<not> env_durable e"
  shows "ring_push r e = r"
proof -
  let ?lossy = "\<lambda>s. \<not> env_durable (sl_env s)"
  let ?s = "\<lparr> sl_env = e, sl_pinned = env_durable e \<rparr>"
  let ?r = "r\<lparr> hr_bytes := hr_bytes r + retained_bytes e, hr_slots := hr_slots r @ [?s] \<rparr>"
  have pos: "position ?lossy (ss @ [?s]) = Some (length ss)"
    if "\<forall>s \<in> set ss. env_durable (sl_env s)" for ss
    using that assms(5) by (induction ss) auto
  have "position ?lossy (hr_slots r) = None"
    unfolding position_None using assms(3) by simp
  then have "evict_to_capacity r = r"
    using assms(1,2) evict_to_capacity.simps [of r] by simp
  moreover have "remove_at ?r (length (hr_slots r)) = r"
    by (simp add: remove_at_def)
  moreover have "over_bounds ?r" "hr_slots ?r = front # rest @ [?s]"
    using assms(1,4) by (simp_all add: over_bounds_def)
  ultimately show ?thesis
    unfolding ring_push_def
    using evict_to_capacity.simps [of ?r] pos [OF assms(3)] assms(1,2,4)
    by simp
qed

definition sample_env :: "u64 \<Rightarrow> delivery_class \<Rightarrow> envelope" where
  "sample_env n delivery = (envelope_new (ucast n) 9 (1, 1) KMessage delivery [])\<lparr> en_seq := Seq 1 n \<rparr>"

theorem push_drops_newest_witness:
  "ring_push (ring_push (ring_new 1 100) (sample_env 1 DC_Durable)) (sample_env 2 DC_StreamChunk) =
     ring_push (ring_new 1 100) (sample_env 1 DC_Durable)"
proof (rule push_drops_newest)
  let ?r = "ring_push (ring_new 1 100) (sample_env 1 DC_Durable)"
  have slots: "hr_slots ?r = [\<lparr> sl_env = sample_env 1 DC_Durable, sl_pinned = True \<rparr>]"
      "hr_capacity ?r = 1"
    by code_simp+
  then show "hr_slots ?r = \<lparr> sl_env = sample_env 1 DC_Durable, sl_pinned = True \<rparr> # []"
    by simp
  show "\<forall>s \<in> set (hr_slots ?r). env_durable (sl_env s)"
    unfolding slots by (simp add: sample_env_def envelope_new_def is_durable_def)
  show "hr_capacity ?r \<le> length (hr_slots ?r)"
    unfolding slots by simp
qed (simp_all add: sample_env_def envelope_new_def is_durable_def)

end
