(* ===== verification/Bus_Ephemeral.thy ===== *)
theory Bus_Ephemeral
  imports Bus_Envelope
begin

text \<open>
  The coalesced ephemeral cache of a channel (\<open>airc-bus/src/ephemeral.rs\<close>): one latest
  envelope per coalescing key, expiring by its own time to live. The \<open>HashMap\<close> is a keyed
  map; every statement is independent of its iteration order.
\<close>

section \<open>Operations\<close>

definition HEADER_EPHEMERAL_TTL_MS :: string where
  "HEADER_EPHEMERAL_TTL_MS = ''airc.ephemeral_ttl_ms''"

text \<open>\<open>str::parse::<u64>\<close>: an optional plus sign, then decimal digits, within 64 bits.\<close>

definition is_digit :: "char \<Rightarrow> bool" where
  "is_digit c \<longleftrightarrow> 48 \<le> byte_of c \<and> byte_of c \<le> 57"

definition parse_u64 :: "string \<Rightarrow> u64 option" where
  "parse_u64 s =
     (let ds = (case s of c # cs \<Rightarrow> if c = CHR ''+'' then cs else s | [] \<Rightarrow> [])
      in if ds \<noteq> [] \<and> list_all is_digit ds \<and> read_nat 0 ds < 2 ^ 64
         then Some (of_nat (read_nat 0 ds)) else None)"

record eph_entry =
  ee_env :: envelope
  ee_stored_at_ms :: u64
  ee_ttl_ms :: u64

record eph_cache =
  ec_latest :: "(string, eph_entry) btree"
  ec_ttl_ms :: u64

definition eph_new :: "u64 \<Rightarrow> eph_cache" where
  "eph_new ttl_ms = \<lparr> ec_latest = [], ec_ttl_ms = ttl_ms \<rparr>"

definition eph_key :: "bus_deps \<Rightarrow> envelope \<Rightarrow> string" where
  "eph_key d e = (case en_coalesce_key e of Some k \<Rightarrow> k | None \<Rightarrow> bd_uuid_display d (en_event_id e))"

definition eph_ttl :: "u64 \<Rightarrow> envelope \<Rightarrow> u64" where
  "eph_ttl default_ms e =
     (case Option.bind (map_of (en_headers e) HEADER_EPHEMERAL_TTL_MS) parse_u64 of
        Some ttl \<Rightarrow> ttl | None \<Rightarrow> default_ms)"

definition coalesce :: "bus_deps \<Rightarrow> eph_cache \<Rightarrow> envelope \<Rightarrow> u64 \<Rightarrow> eph_cache" where
  "coalesce d c e now_ms =
     c\<lparr> ec_latest := bt_insert (eph_key d e)
          \<lparr> ee_env = e, ee_stored_at_ms = now_ms, ee_ttl_ms = eph_ttl (ec_ttl_ms c) e \<rparr>
          (ec_latest c) \<rparr>"

definition is_expired :: "u64 \<Rightarrow> u64 \<Rightarrow> u64 \<Rightarrow> bool" where
  "is_expired ttl_ms stored_at_ms now_ms \<longleftrightarrow>
     ttl_ms \<noteq> 0 \<and> ttl_ms \<le> saturating_sub now_ms stored_at_ms"

definition expired :: "eph_entry \<Rightarrow> u64 \<Rightarrow> bool" where
  "expired e now_ms = is_expired (ee_ttl_ms e) (ee_stored_at_ms e) now_ms"

definition eph_get :: "eph_cache \<Rightarrow> string \<Rightarrow> u64 \<Rightarrow> envelope option" where
  "eph_get c key now_ms =
     Option.bind (map_of (ec_latest c) key)
       (\<lambda>e. if expired e now_ms then None else Some (ee_env e))"

definition sweep :: "eph_cache \<Rightarrow> u64 \<Rightarrow> nat \<times> eph_cache" where
  "sweep c now_ms =
     (let kept = filter (\<lambda>(_, e). \<not> expired e now_ms) (ec_latest c)
      in (length (ec_latest c) - length kept, c\<lparr> ec_latest := kept \<rparr>))"

definition eph_snapshot :: "eph_cache \<Rightarrow> u64 \<Rightarrow> envelope list" where
  "eph_snapshot c now_ms =
     map ee_env (filter (\<lambda>e. \<not> expired e now_ms) (bt_values (ec_latest c)))"

definition live_len :: "eph_cache \<Rightarrow> u64 \<Rightarrow> nat" where
  "live_len c now_ms = length (filter (\<lambda>e. \<not> expired e now_ms) (bt_values (ec_latest c)))"

section \<open>Latest wins\<close>

datatype eph_op = Offer envelope u64 | Sweep u64

fun eph_apply :: "bus_deps \<Rightarrow> eph_cache \<Rightarrow> eph_op \<Rightarrow> eph_cache" where
  "eph_apply d c (Offer e now_ms) = coalesce d c e now_ms"
| "eph_apply d c (Sweep now_ms) = snd (sweep c now_ms)"

text \<open>The specification: the latest offer for a key, with the instant it was made.\<close>

fun latest_offer :: "bus_deps \<Rightarrow> string \<Rightarrow> eph_op list \<Rightarrow> (envelope \<times> u64) option" where
  "latest_offer d key [] = None"
| "latest_offer d key (op # ops) =
     (case latest_offer d key ops of
        Some o' \<Rightarrow> Some o'
      | None \<Rightarrow> (case op of
          Offer e at \<Rightarrow> if eph_key d e = key then Some (e, at) else None
        | Sweep _ \<Rightarrow> None))"

fun swept_by :: "u64 \<Rightarrow> eph_op list \<Rightarrow> bool" where
  "swept_by t [] = True"
| "swept_by t (Offer _ _ # ops) = swept_by t ops"
| "swept_by t (Sweep s # ops) = (s \<le> t \<and> swept_by t ops)"

lemma expired_mono: "expired e s \<Longrightarrow> s \<le> t \<Longrightarrow> expired e t"
  by (auto simp: expired_def is_expired_def word_le_nat_alt unat_saturating_sub)

lemma map_of_sweep:
  "bt_wf m \<Longrightarrow> map_of (filter (\<lambda>(_, e). P e) m) k =
     Option.bind (map_of m k) (\<lambda>e. if P e then Some e else None)"
  by (induction m) (fastforce simp: bt_wf_Cons intro!: map_of_eq_None_iff [THEN iffD2])+

lemma eph_apply_wf: "bt_wf (ec_latest c) \<Longrightarrow> bt_wf (ec_latest (eph_apply d c op))"
  by (cases op) (auto simp: coalesce_def sweep_def Let_def bt_wf_filter)

lemma eph_apply_ttl [simp]: "ec_ttl_ms (eph_apply d c op) = ec_ttl_ms c"
  by (cases op) (auto simp: coalesce_def sweep_def Let_def)

lemma eph_get_offer:
  "eph_get (coalesce d c e at) key t =
     (if eph_key d e = key
      then if is_expired (eph_ttl (ec_ttl_ms c) e) at t then None else Some e
      else eph_get c key t)"
  by (simp add: eph_get_def coalesce_def expired_def)

lemma eph_get_sweep:
  assumes "bt_wf (ec_latest c)" "s \<le> t"
  shows "eph_get (snd (sweep c s)) key t = eph_get c key t"
  using assms expired_mono [OF _ assms(2)]
  by (cases "map_of (ec_latest c) key") (auto simp: eph_get_def sweep_def Let_def map_of_sweep)

lemma eph_run_get:
  "bt_wf (ec_latest c) \<Longrightarrow> swept_by t ops \<Longrightarrow>
   eph_get (fold (\<lambda>op c. eph_apply d c op) ops c) key t =
     (case latest_offer d key ops of
        None \<Rightarrow> eph_get c key t
      | Some (e, at) \<Rightarrow> if is_expired (eph_ttl (ec_ttl_ms c) e) at t then None else Some e)"
proof (induction ops arbitrary: c)
  case (Cons op ops)
  have "swept_by t ops" using Cons.prems(2) by (cases op) auto
  then have IH: "eph_get (fold (\<lambda>op c. eph_apply d c op) ops (eph_apply d c op)) key t =
      (case latest_offer d key ops of
         None \<Rightarrow> eph_get (eph_apply d c op) key t
       | Some (e, at) \<Rightarrow> if is_expired (eph_ttl (ec_ttl_ms c) e) at t then None else Some e)"
    using Cons.IH [OF eph_apply_wf [OF Cons.prems(1)]] by (simp cong: option.case_cong)
  show ?case
    using IH Cons.prems by (cases op) (auto simp: eph_get_offer eph_get_sweep split: option.split)
qed simp

lemma eph_run_wf:
  "bt_wf (ec_latest c) \<Longrightarrow> bt_wf (ec_latest (fold (\<lambda>op c. eph_apply d c op) ops c))"
  by (induction ops arbitrary: c) (auto intro: eph_apply_wf)

lemma snapshot_get:
  assumes "bt_wf (ec_latest c)"
  shows "set (eph_snapshot c t) = {e. \<exists>key. eph_get c key t = Some e}"
proof (intro set_eqI iffI)
  fix e assume "e \<in> set (eph_snapshot c t)"
  then obtain x where "x \<in> set (bt_values (ec_latest c))" "\<not> expired x t" "ee_env x = e"
    by (auto simp: eph_snapshot_def)
  moreover from this obtain key where "map_of (ec_latest c) key = Some x"
    using in_bt_values [OF assms] by blast
  ultimately have "eph_get c key t = Some e"
    by (simp add: eph_get_def)
  then show "e \<in> {e. \<exists>key. eph_get c key t = Some e}" by blast
next
  fix e assume "e \<in> {e. \<exists>key. eph_get c key t = Some e}"
  then obtain key x where "map_of (ec_latest c) key = Some x" "\<not> expired x t" "ee_env x = e"
    by (auto simp: eph_get_def split: option.splits if_splits Option.bind_splits)
  then show "e \<in> set (eph_snapshot c t)"
    using in_bt_values [OF assms] by (auto simp: eph_snapshot_def)
qed

text \<open>
  Latest wins. After any sequence of offers, with sweeps at instants not later than the
  read in between, a read of a key returns the latest envelope offered for that key unless
  its own time to live (the header's, or the default when the header is absent or does not
  parse) has passed since that offer; and the snapshot of a channel holds exactly the
  values such reads return. A sweep, made or missed, is never observable.
\<close>

theorem ephemeral_latest_wins:
  assumes "swept_by t ops"
  shows "eph_get (fold (\<lambda>op c. eph_apply d c op) ops (eph_new ttl)) key t =
      (case latest_offer d key ops of
         None \<Rightarrow> None
       | Some (e, at) \<Rightarrow> if is_expired (eph_ttl ttl e) at t then None else Some e) \<and>
    set (eph_snapshot (fold (\<lambda>op c. eph_apply d c op) ops (eph_new ttl)) t) =
      {e. \<exists>key. eph_get (fold (\<lambda>op c. eph_apply d c op) ops (eph_new ttl)) key t = Some e}"
proof
  have wf: "bt_wf (ec_latest (eph_new ttl))" and none: "eph_get (eph_new ttl) key t = None"
    by (simp_all add: eph_new_def eph_get_def)
  show "eph_get (fold (\<lambda>op c. eph_apply d c op) ops (eph_new ttl)) key t =
      (case latest_offer d key ops of
         None \<Rightarrow> None
       | Some (e, at) \<Rightarrow> if is_expired (eph_ttl ttl e) at t then None else Some e)"
    using eph_run_get [OF wf assms, of d key] none
    by (simp add: eph_new_def cong: option.case_cong)
  show "set (eph_snapshot (fold (\<lambda>op c. eph_apply d c op) ops (eph_new ttl)) t) =
      {e. \<exists>key. eph_get (fold (\<lambda>op c. eph_apply d c op) ops (eph_new ttl)) key t = Some e}"
    by (rule snapshot_get [OF eph_run_wf [OF wf]])
qed

definition plain_bus :: bus_deps where
  "plain_bus = \<lparr> bd_alnum = (\<lambda>_. None), bd_from_payload = (\<lambda>_. None), bd_uuid_display = (\<lambda>_. '''') \<rparr>"

definition pose :: "u64 \<Rightarrow> envelope" where
  "pose n = with_header (with_coalesce_key
     (envelope_new (ucast n) 9 (1, 1) KSignal DC_EphemeralLatest []) ''pose'')
     HEADER_EPHEMERAL_TTL_MS ''60000''"

theorem ephemeral_latest_wins_witness:
  "eph_get (fold (\<lambda>op c. eph_apply plain_bus c op)
       [Offer (pose 1) 100, Offer (pose 2) 200, Sweep 300] (eph_new 30000)) ''pose'' 60199 =
     Some (pose 2) \<and>
   eph_get (fold (\<lambda>op c. eph_apply plain_bus c op)
       [Offer (pose 1) 100, Offer (pose 2) 200, Sweep 300] (eph_new 30000)) ''pose'' 60200 = None"
proof -
  let ?ops = "[Offer (pose 1) 100, Offer (pose 2) 200, Sweep 300]"
  have key: "latest_offer plain_bus ''pose'' ?ops = Some (pose 2, 200)"
    by code_simp
  have ttl: "eph_ttl 30000 (pose 2) = 60000"
    by (simp add: eph_ttl_def pose_def with_header_def with_coalesce_key_def envelope_new_def
        parse_u64_def is_digit_def byte_of_def)
  have "\<not> is_expired 60000 200 60199" "is_expired 60000 200 60200" by code_simp+
  moreover have "swept_by 60199 ?ops" "swept_by 60200 ?ops" by code_simp+
  ultimately show ?thesis
    using ephemeral_latest_wins [of 60199 ?ops plain_bus 30000 "''pose''"]
      ephemeral_latest_wins [of 60200 ?ops plain_bus 30000 "''pose''"] key ttl
    by simp
qed

end
