(* ===== verification/Bus_Index.thy ===== *)
theory Bus_Index
  imports Bus_Envelope
begin

text \<open>
  The subscriber index of a channel (\<open>airc-bus/src/subscriber_index.rs\<close>): registrations
  whose header filter demands an exact header value sit in a bucket for that value, the
  others in a general bucket, so that a publish visits the general bucket and the buckets
  of its own headers only. The three \<open>HashMap\<close> levels are keyed maps; every statement is
  about multisets, because their iteration order is unspecified.
\<close>

section \<open>Operations\<close>

record 'a sub_index =
  si_general :: "(u64, 'a) btree"
  si_exact :: "(string, (string, (u64, 'a) btree) btree) btree"
  si_len :: nat

fun find_map :: "('a \<Rightarrow> 'b option) \<Rightarrow> 'a list \<Rightarrow> 'b option" where
  "find_map f [] = None"
| "find_map f (x # xs) = (case f x of Some y \<Rightarrow> Some y | None \<Rightarrow> find_map f xs)"

lemma find_map_cong [fundef_cong]:
  "xs = ys \<Longrightarrow> (\<And>x. x \<in> set ys \<Longrightarrow> f x = g x) \<Longrightarrow> find_map f xs = find_map g ys"
  by (induction ys arbitrary: xs) (auto split: option.split)

lemma find_map_Some: "find_map f xs = Some y \<Longrightarrow> \<exists>x \<in> set xs. f x = Some y"
  by (induction xs) (auto split: option.splits)

fun exact_key :: "header_filter \<Rightarrow> (string \<times> string) option" where
  "exact_key (HF_Exact key value) = Some (key, value)"
| "exact_key (HF_All filters) = find_map exact_key filters"
| "exact_key HF_Any = None"
| "exact_key (HF_Prefix _ _) = None"
| "exact_key (HF_AnyOf _) = None"
| "exact_key (HF_Has _) = None"
| "exact_key (HF_Not _) = None"

definition index_new :: "'a sub_index" where
  "index_new = \<lparr> si_general = [], si_exact = [], si_len = 0 \<rparr>"

definition or_default :: "('k, 'v list) btree \<Rightarrow> 'k \<Rightarrow> 'v list" where
  "or_default m k = (case map_of m k of Some v \<Rightarrow> v | None \<Rightarrow> [])"

definition index_insert :: "'a sub_index \<Rightarrow> u64 \<Rightarrow> header_filter \<Rightarrow> 'a \<Rightarrow> 'a sub_index" where
  "index_insert ix sid headers value =
     (case exact_key headers of
        Some (key, expected) \<Rightarrow>
          let vs = or_default (si_exact ix) key;
              bucket = or_default vs expected
          in ix\<lparr> si_exact := bt_insert key (bt_insert expected (bt_insert sid value bucket) vs) (si_exact ix),
                 si_len := si_len ix + 1 \<rparr>
      | None \<Rightarrow> ix\<lparr> si_general := bt_insert sid value (si_general ix), si_len := si_len ix + 1 \<rparr>)"

definition index_remove :: "'a sub_index \<Rightarrow> u64 \<Rightarrow> header_filter \<Rightarrow> 'a sub_index" where
  "index_remove ix sid headers =
     (case exact_key headers of
        None \<Rightarrow>
          ix\<lparr> si_general := bt_remove sid (si_general ix),
              si_len := (if bt_contains (si_general ix) sid then si_len ix - 1 else si_len ix) \<rparr>
      | Some (key, expected) \<Rightarrow>
          (case map_of (si_exact ix) key of
             None \<Rightarrow> ix
           | Some vs \<Rightarrow>
               let (removed, vs') =
                 (case map_of vs expected of
                    Some bucket \<Rightarrow>
                      (bt_contains bucket sid,
                       if bt_remove sid bucket = [] then bt_remove expected vs
                       else bt_insert expected (bt_remove sid bucket) vs)
                  | None \<Rightarrow> (False, vs))
               in ix\<lparr> si_exact := (if vs' = [] then bt_remove key (si_exact ix)
                                  else bt_insert key vs' (si_exact ix)),
                      si_len := (if removed then si_len ix - 1 else si_len ix) \<rparr>))"

text \<open>Registrations with their ids; \<open>values\<close> and \<open>visit\<close> see the second components.\<close>

definition values_entries :: "(string, (u64, 'a) btree) btree \<Rightarrow> (u64 \<times> 'a) list" where
  "values_entries vs = concat (map snd vs)"

definition index_entries :: "'a sub_index \<Rightarrow> (u64 \<times> 'a) list" where
  "index_entries ix = si_general ix @ concat (map (\<lambda>e. values_entries (snd e)) (si_exact ix))"

definition index_values :: "'a sub_index \<Rightarrow> 'a list" where
  "index_values ix = map snd (index_entries ix)"

definition bucket_at :: "'a sub_index \<Rightarrow> string \<times> string \<Rightarrow> (u64, 'a) btree" where
  "bucket_at ix kv =
     (case Option.bind (map_of (si_exact ix) (fst kv)) (\<lambda>vs. map_of vs (snd kv)) of
        Some bucket \<Rightarrow> bucket | None \<Rightarrow> [])"

definition visit_entries :: "'a sub_index \<Rightarrow> headers \<Rightarrow> (u64 \<times> 'a) list" where
  "visit_entries ix h = si_general ix @ concat (map (bucket_at ix) h)"

definition visit :: "'a sub_index \<Rightarrow> headers \<Rightarrow> 'a list" where
  "visit ix h = map snd (visit_entries ix h)"

section \<open>The bucket key is implied by a match\<close>

lemma exact_key_implied:
  "exact_key f = Some (k, v) \<Longrightarrow> filter_matches f h \<Longrightarrow> map_of h k = Some v"
proof (induction f rule: exact_key.induct)
  case (2 filters)
  then obtain f where "f \<in> set filters" "exact_key f = Some (k, v)"
    by (auto dest: find_map_Some)
  with 2 show ?case by (auto simp: list_all_iff)
qed auto

section \<open>Multisets of nested maps\<close>

lemma mset_bt_insert: "bt_wf m \<Longrightarrow> mset (bt_insert k v m) = add_mset (k, v) (mset (bt_remove k m))"
proof (induction m)
  case (Cons e m)
  have "bt_remove k m = m" if "k < fst e"
    using Cons.prems that by (auto simp: bt_remove_def bt_wf_Cons intro!: filter_True)
  moreover have "bt_remove k m = m" if "k = fst e"
    using Cons.prems that by (auto simp: bt_remove_def bt_wf_Cons intro!: filter_True)
  ultimately show ?case
    using Cons by (auto simp: bt_remove_def bt_wf_Cons)
qed (simp add: bt_remove_def)

lemma mset_bt_lookup:
  assumes "bt_wf m" "map_of m k = Some v"
  shows "mset m = add_mset (k, v) (mset (bt_remove k m))"
proof -
  have "bt_insert k v m = m"
    using assms by (intro bt_wf_ext) auto
  then show ?thesis
    using mset_bt_insert [OF assms(1), of k v] by simp
qed

lemma bt_remove_absent: "map_of m k = None \<Longrightarrow> bt_remove k m = m"
  by (auto simp: bt_remove_def map_of_eq_None_iff intro!: filter_True)

text \<open>A level of nesting: the entries under a map, with one key's share taken out.\<close>

definition under :: "('v \<Rightarrow> 'b list) \<Rightarrow> ('k, 'v) btree \<Rightarrow> 'b multiset" where
  "under f m = mset (concat (map (\<lambda>e. f (snd e)) m))"

lemma under_mset: "under f m = sum_mset (image_mset (\<lambda>e. mset (f (snd e))) (mset m))"
  by (simp add: under_def mset_concat image_mset.compositionality comp_def flip: mset_map sum_mset_sum_list)

lemma under_insert: "bt_wf m \<Longrightarrow> under f (bt_insert k v m) = mset (f v) + under f (bt_remove k m)"
  by (simp add: under_mset mset_bt_insert)

lemma under_lookup:
  "bt_wf m \<Longrightarrow> map_of m k = Some v \<Longrightarrow> under f m = mset (f v) + under f (bt_remove k m)"
  by (simp add: under_mset mset_bt_lookup [of m k v])

lemma under_or_default:
  "bt_wf m \<Longrightarrow> f [] = [] \<Longrightarrow> under f m = mset (f (or_default m k)) + under f (bt_remove k m)"
  by (cases "map_of m k") (auto simp: or_default_def under_lookup bt_remove_absent)

section \<open>What an index represents\<close>

text \<open>
  \<open>hf\<close> reads the header filter a registration was made with. An index is well formed when
  its maps are and every entry sits in the bucket of its own filter; it represents the
  registrations \<open>regs\<close> when its entries are theirs.
\<close>

definition in_bucket :: "('a \<Rightarrow> header_filter) \<Rightarrow> (string \<times> string) option \<Rightarrow> (u64, 'a) btree \<Rightarrow> bool" where
  "in_bucket hf kv bucket \<longleftrightarrow> bt_wf bucket \<and> (\<forall>e \<in> set bucket. exact_key (hf (snd e)) = kv)"

definition index_wf :: "('a \<Rightarrow> header_filter) \<Rightarrow> 'a sub_index \<Rightarrow> bool" where
  "index_wf hf ix \<longleftrightarrow>
     in_bucket hf None (si_general ix) \<and>
     keyed (\<lambda>k vs. keyed (\<lambda>v bucket. in_bucket hf (Some (k, v)) bucket) vs) (si_exact ix)"

definition index_rep :: "('a \<Rightarrow> header_filter) \<Rightarrow> (u64 \<times> 'a) multiset \<Rightarrow> 'a sub_index \<Rightarrow> bool" where
  "index_rep hf regs ix \<longleftrightarrow>
     index_wf hf ix \<and> mset (index_entries ix) = regs \<and> si_len ix = size regs"

lemma index_entries_under:
  "mset (index_entries ix) = mset (si_general ix) + under values_entries (si_exact ix)"
  by (simp add: index_entries_def under_def)

lemma values_entries_under: "mset (values_entries vs) = under (\<lambda>b. b) vs"
  by (simp add: values_entries_def under_def)

lemma values_entries_Nil [simp]: "values_entries [] = []"
  by (simp add: values_entries_def)

lemma in_bucket_Nil [simp]: "in_bucket hf kv []"
  by (simp add: in_bucket_def)

lemma in_bucket_insert:
  "in_bucket hf kv b \<Longrightarrow> exact_key (hf x) = kv \<Longrightarrow> in_bucket hf kv (bt_insert sid x b)"
  using set_bt_insert_subset [of sid x b] by (fastforce simp: in_bucket_def)

lemma in_bucket_remove: "in_bucket hf kv b \<Longrightarrow> in_bucket hf kv (bt_remove sid b)"
  by (auto simp: in_bucket_def bt_remove_def bt_wf_filter)

lemma keyed_or_default: "keyed P m \<Longrightarrow> P k [] \<Longrightarrow> P k (or_default m k)"
  by (auto simp: or_default_def dest: keyedD split: option.split)

text \<open>An insertion under a fresh id adds one registration.\<close>

lemma index_rep_insert:
  assumes rep: "index_rep hf regs ix" and fresh: "sid \<notin># image_mset fst regs"
    and hf: "hf x = headers"
  shows "index_rep hf (add_mset (sid, x) regs) (index_insert ix sid headers x)"
proof (cases "exact_key headers")
  case None
  have wf: "bt_wf (si_general ix)" and regs: "regs = mset (index_entries ix)"
    using rep by (auto simp: index_rep_def index_wf_def in_bucket_def)
  have "map_of (si_general ix) sid = None"
    using fresh regs by (force simp: index_entries_def map_of_eq_None_iff)
  then have "mset (bt_insert sid x (si_general ix)) = add_mset (sid, x) (mset (si_general ix))"
    by (simp add: mset_bt_insert [OF wf] bt_remove_absent)
  then show ?thesis
    using rep None hf
    by (auto simp: index_rep_def index_wf_def index_insert_def index_entries_under in_bucket_insert)
next
  case (Some kv)
  obtain k v where kv: "kv = (k, v)" by (cases kv)
  let ?vs = "or_default (si_exact ix) k"
  let ?b = "or_default ?vs v"
  have ex: "keyed (\<lambda>k vs. keyed (\<lambda>v b. in_bucket hf (Some (k, v)) b) vs) (si_exact ix)"
    using rep by (simp add: index_rep_def index_wf_def)
  have vs: "keyed (\<lambda>v b. in_bucket hf (Some (k, v)) b) ?vs"
    using keyed_or_default [OF ex] by simp
  have b: "in_bucket hf (Some (k, v)) ?b"
    using keyed_or_default [OF vs] by simp
  note wf = keyed_wf [OF ex] keyed_wf [OF vs] b [unfolded in_bucket_def, THEN conjunct1]
  have vse: "mset (values_entries ?vs) = mset ?b + under (\<lambda>b. b) (bt_remove v ?vs)"
    by (simp add: values_entries_under under_or_default [OF wf(2), of "\<lambda>b. b" v])
  have all: "under values_entries (si_exact ix) =
      mset ?b + under (\<lambda>b. b) (bt_remove v ?vs) + under values_entries (bt_remove k (si_exact ix))"
    using under_or_default [OF wf(1), of values_entries k] vse by simp
  have "sid \<notin> fst ` set ?b"
    using fresh rep all by (force simp: index_rep_def index_entries_under)
  then have ins: "mset (bt_insert sid x ?b) = add_mset (sid, x) (mset ?b)"
    by (simp add: mset_bt_insert [OF wf(3)] bt_remove_absent map_of_eq_None_iff)
  have "under values_entries (bt_insert k (bt_insert v (bt_insert sid x ?b) ?vs) (si_exact ix)) =
      add_mset (sid, x) (under values_entries (si_exact ix))"
    by (simp add: under_insert wf values_entries_under ins all)
  moreover have "keyed (\<lambda>k vs. keyed (\<lambda>v b. in_bucket hf (Some (k, v)) b) vs)
      (bt_insert k (bt_insert v (bt_insert sid x ?b) ?vs) (si_exact ix))"
    using Some kv hf by (intro keyed_insert ex vs in_bucket_insert b) simp
  ultimately show ?thesis
    using rep Some kv
    by (simp add: index_rep_def index_wf_def index_insert_def Let_def index_entries_under)
qed

lemma under_put_or_drop:
  "bt_wf m \<Longrightarrow> f [] = [] \<Longrightarrow>
   under f (if c = [] then bt_remove k m else bt_insert k c m) = mset (f c) + under f (bt_remove k m)"
  by (simp add: under_insert)

lemma keyed_put_or_drop:
  "keyed P m \<Longrightarrow> P k c \<Longrightarrow> keyed P (if c = [] then bt_remove k m else bt_insert k c m)"
  by (simp add: keyed_insert keyed_remove)

lemma index_entry_bucket:
  assumes "index_wf hf ix" "e \<in> set (index_entries ix)"
  shows "case exact_key (hf (snd e)) of
      None \<Rightarrow> e \<in> set (si_general ix)
    | Some (k, v) \<Rightarrow> \<exists>vs b. map_of (si_exact ix) k = Some vs \<and> map_of vs v = Some b \<and> e \<in> set b"
proof (cases "e \<in> set (si_general ix)")
  case True
  then show ?thesis using assms(1) by (auto simp: index_wf_def in_bucket_def)
next
  case False
  then obtain k vs v b where e: "(k, vs) \<in> set (si_exact ix)" "(v, b) \<in> set vs" "e \<in> set b"
    using assms(2) by (auto simp: index_entries_def values_entries_def)
  have ex: "keyed (\<lambda>k vs. keyed (\<lambda>v b. in_bucket hf (Some (k, v)) b) vs) (si_exact ix)"
    using assms(1) by (simp add: index_wf_def)
  have k: "map_of (si_exact ix) k = Some vs"
    using e(1) by (simp add: bt_wf_in_set [OF keyed_wf [OF ex]])
  have vs: "keyed (\<lambda>v b. in_bucket hf (Some (k, v)) b) vs"
    using keyedD [OF ex k] .
  have v: "map_of vs v = Some b"
    using e(2) by (simp add: bt_wf_in_set [OF keyed_wf [OF vs]])
  have "in_bucket hf (Some (k, v)) b"
    using keyedD [OF vs v] .
  then show ?thesis using k v e(3) by (auto simp: in_bucket_def)
qed

text \<open>Removing a registration under the filter it was made with takes exactly it away.\<close>

lemma index_rep_remove:
  assumes rep: "index_rep hf (add_mset (sid, x) regs) ix" and hf: "hf x = headers"
  shows "index_rep hf regs (index_remove ix sid headers)"
proof -
  have wf: "index_wf hf ix" and len: "si_len ix = Suc (size regs)"
    and ents: "mset (index_entries ix) = add_mset (sid, x) regs"
    using rep by (auto simp: index_rep_def)
  have "(sid, x) \<in># mset (index_entries ix)" unfolding ents by simp
  then have mem: "(sid, x) \<in> set (index_entries ix)" by simp
  note at = index_entry_bucket [OF wf mem, simplified hf snd_conv]
  show ?thesis
  proof (cases "exact_key headers")
    case None
    have g: "bt_wf (si_general ix)" using wf by (simp add: index_wf_def in_bucket_def)
    have "map_of (si_general ix) sid = Some x"
      using at None by (simp add: bt_wf_in_set [OF g])
    then show ?thesis
      using None wf ents len mset_bt_lookup [OF g, of sid x]
      by (simp add: index_rep_def index_wf_def index_remove_def index_entries_under bt_contains_def
          in_bucket_remove)
  next
    case (Some kv)
    obtain k v where kv: "kv = (k, v)" by (cases kv)
    obtain vs b where k: "map_of (si_exact ix) k = Some vs" and v: "map_of vs v = Some b"
      and xb: "(sid, x) \<in> set b"
      using at Some kv by auto
    have ex: "keyed (\<lambda>k vs. keyed (\<lambda>v b. in_bucket hf (Some (k, v)) b) vs) (si_exact ix)"
      using wf by (simp add: index_wf_def)
    note kvs = keyedD [OF ex k]
    note kb = keyedD [OF kvs v]
    note wfs = keyed_wf [OF ex] keyed_wf [OF kvs] kb [unfolded in_bucket_def, THEN conjunct1]
    have look: "map_of b sid = Some x"
      using xb by (simp add: bt_wf_in_set [OF wfs(3)])
    let ?b = "bt_remove sid b"
    let ?vs = "if ?b = [] then bt_remove v vs else bt_insert v ?b vs"
    let ?ex = "if ?vs = [] then bt_remove k (si_exact ix) else bt_insert k ?vs (si_exact ix)"
    have res: "index_remove ix sid headers = ix\<lparr> si_exact := ?ex, si_len := si_len ix - 1 \<rparr>"
      using Some kv k v look by (simp add: index_remove_def bt_contains_def)
    have "under values_entries ?ex =
        mset ?b + under (\<lambda>b. b) (bt_remove v vs) + under values_entries (bt_remove k (si_exact ix))"
      using under_put_or_drop [OF wfs(2), of "\<lambda>b. b" ?b v]
        under_put_or_drop [OF wfs(1), of values_entries ?vs k]
      by (simp only: values_entries_Nil values_entries_under)
    moreover have "under values_entries (si_exact ix) =
        mset b + under (\<lambda>b. b) (bt_remove v vs) + under values_entries (bt_remove k (si_exact ix))"
      by (simp add: under_lookup [OF wfs(1) k] values_entries_under under_lookup [OF wfs(2) v])
    moreover have "keyed (\<lambda>k vs. keyed (\<lambda>v b. in_bucket hf (Some (k, v)) b) vs) ?ex"
      by (intro keyed_put_or_drop ex kvs in_bucket_remove kb)
    ultimately show ?thesis
      using wf ents len mset_bt_lookup [OF wfs(3) look] unfolding res
      by (simp add: index_rep_def index_wf_def index_entries_under)
  qed
qed

lemma index_rep_new: "index_rep hf {#} index_new"
  by (simp add: index_rep_def index_wf_def index_new_def index_entries_def)

section \<open>A publish visits every matching registration exactly once\<close>

lemma bucket_at_in:
  assumes "index_wf hf ix"
  shows "in_bucket hf (Some kv) (bucket_at ix kv)"
proof -
  have ex: "keyed (\<lambda>k vs. keyed (\<lambda>v b. in_bucket hf (Some (k, v)) b) vs) (si_exact ix)"
    using assms by (simp add: index_wf_def)
  show ?thesis
    using keyedD [OF keyedD [OF ex]]
    by (cases kv) (auto simp: bucket_at_def split: option.split Option.bind_split)
qed

lemma bucket_at_lookup:
  "map_of (si_exact ix) k = Some vs \<Longrightarrow> map_of vs v = Some b \<Longrightarrow> bucket_at ix (k, v) = b"
  by (simp add: bucket_at_def)

lemma bucket_at_entries: "set (bucket_at ix kv) \<subseteq> set (index_entries ix)"
proof
  fix e assume "e \<in> set (bucket_at ix kv)"
  then obtain vs b where "map_of (si_exact ix) (fst kv) = Some vs" "map_of vs (snd kv) = Some b"
      "e \<in> set b"
    by (cases "map_of (si_exact ix) (fst kv)"; cases "map_of (the (map_of (si_exact ix) (fst kv))) (snd kv)")
      (auto simp: bucket_at_def)
  then show "e \<in> set (index_entries ix)"
    by (force simp: index_entries_def values_entries_def dest!: map_of_SomeD)
qed

lemma bucket_distinct: "bt_wf b \<Longrightarrow> distinct b"
  using bt_wf_distinct distinct_map by blast

lemma visit_entries_distinct:
  assumes wf: "index_wf hf ix" and h: "distinct h"
  shows "distinct (visit_entries ix h)"
proof -
  have key: "exact_key (hf (snd e)) = Some kv" if "e \<in> set (bucket_at ix kv)" for e kv
    using bucket_at_in [OF wf, of kv] that by (simp add: in_bucket_def)
  have "distinct (concat (map (bucket_at ix) h))"
    using h
  proof (induction h)
    case (Cons kv h)
    have "set (bucket_at ix kv) \<inter> set (concat (map (bucket_at ix) h)) = {}"
    proof (rule ccontr)
      assume "\<not> ?thesis"
      then obtain e kv' where "e \<in> set (bucket_at ix kv)" "kv' \<in> set h" "e \<in> set (bucket_at ix kv')"
        by auto
      then show False using key [of e kv] key [of e kv'] Cons.prems by auto
    qed
    moreover have "distinct (bucket_at ix kv)"
      using bucket_at_in [OF wf, of kv] by (simp add: in_bucket_def bucket_distinct)
    ultimately show ?case using Cons by simp
  qed simp
  moreover have "distinct (si_general ix)" "\<forall>e \<in> set (si_general ix). exact_key (hf (snd e)) = None"
    using wf by (auto simp: index_wf_def in_bucket_def bucket_distinct)
  ultimately show ?thesis
    using key by (fastforce simp: visit_entries_def)
qed

lemma visit_matching_set:
  assumes wf: "index_wf hf ix" and h: "bt_wf h"
  shows "{e \<in> set (visit_entries ix h). filter_matches (hf (snd e)) h} =
    {e \<in> set (index_entries ix). filter_matches (hf (snd e)) h}"
proof -
  have "set (visit_entries ix h) \<subseteq> set (index_entries ix)"
    using bucket_at_entries by (fastforce simp: visit_entries_def index_entries_def)
  moreover have "e \<in> set (visit_entries ix h)"
    if "e \<in> set (index_entries ix)" "filter_matches (hf (snd e)) h" for e
  proof (cases "exact_key (hf (snd e))")
    case None
    then show ?thesis
      using index_entry_bucket [OF wf that(1)] by (simp add: visit_entries_def)
  next
    case (Some kv)
    obtain k v where kv: "kv = (k, v)" by (cases kv)
    from index_entry_bucket [OF wf that(1)] obtain vs b
      where "map_of (si_exact ix) k = Some vs" "map_of vs v = Some b" "e \<in> set b"
      using Some kv by auto
    then have "e \<in> set (bucket_at ix (k, v))"
      by (simp add: bucket_at_lookup)
    moreover have "(k, v) \<in> set h"
      using exact_key_implied [OF _ that(2)] Some kv bt_wf_in_set [OF h] by simp
    ultimately show ?thesis
      by (force simp: visit_entries_def)
  qed
  ultimately show ?thesis by blast
qed

section \<open>The registry interface\<close>

text \<open>
  What the router's fan-out relies on: a registry of subscribers represents a list of
  registrations with distinct ids, and a visit with the headers of an envelope, restricted
  to the subscribers whose header filter matches, yields each such registration once.
\<close>

locale subscriber_registry =
  fixes hf :: "'a \<Rightarrow> header_filter"
    and rep :: "(u64 \<times> 'a) list \<Rightarrow> 's \<Rightarrow> bool"
    and empty :: "'s"
    and register :: "'s \<Rightarrow> u64 \<Rightarrow> header_filter \<Rightarrow> 'a \<Rightarrow> 's"
    and unregister :: "'s \<Rightarrow> u64 \<Rightarrow> header_filter \<Rightarrow> 's"
    and visited :: "'s \<Rightarrow> headers \<Rightarrow> 'a list"
  assumes rep_empty: "rep [] empty"
    and rep_register: "rep regs s \<Longrightarrow> sid \<notin> fst ` set regs \<Longrightarrow> hf x = f \<Longrightarrow>
      rep (regs @ [(sid, x)]) (register s sid f x)"
    and rep_unregister: "rep regs s \<Longrightarrow> (sid, x) \<in> set regs \<Longrightarrow> hf x = f \<Longrightarrow>
      rep (filter (\<lambda>e. fst e \<noteq> sid) regs) (unregister s sid f)"
    and rep_visited: "rep regs s \<Longrightarrow> bt_wf h \<Longrightarrow>
      mset (filter (\<lambda>x. filter_matches (hf x) h) (visited s h)) =
      mset (map snd (filter (\<lambda>e. filter_matches (hf (snd e)) h) regs))"
begin

text \<open>A predicate that implies the header filter is served exactly, too.\<close>

lemma visited_pred:
  assumes "rep regs s" "bt_wf h" "\<And>x. P x \<Longrightarrow> filter_matches (hf x) h"
  shows "mset (filter P (visited s h)) = mset (map snd (filter (\<lambda>e. P (snd e)) regs))"
proof -
  have "filter P xs = filter P (filter (\<lambda>x. filter_matches (hf x) h) xs)" for xs
    using assms(3) by (induction xs) auto
  then have "mset (filter P (visited s h)) =
      mset (filter P (map snd (filter (\<lambda>e. filter_matches (hf (snd e)) h) regs)))"
    by (metis assms(1,2) rep_visited mset_filter)
  also have "filter P (map snd (filter (\<lambda>e. filter_matches (hf (snd e)) h) regs)) =
      map snd (filter (\<lambda>e. P (snd e)) regs)"
    using assms(3) by (auto simp: filter_map comp_def intro!: filter_cong arg_cong [where f = "map snd"])
  finally show ?thesis .
qed

end

definition registry_rep :: "('a \<Rightarrow> header_filter) \<Rightarrow> (u64 \<times> 'a) list \<Rightarrow> 'a sub_index \<Rightarrow> bool" where
  "registry_rep hf regs ix \<longleftrightarrow> index_rep hf (mset regs) ix \<and> distinct (map fst regs)"

lemma registry_visit:
  assumes rep: "registry_rep hf regs ix" and h: "bt_wf h"
  shows "mset (filter (\<lambda>x. filter_matches (hf x) h) (visit ix h)) =
    mset (map snd (filter (\<lambda>e. filter_matches (hf (snd e)) h) regs))"
proof -
  let ?P = "\<lambda>e. filter_matches (hf (snd e)) h"
  have wf: "index_wf hf ix" and m: "mset (index_entries ix) = mset regs"
    and d: "distinct regs"
    using rep distinct_map by (auto simp: registry_rep_def index_rep_def)
  have "distinct h" using bt_wf_distinct [OF h] distinct_map by blast
  then have "distinct (visit_entries ix h)" by (rule visit_entries_distinct [OF wf])
  moreover have "set (filter ?P (visit_entries ix h)) = set (filter ?P regs)"
    using visit_matching_set [OF wf h] mset_eq_setD [OF m] by auto
  ultimately have "mset (filter ?P (visit_entries ix h)) = mset (filter ?P regs)"
    using d by (intro set_eq_iff_mset_eq_distinct [THEN iffD1] distinct_filter)
  moreover have "filter (\<lambda>x. filter_matches (hf x) h) (visit ix h) =
      map snd (filter ?P (visit_entries ix h))"
    by (simp add: visit_def filter_map comp_def)
  ultimately show ?thesis by simp
qed

lemma mset_filter_key:
  "(k, v) \<in> set m \<Longrightarrow> distinct (map fst m) \<Longrightarrow>
   mset m = add_mset (k, v) (mset (filter (\<lambda>e. fst e \<noteq> k) m))"
proof (induction m)
  case (Cons e m)
  show ?case
  proof (cases "e = (k, v)")
    case True
    with Cons.prems(2) have "filter (\<lambda>e. fst e \<noteq> k) m = m"
      by (force intro!: filter_True)
    with True show ?thesis by simp
  next
    case False
    then have "(k, v) \<in> set m" using Cons.prems(1) by auto
    then have "k \<in> fst ` set m" by (metis fst_conv image_eqI)
    then have "fst e \<noteq> k" using Cons.prems(2) by auto
    with False Cons show ?thesis by simp
  qed
qed simp

interpretation sub_registry: subscriber_registry hf "registry_rep hf" index_new index_insert
  index_remove visit for hf :: "'a \<Rightarrow> header_filter"
proof unfold_locales
  fix regs :: "(u64 \<times> 'a) list" and ix :: "'a sub_index" and sid x f
  show "registry_rep hf [] index_new"
    by (simp add: registry_rep_def index_rep_new)
  assume rep: "registry_rep hf regs ix"
  show "registry_rep hf (regs @ [(sid, x)]) (index_insert ix sid f x)"
    if "sid \<notin> fst ` set regs" "hf x = f"
    using rep that index_rep_insert [of hf "mset regs" ix sid x f]
    by (auto simp: registry_rep_def)
  show "registry_rep hf (filter (\<lambda>e. fst e \<noteq> sid) regs) (index_remove ix sid f)"
    if "(sid, x) \<in> set regs" "hf x = f"
  proof -
    have m: "mset regs = add_mset (sid, x) (mset (filter (\<lambda>e. fst e \<noteq> sid) regs))"
      using rep that(1) by (intro mset_filter_key) (simp_all add: registry_rep_def)
    have "index_rep hf (mset (filter (\<lambda>e. fst e \<noteq> sid) regs)) (index_remove ix sid f)"
      using index_rep_remove [OF rep [unfolded registry_rep_def m, THEN conjunct1] that(2)] .
    then show ?thesis
      using rep unfolding registry_rep_def by (simp only: distinct_map_filter simp_thms)
  qed
  show "mset (filter (\<lambda>x. filter_matches (hf x) h) (visit ix h)) =
      mset (map snd (filter (\<lambda>e. filter_matches (hf (snd e)) h) regs))" if "bt_wf h" for h
    by (rule registry_visit [OF rep that])
qed

section \<open>Every history of an index\<close>

text \<open>
  A registration carries a fresh id (the router draws ids from a counter), and a
  subscription's guard unregisters, once, the id and filter it registered: \<open>reg_spec\<close> is
  \<open>None\<close> for a history that breaks this discipline, and otherwise the live registrations.
\<close>

datatype 'a reg_op = Register u64 'a | Unregister u64 'a

fun reg_apply :: "('a \<Rightarrow> header_filter) \<Rightarrow> 'a reg_op \<Rightarrow> 'a sub_index \<Rightarrow> 'a sub_index" where
  "reg_apply hf (Register sid x) ix = index_insert ix sid (hf x) x"
| "reg_apply hf (Unregister sid x) ix = index_remove ix sid (hf x)"

fun reg_spec :: "(u64 \<times> 'a) list \<Rightarrow> 'a reg_op list \<Rightarrow> (u64 \<times> 'a) list option" where
  "reg_spec regs [] = Some regs"
| "reg_spec regs (Register sid x # ops) =
     (if sid \<in> fst ` set regs then None else reg_spec (regs @ [(sid, x)]) ops)"
| "reg_spec regs (Unregister sid x # ops) =
     (if (sid, x) \<in> set regs then reg_spec (filter (\<lambda>e. fst e \<noteq> sid) regs) ops else None)"

lemma registry_run:
  "registry_rep hf regs ix \<Longrightarrow> reg_spec regs ops = Some live \<Longrightarrow>
   registry_rep hf live (fold (reg_apply hf) ops ix)"
proof (induction regs ops arbitrary: ix rule: reg_spec.induct)
  case (2 regs sid x ops)
  then show ?case
    using sub_registry.rep_register [of hf regs ix sid x "hf x"] by (simp split: if_splits)
next
  case (3 regs sid x ops)
  then show ?case
    using sub_registry.rep_unregister [of hf regs ix sid x "hf x"] by (simp split: if_splits)
qed simp

text \<open>
  Fan-out is exact. After any disciplined history of registrations and drops, a publish
  whose headers are \<open>h\<close> visits each live registration whose header filter matches \<open>h\<close>
  exactly once, although it looks only at the general bucket and at the buckets of its own
  headers; and the index counts its live registrations.
\<close>

theorem fan_out_exact:
  assumes "reg_spec [] ops = Some live" "bt_wf h"
  shows "mset (filter (\<lambda>x. filter_matches (hf x) h) (visit (fold (reg_apply hf) ops index_new) h)) =
      mset (map snd (filter (\<lambda>e. filter_matches (hf (snd e)) h) live)) \<and>
    si_len (fold (reg_apply hf) ops index_new) = length live"
proof -
  have rep: "registry_rep hf live (fold (reg_apply hf) ops index_new)"
    using registry_run [OF sub_registry.rep_empty assms(1)] .
  then show ?thesis
    using sub_registry.rep_visited [OF rep assms(2)] by (simp add: registry_rep_def index_rep_def)
qed

definition exact_sub :: header_filter where
  "exact_sub = HF_All [HF_Has ''a'', HF_Exact ''a'' ''1'']"

theorem fan_out_exact_witness:
  "mset (filter (\<lambda>x. filter_matches x [(''a'', ''1'')]) (visit (fold (reg_apply (\<lambda>x. x))
       [Register 1 exact_sub, Register 2 HF_Any, Register 3 (HF_Exact ''b'' ''1''), Register 4 HF_Any,
        Unregister 2 HF_Any] index_new) [(''a'', ''1'')])) = {# exact_sub, HF_Any #}"
proof -
  let ?ops = "[Register 1 exact_sub, Register 2 HF_Any, Register 3 (HF_Exact ''b'' ''1''),
    Register 4 HF_Any, Unregister 2 HF_Any]"
  let ?live = "[(1 :: u64, exact_sub), (3, HF_Exact ''b'' ''1''), (4, HF_Any)]"
  have "reg_spec [] ?ops = Some ?live" by simp
  moreover have "bt_wf [(''a'', ''1'')]" by (simp add: bt_wf_def)
  ultimately show ?thesis
    using fan_out_exact [of ?ops ?live "[(''a'', ''1'')]" "\<lambda>x. x"] by (simp add: exact_sub_def)
qed

end
