(* ===== verification/Bus_Sink.thy ===== *)
theory Bus_Sink
  imports Bus_Envelope Core_Select
begin

text \<open>
  The durable tier behind the router (\<open>airc-bus/src/sink.rs\<close>, \<open>error.rs\<close>): the operations
  of the \<open>DurableSink\<close> trait as a record (the object's method table), and the in-memory
  implementation. A successful call of the in-memory sink never fails; the trait's result
  type is kept, because the router handles failures.
\<close>

datatype bus_error =
  BE_WriteBehindSaturated
| BE_Sink string
| BE_SinkSource string
| BE_Lagged

section \<open>The trait\<close>

text \<open>
  \<open>page\<close> may update the object (the in-memory sink counts its reads), \<open>append_batch\<close> does.
  A failed batch may have stored part of it.
\<close>

record 's sink_ops =
  so_append_batch :: "'s \<Rightarrow> envelope list \<Rightarrow> (bus_error + unit) \<times> 's"
  so_page :: "'s \<Rightarrow> room_id \<Rightarrow> cursor option \<Rightarrow> nat \<Rightarrow> (bus_error + envelope list) \<times> 's"
  so_page_tail :: "'s \<Rightarrow> room_id \<Rightarrow> cursor option \<Rightarrow> nat \<Rightarrow> bus_error + envelope list"
  so_page_tail_of_kinds :: "'s \<Rightarrow> room_id \<Rightarrow> cursor option \<Rightarrow> kind list \<Rightarrow> nat \<Rightarrow> bus_error + envelope list"
  so_page_matching :: "'s \<Rightarrow> room_id \<Rightarrow> cursor \<Rightarrow> cursor \<Rightarrow> history_match \<Rightarrow> nat \<Rightarrow> bool \<Rightarrow> bus_error + envelope list"
  so_count_matching :: "'s \<Rightarrow> room_id \<Rightarrow> cursor \<Rightarrow> cursor \<Rightarrow> header_filter \<Rightarrow> runtime_self option \<Rightarrow> bus_error + history_count"
  so_head_cursor :: "'s \<Rightarrow> room_id \<Rightarrow> bus_error + cursor option"
  so_contains :: "'s \<Rightarrow> event_id \<Rightarrow> bus_error + bool"

text \<open>The default \<open>append_batch\<close>: append in turn, stop at the first error.\<close>

fun append_batch_default ::
  "('s \<Rightarrow> envelope \<Rightarrow> (bus_error + unit) \<times> 's) \<Rightarrow> 's \<Rightarrow> envelope list \<Rightarrow> (bus_error + unit) \<times> 's" where
  "append_batch_default app s [] = (Inr (), s)"
| "append_batch_default app s (e # es) =
     (case app s e of
        (Inl err, s') \<Rightarrow> (Inl err, s')
      | (Inr _, s') \<Rightarrow> append_batch_default app s' es)"

section \<open>The in-memory sink\<close>

record mem_sink =
  sk_events :: "(room_id, envelope list) btree"
  sk_append_count :: u64
  sk_page_count :: u64

definition sink_new :: mem_sink where
  "sink_new = \<lparr> sk_events = [], sk_append_count = 0, sk_page_count = 0 \<rparr>"

definition bucket_of :: "mem_sink \<Rightarrow> room_id \<Rightarrow> envelope list" where
  "bucket_of s channel = (case map_of (sk_events s) channel of Some b \<Rightarrow> b | None \<Rightarrow> [])"

text \<open>The sort of a bucket compares the sequence number and then the event id.\<close>

definition sink_append :: "mem_sink \<Rightarrow> envelope \<Rightarrow> (bus_error + unit) \<times> mem_sink" where
  "sink_append s e =
     (let bucket = bucket_of s (en_channel e)
      in if list_ex (\<lambda>x. en_event_id x = en_event_id e) bucket
         then (Inr (), s\<lparr> sk_events := bt_insert (en_channel e) bucket (sk_events s) \<rparr>)
         else (Inr (), s\<lparr> sk_events := bt_insert (en_channel e)
                            (sort_key (\<lambda>x. (en_seq x, en_event_id x)) (bucket @ [e])) (sk_events s),
                          sk_append_count := sk_append_count s + 1 \<rparr>))"

definition sink_append_batch :: "mem_sink \<Rightarrow> envelope list \<Rightarrow> (bus_error + unit) \<times> mem_sink" where
  "sink_append_batch = append_batch_default sink_append"

definition sink_head_cursor :: "mem_sink \<Rightarrow> room_id \<Rightarrow> bus_error + cursor option" where
  "sink_head_cursor s channel = Inr (map_option env_cursor (last_opt (bucket_of s channel)))"

definition in_range :: "cursor \<Rightarrow> cursor \<Rightarrow> envelope \<Rightarrow> bool" where
  "in_range after through e \<longleftrightarrow>
     env_durable e \<and> is_after (env_cursor e) after \<and> \<not> is_after (env_cursor e) through"

definition sink_count_matching ::
  "mem_sink \<Rightarrow> room_id \<Rightarrow> cursor \<Rightarrow> cursor \<Rightarrow> header_filter \<Rightarrow> runtime_self option \<Rightarrow> bus_error + history_count" where
  "sink_count_matching s channel after through headers exclude =
     Inr (of_newest (take (HISTORY_COUNT_CAP + 1) (map en_occurred_at_ms
       (filter (\<lambda>e. in_range after through e \<and> filter_matches headers (en_headers e) \<and>
                    \<not> is_some_and exclude (\<lambda>rule. is_self rule (en_headers e) (snd (en_from e))))
         (rev (bucket_of s channel))))))"

definition sink_page_matching ::
  "bus_deps \<Rightarrow> mem_sink \<Rightarrow> room_id \<Rightarrow> cursor \<Rightarrow> cursor \<Rightarrow> history_match \<Rightarrow> nat \<Rightarrow> bool \<Rightarrow> bus_error + envelope list" where
  "sink_page_matching d s channel after through rule limit tail =
     Inr (select (filter (\<lambda>e. in_range after through e \<and> matches_history d e rule) (bucket_of s channel))
       (\<lambda>e. (en_seq e, en_event_id e)) limit tail)"

definition sink_page ::
  "mem_sink \<Rightarrow> room_id \<Rightarrow> cursor option \<Rightarrow> nat \<Rightarrow> (bus_error + envelope list) \<times> mem_sink" where
  "sink_page s channel from_cursor limit =
     (Inr (take limit (filter (\<lambda>e. is_none_or from_cursor (\<lambda>c. is_after (env_cursor e) c))
        (bucket_of s channel))),
      s\<lparr> sk_page_count := sk_page_count s + 1 \<rparr>)"

text \<open>
  \<open>partition_point\<close> on a slice whose elements before the cursor come first: the number of
  leading elements before it. Buckets are in cursor order.
\<close>

definition tail_end :: "envelope list \<Rightarrow> cursor option \<Rightarrow> nat" where
  "tail_end bucket before =
     (case before of
        None \<Rightarrow> length bucket
      | Some b \<Rightarrow> length (takeWhile (\<lambda>e. is_before (env_cursor e) b) bucket))"

definition sink_page_tail :: "mem_sink \<Rightarrow> room_id \<Rightarrow> cursor option \<Rightarrow> nat \<Rightarrow> bus_error + envelope list" where
  "sink_page_tail s channel before limit =
     (let bucket = bucket_of s channel;
          end = tail_end bucket before;
          start = end - limit
      in Inr (drop start (take end bucket)))"

definition sink_page_tail_of_kinds ::
  "mem_sink \<Rightarrow> room_id \<Rightarrow> cursor option \<Rightarrow> kind list \<Rightarrow> nat \<Rightarrow> bus_error + envelope list" where
  "sink_page_tail_of_kinds s channel before kinds limit =
     (let bucket = bucket_of s channel
      in Inr (rev (take limit (filter (\<lambda>e. en_kind e \<in> set kinds)
           (rev (take (tail_end bucket before) bucket))))))"

definition sink_contains :: "mem_sink \<Rightarrow> event_id \<Rightarrow> bus_error + bool" where
  "sink_contains s i =
     Inr (list_ex (\<lambda>bucket. list_ex (\<lambda>e. en_event_id e = i) bucket) (bt_values (sk_events s)))"

definition sink_max_counter :: "mem_sink \<Rightarrow> u64" where
  "sink_max_counter s =
     (case concat (bt_values (sk_events s)) of
        [] \<Rightarrow> 0
      | e # es \<Rightarrow> fold (\<lambda>x m. max (sq_counter (en_seq x)) m) es (sq_counter (en_seq e)))"

definition sink_len :: "mem_sink \<Rightarrow> room_id \<Rightarrow> nat" where
  "sink_len s channel = length (bucket_of s channel)"

definition mem_sink_ops :: "bus_deps \<Rightarrow> mem_sink sink_ops" where
  "mem_sink_ops d =
     \<lparr> so_append_batch = sink_append_batch, so_page = sink_page, so_page_tail = sink_page_tail,
       so_page_tail_of_kinds = sink_page_tail_of_kinds, so_page_matching = sink_page_matching d,
       so_count_matching = sink_count_matching, so_head_cursor = sink_head_cursor,
       so_contains = sink_contains \<rparr>"

section \<open>The contract\<close>

text \<open>The newest \<open>limit\<close> entries of a list.\<close>

definition newest :: "nat \<Rightarrow> 'a list \<Rightarrow> 'a list" where
  "newest limit xs = drop (length xs - limit) xs"

lemma newest_all: "length xs \<le> limit \<Longrightarrow> newest limit xs = xs"
  by (simp add: newest_def)

lemma newest_rev: "newest limit xs = rev (take limit (rev xs))"
  by (simp add: newest_def rev_take)

lemma newest_append:
  "newest limit (xs @ ys) =
     (if limit \<le> length ys then newest limit ys else newest (limit - length ys) xs @ ys)"
  by (auto simp: newest_def)

lemma length_newest [simp]: "length (newest limit xs) = min limit (length xs)"
  by (auto simp: newest_def)

abbreviation after_opt :: "cursor option \<Rightarrow> envelope \<Rightarrow> bool" where
  "after_opt from e \<equiv> is_none_or from (\<lambda>c. c < env_cursor e)"

abbreviation before_opt :: "cursor option \<Rightarrow> envelope \<Rightarrow> bool" where
  "before_opt before e \<equiv> is_none_or before (\<lambda>b. env_cursor e < b)"

definition counted :: "cursor \<Rightarrow> cursor \<Rightarrow> header_filter \<Rightarrow> runtime_self option \<Rightarrow> envelope \<Rightarrow> bool" where
  "counted after through headers exclude e \<longleftrightarrow>
     in_range after through e \<and> filter_matches headers (en_headers e) \<and>
     \<not> is_some_and exclude (\<lambda>rule. is_self rule (en_headers e) (snd (en_from e)))"

text \<open>
  What the router relies on of a durable tier: it holds rows per channel in strict cursor
  order, reads that succeed are exact slices of them, and a batch whose first part is stored
  already and whose second part is fresh and sorts after what its channels hold has the
  second part appended: all of it on success, a prefix of it on failure.
\<close>

locale durable_sink =
  fixes d :: bus_deps
    and ops :: "'s sink_ops"
    and rows :: "'s \<Rightarrow> room_id \<Rightarrow> envelope list"
    and wf :: "'s \<Rightarrow> bool"
  assumes rows_sorted: "wf s \<Longrightarrow> sorted_wrt (<) (map env_cursor (rows s ch))"
    and page_state: "wf s \<Longrightarrow> so_page ops s ch from limit = (r, s') \<Longrightarrow> wf s' \<and> rows s' = rows s"
    and page_exact: "wf s \<Longrightarrow> so_page ops s ch from limit = (Inr es, s') \<Longrightarrow>
      es = take limit (filter (after_opt from) (rows s ch))"
    and page_tail_exact: "wf s \<Longrightarrow> so_page_tail ops s ch before limit = Inr es \<Longrightarrow>
      es = newest limit (filter (before_opt before) (rows s ch))"
    and page_tail_of_kinds_exact: "wf s \<Longrightarrow> so_page_tail_of_kinds ops s ch before kinds limit = Inr es \<Longrightarrow>
      es = newest limit (filter (\<lambda>e. en_kind e \<in> set kinds) (filter (before_opt before) (rows s ch)))"
    and page_matching_exact: "wf s \<Longrightarrow> so_page_matching ops s ch after through rule limit tail = Inr es \<Longrightarrow>
      es = kept limit tail (filter (\<lambda>e. in_range after through e \<and> matches_history d e rule) (rows s ch))"
    and count_matching_exact: "wf s \<Longrightarrow> so_count_matching ops s ch after through headers exclude = Inr n \<Longrightarrow>
      n = of_newest (map en_occurred_at_ms (rev (filter (counted after through headers exclude) (rows s ch))))"
    and head_cursor_exact: "wf s \<Longrightarrow> so_head_cursor ops s ch = Inr c \<Longrightarrow>
      c = map_option env_cursor (last_opt (rows s ch))"
    and contains_exact: "wf s \<Longrightarrow> so_contains ops s i = Inr b \<Longrightarrow>
      b \<longleftrightarrow> (\<exists>ch. \<exists>e \<in> set (rows s ch). en_event_id e = i)"
    and append_batch_wf: "wf s \<Longrightarrow> so_append_batch ops s es = (q, s') \<Longrightarrow> wf s'"
    and append_batch_exact: "wf s \<Longrightarrow> so_append_batch ops s (pre @ post) = (q, s') \<Longrightarrow>
      (\<forall>e \<in> set pre. e \<in> set (rows s (en_channel e))) \<Longrightarrow>
      (\<And>ch. sorted_wrt (<) (map env_cursor (rows s ch @ filter (\<lambda>e. en_channel e = ch) post))) \<Longrightarrow>
      (\<And>ch. distinct (map en_event_id (rows s ch @ filter (\<lambda>e. en_channel e = ch) post))) \<Longrightarrow>
      \<exists>stored rest. post = stored @ rest \<and> (q = Inr () \<longrightarrow> rest = []) \<and>
        (\<forall>ch. rows s' ch = rows s ch @ filter (\<lambda>e. en_channel e = ch) stored)"

section \<open>The in-memory sink meets the contract\<close>

definition bucket_ok :: "room_id \<Rightarrow> envelope list \<Rightarrow> bool" where
  "bucket_ok ch b \<longleftrightarrow>
     sorted_wrt (<) (map env_cursor b) \<and> distinct (map en_event_id b) \<and> (\<forall>e \<in> set b. en_channel e = ch)"

definition sink_wf :: "mem_sink \<Rightarrow> bool" where
  "sink_wf s \<longleftrightarrow> keyed bucket_ok (sk_events s)"

lemma bucket_of_ok: "sink_wf s \<Longrightarrow> bucket_ok ch (bucket_of s ch)"
  by (auto simp: bucket_of_def sink_wf_def bucket_ok_def dest: keyedD split: option.split)

lemma bucket_of_insert:
  "sk_events s' = bt_insert k b (sk_events s) \<Longrightarrow>
   bucket_of s' ch = (if ch = k then b else bucket_of s ch)"
  by (simp add: bucket_of_def)

lemma bucket_of_mem: "e \<in> set (bucket_of s ch) \<Longrightarrow> \<exists>b. map_of (sk_events s) ch = Some b \<and> e \<in> set b"
  by (cases "map_of (sk_events s) ch") (auto simp: bucket_of_def)

lemma env_cursor_le:
  "env_cursor x \<le> env_cursor y \<longleftrightarrow>
     en_seq x < en_seq y \<or> en_seq x = en_seq y \<and> en_event_id x \<le> en_event_id y"
  by (auto simp: env_cursor_def order.order_iff_strict cursor_less_iff)

lemma sort_key_cursor: "sort_key (\<lambda>x. (en_seq x, en_event_id x)) xs = sort_key env_cursor xs"
proof (induction xs)
  case (Cons x xs)
  have "insort_key (\<lambda>x. (en_seq x, en_event_id x)) x ys = insort_key env_cursor x ys" for ys
    by (induction ys) (auto simp: env_cursor_le)
  then show ?case using Cons by (simp add: sort_key_def)
qed (simp add: sort_key_def)

lemma sort_key_strict:
  "distinct (map f xs) \<Longrightarrow> sorted_wrt (<) (map f (sort_key f xs))"
  by (simp add: strict_sorted_iff distinct_map)

lemma sort_key_sorted: "sorted_wrt (<) (map f xs) \<Longrightarrow> sort_key f xs = xs"
  by (simp add: sort_key_id_if_sorted strict_sorted_imp_sorted)

lemma distinct_cursor: "distinct (map en_event_id xs) \<Longrightarrow> distinct (map env_cursor xs)"
  by (auto simp: distinct_map inj_on_def env_cursor_def)

lemma sink_append_spec:
  assumes "sink_wf s" "sink_append s e = (r, s')"
  shows "sink_wf s' \<and> r = Inr () \<and> (\<forall>ch. bucket_of s' ch =
    (if ch = en_channel e \<and> en_event_id e \<notin> en_event_id ` set (bucket_of s ch)
     then sort_key env_cursor (bucket_of s ch @ [e]) else bucket_of s ch))"
proof -
  let ?b = "bucket_of s (en_channel e)"
  have b: "bucket_ok (en_channel e) ?b" using assms(1) by (rule bucket_of_ok)
  have seen: "list_ex (\<lambda>x. en_event_id x = en_event_id e) ?b \<longleftrightarrow>
      en_event_id e \<in> en_event_id ` set ?b"
    unfolding list_ex_iff image_iff by (metis (no_types))
  have new: "bucket_ok (en_channel e) (sort_key env_cursor (?b @ [e]))"
    if "en_event_id e \<notin> en_event_id ` set ?b"
  proof -
    have "distinct (map en_event_id (?b @ [e]))"
      using b that by (simp add: bucket_ok_def)
    moreover have "distinct (map en_event_id (sort_key env_cursor (?b @ [e])))"
      using calculation by (rule mset_eq_imp_distinct_iff [THEN iffD1, rotated]) simp
    ultimately show ?thesis
      using b unfolding bucket_ok_def
      by (intro conjI sort_key_strict distinct_cursor) auto
  qed
  show ?thesis
  proof (cases "en_event_id e \<in> en_event_id ` set ?b")
    case True
    then show ?thesis
      using assms b bucket_of_insert [of s' "en_channel e" ?b s] unfolding sink_append_def Let_def seen
      by (auto simp: sink_wf_def keyed_insert)
  next
    case False
    then show ?thesis
      using assms new bucket_of_insert [of s' "en_channel e" "sort_key env_cursor (?b @ [e])" s]
      unfolding sink_append_def Let_def seen sort_key_cursor
      by (auto simp: sink_wf_def keyed_insert)
  qed
qed

lemma sink_append_batch_wf: "sink_wf s \<Longrightarrow> sink_append_batch s es = (r, s') \<Longrightarrow> sink_wf s'"
proof (induction es arbitrary: s)
  case (Cons e es)
  obtain q t where t: "sink_append s e = (q, t)" by (cases "sink_append s e")
  then show ?case
    using Cons sink_append_spec [OF Cons.prems(1) t] by (auto simp: sink_append_batch_def)
qed (simp add: sink_append_batch_def)

lemma sink_append_batch_spec:
  assumes "sink_wf s" "sink_append_batch s es = (r, s')"
    and "\<And>ch. sorted_wrt (<) (map env_cursor (bucket_of s ch @ filter (\<lambda>e. en_channel e = ch) es))"
    and "\<And>ch. distinct (map en_event_id (bucket_of s ch @ filter (\<lambda>e. en_channel e = ch) es))"
  shows "bucket_of s' ch = bucket_of s ch @ filter (\<lambda>e. en_channel e = ch) es"
  using assms
proof (induction es arbitrary: s)
  case (Cons e es)
  obtain q t where t: "sink_append s e = (q, t)" by (cases "sink_append s e")
  note spec = sink_append_spec [OF Cons.prems(1) t]
  have fresh: "en_event_id e \<notin> en_event_id ` set (bucket_of s (en_channel e))"
    using Cons.prems(4) [of "en_channel e"] by simp
  have "sort_key env_cursor (bucket_of s (en_channel e) @ [e]) = bucket_of s (en_channel e) @ [e]"
    using Cons.prems(3) [of "en_channel e"] by (intro sort_key_sorted) (simp add: sorted_wrt_append)
  then have bt: "bucket_of t ch = bucket_of s ch @ (if en_channel e = ch then [e] else [])" for ch
    using spec fresh by auto
  have "sink_append_batch t es = (r, s')"
    using Cons.prems(2) t spec by (simp add: sink_append_batch_def)
  then have "bucket_of s' ch = bucket_of t ch @ filter (\<lambda>e. en_channel e = ch) es"
  proof (rule Cons.IH [rotated])
    show "sink_wf t" using spec by simp
    show "sorted_wrt (<) (map env_cursor (bucket_of t ch @ filter (\<lambda>e. en_channel e = ch) es))"
      "distinct (map en_event_id (bucket_of t ch @ filter (\<lambda>e. en_channel e = ch) es))" for ch
      using Cons.prems(3,4) [of ch] by (auto simp: bt split: if_splits)
  qed
  then show ?case by (simp add: bt)
qed (simp add: sink_append_batch_def)

lemma sink_append_batch_stored:
  "sink_wf s \<Longrightarrow> \<forall>e \<in> set pre. e \<in> set (bucket_of s (en_channel e)) \<Longrightarrow>
   \<exists>t. sink_append_batch s (pre @ post) = sink_append_batch t post \<and> sink_wf t \<and> bucket_of t = bucket_of s"
proof (induction pre arbitrary: s)
  case (Cons e pre)
  obtain q t where t: "sink_append s e = (q, t)" by (cases "sink_append s e")
  note spec = sink_append_spec [OF Cons.prems(1) t]
  have same: "bucket_of t = bucket_of s"
    using spec Cons.prems(2) by (auto simp: fun_eq_iff)
  then obtain u where "sink_append_batch t (pre @ post) = sink_append_batch u post" "sink_wf u"
      "bucket_of u = bucket_of t"
    using Cons.IH [of t] Cons.prems(2) spec by auto
  then show ?case
    using t spec same by (auto simp: sink_append_batch_def)
qed auto

lemma sink_append_batch_contract:
  assumes "sink_wf s" "sink_append_batch s (pre @ post) = (q, s')"
    and "\<forall>e \<in> set pre. e \<in> set (bucket_of s (en_channel e))"
    and "\<And>ch. sorted_wrt (<) (map env_cursor (bucket_of s ch @ filter (\<lambda>e. en_channel e = ch) post))"
    and "\<And>ch. distinct (map en_event_id (bucket_of s ch @ filter (\<lambda>e. en_channel e = ch) post))"
  shows "\<exists>stored rest. post = stored @ rest \<and> (q = Inr () \<longrightarrow> rest = []) \<and>
    (\<forall>ch. bucket_of s' ch = bucket_of s ch @ filter (\<lambda>e. en_channel e = ch) stored)"
proof -
  obtain t where t: "sink_append_batch t post = (q, s')" "sink_wf t" "bucket_of t = bucket_of s"
    using sink_append_batch_stored [OF assms(1,3)] assms(2) by metis
  have "bucket_of s' ch = bucket_of s ch @ filter (\<lambda>e. en_channel e = ch) post" for ch
    using sink_append_batch_spec [OF t(2,1)] assms(4,5) t(3) by simp
  then show ?thesis by auto
qed

lemma takeWhile_before:
  "sorted_wrt (<) (map env_cursor b) \<Longrightarrow>
   take (tail_end b before) b = filter (before_opt before) b"
proof (cases before)
  case (Some c)
  assume "sorted_wrt (<) (map env_cursor b)"
  then have "takeWhile (\<lambda>e. env_cursor e < c) b = filter (\<lambda>e. env_cursor e < c) b"
    by (induction b) (auto simp: filter_empty_conv [THEN eq_iff_swap] dest: order.strict_trans)
  then show ?thesis
    using Some takeWhile_eq_take [of "\<lambda>e. env_cursor e < c" b] by (simp add: tail_end_def)
qed (simp add: tail_end_def)

lemma sink_page_tail_spec:
  "sink_wf s \<Longrightarrow> sink_page_tail s ch before limit = Inr es \<Longrightarrow>
   es = newest limit (filter (before_opt before) (bucket_of s ch))"
proof -
  let ?b = "bucket_of s ch"
  assume wf: "sink_wf s" and es: "sink_page_tail s ch before limit = Inr es"
  have "sorted_wrt (<) (map env_cursor ?b)" using bucket_of_ok [OF wf] by (simp add: bucket_ok_def)
  then have t: "take (tail_end ?b before) ?b = filter (before_opt before) ?b"
    by (rule takeWhile_before)
  moreover have "tail_end ?b before \<le> length ?b"
    by (simp add: tail_end_def length_takeWhile_le split: option.split)
  ultimately have "length (filter (before_opt before) ?b) = tail_end ?b before"
    by (metis length_take min.absorb2)
  then show ?thesis
    using es t by (simp add: sink_page_tail_def Let_def newest_def)
qed

lemma sink_read_specs:
  assumes "sink_wf s"
  shows
    "sink_page_tail_of_kinds s ch before kinds limit = Inr es \<Longrightarrow>
      es = newest limit (filter (\<lambda>e. en_kind e \<in> set kinds) (filter (before_opt before) (bucket_of s ch)))"
    "sink_page_matching d s ch after through rule limit tail = Inr es \<Longrightarrow>
      es = kept limit tail (filter (\<lambda>e. in_range after through e \<and> matches_history d e rule) (bucket_of s ch))"
    "sink_count_matching s ch after through headers exclude = Inr n \<Longrightarrow>
      n = of_newest (map en_occurred_at_ms (rev (filter (counted after through headers exclude) (bucket_of s ch))))"
    "sink_contains s i = Inr c \<Longrightarrow> c \<longleftrightarrow> (\<exists>ch. \<exists>e \<in> set (bucket_of s ch). en_event_id e = i)"
proof -
  have srt: "sorted_wrt (<) (map env_cursor (bucket_of s ch))"
    using bucket_of_ok [OF assms] by (simp add: bucket_ok_def)
  then show "sink_page_tail_of_kinds s ch before kinds limit = Inr es \<Longrightarrow>
      es = newest limit (filter (\<lambda>e. en_kind e \<in> set kinds) (filter (before_opt before) (bucket_of s ch)))"
    by (auto simp: sink_page_tail_of_kinds_def Let_def takeWhile_before newest_rev rev_filter)
  let ?hits = "filter (\<lambda>e. in_range after through e \<and> matches_history d e rule) (bucket_of s ch)"
  have "sorted_wrt (<) (map env_cursor ?hits)"
    using srt by (simp add: sorted_wrt_map sorted_wrt_filter)
  then show "sink_page_matching d s ch after through rule limit tail = Inr es \<Longrightarrow>
      es = kept limit tail ?hits"
    by (auto simp: sink_page_matching_def select_sorted sort_key_cursor sort_key_sorted kept_def)
  show "sink_count_matching s ch after through headers exclude = Inr n \<Longrightarrow>
      n = of_newest (map en_occurred_at_ms (rev (filter (counted after through headers exclude) (bucket_of s ch))))"
    unfolding sink_count_matching_def of_newest_take
    by (auto simp: counted_def [abs_def] rev_filter)
  have wf: "bt_wf (sk_events s)" using assms by (auto simp: sink_wf_def dest: keyed_wf)
  show "c \<longleftrightarrow> (\<exists>ch. \<exists>e \<in> set (bucket_of s ch). en_event_id e = i)" if "sink_contains s i = Inr c"
  proof -
    have "(\<exists>b \<in> set (bt_values (sk_events s)). \<exists>e \<in> set b. en_event_id e = i) \<longleftrightarrow>
        (\<exists>ch. \<exists>e \<in> set (bucket_of s ch). en_event_id e = i)" (is "?l \<longleftrightarrow> ?r")
    proof
      assume ?l
      then obtain b e ch where "map_of (sk_events s) ch = Some b" "e \<in> set b" "en_event_id e = i"
        using in_bt_values [OF wf] by blast
      then show ?r by (intro exI [of _ ch]) (auto simp: bucket_of_def)
    next
      assume ?r
      then obtain ch b e where "map_of (sk_events s) ch = Some b" "e \<in> set b" "en_event_id e = i"
        by (blast dest: bucket_of_mem)
      then show ?l using in_bt_values [OF wf] by blast
    qed
    then show ?thesis
      using that by (simp add: sink_contains_def list_ex_iff)
  qed
qed

interpretation mem: durable_sink d "mem_sink_ops d" bucket_of sink_wf for d
proof unfold_locales
  fix s s' :: mem_sink and ch "from" limit r
  assume wf: "sink_wf s"
  show "sorted_wrt (<) (map env_cursor (bucket_of s ch))"
    using bucket_of_ok [OF wf] by (simp add: bucket_ok_def)
  show "sink_wf s' \<and> bucket_of s' = bucket_of s" if "so_page (mem_sink_ops d) s ch from limit = (r, s')"
    using that wf by (auto simp: mem_sink_ops_def sink_page_def sink_wf_def bucket_of_def fun_eq_iff)
qed (use sink_page_tail_spec sink_read_specs sink_append_batch_wf sink_append_batch_contract in
    \<open>auto simp: mem_sink_ops_def sink_page_def sink_head_cursor_def\<close>)

end
