(* ===== verification/Bus_Router.thy ===== *)
theory Bus_Router
  imports Bus_Ring Bus_Ephemeral Bus_Index Bus_Sink
begin

text \<open>
  The event router (\<open>airc-bus/src/router.rs\<close>, \<open>router/write_behind.rs\<close>): publishing, the
  recent-id window, the forward path and the write-behind task. The router is explicit
  state. A bounded \<open>mpsc\<close> channel is its queue, its bound and whether its receiver is gone;
  a subscriber handle and its stream share one channel and one lag flag, so these live in a
  store \<open>rt_chans\<close> addressed by the subscription id. The clock reading is an argument. The
  critical section of a publish is one definition (\<open>publish_deliver\<close>), the steps before and
  after it are others, so that concurrent publishers can be interleaved at the points where
  the code holds no lock. Tracing and diagnostics are not modelled.
\<close>

section \<open>Recent ids\<close>

definition RECENT_PUBLISH_IDS_CAPACITY :: nat where
  "RECENT_PUBLISH_IDS_CAPACITY = 4096"

record recent_event_ids =
  ri_order :: "event_id list"
  ri_seen :: "event_id set"

definition recent_new :: recent_event_ids where
  "recent_new = \<lparr> ri_order = [], ri_seen = {} \<rparr>"

definition recent_insert :: "recent_event_ids \<Rightarrow> event_id \<Rightarrow> bool \<times> recent_event_ids" where
  "recent_insert r i =
     (if i \<in> ri_seen r then (False, r)
      else
        let seen = insert i (ri_seen r);
            (order, seen) =
              (if length (ri_order r) = RECENT_PUBLISH_IDS_CAPACITY
               then (case ri_order r of
                       evicted # rest \<Rightarrow> (rest, seen - {evicted})
                     | [] \<Rightarrow> ([], seen))
               else (ri_order r, seen))
        in (True, \<lparr> ri_order = order @ [i], ri_seen = seen \<rparr>))"

definition recent_remove :: "recent_event_ids \<Rightarrow> event_id \<Rightarrow> recent_event_ids" where
  "recent_remove r i =
     (if i \<in> ri_seen r
      then \<lparr> ri_order = filter (\<lambda>other. other \<noteq> i) (ri_order r), ri_seen = ri_seen r - {i} \<rparr>
      else r)"

section \<open>State\<close>

record router_config =
  rg_shards :: nat
  rg_ring_capacity :: nat
  rg_ring_byte_budget :: nat
  rg_subscriber_buffer :: nat
  rg_write_behind_buffer :: nat
  rg_ephemeral_ttl_ms :: u64

definition router_config_default :: router_config where
  "router_config_default =
     \<lparr> rg_shards = 16, rg_ring_capacity = 256, rg_ring_byte_budget = 1048576,
       rg_subscriber_buffer = 1024, rg_write_behind_buffer = 1024, rg_ephemeral_ttl_ms = 30000 \<rparr>"

record subscriber_handle =
  sh_tx :: u64
  sh_filter :: bus_filter

record sub_chan =
  sc_queue :: "envelope list"
  sc_capacity :: nat
  sc_closed :: bool
  sc_lagged :: bool

record channel_state =
  cs_ring :: hot_ring
  cs_ephemeral :: eph_cache
  cs_subscribers :: "subscriber_handle sub_index"

definition channel_state_new :: "router_config \<Rightarrow> channel_state" where
  "channel_state_new cfg =
     \<lparr> cs_ring = ring_new (rg_ring_capacity cfg) (rg_ring_byte_budget cfg),
       cs_ephemeral = eph_new (rg_ephemeral_ttl_ms cfg), cs_subscribers = index_new \<rparr>"

type_synonym shard = "(room_id, channel_state) btree"

record forward_item =
  fi_env :: envelope
  fi_origin :: "uuid option"

type_synonym forward_key = "room_id \<times> uuid \<times> string"

record forward_chan =
  fc_queue :: "forward_item list"
  fc_capacity :: nat
  fc_closed :: bool

datatype publish_if_new_result = Published seq | Duplicate

record 's router =
  rt_shards :: "shard list"
  rt_config :: router_config
  rt_seq :: seq_source
  rt_sink :: 's
  rt_write_behind :: "envelope list"
  rt_reserved :: nat
  rt_writer_gone :: bool
  rt_recent :: recent_event_ids
  rt_forward :: "forward_chan option"
  rt_forward_drop_count :: u64
  rt_ephemeral_superseded :: u64
  rt_forward_latest :: "(forward_key, forward_item) btree"
  rt_shed_count :: u64
  rt_channels_created :: u64
  rt_next_subscription :: u64
  rt_chans :: "(u64, sub_chan) btree"
  rt_batch :: "envelope list"
  rt_retrying :: bool
  rt_confirmed :: "envelope list"

text \<open>\<open>rt_batch\<close>, \<open>rt_retrying\<close> and \<open>rt_confirmed\<close> are the write-behind task's locals: the
  batch it retains until the sink confirms it, whether an attempt has failed, and what is
  left to unpin of a confirmed batch.\<close>

definition router_new :: "router_config \<Rightarrow> seq_source \<Rightarrow> 's \<Rightarrow> 's router" where
  "router_new cfg src sink =
     \<lparr> rt_shards = replicate (max (rg_shards cfg) 1) [], rt_config = cfg, rt_seq = src, rt_sink = sink,
       rt_write_behind = [], rt_reserved = 0, rt_writer_gone = False, rt_recent = recent_new,
       rt_forward = None, rt_forward_drop_count = 0, rt_ephemeral_superseded = 0,
       rt_forward_latest = [], rt_shed_count = 0, rt_channels_created = 0,
       rt_next_subscription = 1, rt_chans = [], rt_batch = [], rt_retrying = False,
       rt_confirmed = [] \<rparr>"

definition shard_index :: "nat \<Rightarrow> room_id \<Rightarrow> nat" where
  "shard_index n channel = unat channel mod n"

definition lookup_channel :: "'s router \<Rightarrow> room_id \<Rightarrow> channel_state option" where
  "lookup_channel rt ch = map_of (rt_shards rt ! shard_index (length (rt_shards rt)) ch) ch"

definition put_channel :: "'s router \<Rightarrow> room_id \<Rightarrow> channel_state \<Rightarrow> 's router" where
  "put_channel rt ch st =
     (let i = shard_index (length (rt_shards rt)) ch
      in rt\<lparr> rt_shards := (rt_shards rt)[i := bt_insert ch st (rt_shards rt ! i)] \<rparr>)"

text \<open>\<open>entry(..).or_insert_with(..)\<close> and the count of channels ever created.\<close>

definition channel_entry :: "'s router \<Rightarrow> room_id \<Rightarrow> channel_state \<times> 's router" where
  "channel_entry rt ch =
     (case lookup_channel rt ch of
        Some st \<Rightarrow> (st, rt)
      | None \<Rightarrow>
          let st = channel_state_new (rt_config rt)
          in (st, (put_channel rt ch st)\<lparr> rt_channels_created := rt_channels_created rt + 1 \<rparr>))"

section \<open>The forward path\<close>

definition forward_key_of :: "envelope \<Rightarrow> forward_key option" where
  "forward_key_of e =
     (if \<not> env_ephemeral e then None
      else map_option (\<lambda>k. (en_channel e, fst (en_from e), k)) (en_coalesce_key e))"

definition forward_resolve :: "'s router \<Rightarrow> forward_item \<Rightarrow> forward_item option \<times> 's router" where
  "forward_resolve rt queued =
     (case forward_key_of (fi_env queued) of
        None \<Rightarrow> (Some queued, rt)
      | Some key \<Rightarrow>
          (map_of (rt_forward_latest rt) key,
           rt\<lparr> rt_forward_latest := bt_remove key (rt_forward_latest rt) \<rparr>))"

definition set_forward_sink :: "'s router \<Rightarrow> nat \<Rightarrow> 's router" where
  "set_forward_sink rt capacity =
     rt\<lparr> rt_forward := Some \<lparr> fc_queue = [], fc_capacity = capacity, fc_closed = False \<rparr> \<rparr>"

definition offer_to_forward_sink :: "'s router \<Rightarrow> envelope \<Rightarrow> uuid option \<Rightarrow> 's router" where
  "offer_to_forward_sink rt e origin =
     (case rt_forward rt of
        None \<Rightarrow> rt
      | Some tx \<Rightarrow>
          let item = \<lparr> fi_env = e, fi_origin = origin \<rparr>;
              coalesced = forward_key_of e;
              rt = (case coalesced of
                      Some key \<Rightarrow> rt\<lparr> rt_forward_latest := bt_insert key item (rt_forward_latest rt) \<rparr>
                    | None \<Rightarrow> rt)
          in if fc_closed tx then rt\<lparr> rt_forward_drop_count := rt_forward_drop_count rt + 1 \<rparr>
             else if length (fc_queue tx) < fc_capacity tx
               then rt\<lparr> rt_forward := Some (tx\<lparr> fc_queue := fc_queue tx @ [item] \<rparr>) \<rparr>
             else if coalesced \<noteq> None
               then rt\<lparr> rt_ephemeral_superseded := rt_ephemeral_superseded rt + 1 \<rparr>
             else rt\<lparr> rt_forward_drop_count := rt_forward_drop_count rt + 1 \<rparr>)"

section \<open>Publishing\<close>

text \<open>Admission to the write-behind queue, before anything else of the event is exposed.\<close>

definition publish_reserve :: "'s router \<Rightarrow> envelope \<Rightarrow> (bus_error + bool) \<times> 's router" where
  "publish_reserve rt e =
     (if env_durable e then
        if rt_writer_gone rt then (Inl (BE_Sink ''write-behind task gone''), rt)
        else if length (rt_write_behind rt) + rt_reserved rt
                  < max (rg_write_behind_buffer (rt_config rt)) 1
          then (Inr True, rt\<lparr> rt_reserved := rt_reserved rt + 1 \<rparr>)
        else (Inl BE_WriteBehindSaturated, rt\<lparr> rt_shed_count := rt_shed_count rt + 1 \<rparr>)
      else (Inr False, rt))"

definition publish_stamp :: "'s router \<Rightarrow> envelope \<Rightarrow> u64 \<Rightarrow> envelope \<times> 's router" where
  "publish_stamp rt e now_ms =
     (let (s, src) = seq_next (rt_seq rt);
          e = e\<lparr> en_seq := s, en_occurred_at_ms := now_ms \<rparr>
      in (e, rt\<lparr> rt_seq := src, rt_recent := snd (recent_insert (rt_recent rt) (en_event_id e)) \<rparr>))"

definition try_send :: "(u64, sub_chan) btree \<Rightarrow> subscriber_handle \<Rightarrow> envelope \<Rightarrow> (u64, sub_chan) btree" where
  "try_send chans h e =
     (case map_of chans (sh_tx h) of
        None \<Rightarrow> chans
      | Some c \<Rightarrow>
          if sc_closed c then chans
          else if length (sc_queue c) < sc_capacity c
            then bt_insert (sh_tx h) (c\<lparr> sc_queue := sc_queue c @ [e] \<rparr>) chans
          else bt_insert (sh_tx h) (c\<lparr> sc_lagged := True \<rparr>) chans)"

definition fan_out ::
  "(u64, sub_chan) btree \<Rightarrow> subscriber_handle list \<Rightarrow> envelope \<Rightarrow> (u64, sub_chan) btree" where
  "fan_out chans handles e =
     fold (\<lambda>h chans. if bus_filter_matches (sh_filter h) e then try_send chans h e else chans)
       handles chans"

text \<open>The critical section: ring or ephemeral cache, then live fan-out, under the shard lock.\<close>

definition publish_deliver :: "bus_deps \<Rightarrow> 's router \<Rightarrow> envelope \<Rightarrow> 's router" where
  "publish_deliver d rt e =
     (let (st, rt) = channel_entry rt (en_channel e);
          st = (if env_ephemeral e
                then st\<lparr> cs_ephemeral := coalesce d (cs_ephemeral st) e (en_occurred_at_ms e) \<rparr>
                else st\<lparr> cs_ring := ring_push (cs_ring st) e \<rparr>)
      in (put_channel rt (en_channel e) st)
           \<lparr> rt_chans := fan_out (rt_chans rt) (visit (cs_subscribers st) (en_headers e)) e \<rparr>)"

definition publish_enqueue :: "'s router \<Rightarrow> envelope \<Rightarrow> bool \<Rightarrow> 's router" where
  "publish_enqueue rt e permit =
     (if permit
      then rt\<lparr> rt_write_behind := rt_write_behind rt @ [e], rt_reserved := rt_reserved rt - 1 \<rparr>
      else rt)"

definition publish_forward :: "'s router \<Rightarrow> envelope \<Rightarrow> uuid option \<Rightarrow> 's router" where
  "publish_forward rt e origin =
     (if env_durable e \<or> env_ephemeral e then offer_to_forward_sink rt e origin else rt)"

definition publish_from ::
  "bus_deps \<Rightarrow> 's router \<Rightarrow> u64 \<Rightarrow> envelope \<Rightarrow> uuid option \<Rightarrow> (bus_error + seq) \<times> 's router" where
  "publish_from d rt now_ms e origin =
     (case publish_reserve rt e of
        (Inl err, rt) \<Rightarrow> (Inl err, rt)
      | (Inr permit, rt) \<Rightarrow>
          let (e, rt) = publish_stamp rt e now_ms;
              rt = publish_deliver d rt e;
              rt = publish_enqueue rt e permit
          in (Inr (en_seq e), publish_forward rt e origin))"

definition publish :: "bus_deps \<Rightarrow> 's router \<Rightarrow> u64 \<Rightarrow> envelope \<Rightarrow> (bus_error + seq) \<times> 's router" where
  "publish d rt now_ms e = publish_from d rt now_ms e None"

definition unmark :: "'s router \<Rightarrow> event_id \<Rightarrow> 's router" where
  "unmark rt i = rt\<lparr> rt_recent := recent_remove (rt_recent rt) i \<rparr>"

definition publish_if_new_from ::
  "bus_deps \<Rightarrow> 's sink_ops \<Rightarrow> 's router \<Rightarrow> u64 \<Rightarrow> envelope \<Rightarrow> uuid option
   \<Rightarrow> (bus_error + publish_if_new_result) \<times> 's router" where
  "publish_if_new_from d ops rt now_ms e origin =
     (case recent_insert (rt_recent rt) (en_event_id e) of
        (False, _) \<Rightarrow> (Inr Duplicate, rt)
      | (True, recent) \<Rightarrow>
          let rt = rt\<lparr> rt_recent := recent \<rparr>
          in (case so_contains ops (rt_sink rt) (en_event_id e) of
                Inl err \<Rightarrow> (Inl err, unmark rt (en_event_id e))
              | Inr True \<Rightarrow> (Inr Duplicate, rt)
              | Inr False \<Rightarrow>
                  (case publish_from d rt now_ms e origin of
                     (Inr s, rt) \<Rightarrow> (Inr (Published s), rt)
                   | (Inl err, rt) \<Rightarrow> (Inl err, unmark rt (en_event_id e)))))"

definition ephemeral_latest :: "'s router \<Rightarrow> u64 \<Rightarrow> room_id \<Rightarrow> string \<Rightarrow> envelope option" where
  "ephemeral_latest rt now_ms ch key =
     Option.bind (lookup_channel rt ch) (\<lambda>st. eph_get (cs_ephemeral st) key now_ms)"

definition ephemeral_snapshot :: "'s router \<Rightarrow> u64 \<Rightarrow> room_id \<Rightarrow> envelope list" where
  "ephemeral_snapshot rt now_ms ch =
     (case lookup_channel rt ch of Some st \<Rightarrow> eph_snapshot (cs_ephemeral st) now_ms | None \<Rightarrow> [])"

definition pinned_in_ring :: "'s router \<Rightarrow> room_id \<Rightarrow> nat" where
  "pinned_in_ring rt ch =
     (case lookup_channel rt ch of Some st \<Rightarrow> pinned_count (cs_ring st) | None \<Rightarrow> 0)"

definition ring_len :: "'s router \<Rightarrow> room_id \<Rightarrow> nat" where
  "ring_len rt ch =
     (case lookup_channel rt ch of Some st \<Rightarrow> length (hr_slots (cs_ring st)) | None \<Rightarrow> 0)"

section \<open>The write-behind task\<close>

definition MAX_BATCH :: nat where
  "MAX_BATCH = 64"

text \<open>
  The task's loop as the steps between which other code may run: take the first item, take
  one more while the batch is short, hand the retained batch to the sink (a failure leaves
  it retained, and the task retries that same batch), unpin one confirmed item under its shard lock.
\<close>

definition wb_recv :: "'s router \<Rightarrow> 's router option" where
  "wb_recv rt =
     (case (rt_batch rt, rt_confirmed rt, rt_write_behind rt) of
        ([], [], item # rest) \<Rightarrow> Some (rt\<lparr> rt_batch := [item], rt_write_behind := rest \<rparr>)
      | _ \<Rightarrow> None)"

definition wb_try_recv :: "'s router \<Rightarrow> 's router option" where
  "wb_try_recv rt =
     (case (rt_batch rt, rt_write_behind rt) of
        (b # bs, item # rest) \<Rightarrow>
          if \<not> rt_retrying rt \<and> length (rt_batch rt) < MAX_BATCH
          then Some (rt\<lparr> rt_batch := rt_batch rt @ [item], rt_write_behind := rest \<rparr>) else None
      | _ \<Rightarrow> None)"

definition wb_append :: "'s sink_ops \<Rightarrow> 's router \<Rightarrow> 's router option" where
  "wb_append ops rt =
     (if rt_batch rt = [] then None
      else (case so_append_batch ops (rt_sink rt) (rt_batch rt) of
              (Inl err, s) \<Rightarrow> Some (rt\<lparr> rt_sink := s, rt_retrying := True \<rparr>)
            | (Inr _, s) \<Rightarrow>
                Some (rt\<lparr> rt_sink := s, rt_batch := [], rt_retrying := False,
                         rt_confirmed := rt_batch rt \<rparr>)))"

definition wb_unpin :: "'s router \<Rightarrow> 's router option" where
  "wb_unpin rt =
     (case rt_confirmed rt of
        [] \<Rightarrow> None
      | item # rest \<Rightarrow>
          let rt = rt\<lparr> rt_confirmed := rest \<rparr>
          in Some (case lookup_channel rt (en_channel item) of
                     Some st \<Rightarrow>
                       put_channel rt (en_channel item)
                         (st\<lparr> cs_ring := mark_persisted (cs_ring st) (en_event_id item) \<rparr>)
                   | None \<Rightarrow> rt))"

section \<open>Registrations\<close>

text \<open>
  Subscribing registers the live sender and snapshots the ring in one critical section
  (\<open>router/subscribe.rs\<close>); the stream it returns is read later. Dropping the stream removes
  the registration and the receiver.
\<close>

record sub_stream =
  st_sid :: u64
  st_filter :: bus_filter
  st_from_cursor :: "cursor option"
  st_live_only :: bool
  st_ring_snapshot :: "envelope list"
  st_ring_oldest :: "cursor option"

definition subscribe_mode ::
  "'s router \<Rightarrow> bus_filter \<Rightarrow> cursor option \<Rightarrow> bool \<Rightarrow> sub_stream \<times> 's router" where
  "subscribe_mode rt f from_cursor live_only =
     (let channel = bf_channel f;
          sid = rt_next_subscription rt;
          rt = rt\<lparr> rt_next_subscription := sid + 1 \<rparr>;
          chan = \<lparr> sc_queue = [], sc_capacity = max (rg_subscriber_buffer (rt_config rt)) 1,
                   sc_closed = False, sc_lagged = False \<rparr>;
          (st, rt) = channel_entry rt channel;
          st' = st\<lparr> cs_subscribers := index_insert (cs_subscribers st) sid (bf_headers f)
                       \<lparr> sh_tx = sid, sh_filter = f \<rparr> \<rparr>
      in (\<lparr> st_sid = sid, st_filter = f, st_from_cursor = from_cursor, st_live_only = live_only,
            st_ring_snapshot = (if live_only then [] else replay_after (cs_ring st) from_cursor),
            st_ring_oldest = oldest_cursor (cs_ring st) \<rparr>,
          (put_channel rt channel st')\<lparr> rt_chans := bt_insert sid chan (rt_chans rt) \<rparr>))"

definition drop_subscription :: "'s router \<Rightarrow> u64 \<Rightarrow> bus_filter \<Rightarrow> 's router" where
  "drop_subscription rt sid f =
     (let rt = (case lookup_channel rt (bf_channel f) of
                  Some st \<Rightarrow>
                    put_channel rt (bf_channel f)
                      (st\<lparr> cs_subscribers := index_remove (cs_subscribers st) sid (bf_headers f) \<rparr>)
                | None \<Rightarrow> rt)
      in (case map_of (rt_chans rt) sid of
            Some c \<Rightarrow> rt\<lparr> rt_chans := bt_insert sid (c\<lparr> sc_closed := True \<rparr>) (rt_chans rt) \<rparr>
          | None \<Rightarrow> rt))"

definition sub_recv :: "'s router \<Rightarrow> u64 \<Rightarrow> (envelope \<times> 's router) option" where
  "sub_recv rt sid =
     (case map_of (rt_chans rt) sid of
        Some c \<Rightarrow>
          (case sc_queue c of
             e # rest \<Rightarrow> Some (e, rt\<lparr> rt_chans := bt_insert sid (c\<lparr> sc_queue := rest \<rparr>) (rt_chans rt) \<rparr>)
           | [] \<Rightarrow> None)
      | None \<Rightarrow> None)"

definition is_lagged :: "'s router \<Rightarrow> u64 \<Rightarrow> bool" where
  "is_lagged rt sid = is_some_and (map_of (rt_chans rt) sid) sc_lagged"

section \<open>Entry points and observations\<close>

definition publish_if_new ::
  "bus_deps \<Rightarrow> 's sink_ops \<Rightarrow> 's router \<Rightarrow> u64 \<Rightarrow> envelope \<Rightarrow> (bus_error + publish_if_new_result) \<times> 's router" where
  "publish_if_new d ops rt now_ms e = publish_if_new_from d ops rt now_ms e None"

definition subscribe_with_lag :: "'s router \<Rightarrow> bus_filter \<Rightarrow> cursor option \<Rightarrow> sub_stream \<times> 's router" where
  "subscribe_with_lag rt f from_cursor = subscribe_mode rt f from_cursor False"

definition subscribe_live_with_lag :: "'s router \<Rightarrow> bus_filter \<Rightarrow> sub_stream \<times> 's router" where
  "subscribe_live_with_lag rt f = subscribe_mode rt f None True"

text \<open>Occupied slots of a channel are its queue; of the write-behind channel, its queue and permits.\<close>

record retention_snapshot =
  rs_channel_count :: nat
  rs_ring_entries_total :: nat
  rs_ring_bytes_total :: nat
  rs_ring_pinned_total :: nat
  rs_write_behind_queued :: nat
  rs_subscriber_queue_depth_total :: nat
  rs_subscriber_queue_depth_max :: nat

definition queue_depth :: "'s router \<Rightarrow> subscriber_handle \<Rightarrow> nat" where
  "queue_depth rt h = (case map_of (rt_chans rt) (sh_tx h) of Some c \<Rightarrow> length (sc_queue c) | None \<Rightarrow> 0)"

definition snapshot_channel :: "'s router \<Rightarrow> channel_state \<Rightarrow> retention_snapshot \<Rightarrow> retention_snapshot" where
  "snapshot_channel rt st r =
     fold (\<lambda>h r. r\<lparr> rs_subscriber_queue_depth_total := rs_subscriber_queue_depth_total r + queue_depth rt h,
                  rs_subscriber_queue_depth_max := max (rs_subscriber_queue_depth_max r) (queue_depth rt h) \<rparr>)
       (index_values (cs_subscribers st))
       (r\<lparr> rs_ring_entries_total := rs_ring_entries_total r + length (hr_slots (cs_ring st)),
          rs_ring_bytes_total := rs_ring_bytes_total r + hr_bytes (cs_ring st),
          rs_ring_pinned_total := rs_ring_pinned_total r + pinned_count (cs_ring st) \<rparr>)"

definition router_retention :: "'s router \<Rightarrow> retention_snapshot" where
  "router_retention rt =
     fold (\<lambda>channels r. fold (snapshot_channel rt) (bt_values channels)
             (r\<lparr> rs_channel_count := rs_channel_count r + length channels \<rparr>))
       (rt_shards rt)
       \<lparr> rs_channel_count = 0, rs_ring_entries_total = 0, rs_ring_bytes_total = 0, rs_ring_pinned_total = 0,
         rs_write_behind_queued = length (rt_write_behind rt) + rt_reserved rt,
         rs_subscriber_queue_depth_total = 0, rs_subscriber_queue_depth_max = 0 \<rparr>"

definition router_pinned_count :: "'s router \<Rightarrow> nat" where
  "router_pinned_count rt =
     sum_list (map (\<lambda>channels. sum_list (map (\<lambda>st. pinned_count (cs_ring st)) (bt_values channels))) (rt_shards rt))"

end
