(* ===== verification/Bus_Router_Inv.thy ===== *)
theory Bus_Router_Inv
  imports Bus_Router
begin

text \<open>
  The router as a step system. A state is the router together with what the proofs remember
  of its past: every envelope accepted on a channel in order (beginning with what the sink
  held at start), the live registrations, where in the channel each registration began, and
  what its stream has taken from its queue. Publishes are atomic here, one at a time, and
  interleave freely with the steps of the write-behind task and of the subscribers.
\<close>

section \<open>Channel state\<close>

lemma shard_index_less: "shards \<noteq> [] \<Longrightarrow> shard_index (length shards) ch < length shards"
  by (simp add: shard_index_def)

lemma lookup_put_channel:
  "rt_shards rt \<noteq> [] \<Longrightarrow>
   lookup_channel (put_channel rt ch st) ch' = (if ch' = ch then Some st else lookup_channel rt ch')"
  by (auto simp: lookup_channel_def put_channel_def Let_def shard_index_less nth_list_update)

lemma put_channel_simps [simp]:
  "rt_config (put_channel rt ch st) = rt_config rt"
  "rt_seq (put_channel rt ch st) = rt_seq rt"
  "rt_sink (put_channel rt ch st) = rt_sink rt"
  "rt_write_behind (put_channel rt ch st) = rt_write_behind rt"
  "rt_reserved (put_channel rt ch st) = rt_reserved rt"
  "rt_recent (put_channel rt ch st) = rt_recent rt"
  "rt_batch (put_channel rt ch st) = rt_batch rt"
  "rt_confirmed (put_channel rt ch st) = rt_confirmed rt"
  "rt_chans (put_channel rt ch st) = rt_chans rt"
  "rt_next_subscription (put_channel rt ch st) = rt_next_subscription rt"
  "rt_shards (put_channel rt ch st) = [] \<longleftrightarrow> rt_shards rt = []"
  by (simp_all add: put_channel_def Let_def)

text \<open>Updates of other fields leave the channels alone.\<close>

lemma lookup_channel_cong: "rt_shards rt = rt_shards rt' \<Longrightarrow> lookup_channel rt = lookup_channel rt'"
  by (simp add: lookup_channel_def fun_eq_iff)

lemma lookup_channel_frame [simp]:
  "lookup_channel (rt\<lparr> rt_seq := a1 \<rparr>) = lookup_channel rt"
  "lookup_channel (rt\<lparr> rt_sink := a2 \<rparr>) = lookup_channel rt"
  "lookup_channel (rt\<lparr> rt_write_behind := a3 \<rparr>) = lookup_channel rt"
  "lookup_channel (rt\<lparr> rt_reserved := a4 \<rparr>) = lookup_channel rt"
  "lookup_channel (rt\<lparr> rt_recent := a5 \<rparr>) = lookup_channel rt"
  "lookup_channel (rt\<lparr> rt_forward := a6 \<rparr>) = lookup_channel rt"
  "lookup_channel (rt\<lparr> rt_forward_latest := a7 \<rparr>) = lookup_channel rt"
  "lookup_channel (rt\<lparr> rt_forward_drop_count := a8 \<rparr>) = lookup_channel rt"
  "lookup_channel (rt\<lparr> rt_ephemeral_superseded := a8 \<rparr>) = lookup_channel rt"
  "lookup_channel (rt\<lparr> rt_shed_count := a8 \<rparr>) = lookup_channel rt"
  "lookup_channel (rt\<lparr> rt_channels_created := a8 \<rparr>) = lookup_channel rt"
  "lookup_channel (rt\<lparr> rt_next_subscription := a8 \<rparr>) = lookup_channel rt"
  "lookup_channel (rt\<lparr> rt_chans := a9 \<rparr>) = lookup_channel rt"
  "lookup_channel (rt\<lparr> rt_batch := a3 \<rparr>) = lookup_channel rt"
  "lookup_channel (rt\<lparr> rt_retrying := b1 \<rparr>) = lookup_channel rt"
  "lookup_channel (rt\<lparr> rt_confirmed := a3 \<rparr>) = lookup_channel rt"
  by (rule lookup_channel_cong, simp)+

lemma channel_entry_spec:
  assumes "channel_entry rt ch = (st, rt')" "rt_shards rt \<noteq> []"
  shows "st = (case lookup_channel rt ch of Some st \<Rightarrow> st | None \<Rightarrow> channel_state_new (rt_config rt))"
    and "lookup_channel rt' ch' = (if ch' = ch then Some st else lookup_channel rt ch')"
    and "rt_shards rt' \<noteq> []"
    and "rt_config rt' = rt_config rt" "rt_seq rt' = rt_seq rt" "rt_sink rt' = rt_sink rt"
      "rt_write_behind rt' = rt_write_behind rt" "rt_reserved rt' = rt_reserved rt"
      "rt_recent rt' = rt_recent rt" "rt_batch rt' = rt_batch rt"
      "rt_confirmed rt' = rt_confirmed rt" "rt_chans rt' = rt_chans rt"
      "rt_next_subscription rt' = rt_next_subscription rt"
  using assms
  by (auto simp: channel_entry_def Let_def lookup_put_channel split: option.splits)

section \<open>Fan-out reaches each live matching subscriber once\<close>

definition sent :: "envelope \<Rightarrow> sub_chan \<Rightarrow> sub_chan" where
  "sent e c =
     (if sc_closed c then c
      else if length (sc_queue c) < sc_capacity c then c\<lparr> sc_queue := sc_queue c @ [e] \<rparr>
      else c\<lparr> sc_lagged := True \<rparr>)"

lemma map_of_try_send:
  "map_of (try_send chans h e) t =
     (if t = sh_tx h then map_option (sent e) (map_of chans t) else map_of chans t)"
  by (auto simp: try_send_def sent_def split: option.split)

lemma map_of_fan_out:
  "distinct (map sh_tx (filter (\<lambda>h. bus_filter_matches (sh_filter h) e) handles)) \<Longrightarrow>
   map_of (fan_out chans handles e) t =
     (if \<exists>h \<in> set handles. sh_tx h = t \<and> bus_filter_matches (sh_filter h) e
      then map_option (sent e) (map_of chans t) else map_of chans t)"
proof (induction handles arbitrary: chans)
  case (Cons h handles)
  let ?m = "bus_filter_matches (sh_filter h) e"
  let ?chans = "if ?m then try_send chans h e else chans"
  have IH: "map_of (fan_out ?chans handles e) t =
      (if \<exists>h \<in> set handles. sh_tx h = t \<and> bus_filter_matches (sh_filter h) e
       then map_option (sent e) (map_of ?chans t) else map_of ?chans t)"
    using Cons.prems by (intro Cons.IH) (auto split: if_splits)
  have once: "\<not> (\<exists>h' \<in> set handles. sh_tx h' = sh_tx h \<and> bus_filter_matches (sh_filter h') e)" if ?m
    using Cons.prems that by (auto simp: image_iff)
  have "fan_out chans (h # handles) e = fan_out ?chans handles e"
    by (simp add: fan_out_def)
  then show ?case
    using IH once by (auto simp: map_of_try_send)
qed (simp add: fan_out_def)

abbreviation handle_hf :: "subscriber_handle \<Rightarrow> header_filter" where
  "handle_hf h \<equiv> bf_headers (sh_filter h)"

definition regs_ok :: "room_id \<Rightarrow> (u64 \<times> subscriber_handle) list \<Rightarrow> bool" where
  "regs_ok ch regs \<longleftrightarrow> (\<forall>(sid, h) \<in> set regs. sh_tx h = sid \<and> bf_channel (sh_filter h) = ch)"

lemma fan_out_registry:
  assumes rep: "registry_rep handle_hf regs ix" and regs: "regs_ok ch regs" and h: "bt_wf (en_headers e)"
  shows "map_of (fan_out chans (visit ix (en_headers e)) e) t =
    (if \<exists>h. (t, h) \<in> set regs \<and> bus_filter_matches (sh_filter h) e
     then map_option (sent e) (map_of chans t) else map_of chans t)"
proof -
  let ?P = "\<lambda>h. bus_filter_matches (sh_filter h) e"
  let ?hit = "filter (\<lambda>r. ?P (snd r)) regs"
  have m: "mset (filter ?P (visit ix (en_headers e))) = mset (map snd ?hit)"
    using bus_filter_headers by (intro sub_registry.visited_pred [OF rep h])
  have tx: "map sh_tx (map snd ?hit) = map fst ?hit"
    using regs by (auto simp: regs_ok_def)
  have "distinct (map fst ?hit)"
    using rep by (simp add: registry_rep_def distinct_map_filter)
  then have "distinct (map sh_tx (map snd ?hit))" by (simp only: tx)
  moreover have "mset (map sh_tx (filter ?P (visit ix (en_headers e)))) = mset (map sh_tx (map snd ?hit))"
    using m by (metis mset_map)
  ultimately have d: "distinct (map sh_tx (filter ?P (visit ix (en_headers e))))"
    using mset_eq_imp_distinct_iff by blast
  have "set (filter ?P (visit ix (en_headers e))) = snd ` set ?hit"
    using mset_eq_setD [OF m] by simp
  then have "(\<exists>h \<in> set (visit ix (en_headers e)). sh_tx h = t \<and> ?P h) \<longleftrightarrow> (\<exists>r \<in> set ?hit. sh_tx (snd r) = t)"
    by (auto simp: set_eq_iff image_iff) metis+
  also have "\<dots> \<longleftrightarrow> (\<exists>h. (t, h) \<in> set regs \<and> ?P h)"
    using regs by (force simp: regs_ok_def)
  finally show ?thesis
    by (simp add: map_of_fan_out [OF d])
qed

section \<open>The effect of a publish\<close>

definition state_of :: "'s router \<Rightarrow> room_id \<Rightarrow> channel_state" where
  "state_of rt ch = (case lookup_channel rt ch of Some st \<Rightarrow> st | None \<Rightarrow> channel_state_new (rt_config rt))"

lemma state_of_cong:
  "lookup_channel rt = lookup_channel rt' \<Longrightarrow> rt_config rt = rt_config rt' \<Longrightarrow> state_of rt = state_of rt'"
  by (simp add: state_of_def fun_eq_iff split: option.split)

lemma state_of_frame [simp]:
  "state_of (rt\<lparr> rt_seq := a1 \<rparr>) = state_of rt"
  "state_of (rt\<lparr> rt_sink := a2 \<rparr>) = state_of rt"
  "state_of (rt\<lparr> rt_write_behind := a3 \<rparr>) = state_of rt"
  "state_of (rt\<lparr> rt_reserved := a4 \<rparr>) = state_of rt"
  "state_of (rt\<lparr> rt_recent := a5 \<rparr>) = state_of rt"
  "state_of (rt\<lparr> rt_forward := a6 \<rparr>) = state_of rt"
  "state_of (rt\<lparr> rt_forward_latest := a7 \<rparr>) = state_of rt"
  "state_of (rt\<lparr> rt_shed_count := a8 \<rparr>) = state_of rt"
  "state_of (rt\<lparr> rt_next_subscription := a8 \<rparr>) = state_of rt"
  "state_of (rt\<lparr> rt_chans := a9 \<rparr>) = state_of rt"
  "state_of (rt\<lparr> rt_batch := a3 \<rparr>) = state_of rt"
  "state_of (rt\<lparr> rt_retrying := b1 \<rparr>) = state_of rt"
  "state_of (rt\<lparr> rt_confirmed := a3 \<rparr>) = state_of rt"
  by (rule state_of_cong; simp)+

lemma state_of_put_channel:
  "rt_shards rt \<noteq> [] \<Longrightarrow> state_of (put_channel rt ch st) ch' = (if ch' = ch then st else state_of rt ch')"
  by (simp add: state_of_def lookup_put_channel split: option.split)

lemma channel_entry_state:
  assumes "channel_entry rt ch = (st, rt')" "rt_shards rt \<noteq> []"
  shows "st = state_of rt ch" "state_of rt' = state_of rt"
  using channel_entry_spec [OF assms] by (auto simp: state_of_def fun_eq_iff split: option.split)

definition stamped :: "'s router \<Rightarrow> u64 \<Rightarrow> envelope \<Rightarrow> envelope" where
  "stamped rt now_ms e = e\<lparr> en_seq := Seq (ss_epoch (rt_seq rt)) (ss_counter (rt_seq rt)), en_occurred_at_ms := now_ms \<rparr>"

lemma stamped_simps [simp]:
  "en_event_id (stamped rt now_ms e) = en_event_id e"
  "en_channel (stamped rt now_ms e) = en_channel e"
  "en_delivery (stamped rt now_ms e) = en_delivery e"
  "en_headers (stamped rt now_ms e) = en_headers e"
  "en_seq (stamped rt now_ms e) = Seq (ss_epoch (rt_seq rt)) (ss_counter (rt_seq rt))"
  by (simp_all add: stamped_def)

lemma publish_forward_frame [simp]:
  "lookup_channel (publish_forward rt e origin) = lookup_channel rt"
  "rt_config (publish_forward rt e origin) = rt_config rt"
  "rt_seq (publish_forward rt e origin) = rt_seq rt"
  "rt_sink (publish_forward rt e origin) = rt_sink rt"
  "rt_write_behind (publish_forward rt e origin) = rt_write_behind rt"
  "rt_batch (publish_forward rt e origin) = rt_batch rt"
  "rt_confirmed (publish_forward rt e origin) = rt_confirmed rt"
  "rt_chans (publish_forward rt e origin) = rt_chans rt"
  "rt_next_subscription (publish_forward rt e origin) = rt_next_subscription rt"
  "rt_shards (publish_forward rt e origin) = rt_shards rt"
  by (simp_all add: publish_forward_def offer_to_forward_sink_def Let_def split: option.split)

lemma publish_reserve_frame:
  assumes "publish_reserve rt e = (r, rt')"
  shows "lookup_channel rt' = lookup_channel rt" "rt_config rt' = rt_config rt" "rt_seq rt' = rt_seq rt"
    "rt_sink rt' = rt_sink rt" "rt_write_behind rt' = rt_write_behind rt" "rt_batch rt' = rt_batch rt"
    "rt_confirmed rt' = rt_confirmed rt" "rt_chans rt' = rt_chans rt"
    "rt_next_subscription rt' = rt_next_subscription rt" "rt_shards rt' = rt_shards rt"
    "r = Inr permit \<Longrightarrow> permit = env_durable e"
  using assms by (auto simp: publish_reserve_def split: if_splits)

text \<open>What later reads of a router see.\<close>

lemma publish_spec:
  assumes pub: "publish_from d rt now_ms e origin = (Inr s, rt')" and shards: "rt_shards rt \<noteq> []"
  shows "rt_shards rt' \<noteq> []" "rt_config rt' = rt_config rt" "rt_sink rt' = rt_sink rt"
    "rt_seq rt' = (rt_seq rt)\<lparr> ss_counter := ss_counter (rt_seq rt) + 1 \<rparr>"
    "rt_write_behind rt' = rt_write_behind rt @ (if env_durable e then [stamped rt now_ms e] else [])"
    "rt_batch rt' = rt_batch rt" "rt_confirmed rt' = rt_confirmed rt"
    "rt_next_subscription rt' = rt_next_subscription rt"
    "rt_chans rt' = fan_out (rt_chans rt)
       (visit (cs_subscribers (state_of rt (en_channel e))) (en_headers e)) (stamped rt now_ms e)"
    "cs_subscribers (state_of rt' ch) = cs_subscribers (state_of rt ch)"
    "cs_ring (state_of rt' ch) =
      (if ch = en_channel e \<and> \<not> env_ephemeral e
       then ring_push (cs_ring (state_of rt ch)) (stamped rt now_ms e) else cs_ring (state_of rt ch))"
proof -
  obtain r rt1 where res: "publish_reserve rt e = (r, rt1)" by (cases "publish_reserve rt e")
  then obtain permit where permit: "r = Inr permit"
    using pub by (cases r) (auto simp: publish_from_def)
  note f = publish_reserve_frame [OF res]
  obtain e' rt2 where st: "publish_stamp rt1 e now_ms = (e', rt2)" by (cases "publish_stamp rt1 e now_ms")
  have e': "e' = stamped rt now_ms e" and rt2: "rt2 = rt1\<lparr> rt_seq := (rt_seq rt)\<lparr> ss_counter := ss_counter (rt_seq rt) + 1 \<rparr>,
      rt_recent := snd (recent_insert (rt_recent rt1) (en_event_id e)) \<rparr>"
    using st f by (auto simp: publish_stamp_def seq_next_def stamped_def Let_def)
  obtain cs rt3 where ce: "channel_entry rt2 (en_channel e) = (cs, rt3)" by (cases "channel_entry rt2 (en_channel e)")
  have shards2: "rt_shards rt2 \<noteq> []" using shards f by (simp add: rt2)
  note c = channel_entry_spec [OF ce shards2]
  have "state_of rt2 = state_of rt"
    using f by (intro state_of_cong) (simp_all add: rt2)
  then have cs: "cs = state_of rt (en_channel e)"
    using channel_entry_state [OF ce shards2] by simp
  note rt' = pub [unfolded publish_from_def res permit prod.case sum.case st Let_def publish_deliver_def
      e' stamped_simps ce publish_enqueue_def]
  show "rt_shards rt' \<noteq> []" "rt_config rt' = rt_config rt" "rt_sink rt' = rt_sink rt"
    "rt_seq rt' = (rt_seq rt)\<lparr> ss_counter := ss_counter (rt_seq rt) + 1 \<rparr>"
    "rt_write_behind rt' = rt_write_behind rt @ (if env_durable e then [stamped rt now_ms e] else [])"
    "rt_batch rt' = rt_batch rt" "rt_confirmed rt' = rt_confirmed rt"
    "rt_next_subscription rt' = rt_next_subscription rt"
    "rt_chans rt' = fan_out (rt_chans rt)
       (visit (cs_subscribers (state_of rt (en_channel e))) (en_headers e)) (stamped rt now_ms e)"
    using rt' c f permit by (auto simp: rt2 cs split: if_splits)
  have look: "lookup_channel rt' ch = (if ch = en_channel e
      then Some (if env_ephemeral e then cs\<lparr> cs_ephemeral := coalesce d (cs_ephemeral cs) (stamped rt now_ms e) (en_occurred_at_ms (stamped rt now_ms e)) \<rparr>
        else cs\<lparr> cs_ring := ring_push (cs_ring cs) (stamped rt now_ms e) \<rparr>)
      else lookup_channel rt ch)" for ch
    using rt' c f permit by (auto simp: rt2 lookup_put_channel)
  show "cs_subscribers (state_of rt' ch) = cs_subscribers (state_of rt ch)"
    "cs_ring (state_of rt' ch) =
      (if ch = en_channel e \<and> \<not> env_ephemeral e
       then ring_push (cs_ring (state_of rt ch)) (stamped rt now_ms e) else cs_ring (state_of rt ch))"
    using look [of ch] \<open>rt_config rt' = rt_config rt\<close> cs by (auto simp: state_of_def split: option.split)
qed

section \<open>Steps\<close>

record 's bus =
  bs_router :: "'s router"
  bs_events :: "room_id \<Rightarrow> envelope list"
  bs_subs :: "room_id \<Rightarrow> (u64 \<times> subscriber_handle) list"
  bs_since :: "u64 \<Rightarrow> nat"
  bs_taken :: "u64 \<Rightarrow> envelope list"

definition accept :: "'s bus \<Rightarrow> 's router \<Rightarrow> envelope \<Rightarrow> 's bus" where
  "accept b rt' e =
     b\<lparr> bs_router := rt', bs_events := (bs_events b)(en_channel e := bs_events b (en_channel e) @ [e]) \<rparr>"

text \<open>
  A new envelope: sorted headers (a \<open>BTreeMap\<close>), an id new to its channel, and a counter
  that does not wrap with this draw.
\<close>

definition admissible :: "'s bus \<Rightarrow> envelope \<Rightarrow> bool" where
  "admissible b e \<longleftrightarrow>
     bt_wf (en_headers e) \<and> en_event_id e \<notin> en_event_id ` set (bs_events b (en_channel e)) \<and>
     ss_counter (rt_seq (bs_router b)) < - 1"

inductive bus_step :: "bus_deps \<Rightarrow> 's sink_ops \<Rightarrow> 's bus \<Rightarrow> 's bus \<Rightarrow> bool" for d ops where
  bus_publish:
    "publish_from d (bs_router b) now_ms e origin = (Inr s, rt') \<Longrightarrow> admissible b e \<Longrightarrow>
     bus_step d ops b (accept b rt' (stamped (bs_router b) now_ms e))"
| bus_refuse:
    "publish_from d (bs_router b) now_ms e origin = (Inl err, rt') \<Longrightarrow>
     bus_step d ops b (b\<lparr> bs_router := rt' \<rparr>)"
| bus_if_new:
    "publish_if_new_from d ops (bs_router b) now_ms e origin = (Inr (Published s), rt') \<Longrightarrow>
     admissible b e \<Longrightarrow> bus_step d ops b (accept b rt' (stamped (bs_router b) now_ms e))"
| bus_if_new_not:
    "publish_if_new_from d ops (bs_router b) now_ms e origin = (r, rt') \<Longrightarrow>
     (\<And>s. r \<noteq> Inr (Published s)) \<Longrightarrow> bus_step d ops b (b\<lparr> bs_router := rt' \<rparr>)"
| bus_recv: "wb_recv (bs_router b) = Some rt' \<Longrightarrow> bus_step d ops b (b\<lparr> bs_router := rt' \<rparr>)"
| bus_try_recv: "wb_try_recv (bs_router b) = Some rt' \<Longrightarrow> bus_step d ops b (b\<lparr> bs_router := rt' \<rparr>)"
| bus_append: "wb_append ops (bs_router b) = Some rt' \<Longrightarrow> bus_step d ops b (b\<lparr> bs_router := rt' \<rparr>)"
| bus_unpin: "wb_unpin (bs_router b) = Some rt' \<Longrightarrow> bus_step d ops b (b\<lparr> bs_router := rt' \<rparr>)"
| bus_subscribe:
    "subscribe_mode (bs_router b) f from_cursor live_only = (st, rt') \<Longrightarrow>
     rt_next_subscription (bs_router b) < - 1 \<Longrightarrow>
     bus_step d ops b (b\<lparr> bs_router := rt',
       bs_subs := (bs_subs b)(bf_channel f := bs_subs b (bf_channel f) @
         [(st_sid st, \<lparr> sh_tx = st_sid st, sh_filter = f \<rparr>)]),
       bs_since := (bs_since b)(st_sid st := length (bs_events b (bf_channel f))),
       bs_taken := (bs_taken b)(st_sid st := []) \<rparr>)"
| bus_drop:
    "(sid, h) \<in> set (bs_subs b ch) \<Longrightarrow> drop_subscription (bs_router b) sid (sh_filter h) = rt' \<Longrightarrow>
     bus_step d ops b (b\<lparr> bs_router := rt',
       bs_subs := (bs_subs b)(ch := filter (\<lambda>r. fst r \<noteq> sid) (bs_subs b ch)) \<rparr>)"
| bus_take:
    "sub_recv (bs_router b) sid = Some (e, rt') \<Longrightarrow>
     bus_step d ops b (b\<lparr> bs_router := rt', bs_taken := (bs_taken b)(sid := bs_taken b sid @ [e]) \<rparr>)"
| bus_forward:
    "forward_resolve (bs_router b) item = (r, rt') \<Longrightarrow> bus_step d ops b (b\<lparr> bs_router := rt' \<rparr>)"
| bus_forward_sink: "bus_step d ops b (b\<lparr> bs_router := set_forward_sink (bs_router b) n \<rparr>)"

text \<open>A start: an empty router on a sink whose rows precede every number it will draw.\<close>

definition bus_start ::
  "('s \<Rightarrow> room_id \<Rightarrow> envelope list) \<Rightarrow> router_config \<Rightarrow> seq_source \<Rightarrow> 's \<Rightarrow> 's bus" where
  "bus_start rows cfg src sink =
     \<lparr> bs_router = router_new cfg src sink, bs_events = rows sink, bs_subs = (\<lambda>_. []),
       bs_since = (\<lambda>_. 0), bs_taken = (\<lambda>_. []) \<rparr>"

definition start_ok :: "('s \<Rightarrow> room_id \<Rightarrow> envelope list) \<Rightarrow> seq_source \<Rightarrow> 's \<Rightarrow> bool" where
  "start_ok rows src sink \<longleftrightarrow>
     (\<forall>ch. distinct (map en_event_id (rows sink ch)) \<and>
        (\<forall>e \<in> set (rows sink ch). env_durable e \<and> en_channel e = ch \<and>
           en_seq e < Seq (ss_epoch src) (ss_counter src)))"

definition bus_reaches :: "bus_deps \<Rightarrow> 's sink_ops \<Rightarrow> 's bus \<Rightarrow> 's bus \<Rightarrow> bool" where
  "bus_reaches d ops = (bus_step d ops)\<^sup>*\<^sup>*"

section \<open>The store invariant\<close>

definition bus_log :: "'s bus \<Rightarrow> room_id \<Rightarrow> envelope list" where
  "bus_log b ch = filter (\<lambda>e. \<not> env_ephemeral e) (bs_events b ch)"

abbreviation on_channel :: "room_id \<Rightarrow> envelope list \<Rightarrow> envelope list" where
  "on_channel ch \<equiv> filter (\<lambda>e. en_channel e = ch)"

definition events_ok :: "'s bus \<Rightarrow> bool" where
  "events_ok b \<longleftrightarrow>
     (\<forall>ch. sorted_wrt (<) (map env_cursor (bs_events b ch)) \<and> distinct (map en_event_id (bs_events b ch)) \<and>
        (\<forall>e \<in> set (bs_events b ch). en_channel e = ch \<and>
           en_seq e < Seq (ss_epoch (rt_seq (bs_router b))) (ss_counter (rt_seq (bs_router b)))))"

text \<open>
  Every accepted durable is, in order, in the sink, in the part of the retained batch the
  sink does not hold yet, or in the queue; what the task unpins is in the sink.
\<close>

definition pending_ok :: "('s \<Rightarrow> room_id \<Rightarrow> envelope list) \<Rightarrow> 's bus \<Rightarrow> bool" where
  "pending_ok rows b \<longleftrightarrow>
     (\<exists>pre post. rt_batch (bs_router b) = pre @ post \<and>
        (\<forall>e \<in> set pre. e \<in> set (rows (rt_sink (bs_router b)) (en_channel e))) \<and>
        (\<forall>ch. filter env_durable (bs_events b ch) =
           rows (rt_sink (bs_router b)) ch @ on_channel ch (post @ rt_write_behind (bs_router b)))) \<and>
     (\<forall>e \<in> set (rt_confirmed (bs_router b)). e \<in> set (rows (rt_sink (bs_router b)) (en_channel e)))"

definition rings_ok :: "('s \<Rightarrow> room_id \<Rightarrow> envelope list) \<Rightarrow> 's bus \<Rightarrow> bool" where
  "rings_ok rows b \<longleftrightarrow>
     (\<forall>ch. ring_ok (bus_log b ch) (en_event_id ` set (rows (rt_sink (bs_router b)) ch))
        (cs_ring (state_of (bs_router b) ch)))"

definition store_inv :: "('s \<Rightarrow> room_id \<Rightarrow> envelope list) \<Rightarrow> ('s \<Rightarrow> bool) \<Rightarrow> 's bus \<Rightarrow> bool" where
  "store_inv rows ok b \<longleftrightarrow>
     rt_shards (bs_router b) \<noteq> [] \<and> ok (rt_sink (bs_router b)) \<and>
     events_ok b \<and> pending_ok rows b \<and> rings_ok rows b"

lemma pending_okI:
  assumes "rt_batch (bs_router b) = pre @ post"
    and "\<forall>e \<in> set pre. e \<in> set (rows (rt_sink (bs_router b)) (en_channel e))"
    and "\<And>ch. filter env_durable (bs_events b ch) =
      rows (rt_sink (bs_router b)) ch @ on_channel ch (post @ rt_write_behind (bs_router b))"
    and "\<forall>e \<in> set (rt_confirmed (bs_router b)). e \<in> set (rows (rt_sink (bs_router b)) (en_channel e))"
  shows "pending_ok rows b"
  unfolding pending_ok_def using assms by blast

lemma pending_okE:
  assumes "pending_ok rows b"
  obtains pre post where "rt_batch (bs_router b) = pre @ post"
    "\<forall>e \<in> set pre. e \<in> set (rows (rt_sink (bs_router b)) (en_channel e))"
    "\<And>ch. filter env_durable (bs_events b ch) =
      rows (rt_sink (bs_router b)) ch @ on_channel ch (post @ rt_write_behind (bs_router b))"
    "\<forall>e \<in> set (rt_confirmed (bs_router b)). e \<in> set (rows (rt_sink (bs_router b)) (en_channel e))"
  using assms unfolding pending_ok_def by blast

text \<open>A step that leaves the store alone: only these parts of the router matter to it.\<close>

lemma store_inv_frame:
  assumes "store_inv rows ok b" "bs_events b' = bs_events b"
    and "rt_shards (bs_router b') \<noteq> []" "rt_sink (bs_router b') = rt_sink (bs_router b)"
    and "rt_seq (bs_router b') = rt_seq (bs_router b)"
    and "rt_write_behind (bs_router b') = rt_write_behind (bs_router b)"
    and "rt_batch (bs_router b') = rt_batch (bs_router b)"
    and "rt_confirmed (bs_router b') = rt_confirmed (bs_router b)"
    and "\<And>ch. cs_ring (state_of (bs_router b') ch) = cs_ring (state_of (bs_router b) ch)"
  shows "store_inv rows ok b'"
  using assms by (simp add: store_inv_def events_ok_def pending_ok_def rings_ok_def bus_log_def)

lemma ring_ok_mono: "ring_ok log persisted r \<Longrightarrow> persisted \<subseteq> persisted' \<Longrightarrow> ring_ok log persisted' r"
  unfolding ring_ok_def ring_covers_def by (auto simp: list_all_iff intro: slot_ok_mono) blast

text \<open>A publish.\<close>

lemma store_inv_accept:
  assumes inv: "store_inv rows ok b" and pub: "publish_from d (bs_router b) now_ms e origin = (Inr s, rt')"
    and adm: "admissible b e"
  shows "store_inv rows ok (accept b rt' (stamped (bs_router b) now_ms e))"
proof -
  let ?rt = "bs_router b" and ?e = "stamped (bs_router b) now_ms e"
  let ?b' = "accept b rt' ?e"
  have sh: "rt_shards ?rt \<noteq> []" and ev: "events_ok b" and pe: "pending_ok rows b" and ri: "rings_ok rows b"
    using inv by (auto simp: store_inv_def)
  note spec = publish_spec [OF pub sh]
  have evs: "bs_events ?b' ch = bs_events b ch @ (if ch = en_channel e then [?e] else [])" for ch
    by (simp add: accept_def)
  have rt: "bs_router ?b' = rt'" by (simp add: accept_def)
  have step: "Seq (ss_epoch (rt_seq ?rt)) (ss_counter (rt_seq ?rt)) <
      Seq (ss_epoch (rt_seq rt')) (ss_counter (rt_seq rt'))"
    using adm by (simp add: spec seq_less_iff admissible_def word_less_nat_alt word_suc_less)
  have "events_ok ?b'"
    unfolding events_ok_def rt
  proof (intro allI conjI ballI)
    fix ch
    have old: "\<forall>x \<in> set (bs_events b ch). en_channel x = ch \<and> en_seq x < en_seq ?e"
      using ev by (simp add: events_ok_def)
    then have "\<forall>x \<in> set (bs_events b ch). env_cursor x < env_cursor ?e"
      by (simp add: env_cursor_def cursor_less_iff)
    then show "sorted_wrt (<) (map env_cursor (bs_events ?b' ch))"
      using ev by (simp add: evs events_ok_def sorted_wrt_append)
    show "distinct (map en_event_id (bs_events ?b' ch))"
      using ev adm by (simp add: evs events_ok_def admissible_def)
    fix x assume "x \<in> set (bs_events ?b' ch)"
    then show "en_channel x = ch"
      "en_seq x < Seq (ss_epoch (rt_seq rt')) (ss_counter (rt_seq rt'))"
      using old step by (auto simp: evs split: if_splits intro: less_trans)
  qed
  moreover have "pending_ok rows ?b'"
    using pe
  proof (rule pending_okE)
    fix pre post
    assume "rt_batch ?rt = pre @ post"
      "\<forall>e \<in> set pre. e \<in> set (rows (rt_sink ?rt) (en_channel e))"
      "\<And>ch. filter env_durable (bs_events b ch) =
         rows (rt_sink ?rt) ch @ on_channel ch (post @ rt_write_behind ?rt)"
      "\<forall>e \<in> set (rt_confirmed ?rt). e \<in> set (rows (rt_sink ?rt) (en_channel e))"
    then show ?thesis
      by (intro pending_okI [of _ pre post]) (simp_all add: rt spec evs)
  qed
  moreover have "rings_ok rows ?b'"
    unfolding rings_ok_def rt
  proof
    fix ch
    have "ring_ok (bus_log b ch) (en_event_id ` set (rows (rt_sink ?rt) ch)) (cs_ring (state_of ?rt ch))"
      using ri by (simp add: rings_ok_def)
    then show "ring_ok (bus_log ?b' ch) (en_event_id ` set (rows (rt_sink rt') ch)) (cs_ring (state_of rt' ch))"
      using ring_ok_push by (auto simp: bus_log_def evs spec)
  qed
  ultimately show ?thesis
    using inv by (simp add: store_inv_def rt spec)
qed

text \<open>The write-behind task.\<close>

lemma store_inv_queue_step:
  assumes "store_inv rows ok b" "wb_recv (bs_router b) = Some rt' \<or> wb_try_recv (bs_router b) = Some rt'"
  shows "store_inv rows ok (b\<lparr> bs_router := rt' \<rparr>)"
proof -
  let ?rt = "bs_router b"
  obtain item rest where q: "rt_write_behind ?rt = item # rest"
    and rt': "rt' = ?rt\<lparr> rt_batch := rt_batch ?rt @ [item], rt_write_behind := rest \<rparr>"
    using assms(2) by (auto simp: wb_recv_def wb_try_recv_def split: list.splits if_splits)
  have st: "state_of rt' ch = state_of ?rt ch" for ch
    by (simp add: rt')
  have "pending_ok rows b"
    using assms(1) by (simp add: store_inv_def)
  then have "pending_ok rows (b\<lparr> bs_router := rt' \<rparr>)"
  proof (rule pending_okE)
    fix pre post
    assume "rt_batch ?rt = pre @ post"
      "\<forall>e \<in> set pre. e \<in> set (rows (rt_sink ?rt) (en_channel e))"
      "\<And>ch. filter env_durable (bs_events b ch) =
         rows (rt_sink ?rt) ch @ on_channel ch (post @ rt_write_behind ?rt)"
      "\<forall>e \<in> set (rt_confirmed ?rt). e \<in> set (rows (rt_sink ?rt) (en_channel e))"
    then show ?thesis
      by (intro pending_okI [of _ pre "post @ [item]"]) (simp_all add: rt' q)
  qed
  then show ?thesis
    using assms(1) by (simp add: store_inv_def events_ok_def rings_ok_def bus_log_def st) (simp add: rt')
qed

lemma store_inv_unpin:
  assumes "store_inv rows ok b" "wb_unpin (bs_router b) = Some rt'"
  shows "store_inv rows ok (b\<lparr> bs_router := rt' \<rparr>)"
proof -
  let ?rt = "bs_router b"
  obtain item rest where c: "rt_confirmed ?rt = item # rest"
    and rt': "rt' = (case lookup_channel ?rt (en_channel item) of
      Some st \<Rightarrow> put_channel (?rt\<lparr> rt_confirmed := rest \<rparr>) (en_channel item)
        (st\<lparr> cs_ring := mark_persisted (cs_ring st) (en_event_id item) \<rparr>)
    | None \<Rightarrow> ?rt\<lparr> rt_confirmed := rest \<rparr>)"
    using assms(2) by (auto simp: wb_unpin_def Let_def split: list.splits)
  have sh: "rt_shards (?rt\<lparr> rt_confirmed := rest \<rparr>) \<noteq> []"
    using assms(1) by (simp add: store_inv_def)
  have fields: "rt_shards rt' \<noteq> []" "rt_sink rt' = rt_sink ?rt" "rt_seq rt' = rt_seq ?rt"
    "rt_write_behind rt' = rt_write_behind ?rt" "rt_batch rt' = rt_batch ?rt" "rt_confirmed rt' = rest"
    using sh by (auto simp: rt' split: option.split)
  have ring: "cs_ring (state_of rt' ch) =
      (if ch = en_channel item \<and> lookup_channel ?rt ch \<noteq> None
       then mark_persisted (cs_ring (state_of ?rt ch)) (en_event_id item) else cs_ring (state_of ?rt ch))" for ch
  proof (cases "lookup_channel ?rt (en_channel item)")
    case None
    then show ?thesis by (auto simp: rt')
  next
    case (Some st)
    then have "state_of ?rt (en_channel item) = st" by (simp add: state_of_def)
    with Some show ?thesis using sh by (auto simp: rt' state_of_put_channel)
  qed
  have "item \<in> set (rows (rt_sink ?rt) (en_channel item))"
    using assms(1) c by (simp add: store_inv_def pending_ok_def)
  then have ins: "insert (en_event_id item) (en_event_id ` set (rows (rt_sink ?rt) (en_channel item))) =
      en_event_id ` set (rows (rt_sink ?rt) (en_channel item))" by auto
  have "rings_ok rows (b\<lparr> bs_router := rt' \<rparr>)"
    unfolding rings_ok_def
  proof
    fix ch
    let ?p = "en_event_id ` set (rows (rt_sink ?rt) ch)"
    have ok: "ring_ok (bus_log b ch) ?p (cs_ring (state_of ?rt ch))"
      using assms(1) by (simp add: store_inv_def rings_ok_def)
    have "ring_ok (bus_log b ch) ?p (cs_ring (state_of rt' ch))"
      using ok ring_ok_mark [OF ok, of "en_event_id item"] ins by (auto simp: ring)
    then show "ring_ok (bus_log (b\<lparr> bs_router := rt' \<rparr>) ch)
        (en_event_id ` set (rows (rt_sink (bs_router (b\<lparr> bs_router := rt' \<rparr>))) ch))
        (cs_ring (state_of (bs_router (b\<lparr> bs_router := rt' \<rparr>)) ch))"
      by (simp add: bus_log_def fields)
  qed
  then show ?thesis
    using assms(1) c by (auto simp: store_inv_def events_ok_def pending_ok_def fields)
qed

text \<open>Steps that touch only counters, the recent-id window or the forward path.\<close>

definition same_core :: "'s router \<Rightarrow> 's router \<Rightarrow> bool" where
  "same_core rt rt' \<longleftrightarrow>
     rt_shards rt' = rt_shards rt \<and> rt_config rt' = rt_config rt \<and> rt_seq rt' = rt_seq rt \<and>
     rt_sink rt' = rt_sink rt \<and> rt_write_behind rt' = rt_write_behind rt \<and> rt_batch rt' = rt_batch rt \<and>
     rt_confirmed rt' = rt_confirmed rt \<and> rt_chans rt' = rt_chans rt \<and>
     rt_next_subscription rt' = rt_next_subscription rt"

lemma same_core_state: "same_core rt rt' \<Longrightarrow> state_of rt' = state_of rt"
  by (intro state_of_cong lookup_channel_cong) (simp_all add: same_core_def)

lemma same_core_stamped: "same_core rt rt' \<Longrightarrow> stamped rt' = stamped rt"
  by (simp add: same_core_def stamped_def fun_eq_iff)

lemma same_core_trans: "same_core a b \<Longrightarrow> same_core b c \<Longrightarrow> same_core a c"
  by (simp add: same_core_def)

lemma same_core_refl [simp]: "same_core a a"
  by (simp add: same_core_def)

lemma store_inv_same_core:
  assumes "store_inv rows ok b" "same_core (bs_router b) rt'"
  shows "store_inv rows ok (b\<lparr> bs_router := rt' \<rparr>)"
  using assms(1)
proof (rule store_inv_frame)
  show "rt_shards (bs_router (b\<lparr> bs_router := rt' \<rparr>)) \<noteq> []"
    using assms by (simp add: same_core_def store_inv_def)
qed (use assms(2) in \<open>simp_all add: same_core_state\<close>, simp_all add: same_core_def)

lemma publish_refused_core:
  "publish_from d rt now_ms e origin = (Inl err, rt') \<Longrightarrow> same_core rt rt'"
  by (auto simp: publish_from_def publish_reserve_def same_core_def Let_def split: if_splits prod.splits)

text \<open>An idempotent publish marks the id, then publishes; on every other outcome it stays out.\<close>

lemma if_new_published:
  assumes "publish_if_new_from d ops rt now_ms e origin = (Inr (Published s), rt')"
  obtains rt0 where "same_core rt rt0" "publish_from d rt0 now_ms e origin = (Inr s, rt')"
    "so_contains ops (rt_sink rt) (en_event_id e) = Inr False" "en_event_id e \<notin> ri_seen (rt_recent rt)"
proof
  let ?rt0 = "rt\<lparr> rt_recent := snd (recent_insert (rt_recent rt) (en_event_id e)) \<rparr>"
  show "same_core rt ?rt0" by (simp add: same_core_def)
  show "publish_from d ?rt0 now_ms e origin = (Inr s, rt')"
    "so_contains ops (rt_sink rt) (en_event_id e) = Inr False" "en_event_id e \<notin> ri_seen (rt_recent rt)"
    using assms
    by (auto simp: publish_if_new_from_def recent_insert_def Let_def
        split: if_splits sum.splits bool.splits prod.splits)
qed

lemma if_new_not_core:
  assumes "publish_if_new_from d ops rt now_ms e origin = (r, rt')" "\<And>s. r \<noteq> Inr (Published s)"
  shows "same_core rt rt'"
proof -
  have unmark: "same_core rt (unmark rt1 i)" if "same_core rt rt1" for rt1 i
    using that by (simp add: same_core_def unmark_def)
  have mark: "same_core rt (rt\<lparr> rt_recent := x \<rparr>)" for x
    by (simp add: same_core_def)
  have refused: "same_core rt rt1"
    if "publish_from d (rt\<lparr> rt_recent := x \<rparr>) now_ms e origin = (Inl err, rt1)" for x err rt1
    using same_core_trans [OF mark publish_refused_core [OF that]] .
  show ?thesis
    using assms unmark mark refused
    by (auto simp: publish_if_new_from_def Let_def
        split: sum.splits bool.splits prod.splits)
qed

lemma forward_core:
  "forward_resolve rt item = (r, rt') \<Longrightarrow> same_core rt rt'"
  "same_core rt (set_forward_sink rt n)"
  by (auto simp: forward_resolve_def set_forward_sink_def same_core_def split: option.splits)

text \<open>Registrations leave every ring as it is.\<close>

lemma subscribe_spec:
  assumes sub: "subscribe_mode rt f from_cursor live_only = (st, rt')" and sh: "rt_shards rt \<noteq> []"
  shows "st_sid st = rt_next_subscription rt" "st_filter st = f" "st_from_cursor st = from_cursor"
    "st_live_only st = live_only"
    "st_ring_snapshot st = (if live_only then [] else replay_after (cs_ring (state_of rt (bf_channel f))) from_cursor)"
    "st_ring_oldest st = oldest_cursor (cs_ring (state_of rt (bf_channel f)))"
    "rt_shards rt' \<noteq> []" "rt_sink rt' = rt_sink rt" "rt_seq rt' = rt_seq rt"
    "rt_write_behind rt' = rt_write_behind rt" "rt_batch rt' = rt_batch rt" "rt_confirmed rt' = rt_confirmed rt"
    "rt_next_subscription rt' = rt_next_subscription rt + 1"
    "cs_ring (state_of rt' ch) = cs_ring (state_of rt ch)"
    "cs_subscribers (state_of rt' ch) =
      (if ch = bf_channel f
       then index_insert (cs_subscribers (state_of rt ch)) (st_sid st) (bf_headers f)
         \<lparr> sh_tx = st_sid st, sh_filter = f \<rparr>
       else cs_subscribers (state_of rt ch))"
    "rt_chans rt' = bt_insert (st_sid st)
       \<lparr> sc_queue = [], sc_capacity = max (rg_subscriber_buffer (rt_config rt)) 1,
         sc_closed = False, sc_lagged = False \<rparr> (rt_chans rt)"
proof -
  let ?rt = "rt\<lparr> rt_next_subscription := rt_next_subscription rt + 1 \<rparr>"
  obtain cs rt1 where ce: "channel_entry ?rt (bf_channel f) = (cs, rt1)"
    by (cases "channel_entry ?rt (bf_channel f)")
  have sh0: "rt_shards ?rt \<noteq> []" using sh by simp
  note c = channel_entry_spec [OF ce sh0] and s = channel_entry_state [OF ce sh0]
  note u = sub [unfolded subscribe_mode_def Let_def ce prod.case]
  show "st_sid st = rt_next_subscription rt" "st_filter st = f" "st_from_cursor st = from_cursor"
    "st_live_only st = live_only"
    "st_ring_snapshot st = (if live_only then [] else replay_after (cs_ring (state_of rt (bf_channel f))) from_cursor)"
    "st_ring_oldest st = oldest_cursor (cs_ring (state_of rt (bf_channel f)))"
    "rt_shards rt' \<noteq> []" "rt_sink rt' = rt_sink rt" "rt_seq rt' = rt_seq rt"
    "rt_write_behind rt' = rt_write_behind rt" "rt_batch rt' = rt_batch rt" "rt_confirmed rt' = rt_confirmed rt"
    "rt_next_subscription rt' = rt_next_subscription rt + 1"
    "cs_ring (state_of rt' ch) = cs_ring (state_of rt ch)"
    "cs_subscribers (state_of rt' ch) =
      (if ch = bf_channel f
       then index_insert (cs_subscribers (state_of rt ch)) (st_sid st) (bf_headers f)
         \<lparr> sh_tx = st_sid st, sh_filter = f \<rparr>
       else cs_subscribers (state_of rt ch))"
    "rt_chans rt' = bt_insert (st_sid st)
       \<lparr> sc_queue = [], sc_capacity = max (rg_subscriber_buffer (rt_config rt)) 1,
         sc_closed = False, sc_lagged = False \<rparr> (rt_chans rt)"
    using u c s by (auto simp: state_of_put_channel)
qed

end
