(* ===== verification/Bus_Reach.thy ===== *)
theory Bus_Reach
  imports Bus_Router_Inv
begin

text \<open>
  The invariants of every state the router reaches: the store invariant of the previous
  theory, and the delivery invariant of live subscribers. The proofs rely on the sink only
  through the contract \<open>durable_sink\<close>, and end in an interpretation on the in-memory sink.
\<close>

section \<open>Subscribers\<close>

text \<open>
  A live registration has an open channel of its own; as long as it is not marked lagged,
  what its stream took together with what is queued is exactly the matching part of what the
  channel accepted since the registration.
\<close>

definition live_ok :: "'s bus \<Rightarrow> room_id \<Rightarrow> u64 \<Rightarrow> subscriber_handle \<Rightarrow> bool" where
  "live_ok b ch sid h \<longleftrightarrow>
     bs_since b sid \<le> length (bs_events b ch) \<and>
     (\<exists>c. map_of (rt_chans (bs_router b)) sid = Some c \<and> \<not> sc_closed c \<and>
        (\<not> sc_lagged c \<longrightarrow>
           bs_taken b sid @ sc_queue c =
           filter (bus_filter_matches (sh_filter h)) (drop (bs_since b sid) (bs_events b ch))))"

definition subs_ok :: "'s bus \<Rightarrow> bool" where
  "subs_ok b \<longleftrightarrow>
     rt_shards (bs_router b) \<noteq> [] \<and>
     (\<forall>ch. registry_rep handle_hf (bs_subs b ch) (cs_subscribers (state_of (bs_router b) ch)) \<and>
        regs_ok ch (bs_subs b ch)) \<and>
     (\<forall>ch sid h. (sid, h) \<in> set (bs_subs b ch) \<longrightarrow>
        sid < rt_next_subscription (bs_router b) \<and> live_ok b ch sid h) \<and>
     (\<forall>ch ch' sid h h'. (sid, h) \<in> set (bs_subs b ch) \<longrightarrow> (sid, h') \<in> set (bs_subs b ch') \<longrightarrow> ch = ch')"

lemma subs_okD:
  assumes "subs_ok b"
  shows "registry_rep handle_hf (bs_subs b ch) (cs_subscribers (state_of (bs_router b) ch))"
    "regs_ok ch (bs_subs b ch)"
    "(sid, h) \<in> set (bs_subs b ch) \<Longrightarrow> sid < rt_next_subscription (bs_router b)"
    "(sid, h) \<in> set (bs_subs b ch) \<Longrightarrow> live_ok b ch sid h"
    "(sid, h) \<in> set (bs_subs b ch) \<Longrightarrow> (sid, h') \<in> set (bs_subs b ch') \<Longrightarrow> ch = ch'"
    "rt_shards (bs_router b) \<noteq> []"
  using assms unfolding subs_ok_def by blast+

lemma subs_ok_frame:
  assumes "subs_ok b" "bs_events b' = bs_events b" "bs_subs b' = bs_subs b" "bs_since b' = bs_since b"
    "bs_taken b' = bs_taken b" "rt_shards (bs_router b') \<noteq> []"
    "rt_chans (bs_router b') = rt_chans (bs_router b)"
    "rt_next_subscription (bs_router b') = rt_next_subscription (bs_router b)"
    "\<And>ch. cs_subscribers (state_of (bs_router b') ch) = cs_subscribers (state_of (bs_router b) ch)"
  shows "subs_ok b'"
  using assms by (simp add: subs_ok_def live_ok_def)

lemma subs_ok_same_core:
  assumes "subs_ok b" "same_core (bs_router b) rt'"
  shows "subs_ok (b\<lparr> bs_router := rt' \<rparr>)"
  using assms(1)
proof (rule subs_ok_frame)
  show "rt_shards (bs_router (b\<lparr> bs_router := rt' \<rparr>)) \<noteq> []"
    using assms subs_okD(6) [OF assms(1)] by (simp add: same_core_def)
qed (use assms(2) in \<open>simp_all add: same_core_state\<close>, simp_all add: same_core_def)

lemma live_ok_sent:
  assumes "live_ok b ch sid h" "rt_chans rt' = chans"
    and "map_of chans sid = (if bus_filter_matches (sh_filter h) e
      then map_option (sent e) (map_of (rt_chans (bs_router b)) sid) else map_of (rt_chans (bs_router b)) sid)"
    and "en_channel e = ch"
  shows "live_ok (accept b rt' e) ch sid h"
  using assms by (auto simp: live_ok_def accept_def sent_def split: if_splits)

lemma subs_ok_accept:
  assumes inv: "subs_ok b" and pub: "publish_from d (bs_router b) now_ms e origin = (Inr s, rt')"
    and adm: "admissible b e"
  shows "subs_ok (accept b rt' (stamped (bs_router b) now_ms e))"
proof -
  let ?rt = "bs_router b" and ?e = "stamped (bs_router b) now_ms e"
  let ?b' = "accept b rt' ?e"
  note I = subs_okD [OF inv]
  note spec = publish_spec [OF pub I(6)]
  have rt: "bs_router ?b' = rt'" "bs_subs ?b' = bs_subs b" by (simp_all add: accept_def)
  have chans: "map_of (rt_chans rt') t =
      (if \<exists>h. (t, h) \<in> set (bs_subs b (en_channel e)) \<and> bus_filter_matches (sh_filter h) ?e
       then map_option (sent ?e) (map_of (rt_chans ?rt) t) else map_of (rt_chans ?rt) t)" for t
    using fan_out_registry [OF I(1) I(2), of ?e] adm by (simp add: spec admissible_def)
  have "live_ok ?b' ch sid h" if m: "(sid, h) \<in> set (bs_subs b ch)" for ch sid h
  proof (cases "ch = en_channel e")
    case True
    have "distinct (map fst (bs_subs b ch))"
      using I(1) [of ch] by (simp add: registry_rep_def)
    then have "(\<exists>h'. (sid, h') \<in> set (bs_subs b ch) \<and> P h') \<longleftrightarrow> P h" for P
      using m eq_key_imp_eq_value by metis
    then have "map_of (rt_chans rt') sid = (if bus_filter_matches (sh_filter h) ?e
        then map_option (sent ?e) (map_of (rt_chans ?rt) sid) else map_of (rt_chans ?rt) sid)"
      using chans [of sid] True by simp
    then show ?thesis
      using live_ok_sent [OF I(4) [OF m] refl] True by simp
  next
    case False
    then have "map_of (rt_chans rt') sid = map_of (rt_chans ?rt) sid"
      using chans [of sid] I(5) [OF m] by auto
    then show ?thesis
      using I(4) [OF m] False by (simp add: live_ok_def accept_def)
  qed
  then show ?thesis
    using I spec unfolding subs_ok_def rt by simp
qed

lemma live_ok_other:
  assumes "live_ok b ch sid h" "bs_events b' = bs_events b" "bs_since b' sid = bs_since b sid"
    "bs_taken b' sid = bs_taken b sid"
    "map_of (rt_chans (bs_router b')) sid = map_of (rt_chans (bs_router b)) sid"
  shows "live_ok b' ch sid h"
  using assms by (simp add: live_ok_def)

lemma word_less_suc: "a < b \<Longrightarrow> b < - 1 \<Longrightarrow> a < b + 1" for a b :: u64
  by (simp add: word_less_nat_alt word_suc_less)

lemma subs_ok_subscribe:
  assumes inv: "subs_ok b" and sub: "subscribe_mode (bs_router b) f from_cursor live_only = (st, rt')"
    and room: "rt_next_subscription (bs_router b) < - 1"
  shows "subs_ok (b\<lparr> bs_router := rt',
       bs_subs := (bs_subs b)(bf_channel f := bs_subs b (bf_channel f) @
         [(st_sid st, \<lparr> sh_tx = st_sid st, sh_filter = f \<rparr>)]),
       bs_since := (bs_since b)(st_sid st := length (bs_events b (bf_channel f))),
       bs_taken := (bs_taken b)(st_sid st := []) \<rparr>)" (is "subs_ok ?b'")
proof -
  note I = subs_okD [OF inv]
  note spec = subscribe_spec [OF sub I(6)]
  let ?h = "\<lparr> sh_tx = st_sid st, sh_filter = f \<rparr>"
  have fresh: "sid \<noteq> st_sid st" if "(sid, h) \<in> set (bs_subs b ch)" for sid h ch
    using I(3) [OF that] spec(1) by auto
  then have "st_sid st \<notin> fst ` set (bs_subs b (bf_channel f))" by fastforce
  then have rep: "registry_rep handle_hf (bs_subs ?b' ch) (cs_subscribers (state_of rt' ch))" for ch
    using I(1) [of ch] sub_registry.rep_register [OF I(1), of "st_sid st" _ ?h]
    by (simp add: spec(15))
  have regs: "regs_ok ch (bs_subs ?b' ch)" for ch
    using I(2) [of ch] by (auto simp: regs_ok_def)
  have old: "live_ok ?b' ch sid h" if "(sid, h) \<in> set (bs_subs b ch)" for ch sid h
    using I(4) [OF that] by (rule live_ok_other) (use fresh [OF that] in \<open>simp_all add: spec(16)\<close>)
  have new: "live_ok ?b' (bf_channel f) (st_sid st) ?h"
    by (simp add: live_ok_def spec(16))
  have lt: "sid < rt_next_subscription rt'" if "(sid, h) \<in> set (bs_subs b ch) \<or> sid = st_sid st" for sid h ch
    using that I(3) [of sid h ch] room word_less_suc
    by (auto simp: spec(1,13) word_less_nat_alt word_suc_less)
  show ?thesis
    unfolding subs_ok_def
  proof (intro conjI allI impI)
    show "registry_rep handle_hf (bs_subs ?b' ch) (cs_subscribers (state_of (bs_router ?b') ch))" for ch
      using rep by simp
    show "regs_ok ch (bs_subs ?b' ch)" for ch by (rule regs)
    show "rt_shards (bs_router ?b') \<noteq> []" using spec(7) by simp
    show "sid < rt_next_subscription (bs_router ?b')" "live_ok ?b' ch sid h"
      if "(sid, h) \<in> set (bs_subs ?b' ch)" for sid h ch
      using that lt [of sid h ch] old [of sid h ch] new by (auto split: if_splits)
    show "ch = ch'" if "(sid, h) \<in> set (bs_subs ?b' ch)" "(sid, h') \<in> set (bs_subs ?b' ch')" for sid h h' ch ch'
      using that I(5) [of sid h ch h' ch'] fresh by (auto split: if_splits)
  qed
qed

text \<open>A drop of a live registration.\<close>

lemma drop_spec:
  assumes "lookup_channel rt (bf_channel f) = Some st" "rt_shards rt \<noteq> []"
    and rt': "drop_subscription rt sid f = rt'"
  shows "rt_shards rt' \<noteq> []" "rt_sink rt' = rt_sink rt" "rt_seq rt' = rt_seq rt"
    "rt_write_behind rt' = rt_write_behind rt" "rt_batch rt' = rt_batch rt" "rt_confirmed rt' = rt_confirmed rt"
    "rt_next_subscription rt' = rt_next_subscription rt"
    "t \<noteq> sid \<Longrightarrow> map_of (rt_chans rt') t = map_of (rt_chans rt) t"
    "cs_ring (state_of rt' ch) = cs_ring (state_of rt ch)"
    "cs_subscribers (state_of rt' ch) =
      (if ch = bf_channel f then index_remove (cs_subscribers (state_of rt ch)) sid (bf_headers f)
       else cs_subscribers (state_of rt ch))"
proof -
  have st: "state_of rt (bf_channel f) = st" using assms(1) by (simp add: state_of_def)
  show "rt_shards rt' \<noteq> []" "rt_sink rt' = rt_sink rt" "rt_seq rt' = rt_seq rt"
    "rt_write_behind rt' = rt_write_behind rt" "rt_batch rt' = rt_batch rt" "rt_confirmed rt' = rt_confirmed rt"
    "rt_next_subscription rt' = rt_next_subscription rt"
    "t \<noteq> sid \<Longrightarrow> map_of (rt_chans rt') t = map_of (rt_chans rt) t"
    "cs_ring (state_of rt' ch) = cs_ring (state_of rt ch)"
    "cs_subscribers (state_of rt' ch) =
      (if ch = bf_channel f then index_remove (cs_subscribers (state_of rt ch)) sid (bf_headers f)
       else cs_subscribers (state_of rt ch))"
    using assms st
    by (auto simp: drop_subscription_def Let_def state_of_put_channel split: option.splits)
qed

lemma registered_channel:
  assumes "registry_rep handle_hf regs (cs_subscribers (state_of rt ch))" "regs \<noteq> []"
  shows "\<exists>st. lookup_channel rt ch = Some st"
proof (cases "lookup_channel rt ch")
  case None
  then have "cs_subscribers (state_of rt ch) = index_new"
    by (simp add: state_of_def channel_state_new_def)
  then have "mset regs = {#}"
    using assms(1) by (simp add: registry_rep_def index_rep_def index_entries_def index_new_def)
  then show ?thesis using assms(2) by simp
qed simp

lemma live_lookup:
  assumes "subs_ok b" "(sid, h) \<in> set (bs_subs b ch)"
  obtains st where "lookup_channel (bs_router b) (bf_channel (sh_filter h)) = Some st" "bf_channel (sh_filter h) = ch"
proof -
  note I = subs_okD [OF assms(1)]
  have "bf_channel (sh_filter h) = ch" using I(2) [of ch] assms(2) by (auto simp: regs_ok_def)
  moreover have "bs_subs b ch \<noteq> []" using assms(2) by auto
  ultimately show thesis
    using registered_channel [OF I(1)] that by blast
qed

lemma subs_ok_drop:
  assumes inv: "subs_ok b" and m: "(sid, h) \<in> set (bs_subs b ch)"
    and drop: "drop_subscription (bs_router b) sid (sh_filter h) = rt'"
  shows "subs_ok (b\<lparr> bs_router := rt', bs_subs := (bs_subs b)(ch := filter (\<lambda>r. fst r \<noteq> sid) (bs_subs b ch)) \<rparr>)"
    (is "subs_ok ?b'")
proof -
  note I = subs_okD [OF inv]
  obtain st where look: "lookup_channel (bs_router b) (bf_channel (sh_filter h)) = Some st"
    and ch: "bf_channel (sh_filter h) = ch"
    by (rule live_lookup [OF inv m])
  note spec = drop_spec [OF look I(6) drop]
  have rep: "registry_rep handle_hf (filter (\<lambda>r. fst r \<noteq> sid) (bs_subs b ch))
      (index_remove (cs_subscribers (state_of (bs_router b) ch)) sid (handle_hf h))"
    by (rule sub_registry.rep_unregister [OF I(1) m refl])
  have still: "t \<noteq> sid" "(t, k) \<in> set (bs_subs b c)" if "(t, k) \<in> set (bs_subs ?b' c)" for t k c
    using that I(5) [OF m, of k c] by (auto split: if_splits)
  show ?thesis
    unfolding subs_ok_def
  proof (intro conjI allI impI)
    show "registry_rep handle_hf (bs_subs ?b' c) (cs_subscribers (state_of (bs_router ?b') c))" for c
      using rep I(1) [of c] by (simp add: spec ch)
    show "regs_ok c (bs_subs ?b' c)" for c
      using I(2) [of c] by (auto simp: regs_ok_def)
    show "rt_shards (bs_router ?b') \<noteq> []" by (simp add: spec)
    fix t k c assume t: "(t, k) \<in> set (bs_subs ?b' c)"
    show "t < rt_next_subscription (bs_router ?b')"
      using I(3) [OF still(2) [OF t]] by (simp add: spec)
    show "live_ok ?b' c t k"
      using I(4) [OF still(2) [OF t]] by (rule live_ok_other) (use still(1) [OF t] in \<open>simp_all add: spec\<close>)
    show "c = c'" if "(t, k') \<in> set (bs_subs ?b' c')" for k' c'
      using I(5) [OF still(2) [OF t] still(2) [OF that]] .
  qed
qed

lemma subs_ok_take:
  assumes inv: "subs_ok b" and recv: "sub_recv (bs_router b) sid = Some (e, rt')"
  shows "subs_ok (b\<lparr> bs_router := rt', bs_taken := (bs_taken b)(sid := bs_taken b sid @ [e]) \<rparr>)"
    (is "subs_ok ?b'")
proof -
  note I = subs_okD [OF inv]
  obtain c rest where c: "map_of (rt_chans (bs_router b)) sid = Some c" "sc_queue c = e # rest"
    and rt': "rt' = (bs_router b)\<lparr> rt_chans := bt_insert sid (c\<lparr> sc_queue := rest \<rparr>) (rt_chans (bs_router b)) \<rparr>"
    using recv by (auto simp: sub_recv_def split: option.splits list.splits)
  have "live_ok ?b' ch t h" if "live_ok b ch t h" for ch t h
    using that c by (auto simp: live_ok_def rt')
  then show ?thesis
    using I unfolding subs_ok_def by (simp add: rt')
qed

section \<open>Every step keeps the invariants\<close>

text \<open>Within the contract of a sink.\<close>

context durable_sink
begin

lemma pending_sorted:
  assumes "store_inv rows wf b" "rt_batch (bs_router b) = pre @ post"
    and "\<And>ch. filter env_durable (bs_events b ch) =
      rows (rt_sink (bs_router b)) ch @ on_channel ch (post @ rt_write_behind (bs_router b))"
  shows "sorted_wrt (<) (map env_cursor (rows (rt_sink (bs_router b)) ch @ on_channel ch post))"
    "distinct (map en_event_id (rows (rt_sink (bs_router b)) ch @ on_channel ch post))"
proof -
  have "sorted_wrt (<) (map env_cursor (filter env_durable (bs_events b ch)))"
    "distinct (map en_event_id (filter env_durable (bs_events b ch)))"
    using assms(1)
    by (simp_all add: store_inv_def events_ok_def sorted_wrt_map sorted_wrt_filter distinct_map_filter)
  then show "sorted_wrt (<) (map env_cursor (rows (rt_sink (bs_router b)) ch @ on_channel ch post))"
    "distinct (map en_event_id (rows (rt_sink (bs_router b)) ch @ on_channel ch post))"
    unfolding assms(3) by (auto simp: sorted_wrt_append)
qed

lemma store_inv_append:
  assumes inv: "store_inv rows wf b" and app: "wb_append ops (bs_router b) = Some rt'"
  shows "store_inv rows wf (b\<lparr> bs_router := rt' \<rparr>)"
proof -
  let ?rt = "bs_router b"
  obtain q s where a: "so_append_batch ops (rt_sink ?rt) (rt_batch ?rt) = (q, s)"
    by (cases "so_append_batch ops (rt_sink ?rt) (rt_batch ?rt)")
  have wf: "wf (rt_sink ?rt)" and ri: "rings_ok rows b" and pe: "pending_ok rows b"
    using inv by (auto simp: store_inv_def)
  obtain pre post where p: "rt_batch ?rt = pre @ post"
      "\<forall>e \<in> set pre. e \<in> set (rows (rt_sink ?rt) (en_channel e))"
      "\<forall>ch. filter env_durable (bs_events b ch) =
        rows (rt_sink ?rt) ch @ on_channel ch (post @ rt_write_behind ?rt)"
      "\<forall>e \<in> set (rt_confirmed ?rt). e \<in> set (rows (rt_sink ?rt) (en_channel e))"
    using pe unfolding pending_ok_def by blast
  obtain stored rest where st: "post = stored @ rest" "q = Inr () \<longrightarrow> rest = []"
      "\<forall>ch. rows s ch = rows (rt_sink ?rt) ch @ on_channel ch stored"
    using append_batch_exact [OF wf a [unfolded p(1)] p(2) pending_sorted [OF inv p(1) p(3) [rule_format]]] by blast
  have rt': "rt' = (if q = Inr ()
      then ?rt\<lparr> rt_sink := s, rt_batch := [], rt_retrying := False, rt_confirmed := rt_batch ?rt \<rparr>
      else ?rt\<lparr> rt_sink := s, rt_retrying := True \<rparr>)"
    using app a by (cases q) (auto simp: wb_append_def split: if_splits)
  have core: "rt_sink rt' = s" "rt_shards rt' = rt_shards ?rt" "rt_seq rt' = rt_seq ?rt"
    "rt_write_behind rt' = rt_write_behind ?rt" "state_of rt' = state_of ?rt"
    by (simp_all add: rt')
  have more: "set (rows (rt_sink ?rt) ch) \<subseteq> set (rows s ch)" for ch
    using st(3) by auto
  have in_rows: "e \<in> set (rows s (en_channel e))" if "e \<in> set (pre @ stored)" for e
    using that p(2) st(3) by auto
  have ev: "filter env_durable (bs_events b ch) = rows s ch @ on_channel ch (rest @ rt_write_behind ?rt)" for ch
    using p(3) st(1,3) by simp
  have conf: "\<forall>e \<in> set (rt_confirmed ?rt). e \<in> set (rows s (en_channel e))"
    using p(4) more by blast
  have "pending_ok rows (b\<lparr> bs_router := rt' \<rparr>)"
  proof (cases "q = Inr ()")
    case True
    then have "rest = []" "rt_batch ?rt = pre @ stored" using st(1,2) p(1) by simp_all
    then show ?thesis
      using in_rows by (intro pending_okI [of _ "[]" "[]"]) (simp_all add: rt' True ev)
  next
    case False
    then show ?thesis
      using in_rows by (intro pending_okI [of _ "pre @ stored" rest])
        (simp_all add: rt' ev conf p(1) st(1))
  qed
  moreover have "rings_ok rows (b\<lparr> bs_router := rt' \<rparr>)"
    using ring_ok_mono [OF ri [unfolded rings_ok_def, rule_format] image_mono [OF more]]
    by (simp add: rings_ok_def core bus_log_def)
  ultimately show ?thesis
    using inv append_batch_wf [OF wf a] by (simp add: store_inv_def events_ok_def core)
qed

lemma step_store_inv:
  assumes "bus_step d ops b b'" "store_inv rows wf b" "subs_ok b"
  shows "store_inv rows wf b'"
  using assms
proof cases
  case (bus_if_new now_ms e origin s rt')
  obtain rt0 where rt0: "same_core (bs_router b) rt0" "publish_from d rt0 now_ms e origin = (Inr s, rt')"
    by (rule if_new_published [OF bus_if_new(2)])
  have "store_inv rows wf (accept (b\<lparr> bs_router := rt0 \<rparr>) rt' (stamped rt0 now_ms e))"
    using store_inv_accept [OF store_inv_same_core [OF assms(2) rt0(1)], of d now_ms e origin s rt'] rt0
      bus_if_new(3) by (simp add: admissible_def same_core_def)
  then show ?thesis
    using bus_if_new(1) same_core_stamped [OF rt0(1)] by (simp add: accept_def)
next
  case (bus_subscribe f from_cursor live_only st rt')
  have "rt_shards (bs_router b) \<noteq> []" using assms(2) by (simp add: store_inv_def)
  note spec = subscribe_spec [OF bus_subscribe(2) this]
  show ?thesis
    using assms(2) by (rule store_inv_frame) (simp_all add: bus_subscribe(1) spec)
next
  case (bus_drop sid h ch rt')
  obtain st where "lookup_channel (bs_router b) (bf_channel (sh_filter h)) = Some st"
    by (rule live_lookup [OF assms(3) bus_drop(2)])
  note spec = drop_spec [OF this subs_okD(6) [OF assms(3)] bus_drop(3)]
  show ?thesis
    using assms(2) by (rule store_inv_frame) (simp_all add: bus_drop(1) spec)
next
  case (bus_take sid e rt')
  then obtain x where rt': "rt' = (bs_router b)\<lparr> rt_chans := x \<rparr>"
    by (auto simp: sub_recv_def split: option.splits list.splits)
  show ?thesis
    using assms(2)
  proof (rule store_inv_frame)
    show "rt_shards (bs_router b') \<noteq> []" using assms(2) by (simp add: bus_take(1) rt' store_inv_def)
  qed (simp_all add: bus_take(1) rt')
qed (auto intro: store_inv_accept store_inv_same_core publish_refused_core if_new_not_core
    store_inv_queue_step store_inv_append store_inv_unpin forward_core)

lemma step_subs_ok:
  assumes "bus_step d ops b b'" "subs_ok b" "store_inv rows wf b"
  shows "subs_ok b'"
  using assms(1)
proof cases
  case (bus_if_new now_ms e origin s rt')
  obtain rt0 where rt0: "same_core (bs_router b) rt0" "publish_from d rt0 now_ms e origin = (Inr s, rt')"
    by (rule if_new_published [OF bus_if_new(2)])
  have "subs_ok (accept (b\<lparr> bs_router := rt0 \<rparr>) rt' (stamped rt0 now_ms e))"
    using subs_ok_accept [OF subs_ok_same_core [OF assms(2) rt0(1)], of d now_ms e origin s rt'] rt0
      bus_if_new(3) by (simp add: admissible_def same_core_def)
  then show ?thesis
    using bus_if_new(1) same_core_stamped [OF rt0(1)] by (simp add: accept_def)
next
  case (bus_unpin rt')
  obtain item rest where c: "rt_confirmed (bs_router b) = item # rest"
    using bus_unpin(2) by (auto simp: wb_unpin_def split: list.splits)
  let ?rt = "(bs_router b)\<lparr> rt_confirmed := rest \<rparr>"
  have sh: "rt_shards ?rt \<noteq> []" using subs_okD(6) [OF assms(2)] by simp
  show ?thesis
    using assms(2)
  proof (rule subs_ok_frame)
    show "cs_subscribers (state_of (bs_router b') ch) = cs_subscribers (state_of (bs_router b) ch)" for ch
    proof (cases "lookup_channel (bs_router b) (en_channel item)")
      case (Some st)
      then have "state_of (bs_router b) (en_channel item) = st" by (simp add: state_of_def)
      with Some show ?thesis
        using bus_unpin sh c by (auto simp: wb_unpin_def Let_def state_of_put_channel)
    qed (use bus_unpin c in \<open>auto simp: wb_unpin_def Let_def\<close>)
  qed (use bus_unpin sh c in \<open>auto simp: wb_unpin_def Let_def split: option.splits\<close>)
next
  case (bus_append rt')
  then have "rt_shards rt' = rt_shards (bs_router b) \<and> rt_chans rt' = rt_chans (bs_router b) \<and>
      rt_next_subscription rt' = rt_next_subscription (bs_router b) \<and> state_of rt' = state_of (bs_router b)"
    by (auto simp: wb_append_def split: if_splits sum.splits prod.splits)
  then show ?thesis
    using assms(2) subs_okD(6) [OF assms(2)] bus_append(1) by (intro subs_ok_frame [OF assms(2)]) simp_all
next
  case (bus_recv rt')
  then obtain x y where "rt' = (bs_router b)\<lparr> rt_batch := x, rt_write_behind := y \<rparr>"
    by (auto simp: wb_recv_def split: list.splits)
  then show ?thesis
    using subs_okD(6) [OF assms(2)] bus_recv(1) by (intro subs_ok_frame [OF assms(2)]) simp_all
next
  case (bus_try_recv rt')
  then obtain x y where "rt' = (bs_router b)\<lparr> rt_batch := x, rt_write_behind := y \<rparr>"
    by (auto simp: wb_try_recv_def split: list.splits if_splits)
  then show ?thesis
    using subs_okD(6) [OF assms(2)] bus_try_recv(1) by (intro subs_ok_frame [OF assms(2)]) simp_all
next
  case (bus_subscribe f from_cursor live_only st rt')
  then show ?thesis using subs_ok_subscribe [OF assms(2)] by simp
next
  case (bus_drop sid h ch rt')
  then show ?thesis using subs_ok_drop [OF assms(2)] by simp
next
  case (bus_take sid e rt')
  then show ?thesis using subs_ok_take [OF assms(2)] by simp
qed (use assms(2) in \<open>auto intro: subs_ok_accept subs_ok_same_core publish_refused_core if_new_not_core
    forward_core\<close>)

lemma start_inv:
  assumes "wf sink" "start_ok rows src sink"
  shows "store_inv rows wf (bus_start rows cfg src sink) \<and> subs_ok (bus_start rows cfg src sink)"
proof -
  let ?rt = "router_new cfg src sink"
  have none: "lookup_channel ?rt ch = None" for ch
  proof -
    have "rt_shards ?rt \<noteq> []" by (simp add: router_new_def)
    then have "rt_shards ?rt ! shard_index (length (rt_shards ?rt)) ch \<in> set (rt_shards ?rt)"
      by (intro nth_mem shard_index_less)
    then have "rt_shards ?rt ! shard_index (length (rt_shards ?rt)) ch = []"
      by (auto simp: router_new_def)
    then show ?thesis by (simp add: lookup_channel_def)
  qed
  then have st: "state_of ?rt ch = channel_state_new cfg" for ch
    by (simp add: state_of_def router_new_def)
  have new: "rt_sink ?rt = sink" "rt_shards ?rt \<noteq> []" "rt_seq ?rt = src" "rt_batch ?rt = []"
    "rt_write_behind ?rt = []" "rt_confirmed ?rt = []"
    by (simp_all add: router_new_def)
  let ?b = "bus_start rows cfg src sink"
  have dur: "env_durable e" "\<not> env_ephemeral e" if "e \<in> set (rows sink ch)" for e ch
    using assms(2) that by (auto simp: start_ok_def is_durable_def is_ephemeral_latest_def)
  have "ring_ok (rows sink ch) (en_event_id ` set (rows sink ch)) (ring_new x y)" for ch x y
    unfolding ring_ok_def ring_covers_def
    by (intro conjI exI [of _ "rows sink ch"] exI [of _ "[]"]) (auto simp: ring_new_def thins_def)
  then have "rings_ok rows ?b"
    using dur by (simp add: rings_ok_def bus_start_def bus_log_def st channel_state_new_def new
        filter_True cong: filter_cong)
  moreover have "pending_ok rows ?b"
    using dur by (intro pending_okI [of _ "[]" "[]"]) (auto simp: bus_start_def new filter_id_conv)
  moreover have "events_ok ?b"
    using assms rows_sorted by (auto simp: events_ok_def bus_start_def start_ok_def new)
  moreover have "subs_ok ?b"
    using sub_registry.rep_empty
    by (simp add: subs_ok_def bus_start_def st channel_state_new_def regs_ok_def new)
  ultimately show ?thesis
    using assms(1) by (simp add: store_inv_def bus_start_def new)
qed

lemma reach_inv:
  assumes "bus_reaches d ops b b'" "store_inv rows wf b" "subs_ok b"
  shows "store_inv rows wf b' \<and> subs_ok b'"
  using assms unfolding bus_reaches_def
  by (induction rule: rtranclp_induct) (auto intro: step_store_inv step_subs_ok)

end

end
