(* ===== verification/Bus_History.thy ===== *)
theory Bus_History
  imports Bus_Reach
begin

text \<open>
  The router's durable reads (\<open>airc-bus/src/router/history.rs\<close>): each merges the hot ring,
  read under the shard lock, with the sink, read after the lock is released. Here both are
  read in one state.
\<close>

section \<open>Reads\<close>

abbreviation ring_at :: "'s router \<Rightarrow> room_id \<Rightarrow> hot_ring option" where
  "ring_at rt ch \<equiv> map_option cs_ring (lookup_channel rt ch)"

definition head_cursor :: "'s router \<Rightarrow> room_id \<Rightarrow> cursor option" where
  "head_cursor rt ch = Option.bind (ring_at rt ch) newest_cursor"

definition router_sink_head_cursor :: "'s sink_ops \<Rightarrow> 's router \<Rightarrow> room_id \<Rightarrow> cursor option" where
  "router_sink_head_cursor ops rt ch =
     (case so_head_cursor ops (rt_sink rt) ch of Inr c \<Rightarrow> c | Inl _ \<Rightarrow> None)"

definition durable_tip :: "'s sink_ops \<Rightarrow> 's router \<Rightarrow> room_id \<Rightarrow> bus_error + cursor option" where
  "durable_tip ops rt ch =
     (let ring_tip = Option.bind (ring_at rt ch) newest_durable_cursor
      in if ring_tip \<noteq> None then Inr ring_tip else so_head_cursor ops (rt_sink rt) ch)"

definition kind_opt :: "kind list option \<Rightarrow> envelope \<Rightarrow> bool" where
  "kind_opt kinds e \<longleftrightarrow> is_none_or kinds (\<lambda>ks. en_kind e \<in> set ks)"

text \<open>The sink is read strictly before the ring's oldest entry, or the caller's older gate.\<close>

definition tail_gate :: "cursor option \<Rightarrow> cursor option \<Rightarrow> cursor option" where
  "tail_gate before ring_oldest =
     (case (before, ring_oldest) of
        (Some before, Some oldest) \<Rightarrow> if is_before before oldest then Some before else Some oldest
      | (_, Some oldest) \<Rightarrow> Some oldest
      | (before, None) \<Rightarrow> before)"

definition tail_page ::
  "'s sink_ops \<Rightarrow> 's \<Rightarrow> room_id \<Rightarrow> cursor option \<Rightarrow> kind list option \<Rightarrow> nat \<Rightarrow> bus_error + envelope list" where
  "tail_page ops sink ch sink_before kinds remainder =
     (case kinds of
        None \<Rightarrow> so_page_tail ops sink ch sink_before remainder
      | Some ks \<Rightarrow> so_page_tail_of_kinds ops sink ch sink_before ks remainder)"

definition durable_tail_filtered ::
  "'s sink_ops \<Rightarrow> 's router \<Rightarrow> room_id \<Rightarrow> cursor option \<Rightarrow> kind list option \<Rightarrow> nat
   \<Rightarrow> bus_error + envelope list" where
  "durable_tail_filtered ops rt ch before kinds limit =
     (if limit = 0 then Inr []
      else
        let (tail, ring_oldest) =
              (case ring_at rt ch of
                 Some r \<Rightarrow>
                   (filter (\<lambda>e. env_durable e \<and> kind_opt kinds e \<and>
                        is_none_or before (\<lambda>gate. is_before (env_cursor e) gate)) (replay_after r None),
                    oldest_cursor r)
               | None \<Rightarrow> ([], None))
        in if limit \<le> length tail then Inr (drop (length tail - limit) tail)
           else res_bind
                  (tail_page ops (rt_sink rt) ch (tail_gate before ring_oldest) kinds (limit - length tail))
                  (\<lambda>older. Inr (older @ tail)))"

definition durable_tail :: "'s sink_ops \<Rightarrow> 's router \<Rightarrow> room_id \<Rightarrow> nat \<Rightarrow> bus_error + envelope list" where
  "durable_tail ops rt ch limit = durable_tail_filtered ops rt ch None None limit"

definition durable_tail_before ::
  "'s sink_ops \<Rightarrow> 's router \<Rightarrow> room_id \<Rightarrow> cursor option \<Rightarrow> nat \<Rightarrow> bus_error + envelope list" where
  "durable_tail_before ops rt ch before limit = durable_tail_filtered ops rt ch before None limit"

definition durable_tail_of_kinds ::
  "'s sink_ops \<Rightarrow> 's router \<Rightarrow> room_id \<Rightarrow> kind list \<Rightarrow> nat \<Rightarrow> bus_error + envelope list" where
  "durable_tail_of_kinds ops rt ch kinds limit = durable_tail_filtered ops rt ch None (Some kinds) limit"

definition durable_tail_before_of_kinds ::
  "'s sink_ops \<Rightarrow> 's router \<Rightarrow> room_id \<Rightarrow> cursor option \<Rightarrow> kind list \<Rightarrow> nat \<Rightarrow> bus_error + envelope list" where
  "durable_tail_before_of_kinds ops rt ch before kinds limit =
     durable_tail_filtered ops rt ch before (Some kinds) limit"

text \<open>\<open>dedup_by\<close> and \<open>dedup_by_key\<close> drop an element whose predecessor has the same id.\<close>

fun dedup_ids :: "envelope list \<Rightarrow> envelope list" where
  "dedup_ids (x # y # ys) =
     (if en_event_id x = en_event_id y then dedup_ids (x # ys) else x # dedup_ids (y # ys))"
| "dedup_ids xs = xs"

definition router_matching_history ::
  "bus_deps \<Rightarrow> 's sink_ops \<Rightarrow> 's router \<Rightarrow> room_id \<Rightarrow> cursor \<Rightarrow> cursor \<Rightarrow> history_match \<Rightarrow> nat \<Rightarrow> bool
   \<Rightarrow> bus_error + envelope list" where
  "router_matching_history d ops rt ch after through rule limit tail =
     (if limit = 0 then Inr []
      else
        let rows = (case ring_at rt ch of
                      Some r \<Rightarrow> filter (\<lambda>e. in_range after through e \<and> matches_history d e rule) (replay_after r None)
                    | None \<Rightarrow> [])
        in res_bind (so_page_matching ops (rt_sink rt) ch after through rule limit tail)
             (\<lambda>page.
                let rows = dedup_ids (sort_key (\<lambda>e. (en_seq e, en_event_id e)) (rows @ page));
                    rows = (if tail then rev rows else rows);
                    rows = take limit rows
                in Inr (if tail then rev rows else rows)))"

definition resume_from_cursor ::
  "'s sink_ops \<Rightarrow> 's router \<Rightarrow> room_id \<Rightarrow> cursor option \<Rightarrow> nat \<Rightarrow> (bus_error + envelope list) \<times> 's router" where
  "resume_from_cursor ops rt ch from_cursor limit =
     (let limit = max limit 1;
          (ring_events, ring_oldest) =
            (case ring_at rt ch of
               Some r \<Rightarrow> (replay_after r from_cursor, oldest_cursor r)
             | None \<Rightarrow> ([], None));
          (page, s) = so_page ops (rt_sink rt) ch from_cursor limit;
          rt = rt\<lparr> rt_sink := s \<rparr>
      in (res_bind page
            (\<lambda>deep.
               let deep = filter (\<lambda>e. is_none_or ring_oldest (\<lambda>o'. is_before (env_cursor e) o') \<and>
                                      is_none_or from_cursor (\<lambda>h. is_after (env_cursor e) h)) deep
               in Inr (take limit (dedup_ids (sort_key (\<lambda>e. (en_seq e, en_event_id e)) (deep @ ring_events))))),
          rt))"

definition router_count_matching ::
  "'s sink_ops \<Rightarrow> 's router \<Rightarrow> room_id \<Rightarrow> cursor \<Rightarrow> cursor \<Rightarrow> header_filter \<Rightarrow> runtime_self option
   \<Rightarrow> bus_error + history_count" where
  "router_count_matching ops rt ch after through headers exclude =
     res_bind (so_head_cursor ops (rt_sink rt) ch)
       (\<lambda>sink_head.
          let durable_through =
                (case sink_head of
                   Some head \<Rightarrow> if is_after through head then head else through
                 | None \<Rightarrow> after)
          in res_bind
               (if is_after durable_through after
                then so_count_matching ops (rt_sink rt) ch after durable_through headers exclude
                else Inr history_count_default)
               (\<lambda>durable.
                  let pending_after = (if is_after durable_through after then durable_through else after);
                      pending =
                        (case ring_at rt ch of
                           Some r \<Rightarrow>
                             fold (\<lambda>t c. with_event c t)
                               (map en_occurred_at_ms
                                  (filter (counted pending_after through headers exclude) (replay_after r None)))
                               history_count_default
                         | None \<Rightarrow> history_count_default)
                  in Inr (hc_merge durable pending)))"

section \<open>The two legs of a read\<close>

lemma cursor_tests [simp]: "is_before = (<)" "is_after a = (\<lambda>c. c < a)"
  by (simp_all add: fun_eq_iff)

text \<open>
  In a state that keeps the store invariant, the durables of a channel are those in the sink
  that sort before the ring's oldest entry, followed by those in the ring.
\<close>

definition ring_legs :: "'s router \<Rightarrow> room_id \<Rightarrow> envelope list \<Rightarrow> envelope list \<Rightarrow> bool" where
  "ring_legs rt ch sink_rows durables \<longleftrightarrow>
     sorted_wrt (<) (map env_cursor (ring_envs (cs_ring (state_of rt ch)))) \<and>
     (\<exists>older rest queued.
        durables = older @ filter env_durable (ring_envs (cs_ring (state_of rt ch))) \<and>
        sink_rows = older @ rest \<and> filter env_durable (ring_envs (cs_ring (state_of rt ch))) = rest @ queued \<and>
        (\<forall>e \<in> set older. \<forall>x \<in> set (ring_envs (cs_ring (state_of rt ch))). env_cursor e < env_cursor x))"

lemma prefix_of_sorted:
  assumes "xs @ ys = zs @ ws" "set xs \<subseteq> set zs" "distinct (xs @ ys)"
  shows "\<exists>rest. zs = xs @ rest"
proof -
  have "length xs \<le> length zs"
    using assms by (metis distinct_append card_mono distinct_card finite_set)
  then show ?thesis
    using assms(1) by (metis append_eq_append_conv_if append_take_drop_id)
qed

lemma store_inv_legs:
  assumes inv: "store_inv rows ok b"
  shows "ring_legs (bs_router b) ch (rows (rt_sink (bs_router b)) ch) (filter env_durable (bs_events b ch))"
proof -
  let ?rt = "bs_router b"
  let ?sink = "rows (rt_sink ?rt) ch" and ?dur = "filter env_durable (bs_events b ch)"
  let ?ring = "ring_envs (cs_ring (state_of ?rt ch))"
  have log: "filter env_durable (bus_log b ch) = ?dur"
    by (auto simp: bus_log_def is_durable_def is_ephemeral_latest_def intro: filter_cong)
  have "sorted_wrt (<) (map env_cursor (bs_events b ch))" and dist: "distinct (map en_event_id (bs_events b ch))"
    using inv by (auto simp: store_inv_def events_ok_def)
  then have srt: "sorted_wrt (<) (map env_cursor (bus_log b ch))"
    by (simp add: bus_log_def sorted_wrt_map sorted_wrt_filter)
  have ring: "ring_ok (bus_log b ch) (en_event_id ` set ?sink) (cs_ring (state_of ?rt ch))"
    using inv by (simp add: store_inv_def rings_ok_def)
  obtain older where o: "?dur = older @ filter env_durable ?ring"
      "\<forall>e \<in> set older. en_event_id e \<in> en_event_id ` set ?sink"
      "\<forall>e \<in> set older. \<forall>x \<in> set ?ring. env_cursor e < env_cursor x"
    using hot.seam [OF ring srt] log by metis
  obtain queued where m: "?dur = ?sink @ queued"
    using inv unfolding store_inv_def pending_ok_def by blast
  have sub: "set older \<subseteq> set (bs_events b ch)" "set ?sink \<subseteq> set (bs_events b ch)"
    using arg_cong [OF o(1), of set] arg_cong [OF m, of set] by auto
  have "set older \<subseteq> set ?sink"
  proof
    fix e assume e: "e \<in> set older"
    then obtain x where x: "x \<in> set ?sink" "en_event_id x = en_event_id e"
      using o(2) by (metis (no_types) image_iff)
    then show "e \<in> set ?sink"
      using e sub dist by (metis distinct_map inj_onD subsetD)
  qed
  moreover have "distinct (older @ filter env_durable ?ring)"
    using dist o(1) by (metis distinct_filter distinct_map)
  moreover have eq: "older @ filter env_durable ?ring = ?sink @ queued"
    using o(1) m by simp
  ultimately obtain rest where rest: "?sink = older @ rest"
    using prefix_of_sorted [OF eq] by blast
  with eq have "filter env_durable ?ring = rest @ queued" by simp
  then show ?thesis
    unfolding ring_legs_def using o rest hot.envs_sorted [OF ring srt] by blast
qed

text \<open>The ring of a channel that has no state yet reads as an empty one.\<close>

lemma ring_at_None:
  "lookup_channel rt ch = None \<Longrightarrow> ring_envs (cs_ring (state_of rt ch)) = []"
  by (simp add: state_of_def channel_state_new_def ring_new_def)

lemma ring_at_cases:
  obtains (none) "lookup_channel rt ch = None" "ring_envs (cs_ring (state_of rt ch)) = []"
  | (some) st where "lookup_channel rt ch = Some st" "state_of rt ch = st"
  using ring_at_None [of rt ch] by (cases "lookup_channel rt ch") (auto simp: state_of_def)

lemma replay_after_None [simp]: "replay_after r None = ring_envs r"
  by (simp add: replay_after_def)

lemma tail_gate_exact:
  assumes "filter env_durable envs = rest @ queued"
    and "\<forall>e \<in> set older. \<forall>x \<in> set envs. env_cursor e < env_cursor x"
    and "sorted_wrt (<) (map env_cursor envs)"
  shows "filter (before_opt (tail_gate before (map_option env_cursor (first_opt envs)))) (older @ rest) =
    filter (before_opt before) older"
proof (cases envs)
  case Nil
  then show ?thesis using assms(1) by (simp add: tail_gate_def first_opt_def split: option.split)
next
  case (Cons x xs)
  have "set rest \<subseteq> set envs" using arg_cong [OF assms(1), of set] by auto
  then have rest: "env_cursor x \<le> env_cursor e" if "e \<in> set rest" for e
    using that assms(3) Cons by (auto simp: less_imp_le)
  have older: "env_cursor e < env_cursor x" if "e \<in> set older" for e
    using that assms(2) Cons by simp
  show ?thesis
  proof (cases before)
    case None
    then show ?thesis
      using rest older by (auto simp: tail_gate_def first_opt_def Cons not_less filter_empty_conv filter_id_conv)
  next
    case (Some c)
    show ?thesis
    proof (cases "c < env_cursor x")
      case True
      then have "c \<le> env_cursor e" if "e \<in> set rest" for e
        using rest [OF that] by order
      then have "filter (\<lambda>e. env_cursor e < c) rest = []"
        by (simp add: filter_empty_conv not_less)
      then show ?thesis
        using True Some by (simp add: tail_gate_def first_opt_def Cons)
    next
      case False
      then have "filter (\<lambda>e. env_cursor e < c) older = older" "filter (\<lambda>e. env_cursor e < env_cursor x) older = older"
        using older by (auto simp: filter_id_conv not_less dest: order.strict_trans2)
      then show ?thesis
        using rest Some False by (auto simp: tail_gate_def first_opt_def Cons filter_empty_conv not_less)
    qed
  qed
qed

section \<open>Merging the legs\<close>

lemma find_rev_last: "find P (rev xs) = last_opt (filter P xs)"
  by (induction xs rule: rev_induct) (auto simp: last_opt_def)

lemma dedup_distinct: "distinct (map en_event_id xs) \<Longrightarrow> dedup_ids xs = xs"
  by (induction xs rule: dedup_ids.induct) auto

lemma dedup_hd: "xs \<noteq> [] \<Longrightarrow> dedup_ids xs \<noteq> [] \<and> en_event_id (hd (dedup_ids xs)) = en_event_id (hd xs)"
  by (induction xs rule: dedup_ids.induct) auto

lemma dedup_sorted:
  assumes "sorted (map env_cursor xs)" "inj_on en_event_id (set xs)"
  shows "set (dedup_ids xs) = set xs \<and> sorted_wrt (<) (map env_cursor (dedup_ids xs))"
  using assms
proof (induction xs rule: dedup_ids.induct)
  case (1 x y ys)
  show ?case
  proof (cases "en_event_id x = en_event_id y")
    case True
    then have "x = y" using 1(4) by (auto dest: inj_onD)
    then show ?thesis using 1(1) [OF True] 1(3,4) by (auto simp: inj_on_def)
  next
    case False
    have lt: "env_cursor x < env_cursor z" if "z \<in> set (y # ys)" for z
    proof -
      have "env_cursor x \<le> env_cursor y" "env_cursor y \<le> env_cursor z"
        using 1(3) that by auto
      moreover have "env_cursor x \<noteq> env_cursor y" using False by (auto simp: env_cursor_def)
      ultimately show ?thesis by order
    qed
    have "set (dedup_ids (y # ys)) = set (y # ys) \<and> sorted_wrt (<) (map env_cursor (dedup_ids (y # ys)))"
      using 1(2) [OF False] 1(3,4) by (auto simp: inj_on_def)
    then show ?thesis using False lt by auto
  qed
qed auto

lemma sorted_ids:
  "sorted_wrt (<) (map env_cursor xs) \<Longrightarrow> set xs \<subseteq> set ys \<Longrightarrow> distinct (map en_event_id ys) \<Longrightarrow>
   distinct (map en_event_id xs)"
  unfolding distinct_map strict_sorted_iff by (auto intro: inj_on_subset)

lemma newest_facts:
  "kept limit True xs = newest limit xs" "newest 0 xs = []" "set (newest limit xs) \<subseteq> set xs"
  "newest limit (newest m xs) = newest (min limit m) xs" "subseq (newest limit xs) xs"
proof -
  show "subseq (newest limit xs) xs" unfolding newest_def by (rule suffix_imp_subseq [OF suffix_drop])
  show "kept limit True xs = newest limit xs" by (simp add: kept_def newest_def)
qed (auto simp: newest_rev dest: in_set_takeD)

lemma take_window: "take n (take n xs @ ys) = take n (xs @ ys)"
  by (cases "n \<le> length xs") auto

lemma subseq_cursors:
  assumes "subseq xs ys"
  shows "sorted_wrt (<) (map env_cursor ys) \<Longrightarrow> sorted_wrt (<) (map env_cursor xs)" "set xs \<subseteq> set ys"
  using subseq_sorted_wrt [OF subseq_map [OF assms]] list_emb_set [OF assms] by auto

text \<open>A merge of two legs, sorted and deduplicated, is the sorted list of their union.\<close>

lemma merge_unique:
  assumes "sorted_wrt (<) (map env_cursor zs)" "set xs = set zs" "distinct (map en_event_id zs)"
  shows "dedup_ids (sort_key (\<lambda>e. (en_seq e, en_event_id e)) xs) = zs"
proof -
  let ?ys = "sort_key env_cursor xs"
  have "inj_on en_event_id (set ?ys)" using assms(2,3) by (simp add: distinct_map)
  then have ys: "set (dedup_ids ?ys) = set zs" "sorted_wrt (<) (map env_cursor (dedup_ids ?ys))"
    using dedup_sorted [of ?ys] assms(2) by auto
  have "inj_on env_cursor (set (dedup_ids ?ys) \<union> set zs)"
    using assms(3) ys(1) by (auto simp: distinct_map inj_on_def env_cursor_def)
  then have "dedup_ids ?ys = zs"
    using ys assms(1)
    by (intro map_sorted_distinct_set_unique [where f = env_cursor]) (auto simp: strict_sorted_iff)
  then show ?thesis by (simp add: sort_key_cursor)
qed

text \<open>Counting two legs and merging the counts is counting their concatenation.\<close>

lemma merge_counts:
  "hc_merge (fold (\<lambda>t c. with_event c t) ts history_count_default)
     (fold (\<lambda>t c. with_event c t) us history_count_default) =
   fold (\<lambda>t c. with_event c t) (ts @ us) history_count_default"
  unfolding fold_with_event by (simp add: hc_merge_def pick_def Min_Un Max_Un)

context durable_sink
begin

lemma legs:
  assumes "store_inv rows wf b"
  obtains older rest queued where
    "filter env_durable (bs_events b ch) = older @ rest @ queued"
    "filter env_durable (ring_envs (cs_ring (state_of (bs_router b) ch))) = rest @ queued"
    "rows (rt_sink (bs_router b)) ch = older @ rest"
    "\<forall>e \<in> set older. \<forall>x \<in> set (ring_envs (cs_ring (state_of (bs_router b) ch))). env_cursor e < env_cursor x"
    "sorted_wrt (<) (map env_cursor (ring_envs (cs_ring (state_of (bs_router b) ch))))"
  using store_inv_legs [OF assms, of ch] unfolding ring_legs_def by auto

lemma sink_leg:
  assumes inv: "store_inv rows wf b"
    and page: "tail_page ops (rt_sink (bs_router b)) ch sb kinds n = Inr es"
  shows "es = newest n (filter (kind_opt kinds) (filter (before_opt sb) (rows (rt_sink (bs_router b)) ch)))"
proof (cases kinds)
  case None
  then show ?thesis
    using page inv page_tail_exact [of "rt_sink (bs_router b)"]
    by (simp add: store_inv_def kind_opt_def tail_page_def filter_True)
next
  case (Some ks)
  then show ?thesis
    using page inv page_tail_of_kinds_exact [of "rt_sink (bs_router b)"]
    by (simp add: store_inv_def kind_opt_def tail_page_def)
qed

text \<open>The tail of a channel: the newest durables of the given kinds before a gate.\<close>

lemma durable_tail_exact:
  assumes inv: "store_inv rows wf b"
    and res: "durable_tail_filtered ops (bs_router b) ch before kinds limit = Inr es"
  shows "es = newest limit (filter (\<lambda>e. env_durable e \<and> kind_opt kinds e \<and> before_opt before e) (bs_events b ch))"
proof (cases "limit = 0")
  case True
  then show ?thesis using res by (simp add: durable_tail_filtered_def newest_def)
next
  case False
  let ?rt = "bs_router b"
  let ?ring = "cs_ring (state_of ?rt ch)" and ?P = "\<lambda>e. kind_opt kinds e \<and> before_opt before e"
  let ?tail = "filter (\<lambda>e. env_durable e \<and> kind_opt kinds e \<and> before_opt before e) (ring_envs ?ring)"
  obtain older rest queued where l: "filter env_durable (bs_events b ch) = older @ rest @ queued"
      "filter env_durable (ring_envs ?ring) = rest @ queued"
      "rows (rt_sink ?rt) ch = older @ rest"
      "\<forall>e \<in> set older. \<forall>x \<in> set (ring_envs ?ring). env_cursor e < env_cursor x"
      "sorted_wrt (<) (map env_cursor (ring_envs ?ring))"
    by (rule legs [OF inv])
  have tail: "?tail = filter ?P (rest @ queued)"
    unfolding l(2) [symmetric] by (simp add: conj_commute)
  have all: "filter (\<lambda>e. env_durable e \<and> kind_opt kinds e \<and> before_opt before e) (bs_events b ch) =
      filter ?P older @ ?tail"
  proof -
    have "filter (\<lambda>e. env_durable e \<and> kind_opt kinds e \<and> before_opt before e) (bs_events b ch) =
        filter ?P (filter env_durable (bs_events b ch))"
      by (simp add: conj_commute)
    then show ?thesis by (simp only: l(1) tail filter_append)
  qed
  let ?sb = "tail_gate before (oldest_cursor ?ring)"
  have read: "durable_tail_filtered ops ?rt ch before kinds limit =
      (if limit \<le> length ?tail then Inr (newest limit ?tail)
       else res_bind (tail_page ops (rt_sink ?rt) ch ?sb kinds (limit - length ?tail))
            (\<lambda>older. Inr (older @ ?tail)))"
    using False
    by (cases rule: ring_at_cases [of ?rt ch])
      (simp_all add: durable_tail_filtered_def newest_def oldest_cursor_def first_opt_def)
  have deep: "filter (kind_opt kinds) (filter (before_opt ?sb) (older @ rest)) = filter ?P older"
  proof -
    have "filter (before_opt ?sb) (older @ rest) = filter (before_opt before) older"
      unfolding oldest_cursor_def by (rule tail_gate_exact [OF l(2,4,5)])
    then show ?thesis by (simp only:) (simp add: conj_commute)
  qed
  show ?thesis
  proof (cases "limit \<le> length ?tail")
    case True
    then show ?thesis using res all by (simp add: read newest_append)
  next
    case short: False
    then obtain deep_leg where d: "tail_page ops (rt_sink ?rt) ch ?sb kinds (limit - length ?tail) = Inr deep_leg"
        "es = deep_leg @ ?tail"
      using res by (auto simp: read res_bind_eq_Inr)
    have "deep_leg = newest (limit - length ?tail) (filter ?P older)"
      using sink_leg [OF inv d(1)] unfolding l(3) deep .
    then show ?thesis
      using short d(2) all by (simp add: newest_append)
  qed
qed

lemma durable_tip_exact:
  assumes inv: "store_inv rows wf b" and res: "durable_tip ops (bs_router b) ch = Inr c"
  shows "c = map_option env_cursor (last_opt (filter env_durable (bs_events b ch)))"
proof -
  let ?rt = "bs_router b"
  let ?ring = "cs_ring (state_of ?rt ch)"
  obtain older rest queued where l: "filter env_durable (bs_events b ch) = older @ rest @ queued"
      "filter env_durable (ring_envs ?ring) = rest @ queued"
      "rows (rt_sink ?rt) ch = older @ rest"
    by (rule legs [OF inv])
  have tip: "Option.bind (ring_at ?rt ch) newest_durable_cursor = map_option env_cursor (last_opt (rest @ queued))"
    using l(2)
    by (cases rule: ring_at_cases [of ?rt ch]) (auto simp: newest_durable_cursor_def find_rev_last last_opt_def)
  show ?thesis
  proof (cases "rest @ queued = []")
    case True
    then show ?thesis
      using res tip l head_cursor_exact [of "rt_sink ?rt" ch] inv
      by (simp add: durable_tip_def last_opt_def store_inv_def)
  next
    case False
    then have "last (older @ rest @ queued) = last (rest @ queued)" by (simp add: last_append)
    then show ?thesis
      using res tip l(1) False by (auto simp: durable_tip_def last_opt_def split: if_splits)
  qed
qed

text \<open>The view a resume pages through: the persisted older durables, then the whole ring.\<close>

lemma resume_exact:
  assumes inv: "store_inv rows wf b"
    and res: "resume_from_cursor ops (bs_router b) ch from limit = (Inr es, rt')"
  obtains view where "es = take (max limit 1) (filter (after_opt from) view)"
    "filter env_durable view = filter env_durable (bs_events b ch)"
    "sorted_wrt (<) (map env_cursor view)"
proof -
  let ?rt = "bs_router b" and ?n = "max limit 1"
  let ?ring = "cs_ring (state_of ?rt ch)"
  obtain older rest queued where l: "filter env_durable (bs_events b ch) = older @ rest @ queued"
      "filter env_durable (ring_envs ?ring) = rest @ queued"
      "rows (rt_sink ?rt) ch = older @ rest"
      "\<forall>e \<in> set older. \<forall>x \<in> set (ring_envs ?ring). env_cursor e < env_cursor x"
      "sorted_wrt (<) (map env_cursor (ring_envs ?ring))"
    by (rule legs [OF inv])
  let ?view = "older @ ring_envs ?ring"
  have ev: "sorted_wrt (<) (map env_cursor (bs_events b ch))" "distinct (map en_event_id (bs_events b ch))"
    and wf: "wf (rt_sink ?rt)"
    using inv by (auto simp: store_inv_def events_ok_def)
  have envs: "set (ring_envs ?ring) \<subseteq> set (bs_events b ch)"
    using inv hot.envs_in_log by (fastforce simp: store_inv_def rings_ok_def bus_log_def)
  have sub: "set older \<subseteq> set (bs_events b ch)"
    using arg_cong [OF l(1), of set] by auto
  have "sorted_wrt (<) (map env_cursor (older @ rest @ queued))"
    unfolding l(1) [symmetric] using ev(1) by (simp add: sorted_wrt_map sorted_wrt_filter)
  then have srt: "sorted_wrt (<) (map env_cursor ?view)"
    using l(4,5) by (simp add: sorted_wrt_append)
  then have ids: "distinct (map en_event_id ?view)"
    using envs sub ev(2) by (intro sorted_ids [of ?view "bs_events b ch"]) auto
  obtain deep s where page: "so_page ops (rt_sink ?rt) ch from ?n = (Inr deep, s)"
      and es: "es = take ?n (dedup_ids (sort_key (\<lambda>e. (en_seq e, en_event_id e))
        (filter (\<lambda>e. before_opt (oldest_cursor ?ring) e \<and> after_opt from e) deep @
         replay_after ?ring from)))"
    using res
    by (cases rule: ring_at_cases [of ?rt ch])
      (auto simp: resume_from_cursor_def Let_def res_bind_eq_Inr oldest_cursor_def first_opt_def replay_after_def
        split: prod.splits)
  have gate: "filter (before_opt (oldest_cursor ?ring)) (older @ rest) = older"
    using tail_gate_exact [OF l(2,4,5), of None] unfolding oldest_cursor_def
    by (simp add: tail_gate_def split: option.splits)
  have deep: "deep = take ?n (filter (after_opt from) (older @ rest))"
    using page_exact [OF wf page] l(3) by simp
  let ?p = "before_opt (oldest_cursor ?ring)"
  let ?A = "filter (after_opt from) older" and ?R = "filter (after_opt from) (ring_envs ?ring)"
  have "distinct (older @ rest)"
    using ev(2) l(1) by (metis append_assoc distinct_append distinct_filter distinct_map)
  then have sides: "\<forall>e \<in> set older. ?p e" "\<forall>e \<in> set rest. \<not> ?p e"
    using arg_cong [OF gate, of set] by auto
  have leg: "filter (\<lambda>e. ?p e \<and> after_opt from e) deep = take ?n ?A"
  proof -
    have "filter (\<lambda>e. ?p e \<and> after_opt from e) (take ?n ?A) = take ?n ?A"
      using sides(1) by (intro filter_True) (auto dest!: in_set_takeD)
    moreover have "filter (\<lambda>e. ?p e \<and> after_opt from e) (take m (filter (after_opt from) rest)) = []" for m
      using sides(2) by (auto simp: filter_empty_conv dest!: in_set_takeD)
    ultimately show ?thesis by (simp add: deep)
  qed
  have "subseq (take ?n ?A) older" "subseq ?R (ring_envs ?ring)"
    by (rule subseq_order.trans [OF prefix_imp_subseq [OF take_is_prefix] subseq_filter_left], rule subseq_filter_left)
  then have "subseq (take ?n ?A @ ?R) ?view" by (rule list_emb_append_mono)
  then have sub': "sorted_wrt (<) (map env_cursor (take ?n ?A @ ?R))" "set (take ?n ?A @ ?R) \<subseteq> set ?view"
    by (rule subseq_cursors(1) [OF _ srt], rule subseq_cursors(2))
  have "dedup_ids (sort_key (\<lambda>e. (en_seq e, en_event_id e)) (take ?n ?A @ ?R)) = take ?n ?A @ ?R"
    by (intro merge_unique sub'(1) refl sorted_ids [OF sub' ids])
  then have "es = take ?n (take ?n ?A @ ?R)"
    using es leg by (simp add: replay_after_def)
  also have "\<dots> = take ?n (filter (after_opt from) ?view)"
    by (simp only: take_window filter_append)
  finally have "es = take ?n (filter (after_opt from) ?view)" .
  moreover have "\<forall>e \<in> set older. env_durable e"
    using arg_cong [OF l(1), of set] by auto
  then have "filter env_durable ?view = filter env_durable (bs_events b ch)"
    using l(1,2) by (simp add: filter_True)
  ultimately show thesis using srt that by blast
qed

text \<open>A bounded history query: the first, or the last, \<open>limit\<close> matching durables of the range.\<close>

lemma matching_exact:
  assumes inv: "store_inv rows wf b"
    and res: "router_matching_history d ops (bs_router b) ch after through rule limit tail = Inr es"
  shows "es = kept limit tail (filter (\<lambda>e. in_range after through e \<and> matches_history d e rule) (bs_events b ch))"
proof (cases "limit = 0")
  case True
  then show ?thesis using res by (auto simp: router_matching_history_def kept_def)
next
  case False
  let ?rt = "bs_router b" and ?H = "\<lambda>e. in_range after through e \<and> matches_history d e rule"
  let ?ring = "cs_ring (state_of ?rt ch)"
  obtain older rest queued where l: "filter env_durable (bs_events b ch) = older @ rest @ queued"
      "filter env_durable (ring_envs ?ring) = rest @ queued"
      "rows (rt_sink ?rt) ch = older @ rest"
    by (rule legs [OF inv])
  have ev: "sorted_wrt (<) (map env_cursor (bs_events b ch))" "distinct (map en_event_id (bs_events b ch))"
    and wf: "wf (rt_sink ?rt)"
    using inv by (auto simp: store_inv_def events_ok_def)
  have H: "filter ?H xs = filter ?H (filter env_durable xs)" for xs
    by (auto simp: in_range_def intro!: filter_cong)
  let ?a = "filter ?H older" and ?b = "filter ?H rest" and ?c = "filter ?H queued"
  have all: "filter ?H (bs_events b ch) = ?a @ ?b @ ?c"
    using H [of "bs_events b ch"] l(1) by simp
  have hot: "filter ?H (ring_envs ?ring) = ?b @ ?c"
    using H [of "ring_envs ?ring"] l(2) by simp
  obtain page where page: "so_page_matching ops (rt_sink ?rt) ch after through rule limit tail = Inr page"
    and es: "es = kept limit tail (dedup_ids (sort_key (\<lambda>e. (en_seq e, en_event_id e))
      (filter ?H (ring_envs ?ring) @ page)))"
    using res False
    by (cases rule: ring_at_cases [of ?rt ch])
      (auto simp: router_matching_history_def Let_def res_bind_eq_Inr kept_def rev_take split: if_splits)
  have p: "page = kept limit tail (?a @ ?b)"
    using page_matching_exact [OF wf page] l(3) by simp
  have srt: "sorted_wrt (<) (map env_cursor (?a @ ?b @ ?c))"
    unfolding all [symmetric] using ev(1) by (simp add: sorted_wrt_map sorted_wrt_filter)
  have merged: "dedup_ids (sort_key (\<lambda>e. (en_seq e, en_event_id e)) xs) = x @ ?b @ ?c"
    if "set xs = set (x @ ?b @ ?c)" "subseq x ?a" for xs x
  proof -
    have "subseq (x @ ?b @ ?c) (?a @ ?b @ ?c)" using that(2) by (intro list_emb_append_mono) auto
    then have s: "sorted_wrt (<) (map env_cursor (x @ ?b @ ?c))" and "set (x @ ?b @ ?c) \<subseteq> set (?a @ ?b @ ?c)"
      by (rule subseq_cursors(1) [OF _ srt], rule subseq_cursors(2))
    then have "set (x @ ?b @ ?c) \<subseteq> set (bs_events b ch)"
      unfolding all [symmetric] by auto
    then show ?thesis
      by (intro merge_unique s that(1) sorted_ids [OF s _ ev(2)])
  qed
  have part: "\<exists>x. subseq x ?a \<and> set (?b @ ?c @ page) = set (x @ ?b @ ?c) \<and>
      kept limit tail (x @ ?b @ ?c) = kept limit tail (?a @ ?b @ ?c)"
  proof (cases tail)
    case True
    let ?x = "newest (limit - length ?b) ?a"
    have "subseq ?x ?a" by (rule newest_facts)
    moreover have "set (?b @ ?c @ page) = set (?x @ ?b @ ?c)"
      using True newest_facts(3) [of limit ?b] by (auto simp: p newest_facts(1,2) newest_append)
    moreover have "kept limit tail (?x @ ?b @ ?c) = kept limit tail (?a @ ?b @ ?c)"
      using True by (simp add: newest_facts(1,4) newest_append)
    ultimately show ?thesis by blast
  next
    case False
    have "subseq (take limit ?a) ?a" by (intro prefix_imp_subseq take_is_prefix)
    moreover have "set (?b @ ?c @ page) = set (take limit ?a @ ?b @ ?c)"
      using False by (auto simp: p kept_def dest: in_set_takeD)
    moreover have "kept limit tail (take limit ?a @ ?b @ ?c) = kept limit tail (?a @ ?b @ ?c)"
      using False by (simp only: kept_def take_window if_False)
    ultimately show ?thesis by blast
  qed
  then obtain x where x: "subseq x ?a" "set (?b @ ?c @ page) = set (x @ ?b @ ?c)"
      "kept limit tail (x @ ?b @ ?c) = kept limit tail (?a @ ?b @ ?c)"
    by blast
  have "es = kept limit tail (x @ ?b @ ?c)"
    unfolding es hot append_assoc merged [OF x(2,1)] ..
  then show ?thesis unfolding x(3) all .
qed

text \<open>A count that does not say there are more is exact: no durable is missed, none is counted twice.\<close>

lemma count_exact:
  assumes inv: "store_inv rows wf b"
    and res: "router_count_matching ops (bs_router b) ch after through headers exclude = Inr n"
    and complete: "\<not> hc_more n"
  shows "n = fold (\<lambda>t c. with_event c t)
    (map en_occurred_at_ms (filter (counted after through headers exclude) (bs_events b ch))) history_count_default"
proof -
  let ?rt = "bs_router b" and ?C = "\<lambda>a t. counted a t headers exclude"
  let ?ring = "cs_ring (state_of ?rt ch)"
  let ?count = "\<lambda>es. fold (\<lambda>t c. with_event c t) (map en_occurred_at_ms es) history_count_default"
  obtain older rest queued where l: "filter env_durable (bs_events b ch) = older @ rest @ queued"
      "filter env_durable (ring_envs ?ring) = rest @ queued"
      "rows (rt_sink ?rt) ch = older @ rest"
    by (rule legs [OF inv])
  have ev: "sorted_wrt (<) (map env_cursor (bs_events b ch))" and wf: "wf (rt_sink ?rt)"
    using inv by (auto simp: store_inv_def events_ok_def)
  have srt: "sorted_wrt (<) (map env_cursor (older @ rest @ queued))"
    unfolding l(1) [symmetric] using ev by (simp add: sorted_wrt_map sorted_wrt_filter)
  have C: "filter (?C a t) xs = filter (?C a t) (filter env_durable xs)" for a t xs
    by (auto simp: counted_def in_range_def intro!: filter_cong)
  obtain head durable where h: "so_head_cursor ops (rt_sink ?rt) ch = Inr head" and
      d: "(let t = (case head of Some h \<Rightarrow> if is_after through h then h else through | None \<Rightarrow> after) in
        (if is_after t after then so_count_matching ops (rt_sink ?rt) ch after t headers exclude
         else Inr history_count_default) = Inr durable \<and>
        n = hc_merge durable (?count (filter (?C (if is_after t after then t else after) through) (ring_envs ?ring))))"
    using res
    by (cases rule: ring_at_cases [of ?rt ch]) (auto simp: router_count_matching_def Let_def res_bind_eq_Inr)
  define t where "t = (case head of Some h \<Rightarrow> if is_after through h then h else through | None \<Rightarrow> after)"
  have hd: "head = map_option env_cursor (last_opt (older @ rest))"
    using head_cursor_exact [OF wf h] l(3) by simp
  have low: "env_cursor e \<le> t" if "e \<in> set (older @ rest)" "env_cursor e \<le> through" for e
    using that srt hd unfolding append_assoc [symmetric]
    by (cases "older @ rest" rule: rev_cases) (auto simp: t_def last_opt_def sorted_wrt_append less_imp_le)
  have high: "through < env_cursor e \<or> t < env_cursor e" if "e \<in> set queued" "older @ rest \<noteq> []" for e
    using that srt hd unfolding append_assoc [symmetric]
    by (cases "older @ rest" rule: rev_cases) (auto simp: t_def last_opt_def sorted_wrt_append)
  have bound: "t \<le> through \<or> t = after"
    by (auto simp: t_def split: option.split)
  have empty: "older @ rest = [] \<Longrightarrow> t = after"
    using hd by (auto simp: t_def last_opt_def)
  have dur: "durable = ?count (filter (?C after through) (older @ rest))"
  proof (cases "after < t")
    case True
    then have c: "so_count_matching ops (rt_sink ?rt) ch after t headers exclude = Inr durable"
      and more: "\<not> hc_more durable"
      using d complete by (auto simp: t_def Let_def hc_merge_def)
    have "filter (?C after t) (older @ rest) = filter (?C after through) (older @ rest)"
      using low bound True by (intro filter_cong) (auto simp: counted_def in_range_def not_less)
    then show ?thesis
      using count_matching_exact [OF wf c] more l(3) of_newest_complete
      by (metis rev_map)
  next
    case False
    then have "durable = history_count_default" using d by (auto simp: t_def Let_def)
    moreover have "filter (?C after through) (older @ rest) = []"
      using low False by (fastforce simp: filter_empty_conv counted_def in_range_def not_less)
    ultimately show ?thesis by simp
  qed
  let ?p = "if after < t then t else after"
  have pend: "filter (?C ?p through) (rest @ queued) = filter (?C after through) queued"
  proof -
    have "filter (?C ?p through) rest = []"
      using low by (fastforce simp: filter_empty_conv counted_def in_range_def not_less)
    moreover have "t < env_cursor e" if "e \<in> set queued" "after < t" "env_cursor e \<le> through" for e
      using high [OF that(1)] empty that by (auto simp: not_less [symmetric])
    then have "filter (?C ?p through) queued = filter (?C after through) queued"
      by (intro filter_cong) (auto simp: counted_def in_range_def not_less dest: order.strict_trans)
    ultimately show ?thesis by simp
  qed
  have "n = hc_merge durable (?count (filter (?C ?p through) (rest @ queued)))"
    using d C [of ?p through "ring_envs ?ring"] l(2) by (auto simp: t_def Let_def)
  then show ?thesis
    unfolding dur pend merge_counts using C [of after through "bs_events b ch"] l(1) by simp
qed

end

end
