(* ===== verification/Bus_Subscribe.thy ===== *)
theory Bus_Subscribe
  imports Bus_History
begin

text \<open>
  The stream a subscription returns (\<open>airc-bus/src/router/subscribe.rs\<close>): the deep leg pages
  the sink, the ring leg yields the snapshot taken at registration, the live leg drains the
  subscriber's queue; one high-watermark runs through all three. Each query of the deep leg
  runs in whatever state the sink has by then, so the leg is a function of the sequence of
  sink states its queries find. Whether the leg ends depends on that sequence, which is why
  it is a partial function.
\<close>

section \<open>The three legs\<close>

definition DEEP_REPLAY_PAGE :: nat where
  "DEEP_REPLAY_PAGE = 1024"

definition after_gate :: "cursor option \<Rightarrow> envelope \<Rightarrow> bool" where
  "after_gate high e = (case high of Some h \<Rightarrow> is_after (env_cursor e) h | None \<Rightarrow> True)"

text \<open>One page of the deep leg: what it yields, the watermark, and whether it left the leg.\<close>

fun deep_rows ::
  "bus_filter \<Rightarrow> cursor option \<Rightarrow> cursor option \<Rightarrow> envelope list \<Rightarrow> envelope list \<times> cursor option \<times> bool" where
  "deep_rows f ring_oldest high [] = ([], high, False)"
| "deep_rows f ring_oldest high (e # es) =
     (if is_some_and ring_oldest (\<lambda>oldest. \<not> is_before (env_cursor e) oldest) then ([], high, True)
      else if after_gate high e \<and> bus_filter_matches f e then
        (case deep_rows f ring_oldest (Some (env_cursor e)) es of (ys, h, broke) \<Rightarrow> (e # ys, h, broke))
      else deep_rows f ring_oldest high es)"

partial_function (option) deep_loop ::
  "'s sink_ops \<Rightarrow> (nat \<Rightarrow> 's) \<Rightarrow> bus_filter \<Rightarrow> cursor option \<Rightarrow> nat \<Rightarrow> cursor option \<Rightarrow> cursor option
   \<Rightarrow> (envelope list \<times> cursor option) option" where
  "deep_loop ops sinks f ring_oldest i page_from high =
     (let deep = (case fst (so_page ops (sinks i) (bf_channel f) page_from DEEP_REPLAY_PAGE) of
                    Inr es \<Rightarrow> es | Inl _ \<Rightarrow> []);
          full_page = (DEEP_REPLAY_PAGE \<le> length deep);
          last_cursor = map_option env_cursor (last_opt deep);
          (ys, high, broke) = deep_rows f ring_oldest high deep
      in if broke \<or> \<not> full_page then Some (ys, high)
         else (case last_cursor of
                 None \<Rightarrow> Some (ys, high)
               | Some next_from \<Rightarrow>
                   Option.bind (deep_loop ops sinks f ring_oldest (Suc i) (Some next_from) high)
                     (\<lambda>(zs, high). Some (ys @ zs, high))))"

fun ring_leg :: "bus_filter \<Rightarrow> cursor option \<Rightarrow> envelope list \<Rightarrow> envelope list \<times> cursor option" where
  "ring_leg f high [] = ([], high)"
| "ring_leg f high (e # es) =
     (if after_gate high e \<and> bus_filter_matches f e then
        (case ring_leg f (Some (env_cursor e)) es of (ys, h) \<Rightarrow> (e # ys, h))
      else ring_leg f high es)"

fun live_leg :: "cursor option \<Rightarrow> envelope list \<Rightarrow> envelope list \<times> cursor option" where
  "live_leg high [] = ([], high)"
| "live_leg high (e # es) =
     (if after_gate high e then
        (case live_leg (Some (env_cursor e)) es of (ys, h) \<Rightarrow> (e # ys, h))
      else live_leg high es)"

text \<open>What the stream has yielded once it has received \<open>live\<close> from its queue.\<close>

definition stream_items ::
  "'s sink_ops \<Rightarrow> (nat \<Rightarrow> 's) \<Rightarrow> sub_stream \<Rightarrow> envelope list \<Rightarrow> envelope list option" where
  "stream_items ops sinks st live =
     Option.bind
       (if st_live_only st then Some ([], st_from_cursor st)
        else deep_loop ops sinks (st_filter st) (st_ring_oldest st) 0 (st_from_cursor st) (st_from_cursor st))
       (\<lambda>(deep, high).
          let (recent, high) = ring_leg (st_filter st) high (st_ring_snapshot st)
          in Some (deep @ recent @ fst (live_leg high live)))"

section \<open>Gated legs\<close>

abbreviation cursor_sorted :: "envelope list \<Rightarrow> bool" where
  "cursor_sorted es \<equiv> sorted_wrt (<) (map env_cursor es)"

lemma after_gate_opt [simp]: "after_gate high = after_opt high"
  by (simp add: after_gate_def fun_eq_iff split: option.split)

definition high_after :: "cursor option \<Rightarrow> envelope list \<Rightarrow> cursor option" where
  "high_after high ys = (case last_opt ys of None \<Rightarrow> high | Some e \<Rightarrow> Some (env_cursor e))"

lemma high_after_Nil [simp]: "high_after high [] = high"
  by (simp add: high_after_def last_opt_def)

lemma high_after_Cons [simp]: "high_after high (e # ys) = high_after (Some (env_cursor e)) ys"
  by (simp add: high_after_def last_opt_def)

lemma high_after_append [simp]: "high_after high (xs @ ys) = high_after (high_after high xs) ys"
  by (induction xs arbitrary: high) simp_all

lemma opt_mono:
  "after_opt high a \<Longrightarrow> env_cursor a < env_cursor e \<Longrightarrow> after_opt high e"
  "before_opt oldest e \<Longrightarrow> env_cursor a < env_cursor e \<Longrightarrow> before_opt oldest a"
  by (cases high; cases oldest; force dest: order.strict_trans)+

text \<open>Rows that sort after everything yielded pass the raised watermark when they pass the first.\<close>

lemma high_after_passed:
  "\<forall>y \<in> set ys. env_cursor y < env_cursor e \<Longrightarrow> \<forall>y \<in> set ys. after_opt high y \<Longrightarrow>
   after_opt (high_after high ys) e \<longleftrightarrow> after_opt high e"
  by (cases ys rule: rev_cases) (auto simp: high_after_def last_opt_def intro: opt_mono)

lemma filter_raised:
  assumes "\<forall>x \<in> set es. \<forall>y \<in> set ys. env_cursor y < env_cursor x" "\<forall>y \<in> set ys. after_opt high y"
  shows "filter (\<lambda>e. after_opt (high_after high ys) e \<and> m e) es = filter (\<lambda>e. after_opt high e \<and> m e) es"
  using assms high_after_passed by (intro filter_cong) auto

lemma sorted_tail_above:
  "cursor_sorted (e # es) \<Longrightarrow>
   filter (\<lambda>x. after_opt (Some (env_cursor e)) x \<and> m x) es = filter m es"
  by (auto intro!: filter_cong)

lemma filter_above:
  assumes "cursor_sorted (e # es)" "after_opt high e"
  shows "filter (\<lambda>x. after_opt high x \<and> m x) es = filter m es"
  using assms by (intro filter_cong) (auto intro: opt_mono)

lemma ring_leg_exact:
  "cursor_sorted es \<Longrightarrow>
   ring_leg f high es =
     (let ys = filter (\<lambda>e. after_opt high e \<and> bus_filter_matches f e) es in (ys, high_after high ys))"
proof (induction es arbitrary: high)
  case (Cons e es)
  show ?case
  proof (cases "after_opt high e \<and> bus_filter_matches f e")
    case True
    then show ?thesis
      using Cons sorted_tail_above [OF Cons.prems] filter_above [OF Cons.prems, of high]
      by (simp add: Let_def)
  qed (use Cons in \<open>auto simp: Let_def\<close>)
qed simp

lemma live_leg_exact:
  "cursor_sorted es \<Longrightarrow> fst (live_leg high es) = filter (after_opt high) es"
proof (induction es arbitrary: high)
  case (Cons e es)
  show ?case
  proof (cases "after_opt high e")
    case True
    then show ?thesis
      using Cons sorted_tail_above [OF Cons.prems, of "\<lambda>_. True"]
        filter_above [OF Cons.prems True, of "\<lambda>_. True"]
      by (simp add: split_beta)
  qed (use Cons in auto)
qed simp

lemma deep_rows_exact:
  "cursor_sorted es \<Longrightarrow>
   deep_rows f ring_oldest high es =
     (let ys = filter (\<lambda>e. after_opt high e \<and> before_opt ring_oldest e \<and> bus_filter_matches f e) es
      in (ys, high_after high ys, \<not> list_all (before_opt ring_oldest) es))"
proof (induction es arbitrary: high)
  case (Cons e es)
  show ?case
  proof (cases "before_opt ring_oldest e")
    case False
    then have "\<not> before_opt ring_oldest x" if "x \<in> set es" for x
      using that Cons.prems by (auto dest: opt_mono(2))
    then show ?thesis
      using False by (auto simp: Let_def filter_empty_conv is_none_or_def is_some_and_def split: option.splits)
  next
    case True
    then have stay: "\<not> is_some_and ring_oldest (\<lambda>oldest. \<not> is_before (env_cursor e) oldest)"
      by (cases ring_oldest) auto
    show ?thesis
    proof (cases "after_opt high e \<and> bus_filter_matches f e")
      case T: True
      then show ?thesis
        using Cons stay True sorted_tail_above [OF Cons.prems] filter_above [OF Cons.prems, of high]
        by (simp add: Let_def)
    next
      case F: False
      then show ?thesis using Cons stay True by (auto simp: Let_def)
    qed
  qed
qed simp

section \<open>The deep leg\<close>

text \<open>
  The durables \<open>D\<close> of a channel in cursor order; a query that succeeds finds some prefix of
  them, at least the first \<open>n0\<close>. A cursor stands at index \<open>j\<close> when the rows after it are
  those from \<open>j\<close> on.
\<close>

definition at_index :: "envelope list \<Rightarrow> cursor option \<Rightarrow> nat \<Rightarrow> bool" where
  "at_index D c j \<longleftrightarrow> j \<le> length D \<and> (\<forall>i < length D. after_opt c (D ! i) \<longleftrightarrow> j \<le> i)"

definition pages_of :: "'s sink_ops \<Rightarrow> (nat \<Rightarrow> 's) \<Rightarrow> room_id \<Rightarrow> envelope list \<Rightarrow> nat \<Rightarrow> bool" where
  "pages_of ops sinks ch D n0 \<longleftrightarrow>
     (\<forall>i c. \<exists>k s. n0 \<le> k \<and>
        so_page ops (sinks i) ch c DEEP_REPLAY_PAGE =
          (Inr (take DEEP_REPLAY_PAGE (filter (after_opt c) (take k D))), s))"

lemma at_index_exists: "cursor_sorted D \<Longrightarrow> \<exists>j. at_index D c j"
proof (induction D rule: rev_induct)
  case (snoc x D)
  then obtain j where j: "at_index D c j" by (auto simp: sorted_wrt_append)
  show ?case
  proof (cases "j = length D \<and> \<not> after_opt c x")
    case True
    then show ?thesis
      using j by (intro exI [of _ "Suc j"]) (auto simp: at_index_def nth_append less_Suc_eq)
  next
    case False
    have "after_opt c x" if "j < length D"
      using that j snoc.prems by (auto simp: at_index_def sorted_wrt_append intro: opt_mono dest: nth_mem)
    then show ?thesis
      using j False by (intro exI [of _ j]) (auto simp: at_index_def nth_append less_Suc_eq)
  qed
qed (auto simp: at_index_def)

lemma filter_at_index:
  assumes "at_index D c j" "k \<le> length D"
  shows "filter (after_opt c) (take k D) = drop j (take k D)"
proof -
  have "filter (after_opt c) (take k D) = filter (after_opt c) (take j (take k D) @ drop j (take k D))"
    by (simp only: append_take_drop_id)
  also have "\<dots> = drop j (take k D)"
  proof -
    have "filter (after_opt c) (take j (take k D)) = []"
      using assms by (fastforce simp: filter_empty_conv in_set_conv_nth at_index_def)
    moreover have "filter (after_opt c) (drop j (take k D)) = drop j (take k D)"
      using assms by (fastforce simp: filter_id_conv in_set_conv_nth at_index_def)
    ultimately show ?thesis by (simp only: filter_append append_Nil)
  qed
  finally show ?thesis .
qed

lemma at_index_cursor:
  assumes "cursor_sorted D" "i < length D"
  shows "at_index D (Some (env_cursor (D ! i))) (Suc i)"
proof -
  have "env_cursor (D ! a) < env_cursor (D ! b)" if "a < b" "b < length D" for a b
    using assms(1) that by (simp add: sorted_wrt_iff_nth_less)
  then show ?thesis
    using assms(2) by (auto simp: at_index_def Suc_le_eq) (metis linorder_neqE_nat order.asym order.irrefl)
qed

lemma drop_take_split:
  assumes "j + p \<le> n"
  shows "drop j (take n D) = take p (drop j D) @ drop (j + p) (take n D)"
proof -
  have "take p (drop j (take n D)) = take p (drop j D)"
    using assms by (simp add: drop_take min_def)
  moreover have "drop p (drop j (take n D)) = drop (j + p) (take n D)"
    by (simp only: drop_drop add.commute)
  ultimately show ?thesis by (metis append_take_drop_id)
qed

lemma deep_loop_exact:
  assumes srt: "cursor_sorted D" and pages: "pages_of ops sinks (bf_channel f) D n0" and n0: "n0 \<le> length D"
    and at: "at_index D page_from j"
  shows "\<exists>n ys. n0 \<le> n \<and> n \<le> length D \<and>
    ys = filter (\<lambda>e. after_opt high e \<and> before_opt ring_oldest e \<and> bus_filter_matches f e) (drop j (take n D)) \<and>
    deep_loop ops sinks f ring_oldest i page_from high = Some (ys, high_after high ys)"
  using at
proof (induction "length D - j" arbitrary: i page_from high j rule: less_induct)
  case less
  let ?Q = "\<lambda>high e. after_opt high e \<and> before_opt ring_oldest e \<and> bus_filter_matches f e"
  obtain k s where k: "n0 \<le> k" "so_page ops (sinks i) (bf_channel f) page_from DEEP_REPLAY_PAGE =
      (Inr (take DEEP_REPLAY_PAGE (filter (after_opt page_from) (take k D))), s)"
    using pages unfolding pages_of_def by blast
  define k' where "k' = min k (length D)"
  define page where "page = take DEEP_REPLAY_PAGE (drop j (take k' D))"
  have "take k D = take k' D" by (simp add: k'_def min_def)
  then have read: "fst (so_page ops (sinks i) (bf_channel f) page_from DEEP_REPLAY_PAGE) = Inr page"
    using filter_at_index [OF less.prems, of k'] by (simp add: k(2) page_def k'_def)
  let ?j = "j + DEEP_REPLAY_PAGE"
  have page_srt: "cursor_sorted page"
    using srt by (auto simp: page_def sorted_wrt_take sorted_wrt_drop take_map [symmetric] drop_map [symmetric])
  let ?ys = "filter (?Q high) page"
  have rows: "deep_rows f ring_oldest high page =
      (?ys, high_after high ?ys, \<not> list_all (before_opt ring_oldest) page)"
    using deep_rows_exact [OF page_srt] by (simp add: Let_def)
  have loop: "deep_loop ops sinks f ring_oldest i page_from high =
      (if \<not> list_all (before_opt ring_oldest) page \<or> length page < DEEP_REPLAY_PAGE
       then Some (?ys, high_after high ?ys)
       else case last_opt page of None \<Rightarrow> Some (?ys, high_after high ?ys)
         | Some e \<Rightarrow> Option.bind (deep_loop ops sinks f ring_oldest (Suc i) (Some (env_cursor e)) (high_after high ?ys))
             (\<lambda>(zs, high). Some (?ys @ zs, high)))"
    unfolding deep_loop.simps [of ops sinks f ring_oldest i page_from high] read Let_def sum.case rows prod.case
    by (auto split: option.split)
  show ?case
  proof (cases "length page < DEEP_REPLAY_PAGE")
    case True
    then have "page = drop j (take k' D)" by (simp add: page_def)
    then show ?thesis
      using True k(1) n0 by (intro exI [of _ k']) (simp add: loop k'_def)
  next
    case False
    then have j: "?j \<le> k'" "k' \<le> length D" by (auto simp: page_def k'_def DEEP_REPLAY_PAGE_def)
    then have page: "page = take DEEP_REPLAY_PAGE (drop j D)"
      by (simp add: page_def drop_take min_def)
    have split: "drop j (take n D) = page @ drop ?j (take n D)" if "?j \<le> n" for n
      unfolding page by (rule drop_take_split [OF that])
    have above: "\<forall>x \<in> set (drop ?j (take n D)). \<forall>y \<in> set page. env_cursor y < env_cursor x" for n
    proof (cases "?j \<le> n")
      case True
      have "cursor_sorted (drop j (take n D))"
        using srt by (simp add: sorted_wrt_take sorted_wrt_drop take_map [symmetric] drop_map [symmetric])
      then show ?thesis unfolding split [OF True] by (auto simp: sorted_wrt_append)
    qed simp
    show ?thesis
    proof (cases "list_all (before_opt ring_oldest) page")
      case True
      have "page ! (DEEP_REPLAY_PAGE - 1) = D ! (?j - 1)" "page \<noteq> []"
        using j False by (auto simp: page DEEP_REPLAY_PAGE_def add.commute)
      moreover have "length page = DEEP_REPLAY_PAGE" using j False by (simp add: page)
      ultimately have last: "last_opt page = Some (D ! (?j - 1))"
        by (simp add: last_opt_def last_conv_nth)
      have "?j - 1 < length D" "Suc (?j - 1) = ?j" using j by (auto simp: DEEP_REPLAY_PAGE_def)
      then have "at_index D (Some (env_cursor (D ! (?j - 1)))) ?j"
        using at_index_cursor [OF srt] by metis
      moreover have "length D - ?j < length D - j" using j by (simp add: DEEP_REPLAY_PAGE_def)
      ultimately obtain n zs where n: "n0 \<le> n" "n \<le> length D"
          "zs = filter (?Q (high_after high ?ys)) (drop ?j (take n D))"
          "deep_loop ops sinks f ring_oldest (Suc i) (Some (env_cursor (D ! (?j - 1)))) (high_after high ?ys) =
            Some (zs, high_after (high_after high ?ys) zs)"
        using less.hyps by blast
      have zs: "zs = filter (?Q high) (drop ?j (take (max n ?j) D))"
      proof (cases "?j \<le> n")
        case True
        have "zs = filter (?Q high) (drop ?j (take n D))"
          unfolding n(3) using above [of n] by (intro filter_raised) auto
        then show ?thesis using True by (simp add: max_def)
      next
        case False
        then have "drop ?j (take n D) = []" "drop ?j (take (max n ?j) D) = []" by simp_all
        then show ?thesis unfolding n(3) by (simp only: filter.simps)
      qed
      have "filter (?Q high) (drop j (take (max n ?j) D)) = ?ys @ zs"
        unfolding zs split [of "max n ?j", OF max.cobounded2] by (simp only: filter_append)
      moreover have "deep_loop ops sinks f ring_oldest i page_from high =
          Some (?ys @ zs, high_after high (?ys @ zs))"
        unfolding loop using False True by (simp add: last n(4) [unfolded One_nat_def])
      moreover have "n0 \<le> max n ?j" "max n ?j \<le> length D" using n j by auto
      ultimately show ?thesis by (intro exI [of _ "max n ?j"] exI [of _ "?ys @ zs"] conjI) simp_all
    next
      case broke: False
      then obtain y where y: "y \<in> set page" "\<not> before_opt ring_oldest y" by (auto simp: list_all_iff)
      then have "filter (?Q high) (drop ?j D) = []"
        using above [of "length D"] opt_mono(2) by (force simp: filter_empty_conv)
      then have "filter (?Q high) (drop j D) = ?ys"
        using split [of "length D"] j by simp
      then show ?thesis
        using broke n0 by (intro exI [of _ "length D"]) (simp add: loop)
    qed
  qed
qed

end
