(* ===== verification/Bus_Exactly_Once.thy ===== *)
theory Bus_Exactly_Once
  imports Bus_Subscribe
begin

text \<open>
  A subscription over its whole life: the state it is taken in, the states its deep queries
  find, and the state it has reached when its queue is drained. The replay and the live
  legs together deliver every matching durable after the cursor exactly once.
\<close>

section \<open>What later states keep\<close>

definition later :: "('s \<Rightarrow> room_id \<Rightarrow> envelope list) \<Rightarrow> 's bus \<Rightarrow> 's bus \<Rightarrow> bool" where
  "later rows b b' \<longleftrightarrow>
     (\<forall>ch. prefix (bs_events b ch) (bs_events b' ch)) \<and>
     (\<forall>ch. prefix (rows (rt_sink (bs_router b)) ch) (rows (rt_sink (bs_router b')) ch)) \<and>
     rt_next_subscription (bs_router b) \<le> rt_next_subscription (bs_router b') \<and>
     (\<forall>sid < rt_next_subscription (bs_router b). bs_since b' sid = bs_since b sid \<and>
        (\<forall>ch h. (sid, h) \<in> set (bs_subs b' ch) \<longrightarrow> (sid, h) \<in> set (bs_subs b ch)))"

lemma later_refl: "later rows b b"
  by (simp add: later_def)

lemma later_trans: "later rows a b \<Longrightarrow> later rows b c \<Longrightarrow> later rows a c"
  unfolding later_def by (auto dest: order.strict_trans2 intro: prefix_order.trans order.trans)

lemma later_frame:
  assumes "rt_sink (bs_router b') = rt_sink (bs_router b)"
    "rt_next_subscription (bs_router b') = rt_next_subscription (bs_router b)"
    "bs_since b' = bs_since b" "\<And>ch. set (bs_subs b' ch) \<subseteq> set (bs_subs b ch)"
    "\<And>ch. prefix (bs_events b ch) (bs_events b' ch)"
  shows "later rows b b'"
  using assms by (auto simp: later_def)

lemma later_accept:
  assumes "publish_from d rt0 now_ms e origin = (Inr s, rt')" "rt_shards rt0 \<noteq> []"
    "same_core (bs_router b) rt0"
  shows "later rows b (accept b rt' x)"
  using publish_spec [OF assms(1,2)] assms(3) by (intro later_frame) (auto simp: accept_def same_core_def)

lemma word_less_suc': "b < - 1 \<Longrightarrow> b < b + 1" for b :: u64
  by (simp add: word_less_nat_alt word_suc_less)

context durable_sink
begin

lemma append_rows:
  assumes inv: "store_inv rows wf b" and app: "wb_append ops (bs_router b) = Some rt'"
  shows "prefix (rows (rt_sink (bs_router b)) ch) (rows (rt_sink rt') ch)"
proof -
  let ?rt = "bs_router b"
  obtain q s where a: "so_append_batch ops (rt_sink ?rt) (rt_batch ?rt) = (q, s)"
    by (cases "so_append_batch ops (rt_sink ?rt) (rt_batch ?rt)")
  have "rt_sink rt' = s"
    using app a by (auto simp: wb_append_def split: if_splits sum.splits)
  have "wf (rt_sink ?rt)" "pending_ok rows b" using inv by (auto simp: store_inv_def)
  then obtain pre post where p: "rt_batch ?rt = pre @ post"
      "\<forall>e \<in> set pre. e \<in> set (rows (rt_sink ?rt) (en_channel e))"
      "\<And>ch. filter env_durable (bs_events b ch) =
        rows (rt_sink ?rt) ch @ on_channel ch (post @ rt_write_behind ?rt)"
    by (elim pending_okE) blast
  then obtain stored rest where
      "\<forall>ch. rows s ch = rows (rt_sink ?rt) ch @ on_channel ch stored"
    using append_batch_exact [OF \<open>wf (rt_sink ?rt)\<close> a [unfolded p(1)] p(2) pending_sorted [OF inv p(1) p(3)]]
    by blast
  then show ?thesis using \<open>rt_sink rt' = s\<close> by simp
qed

lemma step_later:
  assumes step: "bus_step d ops b b'" and inv: "store_inv rows wf b" "subs_ok b"
  shows "later rows b b'"
  using step
proof cases
  case (bus_publish now_ms e origin s rt')
  then show ?thesis using later_accept [OF bus_publish(2) subs_okD(6) [OF inv(2)]] by simp
next
  case (bus_if_new now_ms e origin s rt')
  obtain rt0 where rt0: "same_core (bs_router b) rt0" "publish_from d rt0 now_ms e origin = (Inr s, rt')"
    by (rule if_new_published [OF bus_if_new(2)])
  moreover have "rt_shards rt0 \<noteq> []" using rt0(1) subs_okD(6) [OF inv(2)] by (simp add: same_core_def)
  ultimately show ?thesis using later_accept bus_if_new(1) by blast
next
  case (bus_refuse now_ms e origin err rt')
  then show ?thesis
    using publish_refused_core [OF bus_refuse(2)] by (intro later_frame) (simp_all add: same_core_def)
next
  case (bus_if_new_not now_ms e origin r rt')
  then show ?thesis
    using if_new_not_core [OF bus_if_new_not(2,3)] by (intro later_frame) (simp_all add: same_core_def)
next
  case (bus_append rt')
  moreover have "rt_next_subscription rt' = rt_next_subscription (bs_router b)"
    using bus_append(2) by (auto simp: wb_append_def split: if_splits sum.splits prod.splits)
  ultimately show ?thesis
    using append_rows [OF inv(1) bus_append(2)] by (simp add: later_def)
next
  case (bus_subscribe f from_cursor live_only st rt')
  note spec = subscribe_spec [OF bus_subscribe(2) subs_okD(6) [OF inv(2)]]
  have "rt_next_subscription (bs_router b) < rt_next_subscription (bs_router b) + 1"
    using bus_subscribe(3) by (intro word_less_suc')
  then show ?thesis
    using bus_subscribe(1) by (auto simp: later_def spec)
next
  case (bus_drop sid h ch rt')
  obtain st where "lookup_channel (bs_router b) (bf_channel (sh_filter h)) = Some st"
    by (rule live_lookup [OF inv(2) bus_drop(2)])
  note spec = drop_spec [OF this subs_okD(6) [OF inv(2)] bus_drop(3)]
  show ?thesis using bus_drop(1) by (intro later_frame) (auto simp: spec)
next
  case (bus_forward item r rt')
  then show ?thesis
    using forward_core(1) [OF bus_forward(2)] by (intro later_frame) (simp_all add: same_core_def)
next
  case (bus_forward_sink n)
  then show ?thesis by (intro later_frame) (auto simp: set_forward_sink_def)
qed (auto intro!: later_frame simp: wb_recv_def wb_try_recv_def wb_unpin_def sub_recv_def Let_def
    split: list.splits if_splits option.splits)

lemma reach_later:
  assumes "bus_reaches d ops b b'" "store_inv rows wf b" "subs_ok b"
  shows "later rows b b'"
  using assms unfolding bus_reaches_def
proof (induction rule: rtranclp_induct)
  case (step b1 b2)
  then have "store_inv rows wf b1 \<and> subs_ok b1"
    using reach_inv unfolding bus_reaches_def by blast
  then show ?case using step step_later later_trans by blast
qed (rule later_refl)

end

section \<open>The seam\<close>

lemma high_after_iff:
  assumes "cursor_sorted ys" "\<forall>y \<in> set ys. after_opt high y"
  shows "after_opt (high_after high ys) e \<longleftrightarrow> after_opt high e \<and> (\<forall>y \<in> set ys. env_cursor y < env_cursor e)"
  using assms
  by (cases ys rule: rev_cases)
    (auto simp: high_after_def last_opt_def sorted_wrt_append intro: opt_mono dest: order.strict_trans)

text \<open>
  Replaying \<open>V\<close> and then draining \<open>N\<close>: the result is in cursor order, and it has what passes
  of \<open>V\<close> and what passes of \<open>N\<close> above that.
\<close>

definition passes :: "cursor option \<Rightarrow> bus_filter \<Rightarrow> envelope \<Rightarrow> bool" where
  "passes fc f e \<longleftrightarrow> after_opt fc e \<and> bus_filter_matches f e"

definition seam :: "cursor option \<Rightarrow> bus_filter \<Rightarrow> envelope list \<Rightarrow> envelope list \<Rightarrow> envelope list" where
  "seam fc f V N =
     (let replay = filter (passes fc f) V
      in replay @ fst (live_leg (high_after fc replay) (filter (bus_filter_matches f) N)))"

lemma seam_props:
  assumes V: "cursor_sorted V" and N: "cursor_sorted N"
  shows "cursor_sorted (seam fc f V N)"
    and "e \<in> set (seam fc f V N) \<longleftrightarrow>
      passes fc f e \<and> (e \<in> set V \<or> e \<in> set N \<and> (\<forall>v \<in> set V. passes fc f v \<longrightarrow> env_cursor v < env_cursor e))"
    and "(\<forall>v \<in> set V. \<forall>e \<in> set N. env_cursor v < env_cursor e) \<Longrightarrow> seam fc f V N = filter (passes fc f) (V @ N)"
proof -
  let ?R = "filter (passes fc f) V"
  have R: "cursor_sorted ?R" "\<forall>y \<in> set ?R. after_opt fc y"
    using V by (auto simp: passes_def sorted_wrt_map sorted_wrt_filter)
  have N': "cursor_sorted (filter (bus_filter_matches f) N)"
    using N by (simp add: sorted_wrt_map sorted_wrt_filter)
  have eq: "seam fc f V N = ?R @ filter (\<lambda>e. passes fc f e \<and> (\<forall>y \<in> set ?R. env_cursor y < env_cursor e)) N"
    unfolding seam_def Let_def live_leg_exact [OF N'] high_after_iff [OF R]
    by (auto simp: passes_def intro!: filter_cong)
  show "cursor_sorted (seam fc f V N)"
    unfolding eq using R N by (auto simp: sorted_wrt_append sorted_wrt_map sorted_wrt_filter)
  show "e \<in> set (seam fc f V N) \<longleftrightarrow>
      passes fc f e \<and> (e \<in> set V \<or> e \<in> set N \<and> (\<forall>v \<in> set V. passes fc f v \<longrightarrow> env_cursor v < env_cursor e))"
    unfolding eq by auto
  show "seam fc f V N = filter (passes fc f) (V @ N)"
    if "\<forall>v \<in> set V. \<forall>e \<in> set N. env_cursor v < env_cursor e"
    unfolding eq using that by (auto intro!: filter_cong)
qed

lemma cursor_sorted_unique:
  assumes "cursor_sorted xs" "cursor_sorted ys" "set xs = set ys"
  shows "xs = ys"
proof (rule map_sorted_distinct_set_unique [where f = env_cursor])
  show "inj_on env_cursor (set xs \<union> set ys)"
    using assms by (simp add: strict_sorted_iff distinct_map)
qed (use assms in \<open>auto simp: strict_sorted_iff\<close>)

section \<open>Delivery\<close>

text \<open>The state just after a registration.\<close>

definition subscribed :: "'s bus \<Rightarrow> bus_filter \<Rightarrow> sub_stream \<Rightarrow> 's router \<Rightarrow> 's bus" where
  "subscribed b f st rt' =
     b\<lparr> bs_router := rt',
       bs_subs := (bs_subs b)(bf_channel f := bs_subs b (bf_channel f) @
         [(st_sid st, \<lparr> sh_tx = st_sid st, sh_filter = f \<rparr>)]),
       bs_since := (bs_since b)(st_sid st := length (bs_events b (bf_channel f))),
       bs_taken := (bs_taken b)(st_sid st := []) \<rparr>"

text \<open>
  The sink state of every query lies between the registration and the state reached, and
  the query succeeds.
\<close>

definition queries_between :: "bus_deps \<Rightarrow> 's sink_ops \<Rightarrow> (nat \<Rightarrow> 's) \<Rightarrow> room_id \<Rightarrow> 's bus \<Rightarrow> 's bus \<Rightarrow> bool" where
  "queries_between d ops sinks ch b b' \<longleftrightarrow>
     (\<forall>i. (\<exists>m. bus_reaches d ops b m \<and> bus_reaches d ops m b' \<and> sinks i = rt_sink (bs_router m)) \<and>
        (\<forall>c. \<exists>es s. so_page ops (sinks i) ch c DEEP_REPLAY_PAGE = (Inr es, s)))"

context durable_sink
begin

lemma pages_between:
  assumes inv: "store_inv rows wf b" "subs_ok b" and q: "queries_between d ops sinks ch b b'"
  shows "pages_of ops sinks ch (filter env_durable (bs_events b' ch)) (length (rows (rt_sink (bs_router b)) ch))"
  unfolding pages_of_def
proof (intro allI)
  fix i c
  let ?D = "filter env_durable (bs_events b' ch)" and ?rows = "rows (sinks i) ch"
  obtain m es s where m: "bus_reaches d ops b m" "bus_reaches d ops m b'" "sinks i = rt_sink (bs_router m)"
    and page: "so_page ops (sinks i) ch c DEEP_REPLAY_PAGE = (Inr es, s)"
    using q unfolding queries_between_def by blast
  have im: "store_inv rows wf m" "subs_ok m" using reach_inv [OF m(1) inv] by auto
  have "prefix ?rows (filter env_durable (bs_events m ch))"
    using im(1) m(3) unfolding store_inv_def by (metis pending_okE prefixI)
  moreover have "prefix (filter env_durable (bs_events m ch)) ?D"
    using reach_later [OF m(2) im] by (auto simp: later_def intro: filter_mono_prefix)
  ultimately have "?rows = take (length ?rows) ?D"
    by (metis prefix_order.trans prefix_def append_eq_conv_conj)
  moreover have "length (rows (rt_sink (bs_router b)) ch) \<le> length ?rows"
    using reach_later [OF m(1) inv] m(3) by (auto simp: later_def dest: prefix_length_le)
  moreover have "wf (sinks i)" using im(1) m(3) by (simp add: store_inv_def)
  ultimately show "\<exists>k s. length (rows (rt_sink (bs_router b)) ch) \<le> k \<and>
      so_page ops (sinks i) ch c DEEP_REPLAY_PAGE =
        (Inr (take DEEP_REPLAY_PAGE (filter (after_opt c) (take k ?D))), s)"
    using page page_exact [OF _ page] by (intro exI [of _ "length ?rows"] exI [of _ s]) simp
qed

lemma subscribed_inv:
  assumes inv: "store_inv rows wf b" "subs_ok b"
    and sub: "subscribe_mode (bs_router b) f fc live_only = (st, rt')"
    and less: "rt_next_subscription (bs_router b) < - 1"
  shows "bus_step d ops b (subscribed b f st rt')" "store_inv rows wf (subscribed b f st rt')"
    "subs_ok (subscribed b f st rt')"
proof -
  show step: "bus_step d ops b (subscribed b f st rt')"
    unfolding subscribed_def by (rule bus_subscribe [OF sub less])
  show "store_inv rows wf (subscribed b f st rt')" "subs_ok (subscribed b f st rt')"
    using step_store_inv [OF step inv] step_subs_ok [OF step inv(2,1)] .
qed

text \<open>The events a registration sees live are those accepted since.\<close>

lemma live_since:
  assumes inv: "store_inv rows wf b" "subs_ok b"
    and sub: "subscribe_mode (bs_router b) f fc live_only = (st, rt')"
    and less: "rt_next_subscription (bs_router b) < - 1"
    and reach: "bus_reaches d ops (subscribed b f st rt') b'"
    and reg: "(st_sid st, h) \<in> set (bs_subs b' (bf_channel f))"
    and c: "map_of (rt_chans (bs_router b')) (st_sid st) = Some c" "\<not> sc_lagged c"
  obtains N where "bs_events b' (bf_channel f) = bs_events b (bf_channel f) @ N"
    "bs_taken b' (st_sid st) @ sc_queue c = filter (bus_filter_matches f) N"
proof -
  let ?b = "subscribed b f st rt'" and ?ch = "bf_channel f" and ?sid = "st_sid st"
  note I = subscribed_inv [OF inv sub less]
  note spec = subscribe_spec [OF sub subs_okD(6) [OF inv(2)]]
  have lt: "later rows ?b b'" by (rule reach_later [OF reach I(2,3)])
  have sid: "?sid < rt_next_subscription (bs_router ?b)"
    using word_less_suc' [OF less] by (simp add: subscribed_def spec)
  have "(?sid, h) \<in> set (bs_subs ?b ?ch)"
    using lt sid reg by (auto simp: later_def)
  moreover have "(?sid, h') \<notin> set (bs_subs b ch)" for ch h'
    using subs_okD(3) [OF inv(2), of ?sid h' ch] by (auto simp: spec)
  ultimately have h: "sh_filter h = f" by (auto simp: subscribed_def)
  have since: "bs_since b' ?sid = length (bs_events b ?ch)"
    using lt sid by (auto simp: later_def subscribed_def)
  have "prefix (bs_events ?b ?ch) (bs_events b' ?ch)" using lt by (simp add: later_def)
  then obtain N where N: "bs_events b' ?ch = bs_events b ?ch @ N"
    by (auto simp: subscribed_def prefix_def)
  have "subs_ok b'" using reach_inv [OF reach I(2,3)] by blast
  then have "live_ok b' ?ch ?sid h" using reg by (rule subs_okD(4))
  then have "bs_taken b' ?sid @ sc_queue c = filter (bus_filter_matches f) N"
    using c since h N by (auto simp: live_ok_def)
  then show thesis using N that by blast
qed

text \<open>The replay is a view of the channel that holds every durable of the registration state.\<close>

lemma replay_view:
  assumes inv: "store_inv rows wf b" "subs_ok b"
    and sub: "subscribe_mode (bs_router b) f fc False = (st, rt')"
    and less: "rt_next_subscription (bs_router b) < - 1"
    and reach: "bus_reaches d ops (subscribed b f st rt') b'"
    and q: "queries_between d ops sinks (bf_channel f) (subscribed b f st rt') b'"
    and N: "bs_events b' (bf_channel f) = bs_events b (bf_channel f) @ N"
  obtains V where "\<And>live. stream_items ops sinks st live =
      Some (filter (passes fc f) V @ fst (live_leg (high_after fc (filter (passes fc f) V)) live))"
    "cursor_sorted V" "set V \<subseteq> set (bs_events b' (bf_channel f))"
    "\<And>e. e \<in> set (filter env_durable (bs_events b (bf_channel f))) \<Longrightarrow> e \<in> set V"
    "\<And>e. e \<in> set (filter env_durable N) \<Longrightarrow> e \<in> set V \<or> (\<forall>v \<in> set V. env_cursor v < env_cursor e)"
    "st_ring_oldest st \<noteq> None \<Longrightarrow> set V \<subseteq> set (bs_events b (bf_channel f))"
proof -
  let ?b = "subscribed b f st rt'" and ?ch = "bf_channel f"
  let ?ring = "cs_ring (state_of (bs_router b) ?ch)"
  let ?D = "filter env_durable (bs_events b' ?ch)"
  note I = subscribed_inv [OF inv sub less]
  note spec = subscribe_spec [OF sub subs_okD(6) [OF inv(2)]]
  obtain older rest queued where l: "filter env_durable (bs_events b ?ch) = older @ rest @ queued"
      "filter env_durable (ring_envs ?ring) = rest @ queued"
      "rows (rt_sink (bs_router b)) ?ch = older @ rest"
      "\<forall>e \<in> set older. \<forall>x \<in> set (ring_envs ?ring). env_cursor e < env_cursor x"
      "cursor_sorted (ring_envs ?ring)"
    by (rule legs [OF inv(1)])
  have "store_inv rows wf b'" using reach_inv [OF reach I(2,3)] by blast
  then have E': "cursor_sorted (bs_events b' ?ch)" by (simp add: store_inv_def events_ok_def)
  then have D: "cursor_sorted ?D" by (simp add: sorted_wrt_map sorted_wrt_filter)
  have D_split: "?D = older @ (rest @ queued) @ filter env_durable N" by (simp add: N l(1))
  have envs: "set (ring_envs ?ring) \<subseteq> set (bs_events b ?ch)"
    using inv(1) hot.envs_in_log by (fastforce simp: store_inv_def rings_ok_def bus_log_def)
  have n0: "length (rows (rt_sink (bs_router ?b)) ?ch) = length older + length rest"
    using l(3) by (simp add: subscribed_def spec)
  obtain j where j: "at_index ?D fc j" using at_index_exists [OF D] by blast
  have len: "length (rows (rt_sink (bs_router ?b)) ?ch) \<le> length ?D" unfolding n0 D_split by simp
  obtain n ys where n: "length older + length rest \<le> n" "n \<le> length ?D"
      "ys = filter (\<lambda>e. after_opt fc e \<and> before_opt (st_ring_oldest st) e \<and> bus_filter_matches f e) (drop j (take n ?D))"
      "deep_loop ops sinks f (st_ring_oldest st) 0 fc fc = Some (ys, high_after fc ys)"
    using deep_loop_exact [OF D pages_between [OF I(2,3) q] len j] unfolding n0 by blast
  have ys: "ys = filter (\<lambda>e. before_opt (st_ring_oldest st) e \<and> passes fc f e) (take n ?D)"
    unfolding n(3) filter_at_index [OF j n(2), symmetric] by (auto simp: passes_def intro!: filter_cong)
  define snap where "snap = filter (after_opt fc) (ring_envs ?ring)"
  have snap: "st_ring_snapshot st = snap" "cursor_sorted snap"
    using l(5) by (simp_all add: spec replay_after_def snap_def sorted_wrt_map sorted_wrt_filter)
  let ?R = "filter (\<lambda>e. after_opt (high_after fc ys) e \<and> bus_filter_matches f e) snap"
  have items: "stream_items ops sinks st live =
      Some ((ys @ ?R) @ fst (live_leg (high_after fc (ys @ ?R)) live))" for live
    using n(4) ring_leg_exact [OF snap(2), of f "high_after fc ys"]
    by (simp add: stream_items_def spec(2-4) snap(1) Let_def)
  show thesis
  proof (cases "ring_envs ?ring")
    case Nil
    then have "ys @ ?R = filter (passes fc f) (take n ?D)" "rest = []" "queued = []"
      using l(2) by (auto simp: ys snap_def spec oldest_cursor_def first_opt_def)
    note e = this
    show thesis
    proof (rule that [of "take n ?D"])
      show "stream_items ops sinks st live = Some (filter (passes fc f) (take n ?D) @
          fst (live_leg (high_after fc (filter (passes fc f) (take n ?D))) live))" for live
        unfolding items e(1) ..
      show "cursor_sorted (take n ?D)" using D by (simp add: take_map [symmetric] sorted_wrt_take)
      show "set (take n ?D) \<subseteq> set (bs_events b' ?ch)" by (auto dest: in_set_takeD)
      show "e \<in> set (take n ?D)" if "e \<in> set (filter env_durable (bs_events b ?ch))" for e
        using that n(1) unfolding D_split l(1) e by simp
      show "e \<in> set (take n ?D) \<or> (\<forall>v \<in> set (take n ?D). env_cursor v < env_cursor e)"
        if "e \<in> set (filter env_durable N)" for e
      proof -
        have "e \<in> set (take n ?D @ drop n ?D)" using that unfolding append_take_drop_id D_split by simp
        moreover have "cursor_sorted (take n ?D @ drop n ?D)" using D by simp
        ultimately show ?thesis unfolding map_append sorted_wrt_append set_append by auto
      qed
      show "set (take n ?D) \<subseteq> set (bs_events b ?ch)" if "st_ring_oldest st \<noteq> None"
        using that Nil by (simp add: spec oldest_cursor_def first_opt_def)
    qed
  next
    case (Cons x xs)
    then have ro: "st_ring_oldest st = Some (env_cursor x)" by (simp add: spec oldest_cursor_def first_opt_def)
    have x: "x \<in> set (bs_events b ?ch)" using envs Cons by auto
    have "\<not> env_cursor e < env_cursor x" if "e \<in> set ((rest @ queued) @ filter env_durable N)" for e
    proof (cases "e \<in> set N")
      case True
      then have "env_cursor x < env_cursor e" using E' x unfolding N by (auto simp: sorted_wrt_append)
      then show ?thesis by order
    next
      case False
      moreover have "set (rest @ queued) \<subseteq> set (ring_envs ?ring)" unfolding l(2) [symmetric] by auto
      ultimately have "e \<in> set (ring_envs ?ring)" using that by auto
      then show ?thesis using l(5) Cons by auto
    qed
    then have none_left: "filter (\<lambda>e. before_opt (st_ring_oldest st) e \<and> passes fc f e) (take m ((rest @ queued) @ filter env_durable N)) = []" for m
      unfolding ro by (auto simp: filter_empty_conv dest!: in_set_takeD)
    have same: "filter (\<lambda>e. before_opt (st_ring_oldest st) e \<and> passes fc f e) older = filter (passes fc f) older"
      using l(4) Cons by (intro filter_cong) (auto simp: ro)
    have split: "take n ?D = older @ take (n - length older) ((rest @ queued) @ filter env_durable N)"
      using n(1) unfolding D_split by simp
    have ys': "ys = filter (passes fc f) older"
      unfolding ys split filter_append same none_left append_Nil2 ..
    have "?R = filter (\<lambda>e. after_opt fc e \<and> bus_filter_matches f e) snap"
      unfolding ys' using l(4) by (intro filter_raised) (auto simp: snap_def passes_def)
    then have all: "ys @ ?R = filter (passes fc f) (older @ ring_envs ?ring)"
      unfolding ys' by (auto simp: snap_def passes_def intro!: filter_cong)
    have older: "set older \<subseteq> set (bs_events b ?ch)"
      using arg_cong [OF l(1), of set] by auto
    show thesis
    proof (rule that [of "older @ ring_envs ?ring"])
      show "stream_items ops sinks st live = Some (filter (passes fc f) (older @ ring_envs ?ring) @
          fst (live_leg (high_after fc (filter (passes fc f) (older @ ring_envs ?ring))) live))" for live
        unfolding items all ..
      show "cursor_sorted (older @ ring_envs ?ring)"
        using D l(4,5) unfolding D_split by (auto simp: sorted_wrt_append)
      show V: "set (older @ ring_envs ?ring) \<subseteq> set (bs_events b ?ch)"
        using older envs by auto
      then show "set (older @ ring_envs ?ring) \<subseteq> set (bs_events b' ?ch)" unfolding N by auto
      show "e \<in> set (older @ ring_envs ?ring)" if "e \<in> set (filter env_durable (bs_events b ?ch))" for e
        using that arg_cong [OF l(2), of set] unfolding l(1) by auto
      show "e \<in> set (older @ ring_envs ?ring) \<or> (\<forall>v \<in> set (older @ ring_envs ?ring). env_cursor v < env_cursor e)"
        if "e \<in> set (filter env_durable N)" for e
        using that V E' unfolding N map_append sorted_wrt_append by auto
    qed
  qed
qed

text \<open>
  A stream whose queue is drained and that did not lag has yielded, in order and without
  repetition, every matching durable after its cursor, and nothing that was not accepted;
  when the ring held anything at registration, it has also yielded every matching envelope
  accepted since.
\<close>

lemma stream_exact:
  assumes inv: "store_inv rows wf b" "subs_ok b"
    and sub: "subscribe_mode (bs_router b) f fc False = (st, rt')"
    and less: "rt_next_subscription (bs_router b) < - 1"
    and reach: "bus_reaches d ops (subscribed b f st rt') b'"
    and q: "queries_between d ops sinks (bf_channel f) (subscribed b f st rt') b'"
    and reg: "(st_sid st, h) \<in> set (bs_subs b' (bf_channel f))"
    and c: "map_of (rt_chans (bs_router b')) (st_sid st) = Some c" "\<not> sc_lagged c" "sc_queue c = []"
  obtains items where "stream_items ops sinks st (bs_taken b' (st_sid st)) = Some items"
    "cursor_sorted items" "set items \<subseteq> set (filter (passes fc f) (bs_events b' (bf_channel f)))"
    "filter env_durable items = filter (\<lambda>e. env_durable e \<and> passes fc f e) (bs_events b' (bf_channel f))"
    "st_ring_oldest st \<noteq> None \<Longrightarrow>
      filter (passes fc f) (drop (length (bs_events b (bf_channel f))) (bs_events b' (bf_channel f))) =
      filter (\<lambda>e. e \<notin> set (bs_events b (bf_channel f))) items"
proof -
  let ?ch = "bf_channel f" and ?E = "bs_events b (bf_channel f)"
  note I = subscribed_inv [OF inv sub less]
  obtain N where N: "bs_events b' ?ch = ?E @ N"
      "bs_taken b' (st_sid st) = filter (bus_filter_matches f) N"
    using live_since [OF inv sub less reach reg c(1,2)] c(3) by auto
  obtain V where V: "\<And>live. stream_items ops sinks st live =
      Some (filter (passes fc f) V @ fst (live_leg (high_after fc (filter (passes fc f) V)) live))"
    "cursor_sorted V" "set V \<subseteq> set (bs_events b' ?ch)"
    "\<And>e. e \<in> set (filter env_durable ?E) \<Longrightarrow> e \<in> set V"
    "\<And>e. e \<in> set (filter env_durable N) \<Longrightarrow> e \<in> set V \<or> (\<forall>v \<in> set V. env_cursor v < env_cursor e)"
    "st_ring_oldest st \<noteq> None \<Longrightarrow> set V \<subseteq> set ?E"
    using replay_view [OF inv sub less reach q N(1)] by blast
  let ?S = "seam fc f V N"
  have E': "cursor_sorted (?E @ N)"
    using reach_inv [OF reach I(2,3)] N(1) by (metis events_ok_def store_inv_def)
  then have Ns: "cursor_sorted N" and EN: "\<forall>v \<in> set ?E. \<forall>e \<in> set N. env_cursor v < env_cursor e"
    by (auto simp: sorted_wrt_append)
  note S = seam_props [OF V(2) Ns]
  have items: "stream_items ops sinks st (bs_taken b' (st_sid st)) = Some ?S"
    by (simp add: V(1) N(2) seam_def Let_def)
  have sub_events: "set ?S \<subseteq> set (filter (passes fc f) (bs_events b' ?ch))"
    using S(2) V(3) N(1) by auto
  have "set (filter env_durable ?S) = set (filter (\<lambda>e. env_durable e \<and> passes fc f e) (?E @ N))"
  proof (intro set_eqI iffI)
    fix e assume "e \<in> set (filter (\<lambda>e. env_durable e \<and> passes fc f e) (?E @ N))"
    then show "e \<in> set (filter env_durable ?S)"
      using V(4,5) [of e] by (auto simp: S(2))
  qed (use sub_events N(1) in auto)
  then have dur: "filter env_durable ?S = filter (\<lambda>e. env_durable e \<and> passes fc f e) (?E @ N)"
    using S(1) E' by (intro cursor_sorted_unique) (simp_all add: sorted_wrt_map sorted_wrt_filter sorted_wrt_append)
  have new: "filter (passes fc f) (drop (length ?E) (?E @ N)) = filter (\<lambda>e. e \<notin> set ?E) ?S"
    if "st_ring_oldest st \<noteq> None"
  proof -
    have above: "\<forall>v \<in> set V. \<forall>e \<in> set N. env_cursor v < env_cursor e" and "\<forall>e \<in> set V. e \<in> set ?E"
      using V(6) [OF that] EN by auto
    moreover have "\<forall>e \<in> set N. e \<notin> set ?E" using EN by (metis order.irrefl)
    ultimately show ?thesis
      by (auto simp: S(3) [OF above] filter_empty_conv intro!: filter_cong)
  qed
  show thesis
    using that [OF items S(1) sub_events] dur new N(1) by simp
qed

end

end
