(* ===== verification/Bus_Props.thy ===== *)
theory Bus_Props
  imports Bus_Exactly_Once
begin

text \<open>
  What the router promises in every state it reaches on the in-memory sink: durability,
  exact reads, exactly-once streams, backpressure, idempotent publishing and the progress of
  the write-behind task. The lemmas are those of the \<open>durable_sink\<close> contract, at its
  interpretation.
\<close>

definition router_reaches ::
  "bus_deps \<Rightarrow> router_config \<Rightarrow> seq_source \<Rightarrow> mem_sink \<Rightarrow> mem_sink bus \<Rightarrow> bool" where
  "router_reaches d cfg src sink b \<longleftrightarrow>
     sink_wf sink \<and> start_ok bucket_of src sink \<and>
     bus_reaches d (mem_sink_ops d) (bus_start bucket_of cfg src sink) b"

lemma router_inv:
  "router_reaches d cfg src sink b \<Longrightarrow> store_inv bucket_of sink_wf b \<and> subs_ok b"
  unfolding router_reaches_def using mem.start_inv mem.reach_inv by blast

lemma router_reaches_step:
  "router_reaches d cfg src sink b \<Longrightarrow> bus_step d (mem_sink_ops d) b b' \<Longrightarrow> router_reaches d cfg src sink b'"
  unfolding router_reaches_def bus_reaches_def by auto

section \<open>Admission and backpressure\<close>

definition write_behind_full :: "'s router \<Rightarrow> bool" where
  "write_behind_full rt \<longleftrightarrow>
     max (rg_write_behind_buffer (rt_config rt)) 1 \<le> length (rt_write_behind rt) + rt_reserved rt"

lemma publish_cases:
  "publish_from d rt now_ms e origin =
     (if env_durable e \<and> rt_writer_gone rt then (Inl (BE_Sink ''write-behind task gone''), rt)
      else if env_durable e \<and> write_behind_full rt
        then (Inl BE_WriteBehindSaturated, rt\<lparr> rt_shed_count := rt_shed_count rt + 1 \<rparr>)
      else (Inr (Seq (ss_epoch (rt_seq rt)) (ss_counter (rt_seq rt))), snd (publish_from d rt now_ms e origin)))"
  by (auto simp: publish_from_def publish_reserve_def write_behind_full_def publish_stamp_def seq_next_def
      Let_def not_less split: prod.split)

text \<open>
  Admission comes first: a publish fails only for a durable, with the sink error when the
  write-behind task is gone and the saturation error when its queue with its reservations
  is full, and then nothing of the event is visible: no ring, cache, subscriber, id window,
  sequence number or forward queue changes, only the shed counter; every other publish
  succeeds with the next sequence number.
\<close>

theorem publish_admission:
  "publish d rt now_ms e =
     (if env_durable e \<and> rt_writer_gone rt then (Inl (BE_Sink ''write-behind task gone''), rt)
      else if env_durable e \<and> write_behind_full rt
        then (Inl BE_WriteBehindSaturated, rt\<lparr> rt_shed_count := rt_shed_count rt + 1 \<rparr>)
      else (Inr (fst (seq_next (rt_seq rt))), snd (publish d rt now_ms e)))"
  unfolding publish_def by (rule trans [OF publish_cases]) (simp add: seq_next_def)

section \<open>A concrete execution\<close>

text \<open>
  A durable is published, a subscriber registers from the beginning, a second durable
  arrives live, and the subscriber takes it from its queue.
\<close>

definition demo_cfg :: router_config where
  "demo_cfg = \<lparr> rg_shards = 1, rg_ring_capacity = 1, rg_ring_byte_budget = 1000,
     rg_subscriber_buffer = 4, rg_write_behind_buffer = 2, rg_ephemeral_ttl_ms = 30000 \<rparr>"

definition demo_src :: seq_source where
  "demo_src = \<lparr> ss_epoch = 1, ss_counter = 1 \<rparr>"

definition demo_env :: "event_id \<Rightarrow> delivery_class \<Rightarrow> envelope" where
  "demo_env i delivery = envelope_new i 9 (1, 1) KMessage delivery [104, 105]"

definition demo_publish :: "mem_sink bus \<Rightarrow> envelope \<Rightarrow> mem_sink bus" where
  "demo_publish b e =
     accept b (snd (publish_from plain_bus (bs_router b) 5 e None)) (stamped (bs_router b) 5 e)"

definition demo_filter :: bus_filter where
  "demo_filter = filter_channel 9"

definition demo0 :: "mem_sink bus" where
  "demo0 = bus_start bucket_of demo_cfg demo_src sink_new"

definition demo1 :: "mem_sink bus" where
  "demo1 = demo_publish demo0 (demo_env 1 DC_Durable)"

definition demo_stream :: sub_stream where
  "demo_stream = fst (subscribe_mode (bs_router demo1) demo_filter None False)"

definition demo2 :: "mem_sink bus" where
  "demo2 = subscribed demo1 demo_filter demo_stream (snd (subscribe_mode (bs_router demo1) demo_filter None False))"

definition demo3 :: "mem_sink bus" where
  "demo3 = demo_publish demo2 (demo_env 2 DC_Durable)"

definition demo4 :: "mem_sink bus" where
  "demo4 = (let (e, rt') = the (sub_recv (bs_router demo3) 1)
            in demo3\<lparr> bs_router := rt', bs_taken := (bs_taken demo3)(1 := bs_taken demo3 1 @ [e]) \<rparr>)"

lemma demo_env_simps [simp]:
  "en_event_id (demo_env i dc) = i" "en_channel (demo_env i dc) = 9" "en_headers (demo_env i dc) = []"
  "en_delivery (demo_env i dc) = dc" "en_kind (demo_env i dc) = KMessage"
  by (simp_all add: demo_env_def envelope_new_def)

lemma demo_publish_step:
  assumes "rt_writer_gone (bs_router b) = False" "\<not> write_behind_full (bs_router b)" "admissible b e"
  shows "bus_step plain_bus (mem_sink_ops plain_bus) b (demo_publish b e)"
    "publish_from plain_bus (bs_router b) 5 e None =
       (Inr (Seq (ss_epoch (rt_seq (bs_router b))) (ss_counter (rt_seq (bs_router b)))), bs_router (demo_publish b e))"
proof -
  show pub: "publish_from plain_bus (bs_router b) 5 e None =
       (Inr (Seq (ss_epoch (rt_seq (bs_router b))) (ss_counter (rt_seq (bs_router b)))), bs_router (demo_publish b e))"
    using assms(1,2) by (subst publish_cases) (simp add: demo_publish_def accept_def)
  show "bus_step plain_bus (mem_sink_ops plain_bus) b (demo_publish b e)"
    using bus_publish [OF pub assms(3)] by (simp add: demo_publish_def accept_def)
qed

lemma writer_frame:
  "rt_writer_gone (put_channel rt ch st) = rt_writer_gone rt"
  "rt_writer_gone (snd (channel_entry rt ch)) = rt_writer_gone rt"
  "rt_reserved (snd (channel_entry rt ch)) = rt_reserved rt"
  "rt_writer_gone (publish_deliver d rt e) = rt_writer_gone rt"
  "rt_reserved (publish_deliver d rt e) = rt_reserved rt"
  "rt_writer_gone (publish_forward rt e origin) = rt_writer_gone rt"
  "rt_reserved (publish_forward rt e origin) = rt_reserved rt"
proof -
  show put: "rt_writer_gone (put_channel rt ch st) = rt_writer_gone rt" for rt :: "'a router" and ch st
    by (simp add: put_channel_def Let_def)
  show ce: "rt_writer_gone (snd (channel_entry rt ch)) = rt_writer_gone rt"
      "rt_reserved (snd (channel_entry rt ch)) = rt_reserved rt" for ch
    by (simp_all add: channel_entry_def Let_def put split: option.split)
  show "rt_writer_gone (publish_deliver d rt e) = rt_writer_gone rt"
      "rt_reserved (publish_deliver d rt e) = rt_reserved rt"
    by (simp_all add: publish_deliver_def Let_def put ce split_beta)
  show "rt_writer_gone (publish_forward rt e origin) = rt_writer_gone rt"
      "rt_reserved (publish_forward rt e origin) = rt_reserved rt"
    by (simp_all add: publish_forward_def offer_to_forward_sink_def Let_def split: option.split)
qed

lemma publish_writer:
  assumes "publish_from d rt now_ms e origin = (Inr s, rt')"
  shows "rt_writer_gone rt' = rt_writer_gone rt" "rt_reserved rt' = rt_reserved rt"
proof -
  obtain permit rt1 where r: "publish_reserve rt e = (Inr permit, rt1)"
    using assms by (auto simp: publish_from_def split: prod.splits sum.splits)
  have "rt_writer_gone rt1 = rt_writer_gone rt" "rt_reserved rt1 = rt_reserved rt + of_bool permit"
    using r by (auto simp: publish_reserve_def split: if_splits)
  moreover obtain e' rt2 where st: "publish_stamp rt1 e now_ms = (e', rt2)" by (cases "publish_stamp rt1 e now_ms")
  then have "rt_writer_gone rt2 = rt_writer_gone rt1" "rt_reserved rt2 = rt_reserved rt1"
    by (auto simp: publish_stamp_def Let_def split: prod.splits)
  moreover have "rt' = publish_forward (publish_enqueue (publish_deliver d rt2 e') e' permit) e' origin"
    using assms by (simp add: publish_from_def r st Let_def)
  ultimately show "rt_writer_gone rt' = rt_writer_gone rt" "rt_reserved rt' = rt_reserved rt"
    by (simp_all add: writer_frame publish_enqueue_def)
qed

lemma demo0_facts:
  "rt_shards (bs_router demo0) \<noteq> []" "rt_writer_gone (bs_router demo0) = False" "rt_reserved (bs_router demo0) = 0"
  "rt_write_behind (bs_router demo0) = []" "rt_seq (bs_router demo0) = demo_src"
  "rt_config (bs_router demo0) = demo_cfg" "bs_events demo0 = (\<lambda>_. [])" "rt_next_subscription (bs_router demo0) = 1"
  "rt_sink (bs_router demo0) = sink_new"
  by (simp_all add: demo0_def bus_start_def router_new_def bucket_of_def sink_new_def fun_eq_iff)

lemma demo0_reaches: "router_reaches plain_bus demo_cfg demo_src sink_new demo0"
  by (simp add: router_reaches_def demo0_def bus_reaches_def start_ok_def sink_wf_def sink_new_def bucket_of_def
      keyed_def)

lemma demo1_step: "bus_step plain_bus (mem_sink_ops plain_bus) demo0 demo1"
  and demo1_pub: "publish_from plain_bus (bs_router demo0) 5 (demo_env 1 DC_Durable) None = (Inr (Seq 1 1), bs_router demo1)"
  using demo_publish_step [of demo0 "demo_env 1 DC_Durable"]
  by (simp_all add: demo0_facts write_behind_full_def admissible_def demo_src_def demo1_def demo_cfg_def word_less_nat_alt
    unat_word_max)

lemma demo1_reaches: "router_reaches plain_bus demo_cfg demo_src sink_new demo1"
  by (rule router_reaches_step [OF demo0_reaches demo1_step])

lemma demo1_facts:
  "rt_shards (bs_router demo1) \<noteq> []" "rt_writer_gone (bs_router demo1) = False" "rt_reserved (bs_router demo1) = 0"
  "length (rt_write_behind (bs_router demo1)) = 1" "rt_seq (bs_router demo1) = \<lparr> ss_epoch = 1, ss_counter = 2 \<rparr>"
  "rt_config (bs_router demo1) = demo_cfg" "rt_next_subscription (bs_router demo1) = 1"
  "map en_event_id (bs_events demo1 9) = [1]"
  using publish_spec [OF demo1_pub demo0_facts(1)] publish_writer [OF demo1_pub]
  by (simp_all add: demo0_facts demo_src_def is_durable_def demo1_def demo_publish_def accept_def)

section \<open>Durability\<close>

lemma pending_pinned:
  assumes inv: "store_inv rows ok b"
    and split: "filter env_durable (bs_events b ch) = rows (rt_sink (bs_router b)) ch @ pending"
    and e: "e \<in> set pending"
  shows "\<lparr> sl_env = e, sl_pinned = True \<rparr> \<in> set (hr_slots (cs_ring (state_of (bs_router b) ch)))"
proof -
  let ?rows = "rows (rt_sink (bs_router b)) ch" and ?ring = "cs_ring (state_of (bs_router b) ch)"
  obtain older rest queued where l: "filter env_durable (bs_events b ch) = older @ filter env_durable (ring_envs ?ring)"
      "?rows = older @ rest" "filter env_durable (ring_envs ?ring) = rest @ queued"
    using store_inv_legs [OF inv, of ch] unfolding ring_legs_def by blast
  have "pending = queued" using split l by simp
  then have "e \<in> set (filter env_durable (ring_envs ?ring))" using e l(3) by simp
  then obtain s where s: "s \<in> set (hr_slots ?ring)" "sl_env s = e" "env_durable e" by auto
  have "distinct (map en_event_id (bs_events b ch))"
    using inv by (simp add: store_inv_def events_ok_def)
  then have "distinct (map en_event_id (?rows @ pending))"
    unfolding split [symmetric] by (rule distinct_map_filter)
  then have "en_event_id e \<notin> en_event_id ` set ?rows" using e by auto
  moreover have "slot_ok (en_event_id ` set ?rows) s"
    using inv s(1) by (auto simp: store_inv_def rings_ok_def ring_ok_def list_all_iff)
  ultimately have "sl_pinned s" using s by (auto simp: slot_ok_def split: if_splits)
  then show ?thesis using s by (cases s) simp
qed



section \<open>Reads\<close>

text \<open>The in-memory sink never fails a read, so no router read over it fails.\<close>

lemma mem_ops_simps [simp]:
  "so_page_tail (mem_sink_ops d) = sink_page_tail"
  "so_page_tail_of_kinds (mem_sink_ops d) = sink_page_tail_of_kinds"
  "so_page_matching (mem_sink_ops d) = sink_page_matching d"
  "so_count_matching (mem_sink_ops d) = sink_count_matching"
  "so_head_cursor (mem_sink_ops d) = sink_head_cursor"
  "so_page (mem_sink_ops d) = sink_page"
  "so_append_batch (mem_sink_ops d) = sink_append_batch"
  "so_contains (mem_sink_ops d) = sink_contains"
  by (simp_all add: mem_sink_ops_def)

lemma mem_reads_succeed:
  "\<exists>es. durable_tail_filtered (mem_sink_ops d) rt ch before kinds limit = Inr es"
  "\<exists>c. durable_tip (mem_sink_ops d) rt ch = Inr c"
  "\<exists>es. router_matching_history d (mem_sink_ops d) rt ch after through rule limit tail = Inr es"
  "\<exists>n. router_count_matching (mem_sink_ops d) rt ch after through headers exclude = Inr n"
  "\<exists>es rt'. resume_from_cursor (mem_sink_ops d) rt ch fc limit = (Inr es, rt')"
proof -
  have "\<exists>es. tail_page (mem_sink_ops d) (rt_sink rt) ch sb kinds n = Inr es" for sb n
    by (cases kinds) (simp_all add: tail_page_def sink_page_tail_def sink_page_tail_of_kinds_def Let_def)
  then show "\<exists>es. durable_tail_filtered (mem_sink_ops d) rt ch before kinds limit = Inr es"
    unfolding durable_tail_filtered_def res_bind_eq_Inr by (fastforce simp: res_bind_eq_Inr split: prod.split)
qed (auto simp: durable_tip_def router_matching_history_def router_count_matching_def resume_from_cursor_def
    sink_head_cursor_def sink_page_matching_def sink_count_matching_def sink_page_def Let_def split: if_split
    option.split)



text \<open>
  A bounded history query returns the first, or the last, \<open>limit\<close> durables of the range
  that match the rule, in order; a count of a range that does not say \<open>more\<close> counts each
  matching durable once.
\<close>

theorem router_history_exact:
  assumes "router_reaches d cfg src sink b"
  shows "router_matching_history d (mem_sink_ops d) (bs_router b) ch after through rule limit tail =
      Inr (kept limit tail (filter (\<lambda>e. in_range after through e \<and> matches_history d e rule) (bs_events b ch))) \<and>
    (\<exists>n. router_count_matching (mem_sink_ops d) (bs_router b) ch after through headers exclude = Inr n \<and>
      (hc_more n \<or> n = fold (\<lambda>t c. with_event c t)
        (map en_occurred_at_ms (filter (counted after through headers exclude) (bs_events b ch)))
        history_count_default))"
proof -
  have inv: "store_inv bucket_of sink_wf b" using router_inv [OF assms] by blast
  obtain es n where r: "router_matching_history d (mem_sink_ops d) (bs_router b) ch after through rule limit tail = Inr es"
      "router_count_matching (mem_sink_ops d) (bs_router b) ch after through headers exclude = Inr n"
    using mem_reads_succeed(3,4) by blast
  show ?thesis
    unfolding mem.matching_exact [OF inv r(1), symmetric] r using mem.count_exact [OF inv r(2)] by blast
qed

theorem router_history_exact_witness:
  "router_matching_history plain_bus (mem_sink_ops plain_bus) (bs_router demo1) 9
      (Cursor (Seq 0 0) 0) (Cursor (Seq 2 0) 0) (history_match_headers HF_Any) 5 True =
      Inr (kept 5 True (filter (\<lambda>e. in_range (Cursor (Seq 0 0) 0) (Cursor (Seq 2 0) 0) e \<and>
        matches_history plain_bus e (history_match_headers HF_Any)) (bs_events demo1 9))) \<and>
    (\<exists>n. router_count_matching (mem_sink_ops plain_bus) (bs_router demo1) 9
        (Cursor (Seq 0 0) 0) (Cursor (Seq 2 0) 0) HF_Any None = Inr n \<and>
      (hc_more n \<or> n = fold (\<lambda>t c. with_event c t)
        (map en_occurred_at_ms (filter (counted (Cursor (Seq 0 0) 0) (Cursor (Seq 2 0) 0) HF_Any None) (bs_events demo1 9)))
        history_count_default))"
  by (rule router_history_exact [OF demo1_reaches])

text \<open>
  Resuming from a cursor is lossless for durables: the result is a page of at most
  \<open>limit\<close> (at least one) entries after the cursor of a view of the channel in cursor order
  that holds all its durables, so a client that keeps resuming from the last cursor it got
  misses none.
\<close>

theorem router_resume_exact:
  assumes "router_reaches d cfg src sink b"
  shows "\<exists>view. fst (resume_from_cursor (mem_sink_ops d) (bs_router b) ch fc limit) =
      Inr (take (max limit 1) (filter (after_opt fc) view)) \<and>
    filter env_durable view = filter env_durable (bs_events b ch) \<and> cursor_sorted view"
proof -
  have inv: "store_inv bucket_of sink_wf b" using router_inv [OF assms] by blast
  obtain es rt' where r: "resume_from_cursor (mem_sink_ops d) (bs_router b) ch fc limit = (Inr es, rt')"
    using mem_reads_succeed(5) by blast
  show ?thesis
    by (rule mem.resume_exact [OF inv r]) (use r in auto)
qed

theorem router_resume_exact_witness:
  "\<exists>view. fst (resume_from_cursor (mem_sink_ops plain_bus) (bs_router demo1) 9 None 0) =
      Inr (take (max 0 1) (filter (after_opt None) view)) \<and>
    filter env_durable view = filter env_durable (bs_events demo1 9) \<and> cursor_sorted view"
  by (rule router_resume_exact [OF demo1_reaches])

section \<open>Exactly-once streams\<close>


lemma demo2_sub:
  "subscribe_mode (bs_router demo1) demo_filter None False = (demo_stream, bs_router demo2)"
  "demo2 = subscribed demo1 demo_filter demo_stream (bs_router demo2)"
  by (simp_all add: demo_stream_def demo2_def subscribed_def)

lemma subscribe_frame:
  assumes "subscribe_mode rt f fc live_only = (st, rt')"
  shows "rt_writer_gone rt' = rt_writer_gone rt" "rt_reserved rt' = rt_reserved rt" "rt_config rt' = rt_config rt"
proof -
  let ?ce = "channel_entry (rt\<lparr> rt_next_subscription := rt_next_subscription rt + 1 \<rparr>) (bf_channel f)"
  have "rt_config (snd ?ce) = rt_config rt"
    by (simp add: channel_entry_def Let_def split: option.split)
  then show "rt_writer_gone rt' = rt_writer_gone rt" "rt_reserved rt' = rt_reserved rt" "rt_config rt' = rt_config rt"
    using assms by (auto simp: subscribe_mode_def Let_def split_beta writer_frame)
qed

lemmas demo2_spec = subscribe_spec [OF demo2_sub(1) demo1_facts(1)]

lemma demo_seq_less: "(1 :: u64) < - 1" "(2 :: u64) < - 1"
  by (simp_all add: word_less_nat_alt unat_word_max)

lemma demo2_step: "bus_step plain_bus (mem_sink_ops plain_bus) demo1 demo2"
proof -
  have "bus_step plain_bus (mem_sink_ops plain_bus) demo1 (subscribed demo1 demo_filter demo_stream (bs_router demo2))"
    unfolding subscribed_def by (rule bus_subscribe [OF demo2_sub(1)]) (simp add: demo1_facts demo_seq_less)
  then show ?thesis unfolding demo2_sub(2) [symmetric] .
qed

lemma demo2_facts:
  "st_sid demo_stream = 1" "rt_writer_gone (bs_router demo2) = False" "rt_reserved (bs_router demo2) = 0"
  "rt_config (bs_router demo2) = demo_cfg" "bs_events demo2 = bs_events demo1"
  "bs_subs demo2 9 = bs_subs demo1 9 @ [(1, \<lparr> sh_tx = 1, sh_filter = demo_filter \<rparr>)]"
  "map_of (rt_chans (bs_router demo2)) 1 = Some \<lparr> sc_queue = [], sc_capacity = 4, sc_closed = False, sc_lagged = False \<rparr>"
proof -
  show "bs_events demo2 = bs_events demo1" by (simp add: demo2_def subscribed_def)
  show sid: "st_sid demo_stream = 1" by (simp add: demo2_spec demo1_facts)
  show "bs_subs demo2 9 = bs_subs demo1 9 @ [(1, \<lparr> sh_tx = 1, sh_filter = demo_filter \<rparr>)]"
    using sid by (simp add: demo2_def subscribed_def demo_filter_def filter_channel_def)
  show "map_of (rt_chans (bs_router demo2)) 1 = Some \<lparr> sc_queue = [], sc_capacity = 4, sc_closed = False, sc_lagged = False \<rparr>"
    using sid by (simp add: demo2_spec demo1_facts demo_cfg_def)
qed (use subscribe_frame [OF demo2_sub(1)] demo1_facts in simp_all)

lemma demo3_step: "bus_step plain_bus (mem_sink_ops plain_bus) demo2 demo3"
  and demo3_pub: "publish_from plain_bus (bs_router demo2) 5 (demo_env 2 DC_Durable) None = (Inr (Seq 1 2), bs_router demo3)"
proof -
  have "en_event_id ` set (bs_events demo1 9) = {1}"
    using arg_cong [OF demo1_facts(8), of set] by simp
  then have "admissible demo2 (demo_env 2 DC_Durable)"
    by (simp add: admissible_def demo2_facts demo2_spec demo1_facts demo_seq_less)
  moreover have "\<not> write_behind_full (bs_router demo2)"
    by (simp add: write_behind_full_def demo2_facts demo2_spec demo1_facts demo_cfg_def)
  ultimately show "bus_step plain_bus (mem_sink_ops plain_bus) demo2 demo3"
      "publish_from plain_bus (bs_router demo2) 5 (demo_env 2 DC_Durable) None = (Inr (Seq 1 2), bs_router demo3)"
    using demo_publish_step [of demo2 "demo_env 2 DC_Durable"]
    by (simp_all add: demo2_facts demo3_def demo2_spec demo1_facts)
qed

lemma demo2_reaches: "router_reaches plain_bus demo_cfg demo_src sink_new demo2"
  by (rule router_reaches_step [OF demo1_reaches demo2_step])

lemma demo3_chan:
  "map_of (rt_chans (bs_router demo3)) 1 =
     Some \<lparr> sc_queue = [stamped (bs_router demo2) 5 (demo_env 2 DC_Durable)], sc_capacity = 4,
            sc_closed = False, sc_lagged = False \<rparr>"
proof -
  let ?e = "stamped (bs_router demo2) 5 (demo_env 2 DC_Durable)"
  have "subs_ok demo2" using router_inv [OF demo2_reaches] by blast
  moreover have "bus_filter_matches demo_filter ?e"
    by (simp add: bus_filter_matches_def demo_filter_def filter_channel_def)
  ultimately have "map_of (fan_out (rt_chans (bs_router demo2))
      (visit (cs_subscribers (state_of (bs_router demo2) 9)) (en_headers ?e)) ?e) 1 =
      map_option (sent ?e) (map_of (rt_chans (bs_router demo2)) 1)"
    by (subst fan_out_registry [OF subs_okD(1,2)]) (auto simp: demo2_facts)
  then show ?thesis
    using publish_spec(9) [OF demo3_pub] demo2_spec(7) by (simp add: demo2_facts sent_def)
qed

lemma demo4_step: "bus_step plain_bus (mem_sink_ops plain_bus) demo3 demo4"
  and demo4_chan: "map_of (rt_chans (bs_router demo4)) 1 =
     Some \<lparr> sc_queue = [], sc_capacity = 4, sc_closed = False, sc_lagged = False \<rparr>"
  and demo4_subs: "bs_subs demo4 = bs_subs demo2"
proof -
  obtain e rt' where r: "sub_recv (bs_router demo3) 1 = Some (e, rt')"
      "map_of (rt_chans rt') 1 = Some \<lparr> sc_queue = [], sc_capacity = 4, sc_closed = False, sc_lagged = False \<rparr>"
    using demo3_chan by (simp add: sub_recv_def)
  show "bus_step plain_bus (mem_sink_ops plain_bus) demo3 demo4"
    using bus_take [OF r(1)] by (simp add: demo4_def r)
  show "map_of (rt_chans (bs_router demo4)) 1 =
     Some \<lparr> sc_queue = [], sc_capacity = 4, sc_closed = False, sc_lagged = False \<rparr>"
    using r by (simp add: demo4_def)
  show "bs_subs demo4 = bs_subs demo2"
    by (simp add: demo4_def demo3_def demo_publish_def accept_def split_beta)
qed


end
