(* ===== verification/Bus_Progress.thy ===== *)
theory Bus_Progress
  imports Bus_Props
begin

text \<open>
  Progress of the write-behind task, retries of idempotent publishing, and two interleavings
  of publishers with a live stream.
\<close>

section \<open>The write-behind task drains its queue\<close>

text \<open>A step of the task alone.\<close>

inductive task_step :: "'s sink_ops \<Rightarrow> 's bus \<Rightarrow> 's bus \<Rightarrow> bool" for ops where
  task_recv: "wb_recv (bs_router b) = Some rt' \<Longrightarrow> task_step ops b (b\<lparr> bs_router := rt' \<rparr>)"
| task_try_recv: "wb_try_recv (bs_router b) = Some rt' \<Longrightarrow> task_step ops b (b\<lparr> bs_router := rt' \<rparr>)"
| task_append: "wb_append ops (bs_router b) = Some rt' \<Longrightarrow> task_step ops b (b\<lparr> bs_router := rt' \<rparr>)"
| task_unpin: "wb_unpin (bs_router b) = Some rt' \<Longrightarrow> task_step ops b (b\<lparr> bs_router := rt' \<rparr>)"

inductive_simps task_step_iff: "task_step ops b b'"

definition pending_work :: "'s bus \<Rightarrow> nat" where
  "pending_work b =
     3 * length (rt_write_behind (bs_router b)) + 2 * length (rt_batch (bs_router b)) +
     length (rt_confirmed (bs_router b))"

lemma mem_append_batch: "fst (sink_append_batch s es) = Inr ()"
  unfolding sink_append_batch_def
  by (induction es arbitrary: s) (auto simp: sink_append_def Let_def split: prod.split)

lemma task_step_work:
  assumes "task_step (mem_sink_ops d) b b'"
  shows "pending_work b' < pending_work b"
  using assms
proof cases
  case (task_append rt')
  obtain s where "sink_append_batch (rt_sink (bs_router b)) (rt_batch (bs_router b)) = (Inr (), s)"
    using mem_append_batch by (metis prod.collapse)
  then show ?thesis
    using task_append by (auto simp: wb_append_def pending_work_def split: if_splits)
qed (auto simp: wb_recv_def wb_try_recv_def wb_unpin_def pending_work_def Let_def
    split: list.splits if_splits option.splits)

lemma task_steps_work:
  "(task_step (mem_sink_ops d) ^^ n) b b' \<Longrightarrow> n + pending_work b' \<le> pending_work b"
proof (induction n arbitrary: b')
  case (Suc n)
  then obtain m where "(task_step (mem_sink_ops d) ^^ n) b m" "task_step (mem_sink_ops d) m b'" by auto
  then show ?case using Suc.IH task_step_work by fastforce
qed simp

lemma task_stuck:
  assumes "\<nexists>b'. task_step ops b b'"
  shows "rt_batch (bs_router b) = []" "rt_confirmed (bs_router b) = []" "rt_write_behind (bs_router b) = []"
proof -
  show batch: "rt_batch (bs_router b) = []"
    using assms by (auto simp: task_step_iff wb_append_def split: prod.splits sum.splits if_splits)
  show conf: "rt_confirmed (bs_router b) = []"
    using assms by (cases "rt_confirmed (bs_router b)") (auto simp: task_step_iff wb_unpin_def Let_def)
  show "rt_write_behind (bs_router b) = []"
    using assms batch conf by (cases "rt_write_behind (bs_router b)") (auto simp: task_step_iff wb_recv_def)
qed

lemma task_bus_step: "task_step ops b b' \<Longrightarrow> bus_step d ops b b' \<and> bs_events b' = bs_events b"
  by (erule task_step.cases) (auto intro: bus_recv bus_try_recv bus_append bus_unpin)

lemma task_reaches:
  "(task_step (mem_sink_ops d) ^^ n) b b' \<Longrightarrow> router_reaches d cfg src sink b \<Longrightarrow>
   router_reaches d cfg src sink b' \<and> bs_events b' = bs_events b"
proof (induction n arbitrary: b')
  case (Suc n)
  then obtain m where m: "(task_step (mem_sink_ops d) ^^ n) b m" "task_step (mem_sink_ops d) m b'" by auto
  then show ?case using Suc task_bus_step [OF m(2), of d] router_reaches_step by metis
qed simp


lemma demo1_queue:
  "rt_batch (bs_router demo1) = []" "rt_confirmed (bs_router demo1) = []"
  "rt_write_behind (bs_router demo1) = [stamped (bs_router demo0) 5 (demo_env 1 DC_Durable)]"
  using publish_spec [OF demo1_pub demo0_facts(1)]
  by (simp_all add: demo0_facts is_durable_def) (simp_all add: demo0_def bus_start_def router_new_def)


section \<open>Publishing once\<close>

definition recent_ok :: "recent_event_ids \<Rightarrow> bool" where
  "recent_ok r \<longleftrightarrow>
     set (ri_order r) = ri_seen r \<and> distinct (ri_order r) \<and> length (ri_order r) \<le> RECENT_PUBLISH_IDS_CAPACITY"

lemma recent_new_ok: "recent_ok recent_new"
  by (simp add: recent_ok_def recent_new_def)

lemma recent_insert_ok:
  assumes "recent_ok r"
  shows "recent_ok (snd (recent_insert r i))" "i \<in> ri_seen (snd (recent_insert r i))"
    "fst (recent_insert r i) \<longleftrightarrow> i \<notin> ri_seen r"
proof (atomize (full), cases "i \<in> ri_seen r")
  case False
  show "recent_ok (snd (recent_insert r i)) \<and> i \<in> ri_seen (snd (recent_insert r i)) \<and>
    (fst (recent_insert r i) \<longleftrightarrow> i \<notin> ri_seen r)"
  proof (cases "ri_order r")
    case Nil
    then show ?thesis
      using assms False
      by (auto simp: recent_insert_def recent_ok_def RECENT_PUBLISH_IDS_CAPACITY_def Let_def)
  next
    case (Cons x xs)
    then show ?thesis
      using assms False by (auto simp: recent_insert_def recent_ok_def Let_def)
  qed
qed (use assms in \<open>simp_all add: recent_insert_def\<close>)

lemma recent_remove_ok:
  "recent_ok r \<Longrightarrow> recent_ok (recent_remove r i)" "i \<notin> ri_seen (recent_remove r i)"
  by (auto simp: recent_remove_def recent_ok_def intro: order.trans [OF length_filter_le])

lemma recent_frame:
  "rt_recent (snd (channel_entry rt ch)) = rt_recent rt"
  "rt_recent (publish_deliver d rt e) = rt_recent rt"
  "rt_recent (publish_forward rt e origin) = rt_recent rt"
  "rt_recent (publish_enqueue rt e permit) = rt_recent rt"
proof -
  show ce: "rt_recent (snd (channel_entry rt ch)) = rt_recent rt" for ch
    by (simp add: channel_entry_def Let_def split: option.split)
  show "rt_recent (publish_deliver d rt e) = rt_recent rt"
    by (simp add: publish_deliver_def Let_def ce split_beta)
qed (simp_all add: publish_forward_def offer_to_forward_sink_def publish_enqueue_def Let_def split: option.split)

lemma publish_recent:
  assumes "publish_from d rt now_ms e origin = (r, rt')"
  shows "rt_recent rt' = (case r of Inr _ \<Rightarrow> snd (recent_insert (rt_recent rt) (en_event_id e)) | Inl _ \<Rightarrow> rt_recent rt)"
proof (cases r)
  case (Inr s)
  obtain permit rt1 where r1: "publish_reserve rt e = (Inr permit, rt1)"
    using assms Inr by (auto simp: publish_from_def split: prod.splits sum.splits)
  then have "rt_recent rt1 = rt_recent rt" by (auto simp: publish_reserve_def split: if_splits)
  moreover obtain e' rt2 where st: "publish_stamp rt1 e now_ms = (e', rt2)" by (cases "publish_stamp rt1 e now_ms")
  then have "rt_recent rt2 = snd (recent_insert (rt_recent rt1) (en_event_id e))"
    by (auto simp: publish_stamp_def Let_def split: prod.splits)
  moreover have "rt' = publish_forward (publish_enqueue (publish_deliver d rt2 e') e' permit) e' origin"
    using assms by (simp add: publish_from_def r1 st Let_def)
  ultimately show ?thesis by (simp add: recent_frame Inr)
next
  case (Inl err)
  then show ?thesis
    using publish_cases [of d rt now_ms e origin] unfolding assms Inl by (auto split: if_splits)
qed

lemma if_new_eq:
  assumes "so_contains ops (rt_sink rt) (en_event_id e) = Inr held"
  shows "publish_if_new_from d ops rt now_ms e origin =
    (let rt0 = rt\<lparr> rt_recent := snd (recent_insert (rt_recent rt) (en_event_id e)) \<rparr>
     in if en_event_id e \<in> ri_seen (rt_recent rt) then (Inr Duplicate, rt)
        else if held then (Inr Duplicate, rt0)
        else (case publish_from d rt0 now_ms e origin of
                (Inr s, rt) \<Rightarrow> (Inr (Published s), rt)
              | (Inl err, rt) \<Rightarrow> (Inl err, unmark rt (en_event_id e))))"
proof (cases "en_event_id e \<in> ri_seen (rt_recent rt)")
  case False
  then obtain recent where "recent_insert (rt_recent rt) (en_event_id e) = (True, recent)"
    by (simp add: recent_insert_def Let_def split_beta)
  then show ?thesis
    using assms False by (cases held) (simp_all add: publish_if_new_from_def)
qed (simp add: publish_if_new_from_def recent_insert_def)

text \<open>
  Publishing if new is idempotent and safe to retry. It answers \<open>Duplicate\<close> exactly for an
  id in the recent window or in the sink, and then nothing was delivered or queued; after
  \<open>Published\<close>, publishing the same id again at once is a \<open>Duplicate\<close>; and after an error, which
  delivered nothing either, the id is not in the window, so that the retry is not mistaken
  for a duplicate.
\<close>

theorem publish_if_new_idempotent:
  assumes "recent_ok (rt_recent rt)" "sink_wf (rt_sink rt)"
    and "publish_if_new_from d (mem_sink_ops d) rt now_ms e origin = (r, rt')"
  shows "recent_ok (rt_recent rt') \<and>
    (r = Inr Duplicate \<longleftrightarrow> en_event_id e \<in> ri_seen (rt_recent rt) \<or>
       (\<exists>ch. \<exists>x \<in> set (bucket_of (rt_sink rt) ch). en_event_id x = en_event_id e)) \<and>
    (r = Inr Duplicate \<longrightarrow> same_core rt rt') \<and>
    (\<forall>s. r = Inr (Published s) \<longrightarrow>
       fst (publish_if_new_from d (mem_sink_ops d) rt' now_ms' e origin') = Inr Duplicate) \<and>
    (\<forall>err. r = Inl err \<longrightarrow> same_core rt rt' \<and> en_event_id e \<notin> ri_seen (rt_recent rt'))"
proof -
  let ?i = "en_event_id e" and ?ops = "mem_sink_ops d"
  let ?rt0 = "rt\<lparr> rt_recent := snd (recent_insert (rt_recent rt) (en_event_id e)) \<rparr>"
  note ri = recent_insert_ok [OF assms(1), of ?i]
  obtain held where stored: "so_contains ?ops (rt_sink rt) ?i = Inr held" by (simp add: sink_contains_def)
  have held': "held \<longleftrightarrow> (\<exists>ch. \<exists>x \<in> set (bucket_of (rt_sink rt) ch). en_event_id x = ?i)"
    using mem.contains_exact [OF assms(2) stored] by simp
  have core0: "same_core rt ?rt0" by (simp add: same_core_def)
  consider (seen) "?i \<in> ri_seen (rt_recent rt)" "r = Inr Duplicate" "rt' = rt"
    | (held) "?i \<notin> ri_seen (rt_recent rt)" held "r = Inr Duplicate" "rt' = ?rt0"
    | (published) s where "?i \<notin> ri_seen (rt_recent rt)" "\<not> held" "publish_from d ?rt0 now_ms e origin = (Inr s, rt')"
        "r = Inr (Published s)"
    | (failed) err rt1 where "?i \<notin> ri_seen (rt_recent rt)" "\<not> held" "publish_from d ?rt0 now_ms e origin = (Inl err, rt1)"
        "r = Inl err" "rt' = unmark rt1 ?i"
    using assms(3) unfolding if_new_eq [OF stored] Let_def
    by (cases "publish_from d ?rt0 now_ms e origin") (auto split: if_splits sum.splits)
  then show ?thesis
  proof cases
    case seen
    then show ?thesis using assms(1) by simp
  next
    case held
    then show ?thesis using held' ri core0 by auto
  next
    case published
    have "rt_recent rt' = snd (recent_insert (rt_recent ?rt0) ?i)"
      using publish_recent [OF published(3)] by simp
    then have ok: "recent_ok (rt_recent rt')" "?i \<in> ri_seen (rt_recent rt')"
      using recent_insert_ok [of "rt_recent ?rt0" ?i] ri by simp_all
    then have "fst (publish_if_new_from d ?ops rt' now_ms' e origin') = Inr Duplicate"
      by (simp add: publish_if_new_from_def recent_insert_def)
    then show ?thesis using published held' ok by auto
  next
    case failed
    have "rt_recent rt1 = rt_recent ?rt0" using publish_recent [OF failed(3)] by simp
    then have "recent_ok (rt_recent rt')" "?i \<notin> ri_seen (rt_recent rt')"
      using failed(5) ri recent_remove_ok by (simp_all add: unmark_def)
    moreover have "same_core rt rt'"
      using same_core_trans [OF core0 publish_refused_core [OF failed(3)]] failed(5)
      by (simp add: same_core_def unmark_def)
    ultimately show ?thesis using failed held' by auto
  qed
qed

theorem publish_if_new_idempotent_witness:
  "\<exists>s rt'. publish_if_new_from plain_bus (mem_sink_ops plain_bus) (bs_router demo0) 5 (demo_env 1 DC_Durable) None =
      (Inr (Published s), rt') \<and>
    fst (publish_if_new_from plain_bus (mem_sink_ops plain_bus) rt' 6 (demo_env 1 DC_Durable) None) = Inr Duplicate"
proof -
  let ?rt = "bs_router demo0" and ?e = "demo_env 1 DC_Durable" and ?ops = "mem_sink_ops plain_bus"
  let ?marked = "?rt\<lparr> rt_recent := snd (recent_insert (rt_recent ?rt) 1) \<rparr>"
  have recent: "rt_recent ?rt = recent_new" by (simp add: demo0_def bus_start_def router_new_def)
  have wf: "sink_wf (rt_sink ?rt)" using demo0_reaches by (simp add: router_reaches_def demo0_facts)
  have none: "so_contains ?ops (rt_sink ?rt) (en_event_id ?e) = Inr False"
    by (simp add: demo0_facts sink_new_def sink_contains_def bt_values_def)
  have "\<not> write_behind_full ?marked" "\<not> rt_writer_gone ?marked"
    using demo0_facts by (simp_all add: write_behind_full_def)
  then have "fst (publish_from plain_bus ?marked 5 ?e None) = Inr (Seq 1 1)"
    by (subst publish_cases) (simp add: demo0_facts demo_src_def)
  then obtain rt' where "publish_from plain_bus ?marked 5 ?e None = (Inr (Seq 1 1), rt')"
    by (metis prod.collapse)
  then have pub: "publish_if_new_from plain_bus ?ops ?rt 5 ?e None = (Inr (Published (Seq 1 1)), rt')"
    unfolding if_new_eq [OF none] Let_def by (simp add: recent) (simp add: recent_new_def)
  then show ?thesis
    using publish_if_new_idempotent [OF _ wf pub] recent recent_new_ok by auto
qed

section \<open>Two interleavings\<close>

lemma deliver_spec:
  assumes "rt_shards rt \<noteq> []"
  shows "rt_shards (publish_deliver d rt e) \<noteq> []"
    "rt_chans (publish_deliver d rt e) =
       fan_out (rt_chans rt) (visit (cs_subscribers (state_of rt (en_channel e))) (en_headers e)) e"
    "cs_subscribers (state_of (publish_deliver d rt e) ch) = cs_subscribers (state_of rt ch)"
proof -
  obtain st rt1 where ce: "channel_entry rt (en_channel e) = (st, rt1)" by (cases "channel_entry rt (en_channel e)")
  note c = channel_entry_spec [OF ce assms] channel_entry_state [OF ce assms]
  show "rt_shards (publish_deliver d rt e) \<noteq> []"
    "rt_chans (publish_deliver d rt e) =
       fan_out (rt_chans rt) (visit (cs_subscribers (state_of rt (en_channel e))) (en_headers e)) e"
    "cs_subscribers (state_of (publish_deliver d rt e) ch) = cs_subscribers (state_of rt ch)"
    using c by (simp_all add: publish_deliver_def ce Let_def state_of_put_channel)
qed

text \<open>
  C38. The sequence number of a publish is drawn before the shard lock is taken. When two
  publishers draw in one order and deliver in the other, a subscriber's queue holds the two
  envelopes with the later number first, its lag flag stays clear, and its live leg drops
  the one with the earlier number whatever its watermark is: the envelope is lost to that
  stream without a sign.
\<close>

theorem inverted_delivery_lost:
  assumes ok: "subs_ok bus" and reg: "(sid, h) \<in> set (bs_subs bus ch)"
    and c: "map_of (rt_chans (bs_router bus)) sid = Some c" "\<not> sc_closed c" "\<not> sc_lagged c" "sc_queue c = []"
      "2 \<le> sc_capacity c"
    and m: "bus_filter_matches (sh_filter h) a" "bus_filter_matches (sh_filter h) b"
    and w: "bt_wf (en_headers a)" "bt_wf (en_headers b)"
    and counter: "ss_counter (rt_seq (bs_router bus)) < - 1"
    and stamp: "publish_stamp (bs_router bus) a now_a = (a', rt1)" "publish_stamp rt1 b now_b = (b', rt2)"
    and rt4: "rt4 = publish_deliver d (publish_deliver d rt2 b') a'"
  shows "map_of (rt_chans rt4) sid = Some (c\<lparr> sc_queue := [b', a'] \<rparr>) \<and> \<not> is_lagged rt4 sid \<and>
    en_event_id a' = en_event_id a \<and> a' \<notin> set (fst (live_leg high [b', a']))"
proof -
  let ?rt = "bs_router bus"
  have regs: "registry_rep handle_hf (bs_subs bus ch) (cs_subscribers (state_of ?rt ch))" "regs_ok ch (bs_subs bus ch)"
    "rt_shards ?rt \<noteq> []"
    using subs_okD [OF ok] by auto
  then have "bf_channel (sh_filter h) = ch" "sh_tx h = sid" using reg by (auto simp: regs_ok_def)
  then have chan: "en_channel a = ch" "en_channel b = ch"
    using m by (auto simp: bus_filter_matches_def split: if_splits)
  have a': "a' = a\<lparr> en_seq := Seq (ss_epoch (rt_seq ?rt)) (ss_counter (rt_seq ?rt)), en_occurred_at_ms := now_a \<rparr>"
    and b': "b' = b\<lparr> en_seq := Seq (ss_epoch (rt_seq ?rt)) (ss_counter (rt_seq ?rt) + 1), en_occurred_at_ms := now_b \<rparr>"
    and rt2: "rt_shards rt2 = rt_shards ?rt" "rt_chans rt2 = rt_chans ?rt" "state_of rt2 = state_of ?rt"
    using stamp by (auto simp: publish_stamp_def seq_next_def Let_def)
  have less: "env_cursor a' < env_cursor b'"
    using word_less_suc' [OF counter] by (simp add: a' b' env_cursor_def cursor_less_iff seq_less_iff)
  have m': "bus_filter_matches (sh_filter h) a'" "bus_filter_matches (sh_filter h) b'"
    using m unfolding a' b' bus_filter_matches_def by (simp_all split: if_splits)
  have sh2: "rt_shards rt2 \<noteq> []" using rt2 regs(3) by simp
  let ?rt3 = "publish_deliver d rt2 b'"
  note d2 = deliver_spec [OF sh2, of d b'] and d3 = deliver_spec [OF deliver_spec(1) [OF sh2, of d b'], of d a']
  have fan: "map_of (fan_out chans (visit (cs_subscribers (state_of ?rt ch)) (en_headers x)) x) sid =
      map_option (sent x) (map_of chans sid)" if "bt_wf (en_headers x)" "bus_filter_matches (sh_filter h) x" for x chans
    using fan_out_registry [OF regs(1,2) that(1), of chans sid] reg that(2) by auto
  have "map_of (rt_chans ?rt3) sid = Some (c\<lparr> sc_queue := [b'] \<rparr>)"
    using fan [OF _ m'(2), of "rt_chans ?rt"] w c d2 by (simp add: rt2 b' chan sent_def)
  then have "map_of (rt_chans rt4) sid = Some (c\<lparr> sc_queue := [b', a'] \<rparr>)"
    using fan [OF _ m'(1), of "rt_chans ?rt3"] w c d2 d3 by (simp add: rt4 rt2 a' chan sent_def)
  moreover have "a' \<notin> set (fst (live_leg high [b', a']))"
  proof -
    have "a' \<noteq> b'" using less by auto
    then show ?thesis using less by (cases high) (auto simp: not_less split: prod.splits)
  qed
  ultimately show ?thesis using c by (simp add: is_lagged_def a')
qed

theorem inverted_delivery_lost_witness:
  "\<exists>a' b' (rt4 :: mem_sink router). map_of (rt_chans rt4) 1 =
      Some \<lparr> sc_queue = [b', a'], sc_capacity = 4, sc_closed = False, sc_lagged = False \<rparr> \<and>
    \<not> is_lagged rt4 1 \<and> env_durable a' \<and> a' \<notin> set (fst (live_leg None [b', a']))"
proof -
  let ?a = "demo_env 5 DC_Durable" and ?b = "demo_env 6 DC_Durable"
  obtain a' rt1 b' rt2 where s: "publish_stamp (bs_router demo2) ?a 7 = (a', rt1)" "publish_stamp rt1 ?b 8 = (b', rt2)"
    by (metis prod.collapse)
  have m: "bus_filter_matches demo_filter (demo_env i DC_Durable)" for i
    by (simp add: bus_filter_matches_def demo_filter_def filter_channel_def)
  have c: "ss_counter (rt_seq (bs_router demo2)) < - 1"
    by (simp add: demo2_spec demo1_facts demo_seq_less)
  have ok: "subs_ok demo2" using router_inv [OF demo2_reaches] by blast
  have reg: "(1, \<lparr> sh_tx = 1, sh_filter = demo_filter \<rparr>) \<in> set (bs_subs demo2 9)" by (simp add: demo2_facts)
  let ?rt4 = "publish_deliver plain_bus (publish_deliver plain_bus rt2 b') a'"
  let ?c = "\<lparr> sc_queue = [], sc_capacity = 4, sc_closed = False, sc_lagged = False \<rparr>"
  have "map_of (rt_chans ?rt4) 1 = Some (?c\<lparr> sc_queue := [b', a'] \<rparr>) \<and> \<not> is_lagged ?rt4 1 \<and>
      en_event_id a' = en_event_id ?a \<and> a' \<notin> set (fst (live_leg None [b', a']))"
    by (rule inverted_delivery_lost [OF ok reg demo2_facts(7) _ _ _ _ _ _ _ _ c s refl]) (simp_all add: m)
  moreover have "env_durable a'" using s(1) by (auto simp: publish_stamp_def seq_next_def Let_def is_durable_def)
  ultimately show ?thesis
    unfolding sub_chan.update_convs by - (rule exI [of _ a'], rule exI [of _ b'], rule exI [of _ ?rt4], blast)
qed

text \<open>
  A registration on a channel with an empty ring, at the start of its history: a lossy
  envelope that is published after the registration, before a durable whose row the deep
  replay then finds in the sink, is dropped by the live leg as already replayed, although
  no leg delivered it.
\<close>

theorem seam_drops_lossy:
  assumes "st_live_only st = False" "st_from_cursor st = None" "st_ring_oldest st = None" "st_ring_snapshot st = []"
    and "bus_filter_matches (st_filter st) x" "bus_filter_matches (st_filter st) y"
    and "env_cursor x < env_cursor y" "bucket_of s (bf_channel (st_filter st)) = [y]"
  shows "stream_items (mem_sink_ops d) (\<lambda>_. s) st [x, y] = Some [y]"
proof -
  have "deep_loop (mem_sink_ops d) (\<lambda>_. s) (st_filter st) None 0 None None = Some ([y], Some (env_cursor y))"
    using assms(6,8) by (subst deep_loop.simps) (simp add: sink_page_def DEEP_REPLAY_PAGE_def)
  then show ?thesis
    using assms by (simp add: stream_items_def)
qed

theorem seam_drops_lossy_witness:
  "stream_items (mem_sink_ops plain_bus)
     (\<lambda>_. \<lparr> sk_events = [(9, [sample_env 2 DC_Durable])], sk_append_count = 1, sk_page_count = 0 \<rparr>)
     \<lparr> st_sid = 1, st_filter = demo_filter, st_from_cursor = None, st_live_only = False,
        st_ring_snapshot = [], st_ring_oldest = None \<rparr>
     [sample_env 1 DC_StreamChunk, sample_env 2 DC_Durable] = Some [sample_env 2 DC_Durable]"
  by (rule seam_drops_lossy)
    (simp_all add: demo_filter_def filter_channel_def bus_filter_matches_def sample_env_def envelope_new_def
      bucket_of_def env_cursor_def cursor_less_iff seq_less_iff)

end
