(* ===== verification/Proto_Session.thy ===== *)
theory Proto_Session
  imports Airc_Prelude
begin

text \<open>
  The symmetric stream session (\<open>airc-protocol/src/session.rs\<close>): the sliding replay window
  over 64-bit counters, the derivation of the two directional keys, sealing and opening of
  frames. The ciphers of the crates \<open>hkdf\<close> and \<open>chacha20poly1305\<close> are a parameter, the
  record \<open>session_crypto\<close>; \<open>aead_correct\<close> is the documented round trip of the AEAD.

  The window is proved equal to a filter that remembers every counter it was given: a
  counter is accepted exactly when it was not recorded and is less than 64 below every
  recorded one. The locale \<open>anti_replay\<close> is what opening a frame needs of such a filter.
\<close>

unbundle bit_operations_syntax

type_synonym byte = "8 word"
type_synonym u32 = "32 word"

section \<open>Standard library\<close>

definition checked_add :: "'a::len word \<Rightarrow> 'a word \<Rightarrow> 'a word option" where
  "checked_add a b = (if unat a + unat b < 2 ^ LENGTH('a) then Some (a + b) else None)"

text \<open>The \<open>n\<close> low bytes of a word, the most significant one first (\<open>to_be_bytes\<close>).\<close>

definition be_bytes :: "nat \<Rightarrow> 'a::len word \<Rightarrow> byte list" where
  "be_bytes n w = map (\<lambda>i. ucast (drop_bit (8 * i) w)) (rev [0..<n])"

lemma length_be_bytes [simp]: "length (be_bytes n w) = n"
  by (simp add: be_bytes_def)

lemma be_bytes_inject:
  fixes v w :: "'a::len word"
  assumes eq: "be_bytes n v = be_bytes n w" and width: "LENGTH('a) \<le> 8 * n"
  shows "v = w"
proof (rule bit_word_eqI)
  fix k assume k: "k < LENGTH('a)"
  have byte: "(ucast (drop_bit (8 * i) v) :: byte) = ucast (drop_bit (8 * i) w)" if "i < n" for i
    using eq that by (auto simp: be_bytes_def)
  have "k div 8 < n"
    using k width by linarith
  then have "bit (ucast (drop_bit (8 * (k div 8)) v) :: byte) (k mod 8) =
      bit (ucast (drop_bit (8 * (k div 8)) w) :: byte) (k mod 8)"
    by (simp add: byte)
  moreover have "8 * (k div 8) + k mod 8 = k"
    by simp
  ultimately show "bit v k = bit w k"
    by (simp add: bit_ucast_iff bit_drop_bit_eq)
qed

section \<open>Data\<close>

datatype session_role = Initiator | Responder

datatype session_error = SE_AeadFailed | SE_Replay | SE_CounterExhausted | SE_KeyDerivation

record sealed_frame =
  sf_counter :: u64
  sf_ciphertext :: "byte list"

record session_crypto =
  sc_hkdf_expand :: "byte list \<Rightarrow> byte list \<Rightarrow> byte list \<Rightarrow> byte list option"
    \<comment> \<open>salt, input key material, info; the 32-byte output\<close>
  sc_encrypt :: "byte list \<Rightarrow> byte list \<Rightarrow> byte list \<Rightarrow> byte list \<Rightarrow> byte list option"
    \<comment> \<open>key, nonce, associated data, plaintext\<close>
  sc_decrypt :: "byte list \<Rightarrow> byte list \<Rightarrow> byte list \<Rightarrow> byte list \<Rightarrow> byte list option"
    \<comment> \<open>key, nonce, associated data, ciphertext\<close>

section \<open>The replay window\<close>

definition WINDOW_BITS :: u64 where
  "WINDOW_BITS = 64"

record replay_win =
  rw_highest :: u64
  rw_seen :: u64
  rw_armed :: bool

definition replay_window_default :: replay_win where
  "replay_window_default = \<lparr> rw_highest = 0, rw_seen = 0, rw_armed = False \<rparr>"

definition would_accept :: "replay_win \<Rightarrow> u64 \<Rightarrow> bool" where
  "would_accept w ctr =
     (if \<not> rw_armed w \<or> rw_highest w < ctr then True
      else
        let diff = rw_highest w - ctr in
        if WINDOW_BITS \<le> diff then False
        else rw_seen w AND push_bit (unat diff) 1 = 0)"

definition record_counter :: "replay_win \<Rightarrow> u64 \<Rightarrow> replay_win" where
  "record_counter w ctr =
     (if \<not> rw_armed w then \<lparr> rw_highest = ctr, rw_seen = 1, rw_armed = True \<rparr>
      else if rw_highest w < ctr then
        let shift = ctr - rw_highest w;
            seen = (if WINDOW_BITS \<le> shift then 0 else push_bit (unat shift) (rw_seen w))
        in w\<lparr> rw_seen := seen OR 1, rw_highest := ctr \<rparr>
      else
        let diff = rw_highest w - ctr in
        if diff < WINDOW_BITS then w\<lparr> rw_seen := rw_seen w OR push_bit (unat diff) 1 \<rparr> else w)"

section \<open>The session\<close>

record stream_session =
  ss_seal_key :: "byte list"
  ss_open_key :: "byte list"
  ss_seal_ctr :: u64
  ss_replay :: replay_win

definition bytes_of :: "string \<Rightarrow> byte list" where
  "bytes_of s = map (\<lambda>c. of_nat (of_char c)) s"

definition expand_key ::
  "session_crypto \<Rightarrow> byte list \<Rightarrow> byte list \<Rightarrow> byte list \<Rightarrow> session_error + byte list" where
  "expand_key cr transcript shared info =
     ok_or (sc_hkdf_expand cr transcript shared info) SE_KeyDerivation"

definition derive ::
  "session_crypto \<Rightarrow> byte list \<Rightarrow> byte list \<Rightarrow> session_role \<Rightarrow> session_error + stream_session" where
  "derive cr shared transcript role =
     res_bind (expand_key cr transcript shared (bytes_of ''airc stream v1 i2r'')) (\<lambda>key_i2r.
     res_bind (expand_key cr transcript shared (bytes_of ''airc stream v1 r2i'')) (\<lambda>key_r2i.
       let (seal_bytes, open_bytes) =
         (case role of Initiator \<Rightarrow> (key_i2r, key_r2i) | Responder \<Rightarrow> (key_r2i, key_i2r))
       in Inr \<lparr> ss_seal_key = seal_bytes, ss_open_key = open_bytes, ss_seal_ctr = 0,
                ss_replay = replay_window_default \<rparr>))"

definition nonce_from_counter :: "u64 \<Rightarrow> byte list" where
  "nonce_from_counter counter = replicate 4 0 @ be_bytes 8 counter"

text \<open>An exhausted counter returns before the assignment; a failing cipher after it.\<close>

definition seal ::
  "session_crypto \<Rightarrow> stream_session \<Rightarrow> byte list \<Rightarrow> byte list \<Rightarrow>
     stream_session \<times> (session_error + sealed_frame)" where
  "seal cr s aad plaintext =
     (let counter = ss_seal_ctr s in
      case checked_add counter 1 of
        None \<Rightarrow> (s, Inl SE_CounterExhausted)
      | Some next \<Rightarrow>
          let s' = s\<lparr> ss_seal_ctr := next \<rparr> in
          case sc_encrypt cr (ss_seal_key s') (nonce_from_counter counter) aad plaintext of
            None \<Rightarrow> (s', Inl SE_AeadFailed)
          | Some ciphertext \<Rightarrow>
              (s', Inr \<lparr> sf_counter = counter, sf_ciphertext = ciphertext \<rparr>))"

definition open_frame ::
  "session_crypto \<Rightarrow> stream_session \<Rightarrow> sealed_frame \<Rightarrow> byte list \<Rightarrow>
     stream_session \<times> (session_error + byte list)" where
  "open_frame cr s frame aad =
     (case sc_decrypt cr (ss_open_key s) (nonce_from_counter (sf_counter frame)) aad
             (sf_ciphertext frame) of
        None \<Rightarrow> (s, Inl SE_AeadFailed)
      | Some plaintext \<Rightarrow>
          if \<not> would_accept (ss_replay s) (sf_counter frame) then (s, Inl SE_Replay)
          else (s\<lparr> ss_replay := record_counter (ss_replay s) (sf_counter frame) \<rparr>, Inr plaintext))"

section \<open>The window as a set of counters\<close>

text \<open>The window represents a set of recorded counters: bit \<open>n\<close> says whether the counter
  \<open>n\<close> below the highest one is in the set.\<close>

definition window_rep :: "replay_win \<Rightarrow> u64 set \<Rightarrow> bool" where
  "window_rep w S \<longleftrightarrow>
     (if rw_armed w then
        rw_highest w \<in> S \<and> (\<forall>c \<in> S. c \<le> rw_highest w) \<and>
        (\<forall>n < 64. bit (rw_seen w) n \<longleftrightarrow> (\<exists>c \<in> S. unat c + n = unat (rw_highest w)))
      else S = {})"

definition in_window :: "u64 set \<Rightarrow> u64 \<Rightarrow> bool" where
  "in_window S c \<longleftrightarrow> c \<notin> S \<and> (\<forall>d \<in> S. unat d < unat c + 64)"

lemma unat_window_bits [simp]: "unat WINDOW_BITS = 64"
  by (simp add: WINDOW_BITS_def)

lemma and_bit_zero_iff: "w AND 2 ^ n = 0 \<longleftrightarrow> \<not> bit w n" if "n < 64" for w :: u64
proof -
  have "w AND 2 ^ n = (if bit w n then 2 ^ n else 0)"
    by (rule bit_word_eqI) (auto simp: bit_and_iff bit_exp_iff)
  moreover have "bit (2 ^ n :: u64) n"
    using that by (simp add: bit_exp_iff)
  ultimately show ?thesis by (metis bit_0_eq bot_apply bot_bool_def)
qed

lemma window_rep_default [simp]: "window_rep replay_window_default {}"
  by (simp add: window_rep_def replay_window_default_def)

lemma window_rep_highest:
  assumes "window_rep w S" and "c \<in> S"
  shows "rw_armed w" and "unat c \<le> unat (rw_highest w)" and "rw_highest w \<in> S"
  using assms by (auto simp: window_rep_def word_le_nat_alt split: if_splits)

lemma window_rep_bit:
  assumes "window_rep w S" and "rw_armed w" and "unat c + n = unat (rw_highest w)" and "n < 64"
  shows "bit (rw_seen w) n \<longleftrightarrow> c \<in> S"
  using assms by (auto simp: window_rep_def) (metis add_right_cancel word_unat_eq_iff)

lemma would_accept_iff:
  assumes rep: "window_rep w S"
  shows "would_accept w c \<longleftrightarrow> in_window S c"
proof (cases "\<not> rw_armed w \<or> rw_highest w < c")
  case True
  then have "unat d < unat c" if "d \<in> S" for d
    using window_rep_highest [OF rep that] by (simp add: word_order_nat)
  then have "in_window S c"
    by (fastforce simp: in_window_def)
  then show ?thesis
    using True by (simp add: would_accept_def)
next
  case False
  define n where "n = unat (rw_highest w) - unat c"
  have le: "unat c \<le> unat (rw_highest w)" and armed: "rw_armed w"
    using False by (simp_all add: word_order_nat)
  have n: "unat (rw_highest w - c) = n" "unat c + n = unat (rw_highest w)"
    using le by (simp_all add: n_def unat_sub_if')
  have "would_accept w c \<longleftrightarrow> n < 64 \<and> \<not> bit (rw_seen w) n"
    using False by (auto simp: would_accept_def word_le_nat_alt n and_bit_zero_iff)
  moreover have "in_window S c \<longleftrightarrow> c \<notin> S \<and> n < 64"
  proof -
    have "rw_highest w \<in> S"
      using rep armed by (simp add: window_rep_def)
    then show ?thesis
      using window_rep_highest(2) [OF rep] n(2) by (fastforce simp: in_window_def)
  qed
  ultimately show ?thesis
    using window_rep_bit [OF rep armed n(2)] by auto
qed

lemma bit_shifted_window:
  "bit (push_bit k w OR 1) n \<longleftrightarrow> n = 0 \<or> k \<le> n \<and> bit w (n - k)" if "n < 64" for w :: u64
  using that by (auto simp: bit_or_iff bit_push_bit_iff bit_1_iff)

lemma bit_marked_window:
  "bit (w OR 2 ^ k) n \<longleftrightarrow> n = k \<or> bit w n" if "n < 64" for w :: u64
  using that by (auto simp: bit_or_iff bit_exp_iff)

lemma window_rep_advance:
  assumes rep: "window_rep w S" and armed: "rw_armed w" and less: "rw_highest w < c"
  shows "window_rep (record_counter w c) (insert c S)"
proof -
  define k where "k = unat c - unat (rw_highest w)"
  have k: "unat (c - rw_highest w) = k" "unat (rw_highest w) + k = unat c" "0 < k"
    using less by (simp_all add: k_def unat_sub_if' word_order_nat)
  define seen where "seen = (if 64 \<le> k then 0 else push_bit k (rw_seen w))"
  have rec: "record_counter w c = w\<lparr> rw_seen := seen OR 1, rw_highest := c \<rparr>"
    using armed less k by (simp add: record_counter_def Let_def seen_def word_le_nat_alt)
  have "bit (seen OR 1) n \<longleftrightarrow> (\<exists>d \<in> insert c S. unat d + n = unat c)" if n: "n < 64" for n
  proof (cases "n = 0 \<or> n < k")
    case True
    have "unat d + n \<noteq> unat c" if "d \<in> S" "n \<noteq> 0" for d
      using window_rep_highest(2) [OF rep that(1)] True that(2) k by linarith
    then show ?thesis
      using True n by (cases "n = 0") (auto simp: seen_def bit_shifted_window bit_1_iff)
  next
    case False
    then have "bit (seen OR 1) n \<longleftrightarrow> bit (rw_seen w) (n - k)"
      using n by (simp add: seen_def bit_shifted_window)
    also have "\<dots> \<longleftrightarrow> (\<exists>d \<in> S. unat d + (n - k) = unat (rw_highest w))"
      using rep armed n by (simp add: window_rep_def)
    also have "\<dots> \<longleftrightarrow> (\<exists>d \<in> insert c S. unat d + n = unat c)"
    proof -
      have "unat d + (n - k) = unat (rw_highest w) \<longleftrightarrow> unat d + n = unat c" for d :: u64
        using False k(2) by linarith
      then show ?thesis using False by simp
    qed
    finally show ?thesis .
  qed
  moreover have "d \<le> c" if "d \<in> S" for d
    using window_rep_highest(2) [OF rep that] less by (simp add: word_order_nat)
  ultimately show ?thesis
    using armed by (simp add: rec window_rep_def)
qed

lemma window_rep_mark:
  assumes rep: "window_rep w S" and armed: "rw_armed w" and le: "c \<le> rw_highest w"
  shows "window_rep (record_counter w c) (insert c S)"
proof -
  define k where "k = unat (rw_highest w) - unat c"
  have k: "unat (rw_highest w - c) = k" "unat c + k = unat (rw_highest w)"
    using le by (simp_all add: k_def unat_sub_if' word_order_nat)
  have rec: "record_counter w c =
      (if k < 64 then w\<lparr> rw_seen := rw_seen w OR 2 ^ k \<rparr> else w)"
    using armed le k by (simp add: record_counter_def Let_def word_less_nat_alt word_le_nat_alt)
  have "bit (rw_seen (record_counter w c)) n \<longleftrightarrow>
      (\<exists>d \<in> insert c S. unat d + n = unat (rw_highest w))" if n: "n < 64" for n
    using rep armed n k(2) by (auto simp: rec window_rep_def bit_marked_window)
  then show ?thesis
    using rep armed le by (simp add: window_rep_def rec)
qed

lemma window_rep_record:
  assumes rep: "window_rep w S"
  shows "window_rep (record_counter w c) (insert c S)"
proof (cases "rw_armed w")
  case True
  then show ?thesis
    using window_rep_advance [OF rep] window_rep_mark [OF rep] by (meson leI)
next
  case False
  moreover have "unat c + n = unat c \<longleftrightarrow> n = 0" for n
    by simp
  ultimately show ?thesis
    using rep by (auto simp: window_rep_def record_counter_def bit_1_iff)
qed

lemma window_rep_fold: "window_rep w S \<Longrightarrow> window_rep (foldl record_counter w cs) (set cs \<union> S)"
proof (induction cs arbitrary: w S)
  case (Cons c cs)
  have "window_rep (foldl record_counter (record_counter w c) cs) (set cs \<union> insert c S)"
    by (rule Cons.IH) (rule window_rep_record [OF Cons.prems])
  then show ?case by simp
qed simp

section \<open>What opening needs of a replay filter\<close>

locale anti_replay =
  fixes rep :: "'w \<Rightarrow> u64 set \<Rightarrow> bool" and fresh :: 'w
    and accepts :: "'w \<Rightarrow> u64 \<Rightarrow> bool" and mark :: "'w \<Rightarrow> u64 \<Rightarrow> 'w"
  assumes rep_fresh: "rep fresh {}"
    and rep_mark: "rep w S \<Longrightarrow> rep (mark w c) (insert c S)"
    and accepts_iff: "rep w S \<Longrightarrow> accepts w c \<longleftrightarrow> in_window S c"
begin

definition offer :: "'w \<Rightarrow> u64 \<Rightarrow> 'w" where
  "offer w c = (if accepts w c then mark w c else w)"

text \<open>A refused counter is either in the set or 64 below a member: adding it to the set
  changes no later answer, so the filter may forget that it was offered.\<close>

lemma in_window_absorb:
  "\<not> in_window S c \<Longrightarrow> in_window (insert c S) d \<longleftrightarrow> in_window S d"
  by (auto simp: in_window_def)

definition admits :: "'w \<Rightarrow> u64 set \<Rightarrow> bool" where
  "admits w S \<longleftrightarrow> (\<exists>T \<subseteq> S. rep w T \<and> (\<forall>d. in_window T d \<longleftrightarrow> in_window S d))"

lemma admits_accepts: "admits w S \<Longrightarrow> accepts w c \<longleftrightarrow> in_window S c"
  by (auto simp: admits_def accepts_iff)

lemma admits_fresh: "admits fresh {}"
  using rep_fresh by (auto simp: admits_def)

lemma admits_offer:
  assumes "admits w S"
  shows "admits (offer w c) (insert c S)"
proof -
  obtain T where T: "T \<subseteq> S" "rep w T" "\<And>d. in_window T d \<longleftrightarrow> in_window S d"
    using assms by (auto simp: admits_def)
  show ?thesis
  proof (cases "in_window S c")
    case True
    have "in_window (insert c T) d \<longleftrightarrow> in_window (insert c S) d" for d
      using T(3) [of d] by (auto simp: in_window_def)
    then have "\<exists>U \<subseteq> insert c S. rep (mark w c) U \<and> (\<forall>d. in_window U d \<longleftrightarrow> in_window (insert c S) d)"
      using T(1) rep_mark [OF T(2)] by (intro exI [of _ "insert c T"]) auto
    then show ?thesis
      using True T by (simp add: admits_def offer_def accepts_iff)
  next
    case False
    then show ?thesis
      using T in_window_absorb [OF False]
      by (auto simp: admits_def offer_def accepts_iff)
  qed
qed

end

interpretation rw: anti_replay window_rep replay_window_default would_accept record_counter
  by unfold_locales (simp_all add: window_rep_record would_accept_iff)

section \<open>Sequences of frames\<close>

text \<open>A sender that seals a list of messages, and a receiver that opens a list of frames;
  a message or frame comes with its associated data.\<close>

fun seal_run ::
  "session_crypto \<Rightarrow> stream_session \<Rightarrow> (byte list \<times> byte list) list \<Rightarrow>
     stream_session \<times> (session_error + sealed_frame) list" where
  "seal_run cr s [] = (s, [])"
| "seal_run cr s (m # ms) =
     (let (s', r) = seal cr s (fst m) (snd m); (s'', rs) = seal_run cr s' ms in (s'', r # rs))"

fun open_run ::
  "session_crypto \<Rightarrow> stream_session \<Rightarrow> (byte list \<times> sealed_frame) list \<Rightarrow>
     stream_session \<times> (session_error + byte list) list" where
  "open_run cr s [] = (s, [])"
| "open_run cr s (f # fs) =
     (let (s', r) = open_frame cr s (snd f) (fst f); (s'', rs) = open_run cr s' fs in (s'', r # rs))"

definition aead_correct :: "session_crypto \<Rightarrow> bool" where
  "aead_correct cr \<longleftrightarrow>
     (\<forall>key nonce aad msg c.
        sc_encrypt cr key nonce aad msg = Some c \<longrightarrow> sc_decrypt cr key nonce aad c = Some msg)"

lemma seal_run_append:
  "seal_run cr s (ms @ ns) =
     (let (s', rs) = seal_run cr s ms; (s'', qs) = seal_run cr s' ns in (s'', rs @ qs))"
  by (induction ms arbitrary: s) (simp_all add: Let_def split_beta)

lemma open_run_append:
  "open_run cr s (fs @ gs) =
     (let (s', rs) = open_run cr s fs; (s'', qs) = open_run cr s' gs in (s'', rs @ qs))"
  by (induction fs arbitrary: s) (simp_all add: Let_def split_beta)

lemma length_seal_run [simp]: "length (snd (seal_run cr s ms)) = length ms"
  by (induction ms arbitrary: s) (simp_all add: Let_def split_beta)

lemma length_open_run [simp]: "length (snd (open_run cr s fs)) = length fs"
  by (induction fs arbitrary: s) (simp_all add: Let_def split_beta)

lemma checked_add_one: "checked_add (w :: u64) 1 = (if w = - 1 then None else Some (w + 1))"
proof -
  have "unat w + 1 < 2 ^ 64 \<longleftrightarrow> w \<noteq> - 1"
    using unat_bound [of w] unat_word_max [where 'a = 64]
    by (auto simp: word_unat_eq_iff)
  then show ?thesis
    by (simp add: checked_add_def)
qed

text \<open>The counter after a list of messages: it advances once a message and stops at the
  largest value.\<close>

lemma seal_advances:
  "unat (ss_seal_ctr (fst (seal cr s aad m))) = min (unat (ss_seal_ctr s) + 1) (2 ^ 64 - 1)"
  "ss_seal_key (fst (seal cr s aad m)) = ss_seal_key s"
proof -
  have "unat (w + 1) = min (unat w + 1) (2 ^ 64 - 1)" if "w \<noteq> - 1" for w :: u64
    using that unat_bound [of w] unat_word_max [where 'a = 64]
    by (auto simp: word_unat_eq_iff unat_word_ariths min_def)
  then show "unat (ss_seal_ctr (fst (seal cr s aad m))) = min (unat (ss_seal_ctr s) + 1) (2 ^ 64 - 1)"
    using unat_word_max [where 'a = 64]
    by (auto simp: seal_def Let_def checked_add_one min_def split: option.split)
qed (simp add: seal_def Let_def checked_add_one split: option.split)

lemma seal_run_state:
  "unat (ss_seal_ctr (fst (seal_run cr s ms))) = min (unat (ss_seal_ctr s) + length ms) (2 ^ 64 - 1)"
  "ss_seal_key (fst (seal_run cr s ms)) = ss_seal_key s"
  using unat_bound [of "ss_seal_ctr s"]
  by (induction ms arbitrary: s) (simp_all add: Let_def split_beta seal_advances unat_bound)

lemma seal_run_nth:
  "i < length ms \<Longrightarrow>
     snd (seal_run cr s ms) ! i =
       snd (seal cr (fst (seal_run cr s (take i ms))) (fst (ms ! i)) (snd (ms ! i)))"
  by (induction ms arbitrary: s i) (auto simp: Let_def split_beta nth_Cons take_Cons split: nat.split)

lemma open_run_nth:
  "i < length fs \<Longrightarrow>
     snd (open_run cr s fs) ! i =
       snd (open_frame cr (fst (open_run cr s (take i fs))) (snd (fs ! i)) (fst (fs ! i)))"
  by (induction fs arbitrary: s i) (auto simp: Let_def split_beta nth_Cons take_Cons split: nat.split)

lemma seal_exhausted_iff:
  "snd (seal cr s aad m) = Inl SE_CounterExhausted \<longleftrightarrow> unat (ss_seal_ctr s) = 2 ^ 64 - 1"
  using unat_word_max [where 'a = 64]
  by (auto simp: seal_def Let_def checked_add_one word_unat_eq_iff split: option.split)

lemma seal_OkD:
  "snd (seal cr s aad m) = Inr f \<Longrightarrow>
     sf_counter f = ss_seal_ctr s \<and> unat (ss_seal_ctr s) < 2 ^ 64 - 1 \<and>
     sc_encrypt cr (ss_seal_key s) (nonce_from_counter (sf_counter f)) aad m = Some (sf_ciphertext f)"
  using unat_word_max [where 'a = 64] unat_bound [of "ss_seal_ctr s"]
  by (auto simp: seal_def Let_def checked_add_one word_unat_eq_iff split: option.splits if_splits)

lemma seal_run_OkD:
  assumes i: "i < length ms" and ok: "snd (seal_run cr s ms) ! i = Inr f"
  shows "unat (sf_counter f) = unat (ss_seal_ctr s) + i"
    and "sc_encrypt cr (ss_seal_key s) (nonce_from_counter (sf_counter f)) (fst (ms ! i)) (snd (ms ! i))
           = Some (sf_ciphertext f)"
proof -
  let ?s = "fst (seal_run cr s (take i ms))"
  have "snd (seal cr ?s (fst (ms ! i)) (snd (ms ! i))) = Inr f"
    using ok by (simp add: seal_run_nth [OF i])
  from seal_OkD [OF this] show "unat (sf_counter f) = unat (ss_seal_ctr s) + i"
      and "sc_encrypt cr (ss_seal_key s) (nonce_from_counter (sf_counter f)) (fst (ms ! i)) (snd (ms ! i))
           = Some (sf_ciphertext f)"
    using i by (auto simp: seal_run_state min_def split: if_splits)
qed

lemma nonce_inject [simp]: "nonce_from_counter c = nonce_from_counter d \<longleftrightarrow> c = d"
  by (auto simp: nonce_from_counter_def dest: be_bytes_inject)

text \<open>
  C17. A sender never uses a nonce twice. In any sequence of seals under one session the
  frame at position \<open>i\<close> carries the counter \<open>i\<close> above the first, so no two frames share a
  nonce; the calls are refused with \<open>CounterExhausted\<close> exactly from the call that would
  need the last counter value on, and the counter never wraps to a used value.
\<close>

theorem seal_never_reuses_nonce:
  assumes "i < length ms"
  shows "(snd (seal_run cr s ms) ! i = Inl SE_CounterExhausted \<longleftrightarrow>
            2 ^ 64 - 1 \<le> unat (ss_seal_ctr s) + i) \<and>
         (\<forall>f g j. snd (seal_run cr s ms) ! i = Inr f \<and> j < i \<and> snd (seal_run cr s ms) ! j = Inr g \<longrightarrow>
            nonce_from_counter (sf_counter f) \<noteq> nonce_from_counter (sf_counter g))"
proof (intro conjI allI impI)
  show "snd (seal_run cr s ms) ! i = Inl SE_CounterExhausted \<longleftrightarrow>
      2 ^ 64 - 1 \<le> unat (ss_seal_ctr s) + i"
    using assms by (auto simp: seal_run_nth seal_exhausted_iff seal_run_state min_def)
next
  fix f g j
  assume *: "snd (seal_run cr s ms) ! i = Inr f \<and> j < i \<and> snd (seal_run cr s ms) ! j = Inr g"
  then have "unat (sf_counter f) = unat (ss_seal_ctr s) + i"
      and "unat (sf_counter g) = unat (ss_seal_ctr s) + j"
    using assms by (auto intro!: seal_run_OkD(1))
  then show "nonce_from_counter (sf_counter f) \<noteq> nonce_from_counter (sf_counter g)"
    using * by auto
qed

section \<open>Delivery over a lossy, reordering, duplicating network\<close>

lemma open_authentic:
  assumes "sc_decrypt cr (ss_open_key s) (nonce_from_counter (sf_counter f)) aad (sf_ciphertext f) = Some m"
  shows "open_frame cr s f aad =
     (s\<lparr> ss_replay := rw.offer (ss_replay s) (sf_counter f) \<rparr>,
      if would_accept (ss_replay s) (sf_counter f) then Inr m else Inl SE_Replay)"
  using assms by (simp add: open_frame_def rw.offer_def)

lemma open_run_authentic:
  assumes "\<And>f. f \<in> set fs \<Longrightarrow>
      sc_decrypt cr (ss_open_key s) (nonce_from_counter (sf_counter (snd f))) (fst f) (sf_ciphertext (snd f))
        \<noteq> None"
  shows "fst (open_run cr s fs) =
     s\<lparr> ss_replay := foldl rw.offer (ss_replay s) (map (sf_counter \<circ> snd) fs) \<rparr>"
  using assms
proof (induction fs arbitrary: s)
  case (Cons f fs)
  obtain m where m: "sc_decrypt cr (ss_open_key s) (nonce_from_counter (sf_counter (snd f))) (fst f)
      (sf_ciphertext (snd f)) = Some m"
    using Cons.prems by (meson list.set_intros(1) not_None_eq)
  show ?case
    using Cons.IH [of "s\<lparr> ss_replay := rw.offer (ss_replay s) (sf_counter (snd f)) \<rparr>"] Cons.prems
    by (simp add: open_authentic [OF m] Let_def split_beta)
qed simp

lemma admits_offers: "rw.admits w S \<Longrightarrow> rw.admits (foldl rw.offer w cs) (set cs \<union> S)"
proof (induction cs arbitrary: w S)
  case (Cons c cs)
  have "rw.admits (foldl rw.offer (rw.offer w c) cs) (set cs \<union> insert c S)"
    by (rule Cons.IH) (rule rw.admits_offer [OF Cons.prems])
  then show ?case by simp
qed simp

text \<open>The position of a frame in the sender's sequence decides its fate, as its counter would.\<close>

lemma in_window_positions:
  assumes "\<And>d. d \<in> insert k P \<Longrightarrow> unat (ctr d) = base + d"
  shows "in_window (ctr ` P) (ctr k) \<longleftrightarrow> k \<notin> P \<and> (\<forall>e \<in> P. e < k + 64)"
proof -
  have "ctr k \<in> ctr ` P \<longleftrightarrow> k \<in> P"
    using assms by (metis (no_types, lifting) add_left_cancel image_iff insert_iff)
  moreover have "unat (ctr e) < unat (ctr k) + 64 \<longleftrightarrow> e < k + 64" if "e \<in> P" for e
    using that by (simp add: assms)
  ultimately show ?thesis
    by (auto simp: in_window_def)
qed

text \<open>
  C3. The stream between two ends of a session. A sender seals a list of messages; the
  network delivers the frames in any order, any number of times, or not at all (\<open>ds\<close> is
  the list of positions it delivers). Then the receiver's answer to every delivery is
  determined: the original plaintext when the frame was not delivered before and no frame
  64 or more positions later was, and \<open>Replay\<close> otherwise.
\<close>

theorem stream_delivery_exact:
  assumes aead: "aead_correct cr"
    and sealed: "snd (seal_run cr s ms) = map Inr frames"
    and keys: "ss_open_key r = ss_seal_key s" and fresh: "ss_replay r = replay_window_default"
    and ds: "\<forall>d \<in> set ds. d < length ms" and i: "i < length ds"
  shows "snd (open_run cr r (map (\<lambda>d. (fst (ms ! d), frames ! d)) ds)) ! i =
    (if ds ! i \<notin> set (take i ds) \<and> (\<forall>e \<in> set (take i ds). e < ds ! i + 64)
     then Inr (snd (ms ! (ds ! i))) else Inl SE_Replay)"
proof -
  let ?ctr = "\<lambda>d. sf_counter (frames ! d)" and ?fs = "\<lambda>ds. map (\<lambda>d. (fst (ms ! d), frames ! d)) ds"
  have len: "length frames = length ms"
    using sealed by (metis length_map length_seal_run)
  have ctr: "unat (?ctr d) = unat (ss_seal_ctr s) + d"
    and auth: "sc_decrypt cr (ss_open_key r) (nonce_from_counter (?ctr d)) (fst (ms ! d))
        (sf_ciphertext (frames ! d)) = Some (snd (ms ! d))" if "d < length ms" for d
  proof -
    have "snd (seal_run cr s ms) ! d = Inr (frames ! d)"
      using that by (simp add: sealed len)
    from seal_run_OkD [OF that this] show "unat (?ctr d) = unat (ss_seal_ctr s) + d"
        and "sc_decrypt cr (ss_open_key r) (nonce_from_counter (?ctr d)) (fst (ms ! d))
        (sf_ciphertext (frames ! d)) = Some (snd (ms ! d))"
      using aead by (auto simp: aead_correct_def keys)
  qed
  have taken: "d < length ms" if "d \<in> insert (ds ! i) (set (take i ds))" for d
    using that ds i by (auto dest: in_set_takeD)
  let ?r = "fst (open_run cr r (?fs (take i ds)))"
  have state: "?r = r\<lparr> ss_replay := foldl rw.offer (ss_replay r) (map ?ctr (take i ds)) \<rparr>"
    by (subst open_run_authentic) (auto simp: auth taken comp_def)
  have "rw.admits (ss_replay ?r) (?ctr ` set (take i ds))"
    using admits_offers [OF rw.admits_fresh, of "map ?ctr (take i ds)"] by (simp add: state fresh)
  then have "would_accept (ss_replay ?r) (?ctr (ds ! i)) \<longleftrightarrow>
      ds ! i \<notin> set (take i ds) \<and> (\<forall>e \<in> set (take i ds). e < ds ! i + 64)"
    by (subst rw.admits_accepts, assumption) (rule in_window_positions, rule ctr [OF taken])
  moreover have "sc_decrypt cr (ss_open_key ?r) (nonce_from_counter (?ctr (ds ! i)))
      (fst (ms ! (ds ! i))) (sf_ciphertext (frames ! (ds ! i))) = Some (snd (ms ! (ds ! i)))"
    using auth [of "ds ! i"] taken by (simp add: state)
  ultimately show ?thesis
    using i by (simp add: open_run_nth take_map open_authentic)
qed

text \<open>An AEAD in the shape of the real one, for the concrete instances: the key, the nonce
  and the associated data stand in front of the plaintext as the tag.\<close>

definition demo_crypto :: session_crypto where
  "demo_crypto = \<lparr>
     sc_hkdf_expand = (\<lambda>salt ikm info. Some (salt @ ikm @ info)),
     sc_encrypt = (\<lambda>key nonce aad msg. Some (key @ nonce @ aad @ msg)),
     sc_decrypt = (\<lambda>key nonce aad c.
       let tag = key @ nonce @ aad in
       if take (length tag) c = tag then Some (drop (length tag) c) else None) \<rparr>"

lemma demo_aead_correct: "aead_correct demo_crypto"
  by (simp add: aead_correct_def demo_crypto_def Let_def)

definition demo_sender :: stream_session where
  "demo_sender = \<lparr> ss_seal_key = [1], ss_open_key = [2], ss_seal_ctr = 0, ss_replay = replay_window_default \<rparr>"

definition demo_receiver :: stream_session where
  "demo_receiver = \<lparr> ss_seal_key = [2], ss_open_key = [1], ss_seal_ctr = 0, ss_replay = replay_window_default \<rparr>"

definition demo_messages :: "(byte list \<times> byte list) list" where
  "demo_messages = [([], [10]), ([7], [11, 12]), ([], [])]"

definition demo_frames :: "sealed_frame list" where
  "demo_frames = map projr (snd (seal_run demo_crypto demo_sender demo_messages))"

theorem seal_never_reuses_nonce_witness:
  "snd (seal_run demo_crypto demo_sender demo_messages) ! 2 \<noteq> Inl SE_CounterExhausted"
  using seal_never_reuses_nonce [of 2 demo_messages demo_crypto demo_sender]
  by (simp add: demo_messages_def demo_sender_def)

theorem stream_delivery_exact_witness:
  "snd (open_run demo_crypto demo_receiver
     (map (\<lambda>d. (fst (demo_messages ! d), demo_frames ! d)) [2, 0, 2, 1])) ! 3 = Inr [11, 12]"
proof -
  have sealed: "snd (seal_run demo_crypto demo_sender demo_messages) = map Inr demo_frames"
    by (simp add: demo_frames_def demo_messages_def seal_def Let_def checked_add_def
        demo_crypto_def split_beta demo_sender_def)
  show ?thesis
    by (subst stream_delivery_exact [OF demo_aead_correct sealed])
      (simp_all add: demo_receiver_def demo_sender_def demo_messages_def)
qed

section \<open>Forged frames and the window itself\<close>

definition authentic :: "session_crypto \<Rightarrow> stream_session \<Rightarrow> byte list \<times> sealed_frame \<Rightarrow> bool" where
  "authentic cr s f \<longleftrightarrow>
     sc_decrypt cr (ss_open_key s) (nonce_from_counter (sf_counter (snd f))) (fst f)
       (sf_ciphertext (snd f)) \<noteq> None"

lemma open_not_authentic: "\<not> authentic cr s f \<Longrightarrow> open_frame cr s (snd f) (fst f) = (s, Inl SE_AeadFailed)"
  by (simp add: authentic_def open_frame_def)

lemma authentic_open: "authentic cr (fst (open_frame cr s f aad)) = authentic cr s"
  by (auto simp: authentic_def open_frame_def fun_eq_iff split: option.split)

text \<open>
  A frame that does not authenticate can neither be delivered nor disturb the session:
  in any sequence of received frames, deleting the forged ones leaves the final state of
  the session unchanged, leaves the answers to the authentic ones unchanged, and the answer
  to each forged one is \<open>AeadFailed\<close> whatever its counter.
\<close>

theorem forged_frames_inert:
  "open_run cr s (filter (authentic cr s) fs) =
     (fst (open_run cr s fs),
      map snd (filter (\<lambda>(f, r). authentic cr s f) (zip fs (snd (open_run cr s fs))))) \<and>
   (\<forall>(f, r) \<in> set (zip fs (snd (open_run cr s fs))). \<not> authentic cr s f \<longrightarrow> r = Inl SE_AeadFailed)"
proof (induction fs arbitrary: s)
  case (Cons f fs)
  let ?s = "fst (open_frame cr s (snd f) (fst f))"
  have same: "authentic cr ?s = authentic cr s"
    by (rule authentic_open)
  show ?case
    using Cons.IH [of ?s] unfolding same
    by (auto simp: Let_def split_beta open_not_authentic)
qed simp

theorem forged_frames_inert_witness:
  "snd (open_run demo_crypto demo_receiver
     [([], \<lparr> sf_counter = 9, sf_ciphertext = [3, 3] \<rparr>)]) = [Inl SE_AeadFailed]"
proof -
  let ?f = "([] :: byte list, \<lparr> sf_counter = 9, sf_ciphertext = [3, 3] \<rparr>)"
  have forged: "\<not> authentic demo_crypto demo_receiver ?f"
    by (simp add: authentic_def demo_crypto_def demo_receiver_def Let_def)
  obtain r where r: "snd (open_run demo_crypto demo_receiver [?f]) = [r]"
    by (simp add: Let_def split_beta)
  then show ?thesis
    using forged_frames_inert [of demo_crypto demo_receiver "[?f]"] forged by simp
qed

text \<open>
  The bitmap is exactly a memory of 64 counters: after any sequence of recorded
  counters, a counter is accepted if and only if it was not recorded and every recorded
  one is less than 64 above it.
\<close>

theorem replay_window_exact:
  "would_accept (foldl record_counter replay_window_default cs) c \<longleftrightarrow>
     c \<notin> set cs \<and> (\<forall>d \<in> set cs. unat d < unat c + 64)"
  using would_accept_iff [OF window_rep_fold [OF window_rep_default], of cs c]
  by (simp add: in_window_def)

theorem replay_window_exact_witness:
  "\<not> would_accept (foldl record_counter replay_window_default [3, 70, 5]) 5 \<and>
   would_accept (foldl record_counter replay_window_default [3, 70, 5]) 7"
  using replay_window_exact [of "[3, 70, 5]" 5] replay_window_exact [of "[3, 70, 5]" 7]
  by simp

section \<open>Derived sessions\<close>

text \<open>Both ends derive from the same secret and transcript: what one seals with, the other
  opens with, in both directions.\<close>

definition mirrored :: "stream_session \<Rightarrow> stream_session \<Rightarrow> bool" where
  "mirrored a b \<longleftrightarrow> ss_seal_key a = ss_open_key b \<and> ss_open_key a = ss_seal_key b \<and>
     ss_seal_ctr a = 0 \<and> ss_seal_ctr b = 0 \<and>
     ss_replay a = replay_window_default \<and> ss_replay b = replay_window_default"

lemma derive_mirrored:
  "derive cr shared tr Initiator = Inr a \<Longrightarrow> derive cr shared tr Responder = Inr b \<Longrightarrow> mirrored a b"
  by (auto simp: derive_def res_bind_eq_Inr mirrored_def)

lemma derive_roles: "derive cr shared tr Initiator = Inl e \<longleftrightarrow> derive cr shared tr Responder = Inl e"
  by (auto simp: derive_def res_bind_eq_Inl)

end
