(* ===== verification/Proto_Keys.thy ===== *)
theory Proto_Keys
  imports Proto_Session Core_Transcript
begin

text \<open>
  Identity keys (\<open>airc-protocol/src/keypair.rs\<close>, the registry of \<open>signature.rs\<close>) and the
  two signed statements that are not envelopes: identity assertions (\<open>assertion.rs\<close>) and
  the proof a peer gives when it attaches to a daemon (\<open>addressed_attach.rs\<close>). The curve
  operations of the crate \<open>ed25519_dalek\<close> are a parameter, the record \<open>sign_crypto\<close>; a
  \<open>VerifyingKey\<close> is its 32 bytes. \<open>sign_correct\<close> is the documented behaviour the code relies
  on: the signature of a key verifies under its public half.
\<close>

record sign_crypto =
  gc_public :: "byte list \<Rightarrow> byte list"
  gc_sign :: "byte list \<Rightarrow> byte list \<Rightarrow> byte list"
  gc_verify :: "byte list \<Rightarrow> byte list \<Rightarrow> byte list \<Rightarrow> bool"
    \<comment> \<open>public key, message, signature\<close>
  gc_verify_strict :: "byte list \<Rightarrow> byte list \<Rightarrow> byte list \<Rightarrow> bool"
  gc_valid_point :: "byte list \<Rightarrow> bool"
    \<comment> \<open>whether \<open>VerifyingKey::from_bytes\<close> accepts the bytes\<close>

definition sign_correct :: "sign_crypto \<Rightarrow> bool" where
  "sign_correct g \<longleftrightarrow>
     (\<forall>sk m. gc_verify g (gc_public g sk) m (gc_sign g sk m) \<and>
        gc_verify_strict g (gc_public g sk) m (gc_sign g sk m) \<and>
        gc_valid_point g (gc_public g sk) \<and> length (gc_sign g sk m) = 64)"

definition uuid_bytes :: "uuid \<Rightarrow> byte list" where
  "uuid_bytes peer = be_bytes 16 peer"

section \<open>Key pairs\<close>

record peer_keypair =
  kp_signing :: "byte list"

definition from_secret_bytes :: "byte list \<Rightarrow> peer_keypair" where
  "from_secret_bytes secret = \<lparr> kp_signing = secret \<rparr>"

definition secret_bytes :: "peer_keypair \<Rightarrow> byte list" where
  "secret_bytes kp = kp_signing kp"

definition public_bytes :: "sign_crypto \<Rightarrow> peer_keypair \<Rightarrow> byte list" where
  "public_bytes g kp = gc_public g (kp_signing kp)"

definition sign_bytes :: "sign_crypto \<Rightarrow> peer_keypair \<Rightarrow> byte list \<Rightarrow> byte list" where
  "sign_bytes g kp msg = gc_sign g (kp_signing kp) msg"

section \<open>The registry\<close>

datatype key_error = KE_InvalidPublicKey

type_synonym peer_key_registry = "(uuid \<times> u32, byte list) btree"

definition registry_new :: peer_key_registry where
  "registry_new = []"

definition enrol ::
  "sign_crypto \<Rightarrow> peer_key_registry \<Rightarrow> uuid \<Rightarrow> u32 \<Rightarrow> byte list \<Rightarrow> key_error + peer_key_registry" where
  "enrol g reg peer key_id pubkey =
     (if gc_valid_point g pubkey then Inr (bt_insert (peer, key_id) pubkey reg)
      else Inl KE_InvalidPublicKey)"

definition lookup_key :: "peer_key_registry \<Rightarrow> uuid \<Rightarrow> u32 \<Rightarrow> byte list option" where
  "lookup_key reg peer key_id = map_of reg (peer, key_id)"

definition remove_peer :: "peer_key_registry \<Rightarrow> uuid \<Rightarrow> peer_key_registry \<times> nat" where
  "remove_peer reg peer =
     (let reg' = filter (\<lambda>((enrolled_peer, _), _). enrolled_peer \<noteq> peer) reg
      in (reg', length reg - length reg'))"

definition has_peer :: "peer_key_registry \<Rightarrow> uuid \<Rightarrow> bool" where
  "has_peer reg peer = list_ex (\<lambda>(k, _). fst k = peer) reg"

definition has_key :: "peer_key_registry \<Rightarrow> uuid \<Rightarrow> byte list \<Rightarrow> bool" where
  "has_key reg peer pubkey = list_ex (\<lambda>(k, key). fst k = peer \<and> key = pubkey) reg"

text \<open>The iteration order of the concurrent map is not specified: \<open>iter\<close> is the list of
  entries in the order of one iteration.\<close>

definition find_peer :: "((uuid \<times> u32) \<times> byte list) list \<Rightarrow> byte list \<Rightarrow> (uuid \<times> u32) option" where
  "find_peer iter pubkey = map_option fst (find (\<lambda>(_, key). key = pubkey) iter)"

lemma lookup_enrol:
  "enrol g reg p k pk = Inr reg' \<Longrightarrow>
     lookup_key reg' q j = (if (q, j) = (p, k) then Some pk else lookup_key reg q j)"
  by (auto simp: enrol_def lookup_key_def split: if_splits)

lemma enrol_wf: "bt_wf reg \<Longrightarrow> enrol g reg p k pk = Inr reg' \<Longrightarrow> bt_wf reg'"
  by (auto simp: enrol_def split: if_splits)

lemma remove_peer_exact:
  assumes "bt_wf reg"
  shows "lookup_key (fst (remove_peer reg p)) q j = (if q = p then None else lookup_key reg q j)"
    and "has_peer reg p \<longleftrightarrow> snd (remove_peer reg p) \<noteq> 0"
    and "\<not> has_peer (fst (remove_peer reg p)) p"
proof -
  show "lookup_key (fst (remove_peer reg p)) q j = (if q = p then None else lookup_key reg q j)"
    by (induction reg) (auto simp: remove_peer_def lookup_key_def Let_def)
  have "has_peer reg p \<longleftrightarrow> length (filter (\<lambda>((e, _), _). e \<noteq> p) reg) < length reg"
  proof (induction reg)
    case (Cons e reg)
    then show ?case
      by (auto simp: has_peer_def split_beta less_Suc_eq_le length_filter_le)
  qed (simp add: has_peer_def)
  then show "has_peer reg p \<longleftrightarrow> snd (remove_peer reg p) \<noteq> 0"
    by (auto simp: remove_peer_def Let_def not_le)
  show "\<not> has_peer (fst (remove_peer reg p)) p"
    by (auto simp: has_peer_def remove_peer_def Let_def list_ex_iff)
qed

lemma find_peer_enrolled:
  assumes "bt_wf reg" and "mset iter = mset reg"
  shows "case find_peer iter pk of
           Some (p, k) \<Rightarrow> lookup_key reg p k = Some pk
         | None \<Rightarrow> \<forall>p. \<not> has_key reg p pk"
proof (cases "find (\<lambda>(_, key). key = pk) iter")
  case None
  have "set iter = set reg"
    using assms(2) by (metis set_mset_mset)
  then have "\<not> has_key reg p pk" for p
    using None by (auto simp: find_None_iff has_key_def list_ex_iff)
  then show ?thesis
    using None by (simp add: find_peer_def)
next
  case (Some e)
  then have "e \<in> set iter" "snd e = pk"
    using find_SomeD [OF Some] by auto
  then have "(fst e, pk) \<in> set reg"
    using assms(2) by (metis prod.collapse set_mset_mset)
  then show ?thesis
    using assms(1) Some by (simp add: find_peer_def lookup_key_def bt_wf_in_set split_beta)
qed

section \<open>Identity assertions\<close>

definition ASSERTION_DOMAIN :: "byte list" where
  "ASSERTION_DOMAIN = bytes_of ''airc-identity-assertion:v1''"

text \<open>The lengths are cast with \<open>as u32\<close>, which keeps the low 32 bits, and written with
  the least significant byte first.\<close>

definition le_len :: "nat \<Rightarrow> byte list" where
  "le_len n = rev (be_bytes 4 (of_nat n :: u32))"

definition assertion_signing_bytes :: "string \<Rightarrow> byte list \<Rightarrow> byte list" where
  "assertion_signing_bytes context challenge =
     ASSERTION_DOMAIN @ le_len (length (bytes_of context)) @ bytes_of context
       @ le_len (length challenge) @ challenge"

record identity_assertion =
  ia_peer_id :: uuid
  ia_key_id :: u32
  ia_context :: string
  ia_challenge :: "byte list"
  ia_signature :: "byte list"

datatype assertion_error = AE_UnknownSigner uuid | AE_InvalidPublicKey | AE_BadSignature

definition sign_assertion ::
  "sign_crypto \<Rightarrow> peer_keypair \<Rightarrow> uuid \<Rightarrow> u32 \<Rightarrow> string \<Rightarrow> byte list \<Rightarrow> identity_assertion" where
  "sign_assertion g kp signer key_id context challenge =
     (let bytes = assertion_signing_bytes context challenge in
      \<lparr> ia_peer_id = signer, ia_key_id = key_id, ia_context = context, ia_challenge = challenge,
        ia_signature = sign_bytes g kp bytes \<rparr>)"

definition verify_with_key :: "sign_crypto \<Rightarrow> identity_assertion \<Rightarrow> byte list \<Rightarrow> assertion_error + unit" where
  "verify_with_key g a key =
     (let bytes = assertion_signing_bytes (ia_context a) (ia_challenge a) in
      if gc_verify g key bytes (ia_signature a) then Inr () else Inl AE_BadSignature)"

definition verify_assertion ::
  "sign_crypto \<Rightarrow> identity_assertion \<Rightarrow> peer_key_registry \<Rightarrow> assertion_error + unit" where
  "verify_assertion g a reg =
     res_bind (ok_or (lookup_key reg (ia_peer_id a) (ia_key_id a)) (AE_UnknownSigner (ia_peer_id a)))
       (verify_with_key g a)"

definition verify_with_pubkey ::
  "sign_crypto \<Rightarrow> identity_assertion \<Rightarrow> byte list \<Rightarrow> assertion_error + unit" where
  "verify_with_pubkey g a pubkey =
     (if gc_valid_point g pubkey then verify_with_key g a pubkey else Inl AE_InvalidPublicKey)"

section \<open>Attaching to a daemon\<close>

record attach_challenge =
  ac_daemon :: uuid
  ac_peer :: uuid
  ac_nonce :: uuid

record attach_proof =
  ap_key_id :: u32
  ap_signature :: "byte list"

datatype attach_auth_error = AA_UnknownKey | AA_InvalidSignature

definition attach_signed_bytes :: "attach_challenge \<Rightarrow> u32 \<Rightarrow> byte list" where
  "attach_signed_bytes c key_id =
     bytes_of ''airc/addressed-attach/v1'' @ [0] @ be_bytes 16 (ac_daemon c) @ be_bytes 16 (ac_peer c)
       @ be_bytes 16 (ac_nonce c) @ be_bytes 4 key_id"

definition attach_sign :: "sign_crypto \<Rightarrow> attach_challenge \<Rightarrow> peer_keypair \<Rightarrow> u32 \<Rightarrow> attach_proof" where
  "attach_sign g c kp key_id =
     \<lparr> ap_key_id = key_id, ap_signature = sign_bytes g kp (attach_signed_bytes c key_id) \<rparr>"

text \<open>\<open>Signature::from_slice\<close> refuses anything but 64 bytes.\<close>

definition attach_verify ::
  "sign_crypto \<Rightarrow> attach_challenge \<Rightarrow> attach_proof \<Rightarrow> peer_key_registry \<Rightarrow> attach_auth_error + unit" where
  "attach_verify g c proof reg =
     res_bind (ok_or (lookup_key reg (ac_peer c) (ap_key_id proof)) AA_UnknownKey) (\<lambda>key.
       if length (ap_signature proof) \<noteq> 64 then Inl AA_InvalidSignature
       else if gc_verify_strict g key (attach_signed_bytes c (ap_key_id proof)) (ap_signature proof)
       then Inr () else Inl AA_InvalidSignature)"

section \<open>What a signature binds\<close>

lemma uuid_bytes_inject [simp]: "uuid_bytes p = uuid_bytes q \<longleftrightarrow> p = q"
  by (auto simp: uuid_bytes_def dest: be_bytes_inject)

lemma length_uuid_bytes [simp]: "length (uuid_bytes p) = 16"
  by (simp add: uuid_bytes_def)

lemma be_bytes_u32_inject [simp]: "be_bytes 4 (a :: u32) = be_bytes 4 b \<longleftrightarrow> a = b"
  by (auto dest: be_bytes_inject)

lemma be_bytes_u64_inject [simp]: "be_bytes 8 (a :: u64) = be_bytes 8 b \<longleftrightarrow> a = b"
  by (auto dest: be_bytes_inject)

lemma be_bytes_uuid_inject [simp]: "be_bytes 16 (a :: uuid) = be_bytes 16 b \<longleftrightarrow> a = b"
  by (auto dest: be_bytes_inject)

lemma attach_signed_bytes_inject:
  "attach_signed_bytes c k = attach_signed_bytes d j \<longleftrightarrow> c = d \<and> k = j"
  by (auto simp: attach_signed_bytes_def)

lemma bytes_of_inject: "bytes_of s = bytes_of t \<longleftrightarrow> s = t"
proof
  assume "bytes_of s = bytes_of t"
  moreover have "inj (\<lambda>c. of_nat (of_char c :: nat) :: byte)"
  proof (rule injI)
    fix c d assume "(of_nat (of_char c :: nat) :: byte) = of_nat (of_char d)"
    then have "unat (of_nat (of_char c :: nat) :: byte) = unat (of_nat (of_char d :: nat) :: byte)"
      by simp
    then have "(of_char c :: nat) = of_char d"
      by (simp add: unat_of_nat take_bit_nat_eq_self_iff del: of_nat_of_char)
    then show "c = d" by simp
  qed
  ultimately show "s = t"
    by (simp add: bytes_of_def inj_map_eq_map)
qed simp

lemma length_bytes_of [simp]: "length (bytes_of s) = length s"
  by (simp add: bytes_of_def)

lemma length_le_len [simp]: "length (le_len n) = 4"
  by (simp add: le_len_def)

lemma le_len_inject: "m < 2 ^ 32 \<Longrightarrow> n < 2 ^ 32 \<Longrightarrow> le_len m = le_len n \<longleftrightarrow> m = n"
  by (auto simp: le_len_def word_of_nat_eq_iff take_bit_eq_mod)

lemma assertion_signing_bytes_inject:
  assumes "length c < 2 ^ 32" "length d < 2 ^ 32"
  shows "assertion_signing_bytes c x = assertion_signing_bytes d y \<longleftrightarrow> c = d \<and> x = y"
proof
  assume eq: "assertion_signing_bytes c x = assertion_signing_bytes d y"
  then have "le_len (length c) = le_len (length d)"
    by (simp add: assertion_signing_bytes_def)
  then have "length c = length d"
    using assms le_len_inject by blast
  then show "c = d \<and> x = y"
    using eq by (simp add: assertion_signing_bytes_def bytes_of_inject)
qed simp

end
