(* ===== verification/Proto_Handshake.thy ===== *)
theory Proto_Handshake
  imports Proto_Keys
begin

text \<open>
  The handshake that keys a stream session (\<open>airc-protocol/src/handshake.rs\<close>): each side
  signs an ephemeral X25519 key with its identity, and both derive the session from the
  shared secret under a transcript of the exchange. The key agreement of the crate
  \<open>x25519_dalek\<close> and the hash of \<open>sha2\<close> are parameters, with the signature scheme and the
  session ciphers, in the record \<open>proto_crypto\<close>. A random ephemeral secret is an argument
  of the operation that draws it. \<open>crypto_correct\<close> collects the documented laws: both ends
  of an exchange compute the same secret, a signature verifies under its key, the AEAD
  round trip.
\<close>

record proto_crypto =
  px_session :: session_crypto
  px_sign :: sign_crypto
  px_dh_public :: "byte list \<Rightarrow> byte list"
  px_dh :: "byte list \<Rightarrow> byte list \<Rightarrow> byte list"
    \<comment> \<open>own secret, their public key\<close>
  px_contributory :: "byte list \<Rightarrow> bool"
  px_sha256 :: "byte list \<Rightarrow> byte list"

definition crypto_correct :: "proto_crypto \<Rightarrow> bool" where
  "crypto_correct x \<longleftrightarrow>
     aead_correct (px_session x) \<and> sign_correct (px_sign x) \<and>
     (\<forall>a b. px_dh x a (px_dh_public x b) = px_dh x b (px_dh_public x a)) \<and>
     (\<forall>a. length (px_dh_public x a) = 32)"

definition DOMAIN_INIT :: "byte list" where
  "DOMAIN_INIT = bytes_of ''airc-stream-handshake-v2-init''"

definition DOMAIN_RESP :: "byte list" where
  "DOMAIN_RESP = bytes_of ''airc-stream-handshake-v1-resp''"

definition DOMAIN_TRANSCRIPT :: "byte list" where
  "DOMAIN_TRANSCRIPT = bytes_of ''airc-stream-handshake-v1-transcript''"

datatype handshake_error =
  HE_UnknownPeer | HE_BadSignature | HE_WeakEphemeral | HE_KeyDerivation | HE_NotAddressedToMe

record handshake_init =
  hi_peer_id :: uuid
  hi_key_id :: u32
  hi_eph_pub :: "byte list"
  hi_to :: uuid
  hi_issued_at_ms :: u64
  hi_sig :: "byte list"

record handshake_resp =
  hr_peer_id :: uuid
  hr_key_id :: u32
  hr_eph_pub :: "byte list"
  hr_sig :: "byte list"

record pending_handshake =
  ph_secret :: "byte list"
  ph_eph_pub :: "byte list"
  ph_my_peer_id :: uuid

definition init_signed_bytes :: "byte list \<Rightarrow> uuid \<Rightarrow> u32 \<Rightarrow> uuid \<Rightarrow> u64 \<Rightarrow> byte list" where
  "init_signed_bytes eph_pub peer key_id dest issued_at_ms =
     DOMAIN_INIT @ be_bytes 4 key_id @ eph_pub @ uuid_bytes peer @ uuid_bytes dest
       @ be_bytes 8 issued_at_ms"

definition resp_signed_bytes :: "byte list \<Rightarrow> byte list \<Rightarrow> uuid \<Rightarrow> u32 \<Rightarrow> byte list" where
  "resp_signed_bytes resp_eph init_eph peer key_id =
     DOMAIN_RESP @ be_bytes 4 key_id @ resp_eph @ init_eph @ uuid_bytes peer"

definition transcript :: "proto_crypto \<Rightarrow> byte list \<Rightarrow> byte list \<Rightarrow> uuid \<Rightarrow> uuid \<Rightarrow> byte list" where
  "transcript x init_eph resp_eph init resp =
     px_sha256 x (DOMAIN_TRANSCRIPT @ init_eph @ resp_eph @ uuid_bytes init @ uuid_bytes resp)"

definition verify_sig ::
  "proto_crypto \<Rightarrow> peer_key_registry \<Rightarrow> uuid \<Rightarrow> u32 \<Rightarrow> byte list \<Rightarrow> byte list \<Rightarrow> handshake_error + unit" where
  "verify_sig x reg peer key_id message sig =
     res_bind (ok_or (lookup_key reg peer key_id) HE_UnknownPeer) (\<lambda>key.
       if gc_verify_strict (px_sign x) key message sig then Inr () else Inl HE_BadSignature)"

definition checked_shared ::
  "proto_crypto \<Rightarrow> byte list \<Rightarrow> byte list \<Rightarrow> handshake_error + byte list" where
  "checked_shared x secret their_eph =
     (let shared = px_dh x secret their_eph in
      if \<not> px_contributory x shared then Inl HE_WeakEphemeral else Inr shared)"

definition initiate ::
  "proto_crypto \<Rightarrow> byte list \<Rightarrow> peer_keypair \<Rightarrow> uuid \<Rightarrow> u32 \<Rightarrow> uuid \<Rightarrow> u64 \<Rightarrow>
     pending_handshake \<times> handshake_init" where
  "initiate x secret keypair my_peer_id key_id dest issued_at_ms =
     (let eph_pub = px_dh_public x secret;
          sig = sign_bytes (px_sign x) keypair
                  (init_signed_bytes eph_pub my_peer_id key_id dest issued_at_ms)
      in (\<lparr> ph_secret = secret, ph_eph_pub = eph_pub, ph_my_peer_id = my_peer_id \<rparr>,
          \<lparr> hi_peer_id = my_peer_id, hi_key_id = key_id, hi_eph_pub = eph_pub, hi_to = dest,
            hi_issued_at_ms = issued_at_ms, hi_sig = sig \<rparr>))"

definition map_derive_err :: "session_error + 'a \<Rightarrow> handshake_error + 'a" where
  "map_derive_err r = (case r of Inl _ \<Rightarrow> Inl HE_KeyDerivation | Inr s \<Rightarrow> Inr s)"

definition respond ::
  "proto_crypto \<Rightarrow> byte list \<Rightarrow> peer_keypair \<Rightarrow> uuid \<Rightarrow> u32 \<Rightarrow> handshake_init \<Rightarrow>
     peer_key_registry \<Rightarrow> handshake_error + stream_session \<times> handshake_resp" where
  "respond x secret keypair my_peer_id key_id init reg =
     res_bind (verify_sig x reg (hi_peer_id init) (hi_key_id init)
                 (init_signed_bytes (hi_eph_pub init) (hi_peer_id init) (hi_key_id init)
                    (hi_to init) (hi_issued_at_ms init)) (hi_sig init)) (\<lambda>_.
     if hi_to init \<noteq> my_peer_id then Inl HE_NotAddressedToMe
     else
       let eph_pub = px_dh_public x secret in
       res_bind (checked_shared x secret (hi_eph_pub init)) (\<lambda>shared.
       let tr = transcript x (hi_eph_pub init) eph_pub (hi_peer_id init) my_peer_id in
       res_bind (map_derive_err (derive (px_session x) shared tr Responder)) (\<lambda>session.
       let sig = sign_bytes (px_sign x) keypair
                   (resp_signed_bytes eph_pub (hi_eph_pub init) my_peer_id key_id)
       in Inr (session, \<lparr> hr_peer_id = my_peer_id, hr_key_id = key_id, hr_eph_pub = eph_pub,
                          hr_sig = sig \<rparr>))))"

definition verify_resp ::
  "proto_crypto \<Rightarrow> pending_handshake \<Rightarrow> handshake_resp \<Rightarrow> peer_key_registry \<Rightarrow> handshake_error + unit" where
  "verify_resp x p resp reg =
     verify_sig x reg (hr_peer_id resp) (hr_key_id resp)
       (resp_signed_bytes (hr_eph_pub resp) (ph_eph_pub p) (hr_peer_id resp) (hr_key_id resp))
       (hr_sig resp)"

definition complete ::
  "proto_crypto \<Rightarrow> pending_handshake \<Rightarrow> handshake_resp \<Rightarrow> peer_key_registry \<Rightarrow>
     handshake_error + stream_session" where
  "complete x p resp reg =
     res_bind (verify_resp x p resp reg) (\<lambda>_.
     res_bind (checked_shared x (ph_secret p) (hr_eph_pub resp)) (\<lambda>shared.
     let tr = transcript x (ph_eph_pub p) (hr_eph_pub resp) (ph_my_peer_id p) (hr_peer_id resp) in
     map_derive_err (derive (px_session x) shared tr Initiator)))"

section \<open>What the signed bytes bind\<close>

lemma init_signed_bytes_inject:
  assumes "length e = length e'"
  shows "init_signed_bytes e p k d i = init_signed_bytes e' p' k' d' i' \<longleftrightarrow>
     e = e' \<and> p = p' \<and> k = k' \<and> d = d' \<and> i = i'"
  using assms by (auto simp: init_signed_bytes_def)

lemma resp_signed_bytes_inject:
  assumes "length e = length e'" and "length f = length f'"
  shows "resp_signed_bytes e f p k = resp_signed_bytes e' f' p' k' \<longleftrightarrow>
     e = e' \<and> f = f' \<and> p = p' \<and> k = k'"
  using assms by (auto simp: resp_signed_bytes_def)

text \<open>
  The four kinds of statement an identity key signs outside envelopes are separated:
  the byte strings of a handshake init, a handshake response, an attach proof and an
  identity assertion are never equal across kinds, whatever their contents, and each kind
  determines its fields, so a signature made for one statement verifies no other (contexts
  shorter than 4 GiB, where the length prefix does not wrap).
\<close>

theorem signed_domains_disjoint:
  assumes "length e = 32" "length e' = 32" "length f = 32" "length f' = 32"
    and "length c < 2 ^ 32" "length c' < 2 ^ 32"
  shows "distinct [init_signed_bytes e p k d i, resp_signed_bytes e' f p' k',
           attach_signed_bytes ch j, assertion_signing_bytes c x] \<and>
         (init_signed_bytes e p k d i = init_signed_bytes e' p' k' d' i' \<longrightarrow>
            (e, p, k, d, i) = (e', p', k', d', i')) \<and>
         (resp_signed_bytes e f p k = resp_signed_bytes e' f' p' k' \<longrightarrow>
            (e, f, p, k) = (e', f', p', k')) \<and>
         (attach_signed_bytes ch j = attach_signed_bytes ch' j' \<longrightarrow> (ch, j) = (ch', j')) \<and>
         (assertion_signing_bytes c x = assertion_signing_bytes c' x' \<longrightarrow> (c, x) = (c', x'))"
proof -
  have "distinct [init_signed_bytes e p k d i, resp_signed_bytes e' f p' k',
      attach_signed_bytes ch j, assertion_signing_bytes c x]"
    by (simp add: init_signed_bytes_def resp_signed_bytes_def attach_signed_bytes_def
        assertion_signing_bytes_def DOMAIN_INIT_def DOMAIN_RESP_def ASSERTION_DOMAIN_def bytes_of_def)
  then show ?thesis
    using assms by (simp add: init_signed_bytes_inject resp_signed_bytes_inject
        attach_signed_bytes_inject assertion_signing_bytes_inject)
qed

theorem signed_domains_disjoint_witness:
  "init_signed_bytes (replicate 32 1) 1 0 2 7 \<noteq> assertion_signing_bytes ''login'' [9]"
  using signed_domains_disjoint [where e = "replicate 32 1" and e' = "replicate 32 1"
      and f = "replicate 32 2" and f' = "replicate 32 2" and c = "''login''" and c' = "''login''"
      and p = 1 and k = 0 and d = 2 and i = 7 and x = "[9]"]
  by simp

section \<open>The exchange\<close>

lemma verify_sign:
  assumes "sign_correct (px_sign x)" and "lookup_key reg p k = Some (public_bytes (px_sign x) kp)"
  shows "verify_sig x reg p k m (sign_bytes (px_sign x) kp m) = Inr ()"
  using assms by (simp add: verify_sig_def sign_correct_def public_bytes_def sign_bytes_def)

lemma respond_OkD:
  assumes "respond x sb kp me k init reg = Inr (s, resp)"
  shows "hr_peer_id resp = me" and "hr_key_id resp = k" and "hr_eph_pub resp = px_dh_public x sb"
    and "hr_sig resp = sign_bytes (px_sign x) kp
           (resp_signed_bytes (px_dh_public x sb) (hi_eph_pub init) me k)"
    and "hi_to init = me"
    and "px_contributory x (px_dh x sb (hi_eph_pub init))"
    and "derive (px_session x) (px_dh x sb (hi_eph_pub init))
           (transcript x (hi_eph_pub init) (px_dh_public x sb) (hi_peer_id init) me) Responder = Inr s"
  using assms
  by (auto simp: respond_def res_bind_eq_Inr checked_shared_def map_derive_err_def Let_def
      split: if_splits sum.splits)

lemma initiate_fields:
  "initiate x secret kp me k dest t = (p, init) \<Longrightarrow>
     ph_secret p = secret \<and> ph_eph_pub p = px_dh_public x secret \<and> ph_my_peer_id p = me \<and>
     hi_peer_id init = me \<and> hi_key_id init = k \<and> hi_eph_pub init = px_dh_public x secret \<and>
     hi_to init = dest \<and> hi_issued_at_ms init = t \<and>
     hi_sig init = sign_bytes (px_sign x) kp (init_signed_bytes (px_dh_public x secret) me k dest t)"
  by (auto simp: initiate_def Let_def)

lemma derive_both:
  "derive cr sh tr Responder = Inr b \<Longrightarrow> \<exists>a. derive cr sh tr Initiator = Inr a \<and> mirrored a b"
  by (metis derive_mirrored derive_roles old.sum.exhaust)

text \<open>A response to the ephemeral of a pending handshake completes it, with the session of
  the other end when that end took the initiator for who it is.\<close>

lemma complete_response:
  assumes ok: "crypto_correct x"
    and resp: "respond x sb kpb me kb init regb = Inr (s, resp)"
    and eph: "hi_eph_pub init = px_dh_public x (ph_secret p)" "ph_eph_pub p = px_dh_public x (ph_secret p)"
    and reg: "lookup_key rega me kb = Some (public_bytes (px_sign x) kpb)"
  shows "verify_resp x p resp rega = Inr ()"
    and "hi_peer_id init = ph_my_peer_id p \<Longrightarrow> \<exists>a. complete x p resp rega = Inr a \<and> mirrored a s"
proof -
  note r = respond_OkD [OF resp]
  have "sign_correct (px_sign x)"
    using ok by (simp add: crypto_correct_def)
  then show ver: "verify_resp x p resp rega = Inr ()"
    using r(1-4) eph reg by (simp add: verify_resp_def verify_sign)
  assume "hi_peer_id init = ph_my_peer_id p"
  moreover have "px_dh x (ph_secret p) (px_dh_public x sb) = px_dh x sb (px_dh_public x (ph_secret p))"
    using ok by (simp add: crypto_correct_def)
  ultimately show "\<exists>a. complete x p resp rega = Inr a \<and> mirrored a s"
    using r eph derive_both [OF r(7)] ver
    by (auto simp: complete_def checked_shared_def Let_def map_derive_err_def)
qed

end
