(* ===== verification/Proto_Session_Manager.thy ===== *)
theory Proto_Session_Manager
  imports Proto_Handshake
begin

text \<open>
  The session manager (\<open>airc-protocol/src/session_manager.rs\<close>): one state per peer (the live
  session, the handshake this side started, the last init it accepted), the handshake
  operations and the sealing and opening of frames. The concurrent map locks one peer's
  entry for the whole of an operation, so an operation is one atomic step here; the
  compare-and-swap loop on \<open>last_issued_ms\<close> takes effect at its successful exchange and is
  one update of that field.
\<close>

datatype session_manager_error =
    SM_Handshake handshake_error
  | SM_Session session_error
  | SM_NoSession
  | SM_NoPendingHandshake
  | SM_Crossed
  | SM_StaleInit

record accepted_init =
  ai_issued_at_ms :: u64
  ai_eph_pub :: "byte list"
  ai_resp :: handshake_resp

record peer_session_state =
  ps_session :: "stream_session option"
  ps_pending :: "(pending_handshake \<times> handshake_init) option"
  ps_accepted :: "accepted_init option"

definition peer_state_default :: peer_session_state where
  "peer_state_default = \<lparr> ps_session = None, ps_pending = None, ps_accepted = None \<rparr>"

record session_manager =
  sm_keypair :: peer_keypair
  sm_peer_id :: uuid
  sm_key_id :: u32
  sm_registry :: peer_key_registry
  sm_peers :: "(uuid, peer_session_state) btree"
  sm_last_issued_ms :: u64

definition manager_new :: "peer_keypair \<Rightarrow> uuid \<Rightarrow> peer_key_registry \<Rightarrow> session_manager" where
  "manager_new keypair peer_id registry =
     \<lparr> sm_keypair = keypair, sm_peer_id = peer_id, sm_key_id = 0, sm_registry = registry,
       sm_peers = [], sm_last_issued_ms = 0 \<rparr>"

definition with_key_id :: "session_manager \<Rightarrow> u32 \<Rightarrow> session_manager" where
  "with_key_id m key_id = m\<lparr> sm_key_id := key_id \<rparr>"

definition has_session :: "session_manager \<Rightarrow> uuid \<Rightarrow> bool" where
  "has_session m peer = is_some_and (map_of (sm_peers m) peer) (\<lambda>st. ps_session st \<noteq> None)"

definition has_pending :: "session_manager \<Rightarrow> uuid \<Rightarrow> bool" where
  "has_pending m peer = is_some_and (map_of (sm_peers m) peer) (\<lambda>st. ps_pending st \<noteq> None)"

definition reset :: "session_manager \<Rightarrow> session_manager" where
  "reset m = m\<lparr> sm_peers := [] \<rparr>"

definition pending_init :: "session_manager \<Rightarrow> uuid \<Rightarrow> handshake_init option" where
  "pending_init m peer =
     (case map_of (sm_peers m) peer of
        None \<Rightarrow> None
      | Some st \<Rightarrow> map_option snd (ps_pending st))"

text \<open>\<open>entry(peer).or_default()\<close> reads the state of a peer, a fresh one when there is none;
  \<open>put_state\<close> writes it back.\<close>

definition entry_state :: "session_manager \<Rightarrow> uuid \<Rightarrow> peer_session_state" where
  "entry_state m peer = (case map_of (sm_peers m) peer of None \<Rightarrow> peer_state_default | Some st \<Rightarrow> st)"

definition put_state :: "session_manager \<Rightarrow> uuid \<Rightarrow> peer_session_state \<Rightarrow> session_manager" where
  "put_state m peer st = m\<lparr> sm_peers := bt_insert peer st (sm_peers m) \<rparr>"

definition next_issued :: "u64 \<Rightarrow> u64 \<Rightarrow> u64" where
  "next_issued prev now_ms = max now_ms (saturating_add prev 1)"

definition begin_handshake_inner ::
  "proto_crypto \<Rightarrow> byte list \<Rightarrow> session_manager \<Rightarrow> uuid \<Rightarrow> u64 \<Rightarrow> bool \<Rightarrow>
     session_manager \<times> handshake_init" where
  "begin_handshake_inner x secret m peer now_ms reuse =
     (let state = entry_state m peer in
      case (if reuse then ps_pending state else None) of
        Some (_, init) \<Rightarrow> (put_state m peer state, init)
      | None \<Rightarrow>
          let issued_at_ms = next_issued (sm_last_issued_ms m) now_ms;
              (pending, init) = initiate x secret (sm_keypair m) (sm_peer_id m) (sm_key_id m) peer issued_at_ms
          in (put_state (m\<lparr> sm_last_issued_ms := issued_at_ms \<rparr>) peer
                (state\<lparr> ps_pending := Some (pending, init) \<rparr>), init))"

definition begin_handshake ::
  "proto_crypto \<Rightarrow> byte list \<Rightarrow> session_manager \<Rightarrow> uuid \<Rightarrow> u64 \<Rightarrow> session_manager \<times> handshake_init" where
  "begin_handshake x secret m peer now_ms = begin_handshake_inner x secret m peer now_ms False"

definition ensure_handshake ::
  "proto_crypto \<Rightarrow> byte list \<Rightarrow> session_manager \<Rightarrow> uuid \<Rightarrow> u64 \<Rightarrow> session_manager \<times> handshake_init" where
  "ensure_handshake x secret m peer now_ms = begin_handshake_inner x secret m peer now_ms True"

text \<open>A failing answer drops the lock and removes the entry if it holds nothing.\<close>

definition remove_if_empty :: "session_manager \<Rightarrow> uuid \<Rightarrow> session_manager" where
  "remove_if_empty m peer =
     (if is_some_and (map_of (sm_peers m) peer)
          (\<lambda>st. ps_session st = None \<and> ps_pending st = None \<and> ps_accepted st = None)
      then m\<lparr> sm_peers := bt_remove peer (sm_peers m) \<rparr> else m)"

definition on_init ::
  "proto_crypto \<Rightarrow> byte list \<Rightarrow> session_manager \<Rightarrow> handshake_init \<Rightarrow>
     session_manager \<times> (session_manager_error + handshake_resp)" where
  "on_init x secret m init =
     (let peer = hi_peer_id init; state = entry_state m peer; m0 = put_state m peer state in
      if ps_pending state \<noteq> None \<and> sm_peer_id m < peer then (m0, Inl SM_Crossed)
      else
        case (case ps_accepted state of
                None \<Rightarrow> None
              | Some prev \<Rightarrow>
                  if hi_issued_at_ms init = ai_issued_at_ms prev \<and> hi_eph_pub init = ai_eph_pub prev
                  then Some (Inr (ai_resp prev))
                  else if hi_issued_at_ms init \<le> ai_issued_at_ms prev then Some (Inl SM_StaleInit)
                  else None) of
          Some answer \<Rightarrow> (m0, answer)
        | None \<Rightarrow>
            (case respond x secret (sm_keypair m) (sm_peer_id m) (sm_key_id m) init (sm_registry m) of
               Inl error \<Rightarrow> (remove_if_empty m0 peer, Inl (SM_Handshake error))
             | Inr (session, resp) \<Rightarrow>
                 (put_state m peer (state\<lparr> ps_pending := None,
                    ps_accepted := Some \<lparr> ai_issued_at_ms = hi_issued_at_ms init,
                                          ai_eph_pub = hi_eph_pub init, ai_resp = resp \<rparr>,
                    ps_session := Some session \<rparr>), Inr resp)))"

definition on_resp ::
  "proto_crypto \<Rightarrow> session_manager \<Rightarrow> handshake_resp \<Rightarrow> session_manager \<times> (session_manager_error + unit)" where
  "on_resp x m resp =
     (case map_of (sm_peers m) (hr_peer_id resp) of
        None \<Rightarrow> (m, Inl SM_NoPendingHandshake)
      | Some state \<Rightarrow>
          (case ps_pending state of
             None \<Rightarrow> (m, Inl SM_NoPendingHandshake)
           | Some (pending, _) \<Rightarrow>
               (case verify_resp x pending resp (sm_registry m) of
                  Inl e \<Rightarrow> (m, Inl (SM_Handshake e))
                | Inr _ \<Rightarrow>
                    let taken = state\<lparr> ps_pending := None \<rparr> in
                    (case complete x pending resp (sm_registry m) of
                       Inl e \<Rightarrow> (put_state m (hr_peer_id resp) taken, Inl (SM_Handshake e))
                     | Inr session \<Rightarrow>
                         (put_state m (hr_peer_id resp) (taken\<lparr> ps_session := Some session \<rparr>), Inr ())))))"

definition seal_for ::
  "proto_crypto \<Rightarrow> session_manager \<Rightarrow> uuid \<Rightarrow> byte list \<Rightarrow> byte list \<Rightarrow>
     session_manager \<times> (session_manager_error + sealed_frame)" where
  "seal_for x m peer aad plaintext =
     (case map_of (sm_peers m) peer of
        None \<Rightarrow> (m, Inl SM_NoSession)
      | Some state \<Rightarrow>
          (case ps_session state of
             None \<Rightarrow> (m, Inl SM_NoSession)
           | Some session \<Rightarrow>
               let (session', r) = seal (px_session x) session aad plaintext in
               (put_state m peer (state\<lparr> ps_session := Some session' \<rparr>),
                case r of Inl e \<Rightarrow> Inl (SM_Session e) | Inr frame \<Rightarrow> Inr frame)))"

definition open_from ::
  "proto_crypto \<Rightarrow> session_manager \<Rightarrow> uuid \<Rightarrow> byte list \<Rightarrow> sealed_frame \<Rightarrow>
     session_manager \<times> (session_manager_error + byte list)" where
  "open_from x m peer aad frame =
     (case map_of (sm_peers m) peer of
        None \<Rightarrow> (m, Inl SM_NoSession)
      | Some state \<Rightarrow>
          (case ps_session state of
             None \<Rightarrow> (m, Inl SM_NoSession)
           | Some session \<Rightarrow>
               let (session', r) = open_frame (px_session x) session frame aad in
               (put_state m peer (state\<lparr> ps_session := Some session' \<rparr>),
                case r of Inl e \<Rightarrow> Inl (SM_Session e) | Inr bytes \<Rightarrow> Inr bytes)))"

text \<open>A run of a manager: the calls its owner makes, in the order their locks were taken.
  \<open>reset\<close> is left out of the runs: it forgets the accepted inits, as a restart does.\<close>

datatype manager_call =
    Call_Begin "byte list" uuid u64
  | Call_Ensure "byte list" uuid u64
  | Call_Init "byte list" handshake_init
  | Call_Resp handshake_resp
  | Call_Seal uuid "byte list" "byte list"
  | Call_Open uuid "byte list" sealed_frame

fun manager_step :: "proto_crypto \<Rightarrow> session_manager \<Rightarrow> manager_call \<Rightarrow> session_manager" where
  "manager_step x m (Call_Begin secret peer now) = fst (begin_handshake x secret m peer now)"
| "manager_step x m (Call_Ensure secret peer now) = fst (ensure_handshake x secret m peer now)"
| "manager_step x m (Call_Init secret init) = fst (on_init x secret m init)"
| "manager_step x m (Call_Resp resp) = fst (on_resp x m resp)"
| "manager_step x m (Call_Seal peer aad pt) = fst (seal_for x m peer aad pt)"
| "manager_step x m (Call_Open peer aad frame) = fst (open_from x m peer aad frame)"

abbreviation manager_run :: "proto_crypto \<Rightarrow> session_manager \<Rightarrow> manager_call list \<Rightarrow> session_manager" where
  "manager_run x \<equiv> foldl (manager_step x)"

section \<open>Reading the state of a peer\<close>

lemma entry_put [simp]: "entry_state (put_state m p st) q = (if q = p then st else entry_state m q)"
  by (simp add: entry_state_def put_state_def)

lemma entry_last_issued [simp]: "entry_state (m\<lparr> sm_last_issued_ms := t \<rparr>) q = entry_state m q"
  by (simp add: entry_state_def)

lemma put_state_fields [simp]:
  "sm_keypair (put_state m p st) = sm_keypair m" "sm_peer_id (put_state m p st) = sm_peer_id m"
  "sm_key_id (put_state m p st) = sm_key_id m" "sm_registry (put_state m p st) = sm_registry m"
  by (simp_all add: put_state_def)

lemma remove_if_empty_fields [simp]:
  "sm_keypair (remove_if_empty m p) = sm_keypair m" "sm_peer_id (remove_if_empty m p) = sm_peer_id m"
  "sm_key_id (remove_if_empty m p) = sm_key_id m" "sm_registry (remove_if_empty m p) = sm_registry m"
  by (simp_all add: remove_if_empty_def)

lemma entry_remove_if_empty [simp]: "entry_state (remove_if_empty m p) q = entry_state m q"
  by (cases "map_of (sm_peers m) p")
    (auto simp: remove_if_empty_def entry_state_def peer_state_default_def split: option.split)

lemma has_session_entry: "has_session m p \<longleftrightarrow> ps_session (entry_state m p) \<noteq> None"
  by (auto simp: has_session_def entry_state_def peer_state_default_def split: option.split)

lemma has_pending_entry: "has_pending m p \<longleftrightarrow> ps_pending (entry_state m p) \<noteq> None"
  by (auto simp: has_pending_def entry_state_def peer_state_default_def split: option.split)

lemma on_resp_entry:
  "on_resp x m resp =
     (case ps_pending (entry_state m (hr_peer_id resp)) of
        None \<Rightarrow> (m, Inl SM_NoPendingHandshake)
      | Some (pending, _) \<Rightarrow>
          (case verify_resp x pending resp (sm_registry m) of
             Inl e \<Rightarrow> (m, Inl (SM_Handshake e))
           | Inr _ \<Rightarrow>
               let taken = (entry_state m (hr_peer_id resp))\<lparr> ps_pending := None \<rparr> in
               (case complete x pending resp (sm_registry m) of
                  Inl e \<Rightarrow> (put_state m (hr_peer_id resp) taken, Inl (SM_Handshake e))
                | Inr session \<Rightarrow>
                    (put_state m (hr_peer_id resp) (taken\<lparr> ps_session := Some session \<rparr>), Inr ()))))"
proof (cases "map_of (sm_peers m) (hr_peer_id resp)")
  case None
  then show ?thesis
    by (simp add: on_resp_def entry_state_def peer_state_default_def)
next
  case (Some st)
  then have e: "entry_state m (hr_peer_id resp) = st"
    by (simp add: entry_state_def)
  show ?thesis
    unfolding on_resp_def e using Some by simp
qed

text \<open>The identity of a manager never changes, and no call but an accepted init touches the
  record of the last accepted one.\<close>

lemma manager_step_fields [simp]:
  "sm_keypair (manager_step x m c) = sm_keypair m" "sm_peer_id (manager_step x m c) = sm_peer_id m"
  "sm_key_id (manager_step x m c) = sm_key_id m" "sm_registry (manager_step x m c) = sm_registry m"
  by (cases c; simp add: begin_handshake_def ensure_handshake_def begin_handshake_inner_def
      on_init_def on_resp_def seal_for_def open_from_def Let_def split_beta
      split: option.split sum.split if_split)+

lemma manager_run_fields [simp]:
  "sm_keypair (manager_run x m cs) = sm_keypair m" "sm_peer_id (manager_run x m cs) = sm_peer_id m"
  "sm_key_id (manager_run x m cs) = sm_key_id m" "sm_registry (manager_run x m cs) = sm_registry m"
  by (induction cs arbitrary: m) simp_all

end
