(* ===== verification/Proto_Session_Props.thy ===== *)
theory Proto_Session_Props
  imports Proto_Session_Manager
begin

text \<open>
  What two session managers achieve together: a handshake and a crossed pair of handshakes
  each leave the two ends with one matching pair of sessions, a replayed init that was
  accepted changes nothing, a response proves that its signer answered this ephemeral key.
  Two boundaries of the protocol are theorems as well: a response made for another
  initiator is taken, and an init that was refused while crossing replaces the session when
  it arrives later.
\<close>

definition trusts :: "proto_crypto \<Rightarrow> session_manager \<Rightarrow> session_manager \<Rightarrow> bool" where
  "trusts x m other \<longleftrightarrow>
     lookup_key (sm_registry m) (sm_peer_id other) (sm_key_id other) =
       Some (public_bytes (px_sign x) (sm_keypair other))"

definition hkdf_total :: "proto_crypto \<Rightarrow> bool" where
  "hkdf_total x \<longleftrightarrow> (\<forall>salt ikm info. sc_hkdf_expand (px_session x) salt ikm info \<noteq> None)"

text \<open>Every exchange of the run contributes: the ephemeral keys are honest ones.\<close>

definition contributes :: "proto_crypto \<Rightarrow> byte list \<Rightarrow> byte list \<Rightarrow> bool" where
  "contributes x sb sa \<longleftrightarrow> px_contributory x (px_dh x sb (px_dh_public x sa))"

definition accepts_issue :: "session_manager \<Rightarrow> uuid \<Rightarrow> u64 \<Rightarrow> bool" where
  "accepts_issue m p t \<longleftrightarrow> is_none_or (ps_accepted (entry_state m p)) (\<lambda>a. ai_issued_at_ms a < t)"

definition accepted_of :: "handshake_init \<Rightarrow> handshake_resp \<Rightarrow> accepted_init" where
  "accepted_of init resp =
     \<lparr> ai_issued_at_ms = hi_issued_at_ms init, ai_eph_pub = hi_eph_pub init, ai_resp = resp \<rparr>"

lemma accepted_of_simps [simp]:
  "ai_issued_at_ms (accepted_of init resp) = hi_issued_at_ms init"
  "ai_eph_pub (accepted_of init resp) = hi_eph_pub init"
  "ai_resp (accepted_of init resp) = resp"
  by (simp_all add: accepted_of_def)

section \<open>One handshake\<close>

lemma derive_total: "hkdf_total x \<Longrightarrow> \<exists>s. derive (px_session x) sh tr role = Inr s"
proof -
  assume total: "hkdf_total x"
  then obtain k1 k2 where
    "sc_hkdf_expand (px_session x) tr sh (bytes_of ''airc stream v1 i2r'') = Some k1"
    "sc_hkdf_expand (px_session x) tr sh (bytes_of ''airc stream v1 r2i'') = Some k2"
    unfolding hkdf_total_def by blast
  then show ?thesis
    by (simp add: derive_def expand_key_def split_beta)
qed

lemma begin_handshake_spec:
  assumes "begin_handshake x secret m peer now = (m', init)"
  shows "\<exists>p. initiate x secret (sm_keypair m) (sm_peer_id m) (sm_key_id m) peer
           (next_issued (sm_last_issued_ms m) now) = (p, init) \<and>
         m' = put_state (m\<lparr> sm_last_issued_ms := next_issued (sm_last_issued_ms m) now \<rparr>) peer
           ((entry_state m peer)\<lparr> ps_pending := Some (p, init) \<rparr>)"
  using assms
  by (auto simp: begin_handshake_def begin_handshake_inner_def Let_def split_beta prod_eq_iff)

lemma respond_honest:
  assumes ok: "crypto_correct x" "hkdf_total x" and trust: "trusts x mb ma"
    and init: "initiate x sa (sm_keypair ma) (sm_peer_id ma) (sm_key_id ma) (sm_peer_id mb) t = (p, init)"
    and "contributes x sb sa"
  shows "\<exists>s resp. respond x sb (sm_keypair mb) (sm_peer_id mb) (sm_key_id mb) init (sm_registry mb)
           = Inr (s, resp)"
proof -
  note i = initiate_fields [OF init]
  have "sign_correct (px_sign x)"
    using ok by (simp add: crypto_correct_def)
  then have "verify_sig x (sm_registry mb) (hi_peer_id init) (hi_key_id init)
      (init_signed_bytes (hi_eph_pub init) (hi_peer_id init) (hi_key_id init) (hi_to init)
        (hi_issued_at_ms init)) (hi_sig init) = Inr ()"
    using i trust by (simp add: verify_sign trusts_def)
  moreover obtain s where "derive (px_session x) (px_dh x sb (px_dh_public x sa))
      (transcript x (px_dh_public x sa) (px_dh_public x sb) (sm_peer_id ma) (sm_peer_id mb)) Responder = Inr s"
    using derive_total [OF ok(2)] by blast
  ultimately show ?thesis
    using i assms(5) by (simp add: respond_def checked_shared_def contributes_def Let_def map_derive_err_def)
qed

text \<open>An init that is neither crossed nor old reaches \<open>respond\<close>.\<close>

lemma on_init_fresh:
  assumes "\<not> (has_pending m (hi_peer_id init) \<and> sm_peer_id m < hi_peer_id init)"
    and "accepts_issue m (hi_peer_id init) (hi_issued_at_ms init)"
  shows "on_init x secret m init =
    (case respond x secret (sm_keypair m) (sm_peer_id m) (sm_key_id m) init (sm_registry m) of
       Inl e \<Rightarrow> (remove_if_empty (put_state m (hi_peer_id init) (entry_state m (hi_peer_id init)))
                   (hi_peer_id init), Inl (SM_Handshake e))
     | Inr (s, resp) \<Rightarrow>
         (put_state m (hi_peer_id init) \<lparr> ps_session = Some s, ps_pending = None,
            ps_accepted = Some (accepted_of init resp) \<rparr>, Inr resp))"
proof -
  let ?st = "entry_state m (hi_peer_id init)"
  have old: "(case ps_accepted ?st of
        None \<Rightarrow> None
      | Some prev \<Rightarrow>
          if hi_issued_at_ms init = ai_issued_at_ms prev \<and> hi_eph_pub init = ai_eph_pub prev
          then Some (Inr (ai_resp prev))
          else if hi_issued_at_ms init \<le> ai_issued_at_ms prev then Some (Inl SM_StaleInit)
          else None) = None"
    using assms(2) by (cases "ps_accepted ?st") (auto simp: accepts_issue_def)
  have rec: "?st\<lparr> ps_pending := None, ps_accepted := a, ps_session := b \<rparr> =
      \<lparr> ps_session = b, ps_pending = None, ps_accepted = a \<rparr>" for a b
    by (cases ?st) simp
  show ?thesis
    using assms(1)
    by (simp only: on_init_def Let_def old has_pending_entry rec accepted_of_def if_False option.case)
qed

lemma on_resp_complete:
  assumes "ps_pending (entry_state m (hr_peer_id resp)) = Some (p, init)"
    and "verify_resp x p resp (sm_registry m) = Inr ()"
    and "complete x p resp (sm_registry m) = Inr s"
  shows "on_resp x m resp =
    (put_state m (hr_peer_id resp)
       ((entry_state m (hr_peer_id resp))\<lparr> ps_pending := None, ps_session := Some s \<rparr>), Inr ())"
  using assms by (simp add: on_resp_entry Let_def)

lemma on_resp_not_pending:
  "\<not> has_pending m (hr_peer_id resp) \<Longrightarrow> on_resp x m resp = (m, Inl SM_NoPendingHandshake)"
  by (cases "ps_pending (entry_state m (hr_peer_id resp))")
    (simp_all add: on_resp_entry has_pending_entry)

text \<open>Both ends of a peer pair hold the two halves of one session.\<close>

definition linked :: "session_manager \<Rightarrow> session_manager \<Rightarrow> bool" where
  "linked ma mb \<longleftrightarrow>
     (\<exists>s t. ps_session (entry_state ma (sm_peer_id mb)) = Some s \<and>
        ps_session (entry_state mb (sm_peer_id ma)) = Some t \<and> mirrored s t) \<and>
     \<not> has_pending ma (sm_peer_id mb) \<and> \<not> has_pending mb (sm_peer_id ma)"

text \<open>
  The exchange between two honest ends, from any state of both. The initiator may have been
  called in between (\<open>ma'\<close>), as long as its pending handshake is still this one.
\<close>

lemma exchange_links:
  assumes ok: "crypto_correct x" "hkdf_total x" and trust: "trusts x ma mb" "trusts x mb ma"
    and contrib: "contributes x sb sa"
    and start: "begin_handshake x sa ma (sm_peer_id mb) now = (ma1, init)"
    and yields: "\<not> (has_pending mb (sm_peer_id ma) \<and> sm_peer_id mb < sm_peer_id ma)"
    and newer: "accepts_issue mb (sm_peer_id ma) (hi_issued_at_ms init)"
    and same: "sm_registry ma' = sm_registry ma" "sm_peer_id ma' = sm_peer_id ma"
      "ps_pending (entry_state ma' (sm_peer_id mb)) = ps_pending (entry_state ma1 (sm_peer_id mb))"
  shows "\<exists>mb1 resp ma2. on_init x sb mb init = (mb1, Inr resp) \<and> on_resp x ma' resp = (ma2, Inr ()) \<and>
           linked ma2 mb1 \<and> sm_peer_id ma2 = sm_peer_id ma \<and> sm_peer_id mb1 = sm_peer_id mb \<and>
           sm_registry ma2 = sm_registry ma \<and>
           ps_accepted (entry_state ma2 (sm_peer_id mb)) = ps_accepted (entry_state ma' (sm_peer_id mb))"
proof -
  obtain p where p: "initiate x sa (sm_keypair ma) (sm_peer_id ma) (sm_key_id ma) (sm_peer_id mb)
        (next_issued (sm_last_issued_ms ma) now) = (p, init)"
      "ma1 = put_state (ma\<lparr> sm_last_issued_ms := next_issued (sm_last_issued_ms ma) now \<rparr>) (sm_peer_id mb)
         ((entry_state ma (sm_peer_id mb))\<lparr> ps_pending := Some (p, init) \<rparr>)"
    using begin_handshake_spec [OF start] by blast
  note i = initiate_fields [OF p(1)]
  obtain t resp where r: "respond x sb (sm_keypair mb) (sm_peer_id mb) (sm_key_id mb) init (sm_registry mb)
      = Inr (t, resp)"
    using respond_honest [OF ok trust(2) p(1) contrib] by blast
  have acc: "on_init x sb mb init =
      (put_state mb (sm_peer_id ma) \<lparr> ps_session = Some t, ps_pending = None,
         ps_accepted = Some (accepted_of init resp) \<rparr>, Inr resp)"
    using on_init_fresh [of mb init x sb] i yields newer by (simp add: r)
  have eph: "hi_eph_pub init = px_dh_public x (ph_secret p)" "ph_eph_pub p = px_dh_public x (ph_secret p)"
    using i by simp_all
  have look: "lookup_key (sm_registry ma) (sm_peer_id mb) (sm_key_id mb) =
      Some (public_bytes (px_sign x) (sm_keypair mb))"
    using trust(1) by (simp add: trusts_def)
  have ver: "verify_resp x p resp (sm_registry ma) = Inr ()"
    by (rule complete_response(1) [OF ok(1) r eph look])
  obtain s where s: "complete x p resp (sm_registry ma) = Inr s" "mirrored s t"
    using complete_response(2) [OF ok(1) r eph look] i by auto
  have id: "hr_peer_id resp = sm_peer_id mb"
    by (rule respond_OkD(1) [OF r])
  have "on_resp x ma' resp = (put_state ma' (sm_peer_id mb)
      ((entry_state ma' (sm_peer_id mb))\<lparr> ps_pending := None, ps_session := Some s \<rparr>), Inr ())"
    using on_resp_complete [of ma' resp p init x s] ver s(1) same p(2) by (simp add: id)
  then show ?thesis
    using acc s(2) same by (simp add: linked_def has_pending_entry)
qed

section \<open>Traffic over linked managers\<close>

lemma seal_for_entry:
  "ps_session (entry_state m p) = Some s \<Longrightarrow>
     seal_for x m p aad pt =
       (put_state m p ((entry_state m p)\<lparr> ps_session := Some (fst (seal (px_session x) s aad pt)) \<rparr>),
        case snd (seal (px_session x) s aad pt) of Inl e \<Rightarrow> Inl (SM_Session e) | Inr f \<Rightarrow> Inr f)"
  by (cases "map_of (sm_peers m) p")
    (auto simp: seal_for_def entry_state_def peer_state_default_def split_beta Let_def)

lemma open_from_entry:
  "ps_session (entry_state m p) = Some s \<Longrightarrow>
     open_from x m p aad f =
       (put_state m p ((entry_state m p)\<lparr> ps_session := Some (fst (open_frame (px_session x) s f aad)) \<rparr>),
        case snd (open_frame (px_session x) s f aad) of Inl e \<Rightarrow> Inl (SM_Session e) | Inr b \<Rightarrow> Inr b)"
  by (cases "map_of (sm_peers m) p")
    (auto simp: open_from_def entry_state_def peer_state_default_def split_beta Let_def)

lemma traffic_no_session:
  "ps_session (entry_state m p) = None \<Longrightarrow> seal_for x m p aad pt = (m, Inl SM_NoSession)"
  "ps_session (entry_state m p) = None \<Longrightarrow> open_from x m p aad f = (m, Inl SM_NoSession)"
  by (simp_all add: seal_for_def open_from_def entry_state_def split: option.splits)

lemma mirrored_sym: "mirrored a b \<Longrightarrow> mirrored b a"
  by (auto simp: mirrored_def)

lemma linked_sym: "linked ma mb \<Longrightarrow> linked mb ma"
  unfolding linked_def using mirrored_sym by blast

lemma mirrored_carries:
  assumes "aead_correct cr" "mirrored a b" "snd (seal cr a aad pt) = Inr f"
  shows "snd (open_frame cr b f aad) = Inr pt"
proof -
  have "sc_decrypt cr (ss_open_key b) (nonce_from_counter (sf_counter f)) aad (sf_ciphertext f) = Some pt"
    using assms(1,2) seal_OkD [OF assms(3)] by (auto simp: aead_correct_def mirrored_def)
  then show ?thesis
    using assms(2) by (simp add: open_authentic mirrored_def would_accept_def replay_window_default_def)
qed

definition carries :: "proto_crypto \<Rightarrow> session_manager \<Rightarrow> session_manager \<Rightarrow> bool" where
  "carries x ma mb \<longleftrightarrow>
     (\<forall>aad pt m f. seal_for x ma (sm_peer_id mb) aad pt = (m, Inr f) \<longrightarrow>
        snd (open_from x mb (sm_peer_id ma) aad f) = Inr pt)"

lemma linked_carries:
  assumes "aead_correct (px_session x)" "linked ma mb"
  shows "carries x ma mb"
  using assms(2) mirrored_carries [OF assms(1)]
  by (auto simp: carries_def linked_def seal_for_entry open_from_entry split: sum.splits)

text \<open>
  C12. A handshake between two peers that trust each other's keys completes from any state
  of the two managers in which the responder is not itself waiting as the lower id and has
  not accepted a newer init: the responder answers, the initiator accepts the answer, both
  hold the two halves of one session with nothing pending, and the first frame sealed on
  either side opens to its plaintext on the other.
\<close>

theorem handshake_links_peers:
  assumes "crypto_correct x" "hkdf_total x" "trusts x ma mb" "trusts x mb ma" "contributes x sb sa"
    and "begin_handshake x sa ma (sm_peer_id mb) now = (ma1, init)"
    and "\<not> (has_pending mb (sm_peer_id ma) \<and> sm_peer_id mb < sm_peer_id ma)"
    and "accepts_issue mb (sm_peer_id ma) (hi_issued_at_ms init)"
  shows "\<exists>mb1 resp ma2. on_init x sb mb init = (mb1, Inr resp) \<and> on_resp x ma1 resp = (ma2, Inr ()) \<and>
           linked ma2 mb1 \<and> carries x ma2 mb1 \<and> carries x mb1 ma2"
proof -
  have same: "sm_registry ma1 = sm_registry ma" "sm_peer_id ma1 = sm_peer_id ma"
    using begin_handshake_spec [OF assms(6)] by auto
  have "aead_correct (px_session x)"
    using assms(1) by (simp add: crypto_correct_def)
  then show ?thesis
    using exchange_links [OF assms same refl] linked_carries linked_sym by meson
qed

section \<open>Crossed handshakes\<close>

lemma on_init_crossed:
  assumes "has_pending m (hi_peer_id init)" "sm_peer_id m < hi_peer_id init"
  shows "on_init x secret m init =
    (put_state m (hi_peer_id init) (entry_state m (hi_peer_id init)), Inl SM_Crossed)"
  using assms by (simp add: on_init_def has_pending_entry Let_def)

text \<open>The lower id refuses the other's init and the higher one answers; the refusal leaves
  the lower id's pending handshake in place.\<close>

lemma crossed_exchange:
  assumes ok: "crypto_correct x" "hkdf_total x" and trust: "trusts x ma mb" "trusts x mb ma"
    and contrib: "contributes x rb sa" and less: "sm_peer_id ma < sm_peer_id mb"
    and start: "begin_handshake x sa ma (sm_peer_id mb) now = (ma1, init_a)"
      "begin_handshake x sb mb (sm_peer_id ma) now' = (mb1, init_b)"
    and newer: "accepts_issue mb (sm_peer_id ma) (hi_issued_at_ms init_a)"
  shows "\<exists>ma1' mb2 resp ma2. on_init x ra ma1 init_b = (ma1', Inl SM_Crossed) \<and>
     on_init x rb mb1 init_a = (mb2, Inr resp) \<and> on_resp x ma1' resp = (ma2, Inr ()) \<and>
     linked ma2 mb2 \<and> sm_peer_id ma2 = sm_peer_id ma \<and> sm_peer_id mb2 = sm_peer_id mb \<and>
     sm_registry ma2 = sm_registry ma \<and> sm_keypair ma2 = sm_keypair ma \<and> sm_key_id ma2 = sm_key_id ma \<and>
     ps_accepted (entry_state ma2 (sm_peer_id mb)) = ps_accepted (entry_state ma (sm_peer_id mb))"
proof -
  obtain p where p: "ma1 = put_state (ma\<lparr> sm_last_issued_ms := next_issued (sm_last_issued_ms ma) now \<rparr>)
      (sm_peer_id mb) ((entry_state ma (sm_peer_id mb))\<lparr> ps_pending := Some (p, init_a) \<rparr>)"
    using begin_handshake_spec [OF start(1)] by blast
  obtain q where q: "initiate x sb (sm_keypair mb) (sm_peer_id mb) (sm_key_id mb) (sm_peer_id ma)
        (next_issued (sm_last_issued_ms mb) now') = (q, init_b)"
      "mb1 = put_state (mb\<lparr> sm_last_issued_ms := next_issued (sm_last_issued_ms mb) now' \<rparr>)
      (sm_peer_id ma) ((entry_state mb (sm_peer_id ma))\<lparr> ps_pending := Some (q, init_b) \<rparr>)"
    using begin_handshake_spec [OF start(2)] by blast
  define ma1' where "ma1' = put_state ma1 (sm_peer_id mb) (entry_state ma1 (sm_peer_id mb))"
  have crossed: "on_init x ra ma1 init_b = (ma1', Inl SM_Crossed)"
    using on_init_crossed [of ma1 init_b x ra] initiate_fields [OF q(1)] less
    by (simp add: p has_pending_entry ma1'_def)
  have b: "sm_peer_id mb1 = sm_peer_id mb" "trusts x ma mb1" "trusts x mb1 ma"
    "accepts_issue mb1 (sm_peer_id ma) (hi_issued_at_ms init_a)"
    using trust newer by (simp_all add: q(2) trusts_def accepts_issue_def)
  have a: "sm_registry ma1' = sm_registry ma" "sm_peer_id ma1' = sm_peer_id ma"
    "ps_pending (entry_state ma1' (sm_peer_id mb1)) = ps_pending (entry_state ma1 (sm_peer_id mb1))"
    by (simp_all add: ma1'_def p)
  have start': "begin_handshake x sa ma (sm_peer_id mb1) now = (ma1, init_a)"
    using start(1) by (simp add: b)
  have yields: "\<not> (has_pending mb1 (sm_peer_id ma) \<and> sm_peer_id mb1 < sm_peer_id ma)"
    using less by (simp add: b(1) less_not_sym)
  obtain mb2 resp ma2 where e: "on_init x rb mb1 init_a = (mb2, Inr resp)"
      "on_resp x ma1' resp = (ma2, Inr ())" "linked ma2 mb2" "sm_peer_id ma2 = sm_peer_id ma"
      "sm_peer_id mb2 = sm_peer_id mb1" "sm_registry ma2 = sm_registry ma"
      "ps_accepted (entry_state ma2 (sm_peer_id mb1)) = ps_accepted (entry_state ma1' (sm_peer_id mb1))"
    using exchange_links [OF ok b(2,3) contrib start' yields b(4) a] by blast
  have k: "sm_keypair ma2 = sm_keypair ma" "sm_key_id ma2 = sm_key_id ma"
    using manager_step_fields [of x ma1' "Call_Resp resp"] e(2) by (simp_all add: ma1'_def p)
  have "ps_accepted (entry_state ma1' (sm_peer_id mb)) = ps_accepted (entry_state ma (sm_peer_id mb))"
    by (simp add: ma1'_def p)
  then show ?thesis
    using crossed e k b(1) by auto
qed

text \<open>
  C14. When both peers start a handshake before either init arrives, exactly one of the two
  completes: the lower id refuses with \<open>Crossed\<close> and keeps waiting, the higher id gives up
  its own and answers, and after the answer both hold the halves of one session.
\<close>

theorem crossed_handshakes_link_once:
  assumes "crypto_correct x" "hkdf_total x" "trusts x ma mb" "trusts x mb ma" "contributes x rb sa"
    and "sm_peer_id ma < sm_peer_id mb"
    and "begin_handshake x sa ma (sm_peer_id mb) now = (ma1, init_a)"
    and "begin_handshake x sb mb (sm_peer_id ma) now' = (mb1, init_b)"
    and "accepts_issue mb (sm_peer_id ma) (hi_issued_at_ms init_a)"
  shows "\<exists>ma1' mb2 resp ma2. on_init x ra ma1 init_b = (ma1', Inl SM_Crossed) \<and>
     on_init x rb mb1 init_a = (mb2, Inr resp) \<and> on_resp x ma1' resp = (ma2, Inr ()) \<and>
     linked ma2 mb2"
  using crossed_exchange [OF assms, of ra] by blast

text \<open>HKDF under different labels gives different keys: the two directions never share one.\<close>

definition directional :: "proto_crypto \<Rightarrow> bool" where
  "directional x \<longleftrightarrow>
     (\<forall>salt ikm salt' ikm'.
        sc_hkdf_expand (px_session x) salt ikm (bytes_of ''airc stream v1 i2r'') \<noteq>
        sc_hkdf_expand (px_session x) salt' ikm' (bytes_of ''airc stream v1 r2i''))"

lemma responders_not_mirrored:
  assumes "directional x" "derive (px_session x) sh tr Responder = Inr s"
    "derive (px_session x) sh' tr' Responder = Inr t"
  shows "\<not> mirrored s t"
  using assms
  by (auto simp: directional_def derive_def res_bind_eq_Inr expand_key_def ok_or_eq_Inr mirrored_def)
    (metis+)

lemma on_init_OkD:
  assumes "on_init x r m init = (m', Inr resp)"
    and "accepts_issue m (hi_peer_id init) (hi_issued_at_ms init)"
  shows "\<exists>s. respond x r (sm_keypair m) (sm_peer_id m) (sm_key_id m) init (sm_registry m) = Inr (s, resp) \<and>
    m' = put_state m (hi_peer_id init) \<lparr> ps_session = Some s, ps_pending = None,
           ps_accepted = Some (accepted_of init resp) \<rparr>"
proof -
  have cross: "\<not> (has_pending m (hi_peer_id init) \<and> sm_peer_id m < hi_peer_id init)"
    using assms(1) on_init_crossed [of m init x r] by auto
  then show ?thesis
    using assms on_init_fresh [of m init x r] by (auto split: sum.splits)
qed

text \<open>
  C15. The bound of the crossing rule: the init that the lower id refused is not recorded
  anywhere, so when the same init arrives again after the crossed handshake completed (a
  delayed copy, or one recorded by a relay) it is newer than anything accepted. The lower
  id then replaces its live session, the higher id refuses the answer because it no longer
  waits for one, and the two ends are left with sessions that do not match.
\<close>

theorem late_crossed_init_desyncs:
  assumes ok: "crypto_correct x" "hkdf_total x" "directional x"
    and trust: "trusts x ma mb" "trusts x mb ma"
    and contrib: "contributes x rb sa" "contributes x rc sb"
    and less: "sm_peer_id ma < sm_peer_id mb"
    and start: "begin_handshake x sa ma (sm_peer_id mb) now = (ma1, init_a)"
      "begin_handshake x sb mb (sm_peer_id ma) now' = (mb1, init_b)"
    and newer: "accepts_issue mb (sm_peer_id ma) (hi_issued_at_ms init_a)"
      "accepts_issue ma (sm_peer_id mb) (hi_issued_at_ms init_b)"
  shows "\<exists>ma1' mb2 resp ma2 ma3 resp'. on_init x ra ma1 init_b = (ma1', Inl SM_Crossed) \<and>
     on_init x rb mb1 init_a = (mb2, Inr resp) \<and> on_resp x ma1' resp = (ma2, Inr ()) \<and>
     linked ma2 mb2 \<and>
     on_init x rc ma2 init_b = (ma3, Inr resp') \<and>
     on_resp x mb2 resp' = (mb2, Inl SM_NoPendingHandshake) \<and>
     has_session ma3 (sm_peer_id mb) \<and> has_session mb2 (sm_peer_id ma) \<and> \<not> linked ma3 mb2"
proof -
  obtain ma1' mb2 resp ma2 where c: "on_init x ra ma1 init_b = (ma1', Inl SM_Crossed)"
      "on_init x rb mb1 init_a = (mb2, Inr resp)" "on_resp x ma1' resp = (ma2, Inr ())"
      "linked ma2 mb2" "sm_peer_id ma2 = sm_peer_id ma" "sm_peer_id mb2 = sm_peer_id mb"
      "sm_registry ma2 = sm_registry ma" "sm_keypair ma2 = sm_keypair ma" "sm_key_id ma2 = sm_key_id ma"
      "ps_accepted (entry_state ma2 (sm_peer_id mb)) = ps_accepted (entry_state ma (sm_peer_id mb))"
    using crossed_exchange [OF ok(1,2) trust contrib(1) less start newer(1), of ra] by blast
  obtain q where q: "initiate x sb (sm_keypair mb) (sm_peer_id mb) (sm_key_id mb) (sm_peer_id ma2)
        (next_issued (sm_last_issued_ms mb) now') = (q, init_b)"
    using begin_handshake_spec [OF start(2)] c(5) by auto
  note i = initiate_fields [OF q]
  obtain p where a: "initiate x sa (sm_keypair ma) (sm_peer_id ma) (sm_key_id ma) (sm_peer_id mb)
        (next_issued (sm_last_issued_ms ma) now) = (p, init_a)"
    using begin_handshake_spec [OF start(1)] by blast
  obtain s resp' where r: "respond x rc (sm_keypair ma2) (sm_peer_id ma2) (sm_key_id ma2) init_b (sm_registry ma2)
      = Inr (s, resp')"
    using respond_honest [OF ok(1,2) _ q contrib(2)] trust(1) c(7) by (auto simp: trusts_def)
  define ma3 where "ma3 = put_state ma2 (sm_peer_id mb) \<lparr> ps_session = Some s, ps_pending = None,
      ps_accepted = Some (accepted_of init_b resp') \<rparr>"
  have late: "on_init x rc ma2 init_b = (ma3, Inr resp')"
    using on_init_fresh [of ma2 init_b x rc] i c(4,6,10) newer(2)
    by (simp add: r linked_def accepts_issue_def ma3_def)
  have refused: "on_resp x mb2 resp' = (mb2, Inl SM_NoPendingHandshake)"
    by (rule on_resp_not_pending) (use c(4,5) respond_OkD(1) [OF r] in \<open>simp add: linked_def\<close>)
  have mb1: "accepts_issue mb1 (sm_peer_id ma) (hi_issued_at_ms init_a)"
    using begin_handshake_spec [OF start(2)] newer(1) by (auto simp: accepts_issue_def)
  obtain t where t: "respond x rb (sm_keypair mb1) (sm_peer_id mb1) (sm_key_id mb1) init_a (sm_registry mb1)
        = Inr (t, resp)" "ps_session (entry_state mb2 (sm_peer_id ma)) = Some t"
    using on_init_OkD [OF c(2)] initiate_fields [OF a] mb1 by auto
  have "\<not> mirrored s t"
    by (rule responders_not_mirrored [OF ok(3) respond_OkD(7) [OF r] respond_OkD(7) [OF t(1)]])
  then have "\<not> linked ma3 mb2" "has_session ma3 (sm_peer_id mb)" "has_session mb2 (sm_peer_id ma)"
    using t(2) c(5,6) by (simp_all add: linked_def ma3_def has_session_entry)
  then show ?thesis
    using c late refused by blast
qed

section \<open>Replayed inits\<close>

text \<open>From the acceptance of an init on, the record for its peer is that init or a newer one.\<close>

definition accepted_since :: "session_manager \<Rightarrow> handshake_init \<Rightarrow> handshake_resp \<Rightarrow> bool" where
  "accepted_since m init resp \<longleftrightarrow>
     is_some_and (ps_accepted (entry_state m (hi_peer_id init)))
       (\<lambda>a. a = accepted_of init resp \<or> hi_issued_at_ms init < ai_issued_at_ms a)"

lemma accepted_since_newer:
  "accepted_since m init resp \<Longrightarrow> accepts_issue m (hi_peer_id init) t \<Longrightarrow> hi_issued_at_ms init < t"
  by (cases "ps_accepted (entry_state m (hi_peer_id init))")
    (auto simp: accepted_since_def accepts_issue_def accepted_of_def dest: less_trans)

lemma begin_accepted [simp]:
  "ps_accepted (entry_state (fst (begin_handshake_inner x secret m p now reuse)) q) =
     ps_accepted (entry_state m q)"
  by (auto simp: begin_handshake_inner_def Let_def split_beta split: option.split)

lemma on_resp_accepted [simp]:
  "ps_accepted (entry_state (fst (on_resp x m resp)) q) = ps_accepted (entry_state m q)"
  by (simp add: on_resp_entry Let_def split_beta split: option.split sum.split)

lemma traffic_accepted [simp]:
  "ps_accepted (entry_state (fst (seal_for x m p aad pt)) q) = ps_accepted (entry_state m q)"
  "ps_accepted (entry_state (fst (open_from x m p aad f)) q) = ps_accepted (entry_state m q)"
  by (cases "ps_session (entry_state m p)";
      simp add: traffic_no_session seal_for_entry open_from_entry)+

lemma on_init_cases:
  assumes m': "m' = fst (on_init x secret m init)"
  obtains (kept) ans where "on_init x secret m init = (m', ans)" "\<And>q. entry_state m' q = entry_state m q"
      "ans = Inl SM_Crossed \<or>
       (\<exists>e. ans = Inl (SM_Handshake e)) \<and> accepts_issue m (hi_peer_id init) (hi_issued_at_ms init) \<or>
       (\<exists>a. ps_accepted (entry_state m (hi_peer_id init)) = Some a \<and>
          (ans = Inl SM_StaleInit \<and> hi_issued_at_ms init \<le> ai_issued_at_ms a \<or>
           ans = Inr (ai_resp a) \<and> hi_issued_at_ms init = ai_issued_at_ms a \<and> hi_eph_pub init = ai_eph_pub a))"
  | (accepted) s resp where "accepts_issue m (hi_peer_id init) (hi_issued_at_ms init)"
      "respond x secret (sm_keypair m) (sm_peer_id m) (sm_key_id m) init (sm_registry m) = Inr (s, resp)"
      "on_init x secret m init = (m', Inr resp)"
      "m' = put_state m (hi_peer_id init) \<lparr> ps_session = Some s, ps_pending = None,
              ps_accepted = Some (accepted_of init resp) \<rparr>"
proof -
  let ?p = "hi_peer_id init" and ?st = "entry_state m (hi_peer_id init)"
  show ?thesis
  proof (cases "has_pending m ?p \<and> sm_peer_id m < ?p")
    case True
    then show ?thesis
      using m' by (intro kept [of "Inl SM_Crossed"]) (simp_all add: on_init_crossed)
  next
    case cross: False
    show ?thesis
    proof (cases "accepts_issue m ?p (hi_issued_at_ms init)")
      case True
      show ?thesis
      proof (cases "respond x secret (sm_keypair m) (sm_peer_id m) (sm_key_id m) init (sm_registry m)")
        case (Inl e)
        then show ?thesis
          using m' True by (intro kept [of "Inl (SM_Handshake e)"]) (simp_all add: on_init_fresh [OF cross True])
      next
        case (Inr b)
        then show ?thesis
          using m' True by (intro accepted [of "fst b" "snd b"]) (simp_all add: on_init_fresh [OF cross True] split_beta)
      qed
    next
      case False
      then obtain a where a: "ps_accepted ?st = Some a" "hi_issued_at_ms init \<le> ai_issued_at_ms a"
        by (cases "ps_accepted ?st") (auto simp: accepts_issue_def not_less)
      define ans where "ans = (if hi_issued_at_ms init = ai_issued_at_ms a \<and> hi_eph_pub init = ai_eph_pub a
          then Inr (ai_resp a) else Inl SM_StaleInit)"
      have "on_init x secret m init = (put_state m ?p ?st, ans)"
        using cross a by (auto simp: on_init_def Let_def has_pending_entry ans_def)
      then show ?thesis
        using m' a by (intro kept [of ans]) (auto simp: ans_def)
    qed
  qed
qed

lemma accepted_since_step:
  assumes "accepted_since m init resp"
  shows "accepted_since (manager_step x m c) init resp"
proof (cases c)
  case (Call_Init secret init')
  define m' where "m' = fst (on_init x secret m init')"
  then show ?thesis
  proof (cases rule: on_init_cases)
    case kept
    then show ?thesis
      using assms Call_Init by (simp add: accepted_since_def)
  next
    case (accepted s resp')
    then show ?thesis
      using assms Call_Init accepted_since_newer [OF assms]
      by (auto simp: accepted_since_def accepted_of_def)
  qed
qed (use assms in \<open>simp_all add: accepted_since_def begin_handshake_def ensure_handshake_def\<close>)

lemma accepted_since_run: "accepted_since m init resp \<Longrightarrow> accepted_since (manager_run x m cs) init resp"
  by (induction cs arbitrary: m) (simp_all add: accepted_since_step)


section \<open>What a response proves\<close>

text \<open>The byte strings a manager signs during a run, and the positions where it answers.\<close>

fun signed_by_call :: "proto_crypto \<Rightarrow> session_manager \<Rightarrow> manager_call \<Rightarrow> byte list list" where
  "signed_by_call x m (Call_Begin secret peer now) =
     [init_signed_bytes (px_dh_public x secret) (sm_peer_id m) (sm_key_id m) peer
        (next_issued (sm_last_issued_ms m) now)]"
| "signed_by_call x m (Call_Ensure secret peer now) =
     (if has_pending m peer then []
      else [init_signed_bytes (px_dh_public x secret) (sm_peer_id m) (sm_key_id m) peer
              (next_issued (sm_last_issued_ms m) now)])"
| "signed_by_call x m (Call_Init secret init) =
     (if has_pending m (hi_peer_id init) \<and> sm_peer_id m < hi_peer_id init \<or>
         \<not> accepts_issue m (hi_peer_id init) (hi_issued_at_ms init) then []
      else
        case respond x secret (sm_keypair m) (sm_peer_id m) (sm_key_id m) init (sm_registry m) of
          Inl _ \<Rightarrow> []
        | Inr _ \<Rightarrow> [resp_signed_bytes (px_dh_public x secret) (hi_eph_pub init) (sm_peer_id m) (sm_key_id m)])"
| "signed_by_call x m _ = []"

fun signed_in_run :: "proto_crypto \<Rightarrow> session_manager \<Rightarrow> manager_call list \<Rightarrow> byte list list" where
  "signed_in_run x m [] = []"
| "signed_in_run x m (c # cs) = signed_by_call x m c @ signed_in_run x (manager_step x m c) cs"

text \<open>An init read from the wire holds a 32-byte key.\<close>

fun wire_call :: "manager_call \<Rightarrow> bool" where
  "wire_call (Call_Init _ init) = (length (hi_eph_pub init) = 32)"
| "wire_call _ = True"

lemma init_resp_bytes: "init_signed_bytes e p k d i \<noteq> resp_signed_bytes e' f p' k'"
  by (simp add: init_signed_bytes_def resp_signed_bytes_def DOMAIN_INIT_def DOMAIN_RESP_def bytes_of_def)

lemma signed_response:
  assumes "resp_signed_bytes e f (sm_peer_id m) (sm_key_id m) \<in> set (signed_in_run x m cs)"
    and "length e = 32" "length f = 32" "\<forall>a. length (px_dh_public x a) = 32" "list_all wire_call cs"
  shows "\<exists>cs1 secret init cs2 resp s. cs = cs1 @ Call_Init secret init # cs2 \<and>
     e = px_dh_public x secret \<and> f = hi_eph_pub init \<and>
     respond x secret (sm_keypair m) (sm_peer_id m) (sm_key_id m) init (sm_registry m) = Inr (s, resp) \<and>
     on_init x secret (manager_run x m cs1) init =
       (manager_run x m (cs1 @ [Call_Init secret init]), Inr resp) \<and>
     ps_session (entry_state (manager_run x m (cs1 @ [Call_Init secret init])) (hi_peer_id init)) = Some s"
  using assms
proof (induction cs arbitrary: m)
  case (Cons c cs)
  let ?b = "resp_signed_bytes e f (sm_peer_id m) (sm_key_id m)"
  show ?case
  proof (cases "?b \<in> set (signed_by_call x m c)")
    case True
    obtain secret init s resp where c: "c = Call_Init secret init"
        "\<not> (has_pending m (hi_peer_id init) \<and> sm_peer_id m < hi_peer_id init)"
        "accepts_issue m (hi_peer_id init) (hi_issued_at_ms init)"
        "respond x secret (sm_keypair m) (sm_peer_id m) (sm_key_id m) init (sm_registry m) = Inr (s, resp)"
        "?b = resp_signed_bytes (px_dh_public x secret) (hi_eph_pub init) (sm_peer_id m) (sm_key_id m)"
      using True by (cases c; auto simp: init_resp_bytes [symmetric] split: if_splits sum.splits; metis)
    have "e = px_dh_public x secret \<and> f = hi_eph_pub init"
      using c(1,5) Cons.prems resp_signed_bytes_inject [of e "px_dh_public x secret" f "hi_eph_pub init"]
      by simp
    then show ?thesis
      using c on_init_fresh [OF c(2,3), of x secret]
      by (intro exI [of _ "[]"] exI [of _ secret] exI [of _ init] exI [of _ cs] exI [of _ resp] exI [of _ s]) simp
  next
    case False
    then obtain cs1 secret init cs2 resp s where
      "cs = cs1 @ Call_Init secret init # cs2" "e = px_dh_public x secret" "f = hi_eph_pub init"
      "respond x secret (sm_keypair m) (sm_peer_id m) (sm_key_id m) init (sm_registry m) = Inr (s, resp)"
      "on_init x secret (manager_run x (manager_step x m c) cs1) init =
         (manager_run x (manager_step x m c) (cs1 @ [Call_Init secret init]), Inr resp)"
      "ps_session (entry_state (manager_run x (manager_step x m c) (cs1 @ [Call_Init secret init]))
         (hi_peer_id init)) = Some s"
      using Cons.IH [of "manager_step x m c"] Cons.prems by fastforce
    then show ?thesis
      by (intro exI [of _ "c # cs1"] exI [of _ secret] exI [of _ init] exI [of _ cs2] exI [of _ resp]
          exI [of _ s]) simp
  qed
qed simp

text \<open>
  C13. Agreement. When a pending handshake accepts a response in the name of a peer whose
  manager made the calls \<open>cs\<close>, and that response's signature was made by that manager and
  not forged, then the manager answered, at one of its calls, an init that carries exactly
  the ephemeral key of this handshake, with the ephemeral key the response shows; and if
  that init named this peer as its initiator, the session it installed then is the other
  half of the session installed here.
\<close>

theorem response_agreement:
  assumes ok: "crypto_correct x" and trust: "trusts x ma mb"
    and pend: "ps_pending (entry_state ma (sm_peer_id mb)) = Some (p, init)"
      "initiate x sa kp (sm_peer_id ma) k (sm_peer_id mb) t = (p, init)"
    and acc: "on_resp x ma resp = (ma', Inr ())" "hr_peer_id resp = sm_peer_id mb"
      "hr_key_id resp = sm_key_id mb"
    and wire: "length (hr_eph_pub resp) = 32" "list_all wire_call cs"
    and unforged: "gc_verify_strict (px_sign x) (public_bytes (px_sign x) (sm_keypair mb))
        (resp_signed_bytes (hr_eph_pub resp) (ph_eph_pub p) (sm_peer_id mb) (sm_key_id mb)) (hr_sig resp) \<Longrightarrow>
      resp_signed_bytes (hr_eph_pub resp) (ph_eph_pub p) (sm_peer_id mb) (sm_key_id mb)
        \<in> set (signed_in_run x mb cs)"
  shows "\<exists>cs1 secret init' cs2 resp' a b. cs = cs1 @ Call_Init secret init' # cs2 \<and>
     on_init x secret (manager_run x mb cs1) init' =
       (manager_run x mb (cs1 @ [Call_Init secret init']), Inr resp') \<and>
     hi_eph_pub init' = ph_eph_pub p \<and> hr_eph_pub resp' = hr_eph_pub resp \<and>
     ps_session (entry_state ma' (sm_peer_id mb)) = Some a \<and>
     ps_session (entry_state (manager_run x mb (cs1 @ [Call_Init secret init'])) (hi_peer_id init')) = Some b \<and>
     (hi_peer_id init' = sm_peer_id ma \<longrightarrow> mirrored a b)"
proof -
  let ?bytes = "resp_signed_bytes (hr_eph_pub resp) (ph_eph_pub p) (sm_peer_id mb) (sm_key_id mb)"
  note i = initiate_fields [OF pend(2)]
  have dh: "\<forall>a. length (px_dh_public x a) = 32"
    using ok by (simp add: crypto_correct_def)
  obtain a where a: "verify_resp x p resp (sm_registry ma) = Inr ()"
      "complete x p resp (sm_registry ma) = Inr a"
      "ma' = put_state ma (sm_peer_id mb)
         ((entry_state ma (sm_peer_id mb))\<lparr> ps_pending := None, ps_session := Some a \<rparr>)"
    using acc pend(1) by (auto simp: on_resp_entry Let_def split: sum.splits)
  have "?bytes \<in> set (signed_in_run x mb cs)"
    using a(1) trust acc(2,3)
    by (intro unforged) (simp add: verify_resp_def verify_sig_def trusts_def split: if_splits)
  moreover have "length (ph_eph_pub p) = 32"
    using i dh by simp
  ultimately obtain cs1 secret init' cs2 resp' b where r: "cs = cs1 @ Call_Init secret init' # cs2"
      "hr_eph_pub resp = px_dh_public x secret" "ph_eph_pub p = hi_eph_pub init'"
      "respond x secret (sm_keypair mb) (sm_peer_id mb) (sm_key_id mb) init' (sm_registry mb) = Inr (b, resp')"
      "on_init x secret (manager_run x mb cs1) init' =
         (manager_run x mb (cs1 @ [Call_Init secret init']), Inr resp')"
      "ps_session (entry_state (manager_run x mb (cs1 @ [Call_Init secret init'])) (hi_peer_id init')) = Some b"
    using signed_response [OF _ wire(1) _ dh wire(2), of "ph_eph_pub p" mb] by blast
  have "mirrored a b" if "hi_peer_id init' = sm_peer_id ma"
  proof -
    have same: "px_dh x sa (px_dh_public x secret) = px_dh x secret (px_dh_public x sa)"
      using ok by (simp add: crypto_correct_def)
    have "derive (px_session x) (px_dh x secret (hi_eph_pub init'))
        (transcript x (hi_eph_pub init') (px_dh_public x secret) (hi_peer_id init') (sm_peer_id mb)) Initiator
        = Inr a"
      using a(2) i r(2) same acc(2) that [symmetric] r(3) [symmetric]
      by (auto simp: complete_def res_bind_eq_Inr checked_shared_def Let_def map_derive_err_def
          split: if_splits sum.splits)
    then show ?thesis
      using derive_mirrored respond_OkD(7) [OF r(4)] by blast
  qed
  then show ?thesis
    using r a(3) respond_OkD(3) [OF r(4)]
    by (intro exI [of _ cs1] exI [of _ secret] exI [of _ init'] exI [of _ cs2] exI [of _ resp']
        exI [of _ a] exI [of _ b]) simp
qed

text \<open>
  C16. The response signature does not cover the initiator. If the responder answers an init
  of a third peer that carries a copied ephemeral key, the answer completes the handshake of
  the peer that made the key: it gives up its pending handshake and holds a session with the
  responder, who has none for it.
\<close>

theorem response_not_bound_to_initiator:
  assumes ok: "crypto_correct x" "hkdf_total x" and trust: "trusts x ma mb"
    and start: "begin_handshake x sa ma (sm_peer_id mb) now = (ma1, init)"
    and copied: "hi_eph_pub init_c = hi_eph_pub init" "hi_peer_id init_c \<noteq> sm_peer_id ma"
    and answered: "accepts_issue mb (hi_peer_id init_c) (hi_issued_at_ms init_c)"
      "on_init x rb mb init_c = (mb1, Inr resp)"
    and none: "\<not> has_session mb (sm_peer_id ma)"
  shows "\<exists>ma2. on_resp x ma1 resp = (ma2, Inr ()) \<and> has_session ma2 (sm_peer_id mb) \<and>
     \<not> has_pending ma2 (sm_peer_id mb) \<and> \<not> has_session mb1 (sm_peer_id ma)"
proof -
  obtain p where p: "initiate x sa (sm_keypair ma) (sm_peer_id ma) (sm_key_id ma) (sm_peer_id mb)
        (next_issued (sm_last_issued_ms ma) now) = (p, init)"
      "ma1 = put_state (ma\<lparr> sm_last_issued_ms := next_issued (sm_last_issued_ms ma) now \<rparr>) (sm_peer_id mb)
         ((entry_state ma (sm_peer_id mb))\<lparr> ps_pending := Some (p, init) \<rparr>)"
    using begin_handshake_spec [OF start] by blast
  note i = initiate_fields [OF p(1)]
  obtain s where r: "respond x rb (sm_keypair mb) (sm_peer_id mb) (sm_key_id mb) init_c (sm_registry mb)
        = Inr (s, resp)"
      "mb1 = put_state mb (hi_peer_id init_c) \<lparr> ps_session = Some s, ps_pending = None,
         ps_accepted = Some (accepted_of init_c resp) \<rparr>"
    using on_init_OkD [OF answered(2,1)] by blast
  note o = respond_OkD [OF r(1)]
  have ver: "verify_resp x p resp (sm_registry ma) = Inr ()"
    by (rule complete_response(1) [OF ok(1) r(1)]) (use copied i trust in \<open>simp_all add: trusts_def\<close>)
  have "px_dh x sa (px_dh_public x rb) = px_dh x rb (px_dh_public x sa)"
    using ok(1) by (simp add: crypto_correct_def)
  then have "px_contributory x (px_dh x sa (px_dh_public x rb))"
    using o(6) copied i by simp
  moreover obtain a where "derive (px_session x) (px_dh x sa (px_dh_public x rb))
      (transcript x (px_dh_public x sa) (px_dh_public x rb) (sm_peer_id ma) (sm_peer_id mb)) Initiator = Inr a"
    using derive_total [OF ok(2)] by blast
  ultimately have "complete x p resp (sm_registry ma) = Inr a"
    using ver i o(1,3) by (simp add: complete_def checked_shared_def Let_def map_derive_err_def)
  then have "on_resp x ma1 resp = (put_state ma1 (sm_peer_id mb)
      ((entry_state ma1 (sm_peer_id mb))\<lparr> ps_pending := None, ps_session := Some a \<rparr>), Inr ())"
    using on_resp_complete [of ma1 resp p init x a] ver o(1) by (simp add: p(2))
  then show ?thesis
    using none copied(2) by (simp add: has_session_entry has_pending_entry r(2))
qed

section \<open>Concrete instances\<close>

text \<open>Primitives that satisfy the laws: a signature shows the key and the head of the
  message, the shared secret is the bytewise sum of the two public keys, the hash is the
  identity.\<close>

definition demo_sign :: sign_crypto where
  "demo_sign = \<lparr> gc_public = (\<lambda>sk. sk), gc_sign = (\<lambda>sk m. take 64 (sk @ m @ replicate 64 0)),
     gc_verify = (\<lambda>pk m sig. sig = take 64 (pk @ m @ replicate 64 0)),
     gc_verify_strict = (\<lambda>pk m sig. sig = take 64 (pk @ m @ replicate 64 0)),
     gc_valid_point = (\<lambda>_. True) \<rparr>"

definition demo_pub :: "byte list \<Rightarrow> byte list" where
  "demo_pub a = take 32 (a @ replicate 32 0)"

definition demo_proto :: proto_crypto where
  "demo_proto = \<lparr> px_session = demo_crypto, px_sign = demo_sign, px_dh_public = demo_pub,
     px_dh = (\<lambda>a b. map2 (+) (demo_pub a) b), px_contributory = (\<lambda>_. True), px_sha256 = (\<lambda>m. m) \<rparr>"

definition demo_registry :: peer_key_registry where
  "demo_registry = [((1, 0), [11]), ((2, 0), [12]), ((3, 0), [13])]"

definition demo_manager :: "uuid \<Rightarrow> byte list \<Rightarrow> session_manager" where
  "demo_manager p sk = manager_new (from_secret_bytes sk) p demo_registry"

abbreviation demo_a :: session_manager where "demo_a \<equiv> demo_manager 1 [11]"
abbreviation demo_b :: session_manager where "demo_b \<equiv> demo_manager 2 [12]"
abbreviation demo_c :: session_manager where "demo_c \<equiv> demo_manager 3 [13]"

lemma demo_crypto_correct: "crypto_correct demo_proto"
proof -
  have "sign_correct demo_sign"
    by (auto simp: sign_correct_def demo_sign_def min_def)
  moreover have "map2 (+) (demo_pub a) (demo_pub b) = map2 (+) (demo_pub b) (demo_pub a)" for a b
    by (simp add: demo_pub_def list_eq_iff_nth_eq ac_simps)
  moreover have "length (demo_pub a) = 32" for a
    by (simp add: demo_pub_def min_def)
  ultimately show ?thesis
    by (simp add: crypto_correct_def demo_proto_def demo_aead_correct)
qed

lemma demo_hkdf: "hkdf_total demo_proto" "directional demo_proto" "contributes demo_proto r s"
proof -
  have "last (salt @ ikm @ bytes_of ''airc stream v1 i2r'') \<noteq> last (salt' @ ikm' @ bytes_of ''airc stream v1 r2i'')"
    for salt ikm salt' ikm' by (simp add: bytes_of_def)
  then have "salt @ ikm @ bytes_of ''airc stream v1 i2r'' \<noteq> salt' @ ikm' @ bytes_of ''airc stream v1 r2i''"
    for salt ikm salt' ikm' by metis
  then show "directional demo_proto"
    by (simp add: directional_def demo_proto_def demo_crypto_def)
qed (simp_all add: hkdf_total_def contributes_def demo_proto_def demo_crypto_def)

lemma demo_manager_simps [simp]:
  "sm_peer_id (demo_manager p sk) = p" "sm_key_id (demo_manager p sk) = 0"
  "sm_keypair (demo_manager p sk) = from_secret_bytes sk" "sm_registry (demo_manager p sk) = demo_registry"
  "entry_state (demo_manager p sk) q = peer_state_default" "accepts_issue (demo_manager p sk) q t"
  "\<not> has_session (demo_manager p sk) q" "\<not> has_pending (demo_manager p sk) q"
  by (simp_all add: demo_manager_def manager_new_def entry_state_def accepts_issue_def
      peer_state_default_def has_session_def has_pending_def)

lemma demo_trusts:
  "trusts demo_proto (demo_manager p sk) demo_a" "trusts demo_proto (demo_manager p sk) demo_b"
  "trusts demo_proto (demo_manager p sk) demo_c"
  by (simp_all add: trusts_def lookup_key_def demo_registry_def public_bytes_def demo_proto_def
      demo_sign_def from_secret_bytes_def)

definition demo_a1 :: session_manager where
  "demo_a1 = fst (begin_handshake demo_proto [5] demo_a 2 100)"

definition demo_init_a :: handshake_init where
  "demo_init_a = snd (begin_handshake demo_proto [5] demo_a 2 100)"

definition demo_b1 :: session_manager where
  "demo_b1 = fst (begin_handshake demo_proto [6] demo_b 1 101)"

definition demo_init_b :: handshake_init where
  "demo_init_b = snd (begin_handshake demo_proto [6] demo_b 1 101)"

lemma demo_begin:
  "begin_handshake demo_proto [5] demo_a (sm_peer_id demo_b) 100 = (demo_a1, demo_init_a)"
  "begin_handshake demo_proto [6] demo_b (sm_peer_id demo_a) 101 = (demo_b1, demo_init_b)"
  by (simp_all add: demo_a1_def demo_init_a_def demo_b1_def demo_init_b_def)

theorem handshake_links_peers_witness:
  "\<exists>mb1 resp ma2. on_init demo_proto [7] demo_b demo_init_a = (mb1, Inr resp) \<and>
     on_resp demo_proto demo_a1 resp = (ma2, Inr ()) \<and> linked ma2 mb1 \<and>
     carries demo_proto ma2 mb1 \<and> carries demo_proto mb1 ma2"
  by (rule handshake_links_peers
      [OF demo_crypto_correct demo_hkdf(1) demo_trusts(2) demo_trusts(1) demo_hkdf(3) demo_begin(1)]) simp_all

theorem crossed_handshakes_link_once_witness:
  "\<exists>ma1' mb2 resp ma2. on_init demo_proto [8] demo_a1 demo_init_b = (ma1', Inl SM_Crossed) \<and>
     on_init demo_proto [7] demo_b1 demo_init_a = (mb2, Inr resp) \<and>
     on_resp demo_proto ma1' resp = (ma2, Inr ()) \<and> linked ma2 mb2"
  by (rule crossed_handshakes_link_once
      [OF demo_crypto_correct demo_hkdf(1) demo_trusts(2) demo_trusts(1) demo_hkdf(3) _ demo_begin]) simp_all

theorem late_crossed_init_desyncs_witness:
  "\<exists>ma2 mb2 ma3 resp'. linked ma2 mb2 \<and> on_init demo_proto [9] ma2 demo_init_b = (ma3, Inr resp') \<and>
     has_session ma3 2 \<and> has_session mb2 1 \<and> \<not> linked ma3 mb2"
proof -
  have less: "sm_peer_id demo_a < sm_peer_id demo_b"
    by simp
  show ?thesis
    using late_crossed_init_desyncs [OF demo_crypto_correct demo_hkdf(1,2) demo_trusts(2) demo_trusts(1)
        demo_hkdf(3) demo_hkdf(3) less demo_begin, of "[8]" "[7]" "[9]"]
    by auto
qed

text \<open>The answer of the second manager to the init of the first.\<close>

definition demo_b2 :: session_manager where
  "demo_b2 = fst (on_init demo_proto [7] demo_b demo_init_a)"

definition demo_resp :: handshake_resp where
  "demo_resp = projr (snd (on_init demo_proto [7] demo_b demo_init_a))"

definition demo_a2 :: session_manager where
  "demo_a2 = fst (on_resp demo_proto demo_a1 demo_resp)"

lemma demo_a1_fields: "sm_registry demo_a1 = sm_registry demo_a" "sm_peer_id demo_a1 = sm_peer_id demo_a"
  using manager_step_fields [of demo_proto demo_a "Call_Begin [5] 2 100"] by (simp_all add: demo_a1_def)

lemma demo_answer:
  "on_init demo_proto [7] demo_b demo_init_a = (demo_b2, Inr demo_resp)"
  "on_resp demo_proto demo_a1 demo_resp = (demo_a2, Inr ())"
proof -
  have "\<exists>mb1 resp ma2. on_init demo_proto [7] demo_b demo_init_a = (mb1, Inr resp) \<and>
      on_resp demo_proto demo_a1 resp = (ma2, Inr ())"
    using exchange_links [OF demo_crypto_correct demo_hkdf(1) demo_trusts(2) demo_trusts(1) demo_hkdf(3)
        demo_begin(1) _ _ demo_a1_fields refl] by fastforce
  then show "on_init demo_proto [7] demo_b demo_init_a = (demo_b2, Inr demo_resp)"
      and "on_resp demo_proto demo_a1 demo_resp = (demo_a2, Inr ())"
    by (auto simp: demo_b2_def demo_resp_def demo_a2_def)
qed


theorem response_agreement_witness:
  "\<exists>a b. ps_session (entry_state demo_a2 2) = Some a \<and> ps_session (entry_state demo_b2 1) = Some b \<and>
     mirrored a b"
proof -
  obtain p where p0: "initiate demo_proto [5] (sm_keypair demo_a) (sm_peer_id demo_a) (sm_key_id demo_a)
        (sm_peer_id demo_b) (next_issued (sm_last_issued_ms demo_a) 100) = (p, demo_init_a)"
      "demo_a1 = put_state (demo_a\<lparr> sm_last_issued_ms := next_issued (sm_last_issued_ms demo_a) 100 \<rparr>)
         (sm_peer_id demo_b) ((entry_state demo_a (sm_peer_id demo_b))\<lparr> ps_pending := Some (p, demo_init_a) \<rparr>)"
    using begin_handshake_spec [OF demo_begin(1)] by blast
  have p: "initiate demo_proto [5] (sm_keypair demo_a) (sm_peer_id demo_a1) 0 (sm_peer_id demo_b)
        (next_issued (sm_last_issued_ms demo_a) 100) = (p, demo_init_a)"
      "ps_pending (entry_state demo_a1 (sm_peer_id demo_b)) = Some (p, demo_init_a)"
    using p0(1) by (simp_all add: demo_a1_fields) (simp add: p0(2))
  note i = initiate_fields [OF p(1)]
  obtain s where r: "respond demo_proto [7] (sm_keypair demo_b) (sm_peer_id demo_b) (sm_key_id demo_b)
      demo_init_a (sm_registry demo_b) = Inr (s, demo_resp)"
    using on_init_OkD [OF demo_answer(1)] by auto
  note o = respond_OkD [OF r]
  have len: "length (px_dh_public demo_proto q) = 32" for q
    by (simp add: demo_proto_def demo_pub_def)
  have signed: "resp_signed_bytes (hr_eph_pub demo_resp) (ph_eph_pub p) (sm_peer_id demo_b) (sm_key_id demo_b)
      \<in> set (signed_in_run demo_proto demo_b [Call_Init [7] demo_init_a])"
    using r o i by simp
  have trust: "trusts demo_proto demo_a1 demo_b"
    using demo_trusts(2) [of 1 "[11]"] demo_a1_fields by (simp add: trusts_def)
  have "\<exists>cs1 secret init' cs2 resp' a b. [Call_Init [7] demo_init_a] = cs1 @ Call_Init secret init' # cs2 \<and>
     on_init demo_proto secret (manager_run demo_proto demo_b cs1) init' =
       (manager_run demo_proto demo_b (cs1 @ [Call_Init secret init']), Inr resp') \<and>
     hi_eph_pub init' = ph_eph_pub p \<and> hr_eph_pub resp' = hr_eph_pub demo_resp \<and>
     ps_session (entry_state demo_a2 (sm_peer_id demo_b)) = Some a \<and>
     ps_session (entry_state (manager_run demo_proto demo_b (cs1 @ [Call_Init secret init'])) (hi_peer_id init'))
       = Some b \<and>
     (hi_peer_id init' = sm_peer_id demo_a1 \<longrightarrow> mirrored a b)"
    by (rule response_agreement [OF demo_crypto_correct trust p(2,1) demo_answer(2)])
      (use o i len signed in simp_all)
  then show ?thesis
    using i demo_a1_fields by (auto simp: Cons_eq_append_conv demo_answer(1))
qed

text \<open>A third peer signs an init around the ephemeral key of the first one.\<close>

definition demo_init_c :: handshake_init where
  "demo_init_c = snd (initiate demo_proto [5] (sm_keypair demo_c) 3 0 2 90)"

theorem response_not_bound_to_initiator_witness:
  "\<exists>mb1 resp ma2. on_init demo_proto [7] demo_b demo_init_c = (mb1, Inr resp) \<and>
     on_resp demo_proto demo_a1 resp = (ma2, Inr ()) \<and> has_session ma2 2 \<and> \<not> has_session mb1 1"
proof -
  obtain q where q: "initiate demo_proto [5] (sm_keypair demo_c) (sm_peer_id demo_c) (sm_key_id demo_c)
      (sm_peer_id demo_b) 90 = (q, demo_init_c)"
    by (simp add: demo_init_c_def prod_eq_iff)
  note c = initiate_fields [OF q]
  have a: "hi_eph_pub demo_init_a = px_dh_public demo_proto [5]"
    using begin_handshake_spec [OF demo_begin(1)] initiate_fields by blast
  obtain s resp where r: "respond demo_proto [7] (sm_keypair demo_b) (sm_peer_id demo_b) (sm_key_id demo_b)
      demo_init_c (sm_registry demo_b) = Inr (s, resp)"
    using respond_honest [OF demo_crypto_correct demo_hkdf(1) demo_trusts(3) q demo_hkdf(3)] by blast
  obtain mb1 where on: "on_init demo_proto [7] demo_b demo_init_c = (mb1, Inr resp)"
    using on_init_fresh [of demo_b demo_init_c demo_proto "[7]"] r by simp
  have "\<exists>ma2. on_resp demo_proto demo_a1 resp = (ma2, Inr ()) \<and> has_session ma2 (sm_peer_id demo_b) \<and>
     \<not> has_pending ma2 (sm_peer_id demo_b) \<and> \<not> has_session mb1 (sm_peer_id demo_a)"
    by (rule response_not_bound_to_initiator [OF demo_crypto_correct demo_hkdf(1) demo_trusts(2) demo_begin(1)
          _ _ _ on]) (use c a in simp_all)
  then show ?thesis
    using on by auto
qed

end
