(* ===== verification/Trust_Store.thy ===== *)
theory Trust_Store
  imports Proto_Keys Store_Rows
begin

text \<open>
  Peer trust: signed key rotations (\<open>airc-protocol/src/trust_rotation.rs\<close>), the two tables
  they live in (\<open>airc-store/src/peer_trust.rs\<close>, \<open>sqlite/trust_ops.rs\<close>) and the trust
  registry over them (\<open>airc-trust/src/lib.rs\<close>). A table is an ordered map from its primary
  key to its row; a committed statement or transaction is one update of it. The record
  \<open>trust_env\<close> holds what other crates do: the CBOR encoding of a rotation (\<open>ciborium\<close>) and
  the base64 text of a key. Every write asks the store for admission first (\<open>admit_write\<close>,
  which consults lock files and the migration table); its answer is the argument \<open>gate\<close>.
  An \<open>i64\<close> column is an \<open>int\<close> that the conversion functions keep in range.
\<close>

section \<open>Signed rotations\<close>

record trust_rotation =
  tr_peer_id :: uuid
  tr_prev_pubkey :: "byte list"
  tr_next_pubkey :: "byte list"
  tr_sequence :: u64
  tr_rotated_at_ms :: u64
  tr_signature :: "byte list"

record rotation_payload =
  rp_peer_id :: uuid
  rp_prev_pubkey :: "byte list"
  rp_next_pubkey :: "byte list"
  rp_sequence :: u64
  rp_rotated_at_ms :: u64

record trust_env =
  tv_sign :: sign_crypto
  tv_cbor :: "rotation_payload \<Rightarrow> byte list option"
  tv_b64 :: "byte list \<Rightarrow> string"
  tv_b64_decode :: "string \<Rightarrow> byte list option"

datatype rotation_verification_error =
  RV_InvalidPrevPubkey | RV_BadSignature | RV_NoOpRotation | RV_CanonicalEncodingFailed

definition canonical_rotation_bytes :: "trust_env \<Rightarrow> trust_rotation \<Rightarrow> byte list option" where
  "canonical_rotation_bytes v r =
     tv_cbor v \<lparr> rp_peer_id = tr_peer_id r, rp_prev_pubkey = tr_prev_pubkey r,
       rp_next_pubkey = tr_next_pubkey r, rp_sequence = tr_sequence r,
       rp_rotated_at_ms = tr_rotated_at_ms r \<rparr>"

definition verify_rotation :: "trust_env \<Rightarrow> trust_rotation \<Rightarrow> rotation_verification_error + unit" where
  "verify_rotation v r =
     (if tr_prev_pubkey r = tr_next_pubkey r then Inl RV_NoOpRotation
      else if \<not> gc_valid_point (tv_sign v) (tr_prev_pubkey r) then Inl RV_InvalidPrevPubkey
      else res_bind (ok_or (canonical_rotation_bytes v r) RV_CanonicalEncodingFailed) (\<lambda>signed_bytes.
        if gc_verify (tv_sign v) (tr_prev_pubkey r) signed_bytes (tr_signature r) then Inr ()
        else Inl RV_BadSignature))"

definition sign_rotation ::
  "trust_env \<Rightarrow> peer_keypair \<Rightarrow> uuid \<Rightarrow> byte list \<Rightarrow> u64 \<Rightarrow> u64 \<Rightarrow> trust_rotation option" where
  "sign_rotation v prev_keypair peer_id next_pubkey sequence rotated_at_ms =
     (let rotation = \<lparr> tr_peer_id = peer_id, tr_prev_pubkey = public_bytes (tv_sign v) prev_keypair,
            tr_next_pubkey = next_pubkey, tr_sequence = sequence, tr_rotated_at_ms = rotated_at_ms,
            tr_signature = replicate 64 0 \<rparr>
      in map_option (\<lambda>bytes. rotation\<lparr> tr_signature := sign_bytes (tv_sign v) prev_keypair bytes \<rparr>)
           (canonical_rotation_bytes v rotation))"

section \<open>Tiers and rows\<close>

datatype trust_tier = TT_OwnMachine | TT_OwnAccount | TT_Friend | TT_Untrusted

fun tier_as_wire_str :: "trust_tier \<Rightarrow> string" where
  "tier_as_wire_str TT_OwnMachine = ''own_machine''"
| "tier_as_wire_str TT_OwnAccount = ''own_account''"
| "tier_as_wire_str TT_Friend = ''friend''"
| "tier_as_wire_str TT_Untrusted = ''untrusted''"

definition tier_from_wire_str :: "string \<Rightarrow> trust_tier option" where
  "tier_from_wire_str s =
     (if s = ''own_machine'' then Some TT_OwnMachine
      else if s = ''own_account'' then Some TT_OwnAccount
      else if s = ''friend'' then Some TT_Friend
      else if s = ''untrusted'' then Some TT_Untrusted
      else None)"

definition default_for_new_peer :: trust_tier where
  "default_for_new_peer = TT_Untrusted"

record stored_peer =
  sp_peer_id :: uuid
  sp_pubkey_b64 :: string
  sp_added_at_ms :: u64
  sp_tier :: trust_tier
  sp_endpoints_json :: "string option"
  sp_last_seen_ms :: u64
  sp_endpoints_advertised_at_ms :: u64
  sp_endpoints_peer_id :: "uuid option"

record rotation_audit_entry =
  ra_peer_id :: uuid
  ra_prev_pubkey_b64 :: string
  ra_next_pubkey_b64 :: string
  ra_sequence :: u64
  ra_rotated_at_ms :: u64
  ra_applied_at_ms :: u64

record peer_trust_row =
  pt_pubkey_b64 :: string
  pt_added_at_ms :: int
  pt_tier :: string
  pt_endpoints_json :: "string option"
  pt_last_seen_ms :: "int option"
  pt_endpoints_advertised_at_ms :: "int option"
  pt_endpoints_peer_id :: "uuid option"

record audit_row =
  ar_prev_pubkey_b64 :: string
  ar_next_pubkey_b64 :: string
  ar_rotated_at_ms :: int
  ar_applied_at_ms :: int

record trust_db =
  db_peers :: "(uuid, peer_trust_row) btree"
  db_audit :: "(uuid \<times> int, audit_row) btree"

definition stored_last_seen_ms :: "int option \<Rightarrow> u64 \<Rightarrow> store_error + u64" where
  "stored_last_seen_ms column added_at_ms =
     (case column of Some value \<Rightarrow> i64_to_u64 ''peer_trust.last_seen_ms'' value | None \<Rightarrow> Inr added_at_ms)"

definition stored_endpoints_stamp_ms :: "int option \<Rightarrow> store_error + u64" where
  "stored_endpoints_stamp_ms column =
     (case column of
        Some value \<Rightarrow> i64_to_u64 ''peer_trust.endpoints_advertised_at_ms'' value
      | None \<Rightarrow> Inr 0)"

definition stored_tier :: "peer_trust_row \<Rightarrow> store_error + trust_tier" where
  "stored_tier row = ok_or (tier_from_wire_str (pt_tier row)) (ST_InvalidStoredEnumString ''peer_trust.tier'' (pt_tier row))"

definition pubkey_bytes :: "trust_env \<Rightarrow> stored_peer \<Rightarrow> store_error + byte list" where
  "pubkey_bytes v p =
     res_bind (ok_or (tv_b64_decode v (sp_pubkey_b64 p)) ST_Base64) (\<lambda>bytes.
       if length bytes \<noteq> 32 then Inl (ST_WrongPubkeyLength (length bytes)) else Inr bytes)"

text \<open>The struct every reader builds from a row.\<close>

definition stored_of_row :: "uuid \<Rightarrow> peer_trust_row \<Rightarrow> store_error + stored_peer" where
  "stored_of_row peer_id row =
     res_bind (stored_tier row) (\<lambda>tier.
     res_bind (i64_to_u64 ''peer_trust.added_at_ms'' (pt_added_at_ms row)) (\<lambda>added_at_ms.
     res_bind (stored_last_seen_ms (pt_last_seen_ms row) added_at_ms) (\<lambda>last_seen.
     res_bind (stored_endpoints_stamp_ms (pt_endpoints_advertised_at_ms row)) (\<lambda>stamp.
       Inr \<lparr> sp_peer_id = peer_id, sp_pubkey_b64 = pt_pubkey_b64 row, sp_added_at_ms = added_at_ms,
             sp_tier = tier, sp_endpoints_json = pt_endpoints_json row, sp_last_seen_ms = last_seen,
             sp_endpoints_advertised_at_ms = stamp, sp_endpoints_peer_id = pt_endpoints_peer_id row \<rparr>))))"

definition load_peers :: "trust_db \<Rightarrow> store_error + stored_peer list" where
  "load_peers db =
     collect_results (\<lambda>(peer_id, row). stored_of_row peer_id row)
       (sort_key (\<lambda>(peer_id, row). (pt_added_at_ms row, peer_id)) (db_peers db))"

section \<open>Writes\<close>

definition add_peer_trust_with_tier ::
  "store_error + unit \<Rightarrow> trust_db \<Rightarrow> uuid \<Rightarrow> string \<Rightarrow> u64 \<Rightarrow> trust_tier \<Rightarrow>
     trust_db \<times> (store_error + stored_peer)" where
  "add_peer_trust_with_tier gate db peer_id pubkey_b64 added_at_ms tier =
     (case res_bind gate (\<lambda>_. u64_to_i64 ''peer_trust.added_at_ms'' added_at_ms) of
        Inl e \<Rightarrow> (db, Inl e)
      | Inr added \<Rightarrow>
          let db' =
            (case map_of (db_peers db) peer_id of
               Some _ \<Rightarrow> db
             | None \<Rightarrow> db\<lparr> db_peers := bt_insert peer_id
                 \<lparr> pt_pubkey_b64 = pubkey_b64, pt_added_at_ms = added, pt_tier = tier_as_wire_str tier,
                   pt_endpoints_json = None, pt_last_seen_ms = Some added,
                   pt_endpoints_advertised_at_ms = None, pt_endpoints_peer_id = None \<rparr> (db_peers db) \<rparr>)
          in (db',
              (case map_of (db_peers db') peer_id of
                 None \<Rightarrow> Inl ST_Database
               | Some stored \<Rightarrow>
                   if pt_pubkey_b64 stored \<noteq> pubkey_b64
                   then Inl (ST_PeerPubkeyConflict peer_id (pt_pubkey_b64 stored) pubkey_b64)
                   else stored_of_row peer_id stored)))"

definition add_peer_trust ::
  "store_error + unit \<Rightarrow> trust_db \<Rightarrow> uuid \<Rightarrow> string \<Rightarrow> u64 \<Rightarrow> trust_db \<times> (store_error + stored_peer)" where
  "add_peer_trust gate db peer_id pubkey_b64 added_at_ms =
     (case gate of
        Inl e \<Rightarrow> (db, Inl e)
      | Inr _ \<Rightarrow> add_peer_trust_with_tier gate db peer_id pubkey_b64 added_at_ms default_for_new_peer)"

definition replace_peer_trust ::
  "store_error + unit \<Rightarrow> trust_db \<Rightarrow> uuid \<Rightarrow> string \<Rightarrow> u64 \<Rightarrow> trust_db \<times> (store_error + stored_peer)" where
  "replace_peer_trust gate db peer_id pubkey_b64 added_at_ms =
     (let existing = map_of (db_peers db) peer_id;
          existing_tier = (case Option.bind existing (\<lambda>row. tier_from_wire_str (pt_tier row)) of
                             Some t \<Rightarrow> t | None \<Rightarrow> default_for_new_peer);
          existing_endpoints = Option.bind existing pt_endpoints_json;
          existing_last_seen = Option.bind existing pt_last_seen_ms;
          existing_stamp = Option.bind existing pt_endpoints_advertised_at_ms;
          existing_endpoints_peer = Option.bind existing pt_endpoints_peer_id
      in case res_bind gate (\<lambda>_. u64_to_i64 ''peer_trust.added_at_ms'' added_at_ms) of
           Inl e \<Rightarrow> (db, Inl e)
         | Inr added \<Rightarrow>
             let row = (case existing of
                   Some old \<Rightarrow> old\<lparr> pt_pubkey_b64 := pubkey_b64, pt_added_at_ms := added \<rparr>
                 | None \<Rightarrow> \<lparr> pt_pubkey_b64 = pubkey_b64, pt_added_at_ms = added,
                     pt_tier = tier_as_wire_str existing_tier, pt_endpoints_json = existing_endpoints,
                     pt_last_seen_ms = Some (case existing_last_seen of Some value \<Rightarrow> value | None \<Rightarrow> added),
                     pt_endpoints_advertised_at_ms = existing_stamp,
                     pt_endpoints_peer_id = existing_endpoints_peer \<rparr>)
             in (db\<lparr> db_peers := bt_insert peer_id row (db_peers db) \<rparr>,
                 res_bind (stored_last_seen_ms existing_last_seen added_at_ms) (\<lambda>last_seen.
                 res_bind (stored_endpoints_stamp_ms existing_stamp) (\<lambda>stamp.
                   Inr \<lparr> sp_peer_id = peer_id, sp_pubkey_b64 = pubkey_b64, sp_added_at_ms = added_at_ms,
                         sp_tier = existing_tier, sp_endpoints_json = existing_endpoints,
                         sp_last_seen_ms = last_seen, sp_endpoints_advertised_at_ms = stamp,
                         sp_endpoints_peer_id = existing_endpoints_peer \<rparr>))))"

definition remove_peer_trust ::
  "store_error + unit \<Rightarrow> trust_db \<Rightarrow> uuid \<Rightarrow> trust_db \<times> (store_error + stored_peer option)" where
  "remove_peer_trust gate db peer_id =
     (case gate of
        Inl e \<Rightarrow> (db, Inl e)
      | Inr _ \<Rightarrow>
          (case map_of (db_peers db) peer_id of
             None \<Rightarrow> (db, Inr None)
           | Some stored \<Rightarrow>
               (db\<lparr> db_peers := bt_remove peer_id (db_peers db) \<rparr>,
                res_bind (stored_of_row peer_id stored) (\<lambda>p. Inr (Some p)))))"

definition set_peer_trust_tier ::
  "store_error + unit \<Rightarrow> trust_db \<Rightarrow> uuid \<Rightarrow> trust_tier \<Rightarrow> trust_db \<times> (store_error + stored_peer option)" where
  "set_peer_trust_tier gate db peer_id tier =
     (case gate of
        Inl e \<Rightarrow> (db, Inl e)
      | Inr _ \<Rightarrow>
          (case map_of (db_peers db) peer_id of
             None \<Rightarrow> (db, Inr None)
           | Some existing \<Rightarrow>
               let row = existing\<lparr> pt_tier := tier_as_wire_str tier \<rparr> in
               (db\<lparr> db_peers := bt_insert peer_id row (db_peers db) \<rparr>,
                res_bind (stored_of_row peer_id row) (\<lambda>p. Inr (Some p)))))"

definition set_peer_trust_endpoints ::
  "store_error + unit \<Rightarrow> trust_db \<Rightarrow> uuid \<Rightarrow> string option \<Rightarrow> u64 \<Rightarrow> uuid option \<Rightarrow>
     trust_db \<times> (store_error + stored_peer option)" where
  "set_peer_trust_endpoints gate db peer_id endpoints_json advertised_at_ms endpoints_peer_id =
     (case gate of
        Inl e \<Rightarrow> (db, Inl e)
      | Inr _ \<Rightarrow>
          (case map_of (db_peers db) peer_id of
             None \<Rightarrow> (db, Inr None)
           | Some existing \<Rightarrow>
               (case res_bind (stored_tier existing) (\<lambda>_.
                     res_bind (i64_to_u64 ''peer_trust.added_at_ms'' (pt_added_at_ms existing)) (\<lambda>_.
                       stored_endpoints_stamp_ms (pt_endpoints_advertised_at_ms existing))) of
                  Inl e \<Rightarrow> (db, Inl e)
                | Inr stored_stamp \<Rightarrow>
                    if advertised_at_ms < stored_stamp
                    then (db, res_bind (stored_of_row peer_id existing) (\<lambda>p. Inr (Some p)))
                    else
                      (case u64_to_i64 ''peer_trust.endpoints_advertised_at_ms'' advertised_at_ms of
                         Inl e \<Rightarrow> (db, Inl e)
                       | Inr stamp \<Rightarrow>
                           let row = existing\<lparr> pt_endpoints_json := endpoints_json,
                                 pt_endpoints_advertised_at_ms := Some stamp,
                                 pt_endpoints_peer_id := endpoints_peer_id \<rparr>
                           in (db\<lparr> db_peers := bt_insert peer_id row (db_peers db) \<rparr>,
                               res_bind (stored_of_row peer_id row) (\<lambda>p. Inr (Some p)))))))"

definition touch_peer_last_seen ::
  "store_error + unit \<Rightarrow> trust_db \<Rightarrow> uuid \<Rightarrow> u64 \<Rightarrow> trust_db \<times> (store_error + stored_peer option)" where
  "touch_peer_last_seen gate db peer_id seen_at_ms =
     (case gate of
        Inl e \<Rightarrow> (db, Inl e)
      | Inr _ \<Rightarrow>
          (case map_of (db_peers db) peer_id of
             None \<Rightarrow> (db, Inr None)
           | Some existing \<Rightarrow>
               (case res_bind (stored_tier existing) (\<lambda>_.
                     res_bind (i64_to_u64 ''peer_trust.added_at_ms'' (pt_added_at_ms existing)) (\<lambda>added_at_ms.
                       stored_last_seen_ms (pt_last_seen_ms existing) added_at_ms)) of
                  Inl e \<Rightarrow> (db, Inl e)
                | Inr current \<Rightarrow>
                    let next = max current seen_at_ms in
                    if next = current
                    then (db, res_bind (stored_of_row peer_id existing) (\<lambda>p. Inr (Some p)))
                    else
                      (case u64_to_i64 ''peer_trust.last_seen_ms'' next of
                         Inl e \<Rightarrow> (db, Inl e)
                       | Inr seen \<Rightarrow>
                           let row = existing\<lparr> pt_last_seen_ms := Some seen \<rparr> in
                           (db\<lparr> db_peers := bt_insert peer_id row (db_peers db) \<rparr>,
                            res_bind (stored_of_row peer_id row) (\<lambda>p. Inr (Some p)))))))"

text \<open>The audit table's primary key is the peer and the sequence: a second row is refused.\<close>

definition append_peer_rotation_audit ::
  "store_error + unit \<Rightarrow> trust_db \<Rightarrow> rotation_audit_entry \<Rightarrow> trust_db \<times> (store_error + unit)" where
  "append_peer_rotation_audit gate db entry =
     (case res_bind gate (\<lambda>_.
           res_bind (u64_to_i64 ''peer_rotation_audit.sequence'' (ra_sequence entry)) (\<lambda>sequence.
           res_bind (u64_to_i64 ''peer_rotation_audit.rotated_at_ms'' (ra_rotated_at_ms entry)) (\<lambda>rotated.
           res_bind (u64_to_i64 ''peer_rotation_audit.applied_at_ms'' (ra_applied_at_ms entry)) (\<lambda>applied.
             Inr (sequence, \<lparr> ar_prev_pubkey_b64 = ra_prev_pubkey_b64 entry,
                     ar_next_pubkey_b64 = ra_next_pubkey_b64 entry, ar_rotated_at_ms = rotated,
                     ar_applied_at_ms = applied \<rparr>))))) of
        Inl e \<Rightarrow> (db, Inl e)
      | Inr (sequence, row) \<Rightarrow>
          (case map_of (db_audit db) (ra_peer_id entry, sequence) of
             Some _ \<Rightarrow> (db, Inl ST_Database)
           | None \<Rightarrow> (db\<lparr> db_audit := bt_insert (ra_peer_id entry, sequence) row (db_audit db) \<rparr>, Inr ())))"

definition peer_rotation_audit :: "trust_db \<Rightarrow> uuid \<Rightarrow> store_error + rotation_audit_entry list" where
  "peer_rotation_audit db peer_id =
     collect_results (\<lambda>((peer, sequence), row).
         res_bind (i64_to_u64 ''peer_rotation_audit.sequence'' sequence) (\<lambda>seqno.
         res_bind (i64_to_u64 ''peer_rotation_audit.rotated_at_ms'' (ar_rotated_at_ms row)) (\<lambda>rotated.
         res_bind (i64_to_u64 ''peer_rotation_audit.applied_at_ms'' (ar_applied_at_ms row)) (\<lambda>applied.
           Inr \<lparr> ra_peer_id = peer, ra_prev_pubkey_b64 = ar_prev_pubkey_b64 row,
                 ra_next_pubkey_b64 = ar_next_pubkey_b64 row, ra_sequence = seqno,
                 ra_rotated_at_ms = rotated, ra_applied_at_ms = applied \<rparr>))))
       (filter (\<lambda>((peer, _), _). peer = peer_id) (db_audit db))"

end
