(* ===== verification/Trust_Registry.thy ===== *)
theory Trust_Registry
  imports Trust_Store
begin

text \<open>
  The trust registry (\<open>airc-trust/src/lib.rs\<close>) over the tables of \<open>Trust_Store\<close>: enrolment
  on first use, tiers, signed rotation with its audit log. A reading of the clock is an
  argument that is \<open>None\<close> when the clock is before the epoch. A rotation writes twice, each
  write with its own admission.
\<close>

datatype peers_store_error =
    PE_Store store_error
  | PE_Clock
  | PE_WrongPubkeyLength nat
  | PE_Base64
  | PE_PubkeyConflict uuid string string
  | PE_RotationVerification rotation_verification_error
  | PE_PrevPubkeyMismatch uuid string string
  | PE_SequenceNotMonotonic uuid u64 u64
  | PE_UnknownPeer uuid

fun from_store_error :: "store_error \<Rightarrow> peers_store_error" where
  "from_store_error (ST_PeerPubkeyConflict p stored attempted) = PE_PubkeyConflict p stored attempted"
| "from_store_error (ST_WrongPubkeyLength got) = PE_WrongPubkeyLength got"
| "from_store_error ST_Base64 = PE_Base64"
| "from_store_error e = PE_Store e"

definition lift_store :: "store_error + 'a \<Rightarrow> peers_store_error + 'a" where
  "lift_store r = (case r of Inl e \<Rightarrow> Inl (from_store_error e) | Inr a \<Rightarrow> Inr a)"

definition registry_add ::
  "trust_env \<Rightarrow> store_error + unit \<Rightarrow> u64 option \<Rightarrow> trust_db \<Rightarrow> uuid \<Rightarrow> byte list \<Rightarrow>
     trust_db \<times> (peers_store_error + stored_peer)" where
  "registry_add v gate now db peer_id pubkey =
     (case now of
        None \<Rightarrow> (db, Inl PE_Clock)
      | Some t \<Rightarrow>
          let (db', r) = add_peer_trust gate db peer_id (tv_b64 v pubkey) t in (db', lift_store r))"

definition set_tier ::
  "store_error + unit \<Rightarrow> trust_db \<Rightarrow> uuid \<Rightarrow> trust_tier \<Rightarrow>
     trust_db \<times> (peers_store_error + stored_peer option)" where
  "set_tier gate db peer_id tier =
     (let (db', r) = set_peer_trust_tier gate db peer_id tier in (db', lift_store r))"

definition set_endpoints_json ::
  "store_error + unit \<Rightarrow> trust_db \<Rightarrow> uuid \<Rightarrow> string option \<Rightarrow> u64 \<Rightarrow> uuid option \<Rightarrow>
     trust_db \<times> (peers_store_error + stored_peer option)" where
  "set_endpoints_json gate db peer_id endpoints_json advertised_at_ms endpoints_peer_id =
     (let (db', r) = set_peer_trust_endpoints gate db peer_id endpoints_json advertised_at_ms endpoints_peer_id
      in (db', lift_store r))"

definition touch_last_seen ::
  "store_error + unit \<Rightarrow> trust_db \<Rightarrow> uuid \<Rightarrow> u64 \<Rightarrow> trust_db \<times> (peers_store_error + stored_peer option)" where
  "touch_last_seen gate db peer_id seen_at_ms =
     (let (db', r) = touch_peer_last_seen gate db peer_id seen_at_ms in (db', lift_store r))"

definition detect_tier ::
  "uuid \<Rightarrow> string option \<Rightarrow> uuid \<Rightarrow> string option \<Rightarrow> bool \<Rightarrow> trust_tier" where
  "detect_tier self_peer_id self_mesh peer_id peer_mesh peer_is_on_this_machine =
     (if peer_id = self_peer_id then TT_OwnMachine
      else if peer_is_on_this_machine then TT_OwnMachine
      else
        case (self_mesh, peer_mesh) of
          (Some a, Some b) \<Rightarrow> if a \<noteq> '''' \<and> a = b then TT_OwnAccount else TT_Untrusted
        | _ \<Rightarrow> TT_Untrusted)"

definition registry_remove ::
  "store_error + unit \<Rightarrow> trust_db \<Rightarrow> uuid \<Rightarrow> trust_db \<times> (peers_store_error + stored_peer option)" where
  "registry_remove gate db peer_id =
     (let (db', r) = remove_peer_trust gate db peer_id in (db', lift_store r))"

definition last_applied_sequence :: "trust_db \<Rightarrow> uuid \<Rightarrow> peers_store_error + u64" where
  "last_applied_sequence db peer_id =
     res_bind (lift_store (peer_rotation_audit db peer_id)) (\<lambda>es. Inr (fold max (map ra_sequence es) 0))"

definition audit_log :: "trust_db \<Rightarrow> uuid \<Rightarrow> peers_store_error + rotation_audit_entry list" where
  "audit_log db peer_id = lift_store (peer_rotation_audit db peer_id)"

text \<open>The checks of a rotation, up to the reading of the clock.\<close>

definition rotation_admissible ::
  "trust_env \<Rightarrow> u64 option \<Rightarrow> trust_db \<Rightarrow> trust_rotation \<Rightarrow> peers_store_error + u64" where
  "rotation_admissible v now db rotation =
     (case verify_rotation v rotation of
        Inl e \<Rightarrow> Inl (PE_RotationVerification e)
      | Inr _ \<Rightarrow>
          res_bind (lift_store (load_peers db)) (\<lambda>peers.
          res_bind (ok_or (find (\<lambda>p. sp_peer_id p = tr_peer_id rotation) peers)
                      (PE_UnknownPeer (tr_peer_id rotation))) (\<lambda>stored.
          if sp_pubkey_b64 stored \<noteq> tv_b64 v (tr_prev_pubkey rotation)
          then Inl (PE_PrevPubkeyMismatch (tr_peer_id rotation) (sp_pubkey_b64 stored)
                      (tv_b64 v (tr_prev_pubkey rotation)))
          else
            res_bind (last_applied_sequence db (tr_peer_id rotation)) (\<lambda>last_seq.
            if tr_sequence rotation \<le> last_seq
            then Inl (PE_SequenceNotMonotonic (tr_peer_id rotation) last_seq (tr_sequence rotation))
            else ok_or now PE_Clock))))"

definition rotate_peer ::
  "trust_env \<Rightarrow> store_error + unit \<Rightarrow> store_error + unit \<Rightarrow> u64 option \<Rightarrow> trust_db \<Rightarrow> trust_rotation \<Rightarrow>
     trust_db \<times> (peers_store_error + stored_peer)" where
  "rotate_peer v gate1 gate2 now db rotation =
     (case rotation_admissible v now db rotation of
        Inl e \<Rightarrow> (db, Inl e)
      | Inr applied_at_ms \<Rightarrow>
          let (db1, r1) = append_peer_rotation_audit gate1 db
                \<lparr> ra_peer_id = tr_peer_id rotation,
                  ra_prev_pubkey_b64 = tv_b64 v (tr_prev_pubkey rotation),
                  ra_next_pubkey_b64 = tv_b64 v (tr_next_pubkey rotation),
                  ra_sequence = tr_sequence rotation, ra_rotated_at_ms = tr_rotated_at_ms rotation,
                  ra_applied_at_ms = applied_at_ms \<rparr>
          in case r1 of
               Inl e \<Rightarrow> (db1, Inl (from_store_error e))
             | Inr _ \<Rightarrow>
                 let (db2, r2) = replace_peer_trust gate2 db1 (tr_peer_id rotation)
                       (tv_b64 v (tr_next_pubkey rotation)) applied_at_ms
                 in (db2, lift_store r2))"

section \<open>Well-formed tables\<close>

text \<open>What every write leaves behind: sorted keys, columns that convert back.\<close>

definition row_ok :: "peer_trust_row \<Rightarrow> bool" where
  "row_ok row \<longleftrightarrow> tier_from_wire_str (pt_tier row) \<noteq> None \<and>
     0 \<le> pt_added_at_ms row \<and> pt_added_at_ms row < 2 ^ 63 \<and>
     (\<forall>t. pt_last_seen_ms row = Some t \<longrightarrow> 0 \<le> t \<and> t < 2 ^ 63) \<and>
     (\<forall>t. pt_endpoints_advertised_at_ms row = Some t \<longrightarrow> 0 \<le> t \<and> t < 2 ^ 63)"

definition audit_ok :: "uuid \<times> int \<Rightarrow> audit_row \<Rightarrow> bool" where
  "audit_ok k row \<longleftrightarrow> 0 \<le> snd k \<and> snd k < 2 ^ 63 \<and> 0 \<le> ar_rotated_at_ms row \<and> 0 \<le> ar_applied_at_ms row"

definition trust_db_ok :: "trust_db \<Rightarrow> bool" where
  "trust_db_ok db \<longleftrightarrow> keyed (\<lambda>_. row_ok) (db_peers db) \<and> keyed audit_ok (db_audit db)"

lemma tier_round_trip [simp]: "tier_from_wire_str (tier_as_wire_str t) = Some t"
  by (cases t) (simp_all add: tier_from_wire_str_def)

lemma stored_of_row_ok:
  assumes "row_ok row"
  shows "\<exists>p. stored_of_row peer row = Inr p \<and> sp_peer_id p = peer \<and> sp_pubkey_b64 p = pt_pubkey_b64 row"
proof -
  let ?added = "word_of_int (pt_added_at_ms row) :: u64"
  obtain t where "tier_from_wire_str (pt_tier row) = Some t"
    using assms by (auto simp: row_ok_def)
  moreover have "\<exists>s. stored_last_seen_ms (pt_last_seen_ms row) ?added = Inr s"
    using assms by (auto simp: row_ok_def stored_last_seen_ms_def i64_to_u64_Ok split: option.split)
  then obtain s where "stored_last_seen_ms (pt_last_seen_ms row) ?added = Inr s" ..
  moreover have "\<exists>s. stored_endpoints_stamp_ms (pt_endpoints_advertised_at_ms row) = Inr s"
    using assms by (auto simp: row_ok_def stored_endpoints_stamp_ms_def i64_to_u64_Ok split: option.split)
  then obtain e where "stored_endpoints_stamp_ms (pt_endpoints_advertised_at_ms row) = Inr e" ..
  ultimately show ?thesis
    using assms by (simp add: stored_of_row_def stored_tier_def row_ok_def i64_to_u64_Ok)
qed

lemma load_peers_find:
  assumes ok: "trust_db_ok db"
  shows "\<exists>peers. load_peers db = Inr peers \<and>
    map_option sp_pubkey_b64 (find (\<lambda>p. sp_peer_id p = peer) peers) =
      map_option pt_pubkey_b64 (map_of (db_peers db) peer)"
proof -
  let ?rows = "sort_key (\<lambda>(peer_id, row). (pt_added_at_ms row, peer_id)) (db_peers db)"
  let ?f = "\<lambda>(peer_id, row). stored_of_row peer_id row"
  have wf: "bt_wf (db_peers db)"
    using ok by (simp add: trust_db_ok_def keyed_def)
  then have rows: "\<And>k r. (k, r) \<in> set (db_peers db) \<Longrightarrow> row_ok r"
    using ok by (simp add: trust_db_ok_def keyed_def bt_wf_in_set)
  have f: "\<exists>p. ?f e = Inr p \<and> sp_peer_id p = fst e \<and> sp_pubkey_b64 p = pt_pubkey_b64 (snd e)"
    if "e \<in> set ?rows" for e
    using that rows [of "fst e" "snd e"] stored_of_row_ok [of "snd e" "fst e"] by (simp add: split_beta)
  then have load: "load_peers db = Inr (map (\<lambda>e. projr (?f e)) ?rows)"
    unfolding load_peers_def by (intro collect_results_Ok) blast
  have dist: "distinct (map fst ?rows)"
    using bt_wf_distinct [OF wf] by (simp add: distinct_map)
  have map: "map_of ?rows = map_of (db_peers db)"
    using bt_wf_distinct [OF wf] dist by (intro map_of_inject_set [THEN iffD2]) simp_all
  have "map_option sp_pubkey_b64 (find (\<lambda>p. sp_peer_id p = peer) (map (\<lambda>e. projr (?f e)) es)) =
      map_option pt_pubkey_b64 (map_of es peer)" if "set es \<subseteq> set ?rows" for es
    using that
  proof (induction es)
    case (Cons e es)
    then obtain p where "?f e = Inr p" "sp_peer_id p = fst e" "sp_pubkey_b64 p = pt_pubkey_b64 (snd e)"
      using f [of e] by auto
    then show ?case
      using Cons by (auto simp: split_beta)
  qed simp
  then show ?thesis
    using load map by (metis subset_refl)
qed

section \<open>Runs of the registry\<close>

datatype trust_call =
    TC_Add "store_error + unit" "u64 option" uuid "byte list"
  | TC_Tier "store_error + unit" uuid trust_tier
  | TC_Endpoints "store_error + unit" uuid "string option" u64 "uuid option"
  | TC_Touch "store_error + unit" uuid u64
  | TC_Remove "store_error + unit" uuid
  | TC_Rotate "store_error + unit" "store_error + unit" "u64 option" trust_rotation

fun trust_step :: "trust_env \<Rightarrow> trust_db \<Rightarrow> trust_call \<Rightarrow> trust_db" where
  "trust_step v db (TC_Add gate now p k) = fst (registry_add v gate now db p k)"
| "trust_step v db (TC_Tier gate p t) = fst (set_tier gate db p t)"
| "trust_step v db (TC_Endpoints gate p j t h) = fst (set_endpoints_json gate db p j t h)"
| "trust_step v db (TC_Touch gate p t) = fst (touch_last_seen gate db p t)"
| "trust_step v db (TC_Remove gate p) = fst (registry_remove gate db p)"
| "trust_step v db (TC_Rotate gate1 gate2 now r) = fst (rotate_peer v gate1 gate2 now db r)"

abbreviation trust_run :: "trust_env \<Rightarrow> trust_db \<Rightarrow> trust_call list \<Rightarrow> trust_db" where
  "trust_run v \<equiv> foldl (trust_step v)"

definition trust_db_empty :: trust_db where
  "trust_db_empty = \<lparr> db_peers = [], db_audit = [] \<rparr>"

lemma trust_db_empty_ok: "trust_db_ok trust_db_empty"
  by (simp add: trust_db_ok_def trust_db_empty_def)

lemma put_row_ok: "trust_db_ok db \<Longrightarrow> row_ok row \<Longrightarrow> trust_db_ok (db\<lparr> db_peers := bt_insert p row (db_peers db) \<rparr>)"
  by (simp add: trust_db_ok_def keyed_insert)

lemma row_lookup_ok: "trust_db_ok db \<Longrightarrow> map_of (db_peers db) p = Some row \<Longrightarrow> row_ok row"
  by (auto simp: trust_db_ok_def dest: keyedD)

text \<open>What each write does to the two tables: the audit table grows by rotations only, and a
  row of the peer table that stays keeps its key text except under a replacement.\<close>

lemma add_effect:
  assumes "trust_db_ok db"
  shows "trust_db_ok (fst (registry_add v gate now db p k))"
    and "db_audit (fst (registry_add v gate now db p k)) = db_audit db"
    and "map_of (db_peers db) q = Some row \<Longrightarrow>
      map_of (db_peers (fst (registry_add v gate now db p k))) q = Some row"
  using assms
  by (auto simp: registry_add_def add_peer_trust_def add_peer_trust_with_tier_def Let_def split_beta
      u64_to_i64_Ok res_bind_eq_Inr row_ok_def intro!: put_row_ok split: option.splits sum.splits)

lemma tier_effect:
  assumes "trust_db_ok db"
  shows "trust_db_ok (fst (set_tier gate db p t))"
    and "db_audit (fst (set_tier gate db p t)) = db_audit db"
    and "map_option pt_pubkey_b64 (map_of (db_peers (fst (set_tier gate db p t))) q) =
      map_option pt_pubkey_b64 (map_of (db_peers db) q)"
  using assms row_lookup_ok [OF assms]
  by (auto simp: set_tier_def set_peer_trust_tier_def Let_def split_beta row_ok_def
      intro!: put_row_ok split: option.splits sum.splits)

lemma endpoints_effect:
  assumes "trust_db_ok db"
  shows "trust_db_ok (fst (set_endpoints_json gate db p j t h))"
    and "db_audit (fst (set_endpoints_json gate db p j t h)) = db_audit db"
    and "map_option pt_pubkey_b64 (map_of (db_peers (fst (set_endpoints_json gate db p j t h))) q) =
      map_option pt_pubkey_b64 (map_of (db_peers db) q)"
  using assms row_lookup_ok [OF assms]
  by (auto simp: set_endpoints_json_def set_peer_trust_endpoints_def Let_def split_beta row_ok_def
      u64_to_i64_Ok intro!: put_row_ok split: option.splits sum.splits if_splits)

lemma touch_effect:
  assumes "trust_db_ok db"
  shows "trust_db_ok (fst (touch_last_seen gate db p t))"
    and "db_audit (fst (touch_last_seen gate db p t)) = db_audit db"
    and "map_option pt_pubkey_b64 (map_of (db_peers (fst (touch_last_seen gate db p t))) q) =
      map_option pt_pubkey_b64 (map_of (db_peers db) q)"
  using assms row_lookup_ok [OF assms]
  by (auto simp: touch_last_seen_def touch_peer_last_seen_def Let_def split_beta row_ok_def
      u64_to_i64_Ok intro!: put_row_ok split: option.splits sum.splits if_splits)

lemma remove_effect:
  assumes "trust_db_ok db"
  shows "trust_db_ok (fst (registry_remove gate db p))"
    and "db_audit (fst (registry_remove gate db p)) = db_audit db"
    and "map_of (db_peers (fst (registry_remove gate db p))) q = Some row \<Longrightarrow>
      map_of (db_peers db) q = Some row"
  using assms
  by (auto simp: registry_remove_def remove_peer_trust_def Let_def split_beta trust_db_ok_def keyed_remove
      split: option.splits sum.splits if_splits)

section \<open>The effect of a rotation\<close>

lemma fold_max_ge: "n \<in> set ns \<or> n \<le> a \<Longrightarrow> n \<le> fold max ns a" for n a :: "'a::linorder"
proof (induction ns arbitrary: a)
  case (Cons m ns)
  then have "n \<in> set ns \<or> n \<le> max m a"
    by (auto simp: le_max_iff_disj)
  then show ?case
    using Cons.IH by simp
qed simp

lemma uint_of_i64: "0 \<le> i \<Longrightarrow> i < 2 ^ 63 \<Longrightarrow> uint (word_of_int i :: u64) = i"
  by (simp add: uint_word_of_int)

lemma last_applied_bound:
  assumes ok: "trust_db_ok db"
  shows "\<exists>n. last_applied_sequence db p = Inr n \<and>
    (\<forall>i row. map_of (db_audit db) (p, i) = Some row \<longrightarrow> i \<le> uint n)"
proof -
  let ?rows = "filter (\<lambda>((peer, _), _). peer = p) (db_audit db)"
  let ?f = "\<lambda>((peer, sequence), row).
      res_bind (i64_to_u64 ''peer_rotation_audit.sequence'' sequence) (\<lambda>seqno.
      res_bind (i64_to_u64 ''peer_rotation_audit.rotated_at_ms'' (ar_rotated_at_ms row)) (\<lambda>rotated.
      res_bind (i64_to_u64 ''peer_rotation_audit.applied_at_ms'' (ar_applied_at_ms row)) (\<lambda>applied.
        Inr \<lparr> ra_peer_id = peer, ra_prev_pubkey_b64 = ar_prev_pubkey_b64 row,
              ra_next_pubkey_b64 = ar_next_pubkey_b64 row, ra_sequence = seqno,
              ra_rotated_at_ms = rotated, ra_applied_at_ms = applied \<rparr>)))"
  have wf: "bt_wf (db_audit db)"
    using ok by (simp add: trust_db_ok_def keyed_def)
  then have rows: "audit_ok (q, i) r" if "((q, i), r) \<in> set (db_audit db)" for q i r
    using ok that by (simp add: trust_db_ok_def keyed_def bt_wf_in_set)
  have f: "\<exists>e. ?f a = Inr e \<and> ra_sequence e = word_of_int (snd (fst a))" if "a \<in> set ?rows" for a
    using that rows [of "fst (fst a)" "snd (fst a)" "snd a"]
    by (auto simp: split_beta audit_ok_def i64_to_u64_Ok)
  have audit: "peer_rotation_audit db p = Inr (map (\<lambda>a. projr (?f a)) ?rows)"
    unfolding peer_rotation_audit_def using f by (intro collect_results_Ok) blast
  define n where "n = fold max (map ra_sequence (map (\<lambda>a. projr (?f a)) ?rows)) (0 :: u64)"
  have "i \<le> uint n" if row: "map_of (db_audit db) (p, i) = Some row" for i row
  proof -
    have a: "((p, i), row) \<in> set ?rows" and iok: "0 \<le> i" "i < 2 ^ 63"
      using row wf rows [of p i row] by (auto simp: bt_wf_in_set audit_ok_def)
    have "word_of_int i \<in> set (map ra_sequence (map (\<lambda>a. projr (?f a)) ?rows))"
      using f [OF a] a by (force simp: image_iff)
    then have "(word_of_int i :: u64) \<le> n"
      unfolding n_def by (intro fold_max_ge disjI1)
    then show ?thesis
      using uint_of_i64 [OF iok] by (simp add: word_le_def)
  qed
  then show ?thesis
    by (auto simp: last_applied_sequence_def audit lift_store_def n_def)
qed

lemma rotation_admissible_Ok:
  assumes ok: "trust_db_ok db" and adm: "rotation_admissible v now db r = Inr t"
  shows "verify_rotation v r = Inr ()" and "now = Some t"
    and "\<exists>row. map_of (db_peers db) (tr_peer_id r) = Some row \<and> pt_pubkey_b64 row = tv_b64 v (tr_prev_pubkey r)"
    and "map_of (db_audit db) (tr_peer_id r, i) = Some arow \<Longrightarrow> i < uint (tr_sequence r)"
proof -
  obtain peers where peers: "load_peers db = Inr peers"
      "map_option sp_pubkey_b64 (find (\<lambda>p. sp_peer_id p = tr_peer_id r) peers) =
        map_option pt_pubkey_b64 (map_of (db_peers db) (tr_peer_id r))"
    using load_peers_find [OF ok] by blast
  obtain n where n: "last_applied_sequence db (tr_peer_id r) = Inr n"
      "\<And>i row. map_of (db_audit db) (tr_peer_id r, i) = Some row \<Longrightarrow> i \<le> uint n"
    using last_applied_bound [OF ok] by blast
  have *: "verify_rotation v r = Inr () \<and> now = Some t \<and> \<not> tr_sequence r \<le> n \<and>
      (\<exists>p. find (\<lambda>p. sp_peer_id p = tr_peer_id r) peers = Some p \<and> sp_pubkey_b64 p = tv_b64 v (tr_prev_pubkey r))"
    using adm peers(1) n(1)
    by (auto simp: rotation_admissible_def lift_store_def res_bind_eq_Inr ok_or_eq_Inr
        split: sum.splits if_splits)
  then show "verify_rotation v r = Inr ()" "now = Some t"
    by simp_all
  show "\<exists>row. map_of (db_peers db) (tr_peer_id r) = Some row \<and> pt_pubkey_b64 row = tv_b64 v (tr_prev_pubkey r)"
    using * peers(2) by (cases "map_of (db_peers db) (tr_peer_id r)") auto
  show "i < uint (tr_sequence r)" if "map_of (db_audit db) (tr_peer_id r, i) = Some arow"
    using n(2) [OF that] * by (simp add: word_le_def)
qed

text \<open>A rotation is refused and changes nothing, or its audit row is written; in that case
  the key is replaced when the second write is admitted, and is as before when it is not.\<close>

lemma rotate_cases:
  assumes ok: "trust_db_ok db"
  obtains (refused) e where "rotate_peer v g1 g2 now db r = (db, Inl e)"
  | (recorded) t arow where "rotation_admissible v now db r = Inr t" "g1 = Inr ()"
      "uint (tr_sequence r) < 2 ^ 63"
      "ar_prev_pubkey_b64 arow = tv_b64 v (tr_prev_pubkey r)" "ar_next_pubkey_b64 arow = tv_b64 v (tr_next_pubkey r)"
      "trust_db_ok (fst (rotate_peer v g1 g2 now db r))"
      "db_audit (fst (rotate_peer v g1 g2 now db r)) =
         bt_insert (tr_peer_id r, uint (tr_sequence r)) arow (db_audit db)"
      "\<And>q. q \<noteq> tr_peer_id r \<Longrightarrow>
         map_of (db_peers (fst (rotate_peer v g1 g2 now db r))) q = map_of (db_peers db) q"
      "if g2 = Inr ()
       then (\<exists>p. snd (rotate_peer v g1 g2 now db r) = Inr p) \<and>
         (\<exists>row. map_of (db_peers (fst (rotate_peer v g1 g2 now db r))) (tr_peer_id r) = Some row \<and>
            pt_pubkey_b64 row = tv_b64 v (tr_next_pubkey r))
       else (\<exists>e. snd (rotate_peer v g1 g2 now db r) = Inl e) \<and>
         db_peers (fst (rotate_peer v g1 g2 now db r)) = db_peers db"
proof (cases "rotation_admissible v now db r")
  case (Inl e)
  then show ?thesis
    by (intro refused [of e]) (simp add: rotate_peer_def)
next
  case (Inr t)
  note adm = rotation_admissible_Ok [OF ok Inr]
  let ?entry = "\<lparr> ra_peer_id = tr_peer_id r, ra_prev_pubkey_b64 = tv_b64 v (tr_prev_pubkey r),
      ra_next_pubkey_b64 = tv_b64 v (tr_next_pubkey r), ra_sequence = tr_sequence r,
      ra_rotated_at_ms = tr_rotated_at_ms r, ra_applied_at_ms = t \<rparr>"
  have rot: "rotate_peer v g1 g2 now db r =
      (let (db1, r1) = append_peer_rotation_audit g1 db ?entry in
       case r1 of Inl e \<Rightarrow> (db1, Inl (from_store_error e))
       | Inr _ \<Rightarrow> let (db2, r2) = replace_peer_trust g2 db1 (tr_peer_id r) (tv_b64 v (tr_next_pubkey r)) t
                  in (db2, lift_store r2))"
    by (simp only: rotate_peer_def Inr sum.case)
  have free: "map_of (db_audit db) (tr_peer_id r, uint (tr_sequence r)) = None"
    using adm(4) [of "uint (tr_sequence r)"] by (cases "map_of (db_audit db) (tr_peer_id r, uint (tr_sequence r))") auto
  show ?thesis
  proof (cases "g1 = Inr () \<and> uint (tr_sequence r) < 2 ^ 63 \<and> uint (tr_rotated_at_ms r) < 2 ^ 63 \<and> uint t < 2 ^ 63")
    case False
    then have "\<exists>e. append_peer_rotation_audit g1 db ?entry = (db, Inl e)"
      by (cases g1) (auto simp: append_peer_rotation_audit_def u64_to_i64_def)
    then obtain e where "append_peer_rotation_audit g1 db ?entry = (db, Inl e)" ..
    then show ?thesis
      by (intro refused [of "from_store_error e"]) (simp add: rot)
  next
    case True
    define arow where "arow = \<lparr> ar_prev_pubkey_b64 = tv_b64 v (tr_prev_pubkey r),
        ar_next_pubkey_b64 = tv_b64 v (tr_next_pubkey r), ar_rotated_at_ms = uint (tr_rotated_at_ms r),
        ar_applied_at_ms = uint t \<rparr>"
    define db1 where "db1 = db\<lparr> db_audit := bt_insert (tr_peer_id r, uint (tr_sequence r)) arow (db_audit db) \<rparr>"
    have app: "append_peer_rotation_audit g1 db ?entry = (db1, Inr ())"
      using True free by (simp add: append_peer_rotation_audit_def u64_to_i64_def db1_def arow_def)
    have ok1: "trust_db_ok db1"
      using ok True by (simp add: trust_db_ok_def db1_def arow_def keyed_insert audit_ok_def)
    obtain row where row: "map_of (db_peers db1) (tr_peer_id r) = Some row" "row_ok row"
      using adm(3) row_lookup_ok [OF ok] by (auto simp: db1_def)
    obtain p where p: "stored_of_row (tr_peer_id r) row = Inr p"
      using stored_of_row_ok [OF row(2)] by blast
    let ?row = "row\<lparr> pt_pubkey_b64 := tv_b64 v (tr_next_pubkey r), pt_added_at_ms := uint t \<rparr>"
    have rep: "fst (replace_peer_trust g2 db1 (tr_peer_id r) (tv_b64 v (tr_next_pubkey r)) t) =
        (if g2 = Inr () then db1\<lparr> db_peers := bt_insert (tr_peer_id r) ?row (db_peers db1) \<rparr> else db1)"
      using True row by (cases g2) (auto simp: replace_peer_trust_def Let_def u64_to_i64_def)
    have out: "if g2 = Inr () then \<exists>p. snd (replace_peer_trust g2 db1 (tr_peer_id r) (tv_b64 v (tr_next_pubkey r)) t) = Inr p
        else \<exists>e. snd (replace_peer_trust g2 db1 (tr_peer_id r) (tv_b64 v (tr_next_pubkey r)) t) = Inl e"
      using True row
      by (cases g2) (auto simp: replace_peer_trust_def Let_def u64_to_i64_def row_ok_def stored_last_seen_ms_def
          stored_endpoints_stamp_ms_def i64_to_u64_Ok split: option.split)
    let ?out = "replace_peer_trust g2 db1 (tr_peer_id r) (tv_b64 v (tr_next_pubkey r)) t"
    have final: "rotate_peer v g1 g2 now db r = (fst ?out, lift_store (snd ?out))"
      by (simp add: rot app split_beta)
    have "row_ok ?row"
      using row(2) True by (simp add: row_ok_def)
    then have ok2: "trust_db_ok (fst ?out)"
      using ok1 by (simp add: rep put_row_ok)
    have audit: "db_audit (fst ?out) = bt_insert (tr_peer_id r, uint (tr_sequence r)) arow (db_audit db)"
      and others: "q \<noteq> tr_peer_id r \<Longrightarrow> map_of (db_peers (fst ?out)) q = map_of (db_peers db) q" for q
      unfolding rep by (simp_all add: db1_def)
    have keys: "if g2 = Inr ()
        then (\<exists>p. lift_store (snd ?out) = Inr p) \<and>
          (\<exists>row. map_of (db_peers (fst ?out)) (tr_peer_id r) = Some row \<and>
             pt_pubkey_b64 row = tv_b64 v (tr_next_pubkey r))
        else (\<exists>e. lift_store (snd ?out) = Inl e) \<and> db_peers (fst ?out) = db_peers db"
    proof (cases "g2 = Inr ()")
      case g2: True
      then show ?thesis
        unfolding rep using out by (auto simp: lift_store_def)
    next
      case g2: False
      then show ?thesis
        unfolding rep using out by (auto simp: lift_store_def db1_def)
    qed
    show ?thesis
      by (rule recorded [of t arow, unfolded final fst_conv snd_conv, OF Inr _ _ _ _ ok2 audit others keys])
        (use True in \<open>simp_all add: arow_def\<close>)
  qed
qed

section \<open>The registry over time\<close>

lemma trust_step_ok:
  assumes "trust_db_ok db"
  shows "trust_db_ok (trust_step v db c)"
proof (cases c)
  case (TC_Rotate g1 g2 now r)
  show ?thesis
    using assms TC_Rotate by (cases rule: rotate_cases [OF assms, of v g1 g2 now r]) simp_all
qed (use assms in \<open>simp_all add: add_effect tier_effect endpoints_effect touch_effect remove_effect\<close>)

lemma trust_run_ok: "trust_db_ok db \<Longrightarrow> trust_db_ok (trust_run v db cs)"
  by (induction cs arbitrary: db) (simp_all add: trust_step_ok)

lemma trust_step_audit:
  assumes "trust_db_ok db" "map_of (db_audit db) k \<noteq> None"
  shows "map_of (db_audit (trust_step v db c)) k \<noteq> None"
proof (cases c)
  case (TC_Rotate g1 g2 now r)
  show ?thesis
    using assms TC_Rotate by (cases rule: rotate_cases [OF assms(1), of v g1 g2 now r]) auto
qed (use assms in \<open>simp_all add: add_effect tier_effect endpoints_effect touch_effect remove_effect\<close>)

lemma trust_run_audit:
  "trust_db_ok db \<Longrightarrow> map_of (db_audit db) k \<noteq> None \<Longrightarrow> map_of (db_audit (trust_run v db cs)) k \<noteq> None"
  by (induction cs arbitrary: db) (simp_all add: trust_step_ok trust_step_audit del: not_None_eq)

lemma rotate_old_sequence:
  assumes "trust_db_ok db" "map_of (db_audit db) (tr_peer_id r, i) \<noteq> None" "uint (tr_sequence r) \<le> i"
  shows "\<exists>e. rotate_peer v g1 g2 now db r = (db, Inl e)"
proof (cases "rotation_admissible v now db r")
  case (Inr t)
  then show ?thesis
    using rotation_admissible_Ok(4) [OF assms(1) Inr, of i] assms(2,3) by auto
qed (simp add: rotate_peer_def)

lemma step_keeps_key:
  assumes ok: "trust_db_ok db"
    and before: "map_of (db_peers db) p = Some row"
    and after: "map_of (db_peers (trust_step v db c)) p = Some row'"
    and other: "\<And>g1 g2 now r. c \<noteq> TC_Rotate g1 g2 now r"
  shows "pt_pubkey_b64 row' = pt_pubkey_b64 row"
proof (cases c)
  case (TC_Add gate now q k)
  then show ?thesis
    using add_effect(3) [OF ok before, of v gate now q k] after by simp
next
  case (TC_Tier gate q t)
  then show ?thesis
    using tier_effect(3) [OF ok, of gate q t p] before after by simp
next
  case (TC_Endpoints gate q j t h)
  then show ?thesis
    using endpoints_effect(3) [OF ok, of gate q j t h p] before after by simp
next
  case (TC_Touch gate q t)
  then show ?thesis
    using touch_effect(3) [OF ok, of gate q t p] before after by simp
next
  case (TC_Remove gate q)
  then show ?thesis
    using remove_effect(3) [OF ok, of gate q p row'] before after by simp
qed (use other in blast)

text \<open>
  C28. The tables are well typed: in every state the registry can reach, the peers load
  without a conversion error, a peer is found with the key of its row exactly when it has
  a row, and the audit log of every peer reads back without an error.
\<close>

theorem stored_tables_decode:
  "\<exists>peers. load_peers (trust_run v trust_db_empty cs) = Inr peers \<and>
     map_option sp_pubkey_b64 (find (\<lambda>q. sp_peer_id q = p) peers) =
       map_option pt_pubkey_b64 (map_of (db_peers (trust_run v trust_db_empty cs)) p) \<and>
     (\<exists>es. audit_log (trust_run v trust_db_empty cs) p = Inr es)"
proof -
  let ?db = "trust_run v trust_db_empty cs"
  have ok: "trust_db_ok ?db"
    by (simp add: trust_run_ok trust_db_empty_ok)
  have "\<exists>es. audit_log ?db p = Inr es"
    using last_applied_bound [OF ok, of p]
    by (auto simp: audit_log_def last_applied_sequence_def lift_store_def split: sum.splits)
  then show ?thesis
    using load_peers_find [OF ok, of p] by blast
qed


text \<open>
  C19. A rotation is applied at most once. After a rotation was recorded, no sequence of
  registry calls, including the removal and a new enrolment of the peer, makes the registry
  take it again or take an older one: it is refused and nothing changes.
\<close>

theorem rotation_replay_refused:
  assumes db: "db = trust_run v trust_db_empty cs"
    and applied: "rotate_peer v g1 g2 now db r = (db1, Inr stored)"
    and db2: "db2 = trust_run v db1 cs'"
    and old: "tr_peer_id r' = tr_peer_id r" "tr_sequence r' \<le> tr_sequence r"
  shows "\<exists>e. rotate_peer v g1' g2' now' db2 r' = (db2, Inl e)"
proof -
  have ok: "trust_db_ok db"
    by (simp add: db trust_run_ok trust_db_empty_ok)
  have rec: "trust_db_ok db1 \<and> map_of (db_audit db1) (tr_peer_id r, uint (tr_sequence r)) \<noteq> None"
    by (cases rule: rotate_cases [OF ok, of v g1 g2 now r]) (use applied in auto)
  then have "map_of (db_audit db2) (tr_peer_id r', uint (tr_sequence r)) \<noteq> None" "trust_db_ok db2"
    using trust_run_audit trust_run_ok by (simp_all add: db2 old(1))
  then show ?thesis
    using rotate_old_sequence old(2) by (simp add: word_le_def)
qed

text \<open>
  C20. A rotation is two writes. When the second one fails at the database, the call fails with the old key still in force but the rotation recorded in
  the audit log, and the same signed rotation can never be applied afterwards, however the
  registry is used: its sequence number counts as used.
\<close>

theorem interrupted_rotation_stuck:
  assumes db: "db = trust_run v trust_db_empty cs"
    and adm: "rotation_admissible v now db r = Inr t" "uint (tr_sequence r) < 2 ^ 63"
      "uint (tr_rotated_at_ms r) < 2 ^ 63" "uint t < 2 ^ 63"
    and cut: "rotate_peer v (Inr ()) (Inl ST_Database) now db r = (db1, res)"
  shows "(\<exists>e. res = Inl e) \<and> db_peers db1 = db_peers db \<and>
     map_of (db_audit db1) (tr_peer_id r, uint (tr_sequence r)) \<noteq> None \<and>
     (\<forall>cs' now'. \<exists>e. rotate_peer v (Inr ()) (Inr ()) now' (trust_run v db1 cs') r = (trust_run v db1 cs', Inl e))"
proof -
  have ok: "trust_db_ok db"
    by (simp add: db trust_run_ok trust_db_empty_ok)
  have free: "map_of (db_audit db) (tr_peer_id r, uint (tr_sequence r)) = None"
    using rotation_admissible_Ok(4) [OF ok adm(1), of "uint (tr_sequence r)"]
    by (cases "map_of (db_audit db) (tr_peer_id r, uint (tr_sequence r))") auto
  have "\<exists>arow. rotate_peer v (Inr ()) (Inl ST_Database) now db r =
      (db\<lparr> db_audit := bt_insert (tr_peer_id r, uint (tr_sequence r)) arow (db_audit db) \<rparr>,
       Inl (PE_Store ST_Database))"
    using adm free by (simp add: rotate_peer_def append_peer_rotation_audit_def u64_to_i64_def
        replace_peer_trust_def Let_def lift_store_def) blast
  moreover have "trust_db_ok db1"
    using trust_step_ok [OF ok, of v "TC_Rotate (Inr ()) (Inl ST_Database) now r"] cut by simp
  ultimately have db1: "trust_db_ok db1 \<and> (\<exists>e. res = Inl e) \<and> db_peers db1 = db_peers db \<and>
      map_of (db_audit db1) (tr_peer_id r, uint (tr_sequence r)) \<noteq> None"
    using cut by auto
  have "map_of (db_audit (trust_run v db1 cs')) (tr_peer_id r, uint (tr_sequence r)) \<noteq> None"
    "trust_db_ok (trust_run v db1 cs')" for cs'
    using db1 trust_run_audit trust_run_ok by simp_all
  then show ?thesis
    using db1 rotate_old_sequence by blast
qed

section \<open>Concrete instances\<close>

definition demo_trust_sign :: sign_crypto where
  "demo_trust_sign = \<lparr> gc_public = (\<lambda>sk. sk), gc_sign = (\<lambda>sk m. take 64 (sk @ m @ replicate 64 0)),
     gc_verify = (\<lambda>pk m sig. sig = take 64 (pk @ m @ replicate 64 0)),
     gc_verify_strict = (\<lambda>pk m sig. sig = take 64 (pk @ m @ replicate 64 0)),
     gc_valid_point = (\<lambda>_. True) \<rparr>"

definition demo_trust :: trust_env where
  "demo_trust = \<lparr> tv_sign = demo_trust_sign, tv_cbor = (\<lambda>p. Some (rp_prev_pubkey p @ rp_next_pubkey p)),
     tv_b64 = (\<lambda>k. map (\<lambda>b. char_of (unat b)) k), tv_b64_decode = (\<lambda>s. Some (bytes_of s)) \<rparr>"

definition demo_rotation :: trust_rotation where
  "demo_rotation = \<lparr> tr_peer_id = 7, tr_prev_pubkey = [65], tr_next_pubkey = [66], tr_sequence = 1,
     tr_rotated_at_ms = 40, tr_signature = sign_bytes demo_trust_sign (from_secret_bytes [65]) [65, 66] \<rparr>"

definition demo_enrol :: trust_call where
  "demo_enrol = TC_Add (Inr ()) (Some 10) 7 [65]"

definition demo_db :: trust_db where
  "demo_db = \<lparr> db_peers = [(7, \<lparr> pt_pubkey_b64 = ''A'', pt_added_at_ms = 10, pt_tier = ''untrusted'',
     pt_endpoints_json = None, pt_last_seen_ms = Some 10, pt_endpoints_advertised_at_ms = None,
     pt_endpoints_peer_id = None \<rparr>)], db_audit = [] \<rparr>"

lemma demo_chars [simp]: "char_of (65 :: nat) = CHR ''A''" "char_of (66 :: nat) = CHR ''B''"
  by code_simp+

lemma demo_db_run: "demo_db = trust_run demo_trust trust_db_empty [demo_enrol]"
  by (simp add: demo_db_def demo_enrol_def trust_db_empty_def registry_add_def add_peer_trust_def
      add_peer_trust_with_tier_def u64_to_i64_def demo_trust_def default_for_new_peer_def Let_def split_beta)

lemma demo_admissible: "rotation_admissible demo_trust (Some 50) demo_db demo_rotation = Inr 50"
  by (simp add: rotation_admissible_def verify_rotation_def demo_rotation_def demo_trust_def
      demo_trust_sign_def canonical_rotation_bytes_def sign_bytes_def from_secret_bytes_def
      load_peers_def demo_db_def stored_of_row_def stored_tier_def tier_from_wire_str_def i64_to_u64_def
      stored_last_seen_ms_def stored_endpoints_stamp_ms_def lift_store_def last_applied_sequence_def
      peer_rotation_audit_def)

definition demo_db1 :: trust_db where
  "demo_db1 = trust_step demo_trust demo_db (TC_Rotate (Inr ()) (Inr ()) (Some 50) demo_rotation)"

lemma demo_rotated:
  "map_of (db_peers demo_db1) 7 = Some ((snd (hd (db_peers demo_db)))\<lparr> pt_pubkey_b64 := ''B'', pt_added_at_ms := 50 \<rparr>)"
  "\<exists>p. rotate_peer demo_trust (Inr ()) (Inr ()) (Some 50) demo_db demo_rotation = (demo_db1, Inr p)"
proof -
  have "\<exists>p. rotate_peer demo_trust (Inr ()) (Inr ()) (Some 50) demo_db demo_rotation =
      (\<lparr> db_peers = [(7, (snd (hd (db_peers demo_db)))\<lparr> pt_pubkey_b64 := ''B'', pt_added_at_ms := 50 \<rparr>)],
         db_audit = [((7, 1), \<lparr> ar_prev_pubkey_b64 = ''A'', ar_next_pubkey_b64 = ''B'',
           ar_rotated_at_ms = 40, ar_applied_at_ms = 50 \<rparr>)] \<rparr>, Inr p)"
    unfolding rotate_peer_def demo_admissible
    by (simp add: append_peer_rotation_audit_def replace_peer_trust_def Let_def u64_to_i64_def demo_rotation_def
        demo_trust_def demo_db_def lift_store_def stored_last_seen_ms_def stored_endpoints_stamp_ms_def
        i64_to_u64_def)
  then show "map_of (db_peers demo_db1) 7 =
      Some ((snd (hd (db_peers demo_db)))\<lparr> pt_pubkey_b64 := ''B'', pt_added_at_ms := 50 \<rparr>)"
      "\<exists>p. rotate_peer demo_trust (Inr ()) (Inr ()) (Some 50) demo_db demo_rotation = (demo_db1, Inr p)"
    by (auto simp: demo_db1_def)
qed


theorem rotation_replay_refused_witness:
  "\<exists>e. rotate_peer demo_trust (Inr ()) (Inr ()) (Some 90)
     (trust_run demo_trust demo_db1 [TC_Remove (Inr ()) 7, demo_enrol]) demo_rotation =
     (trust_run demo_trust demo_db1 [TC_Remove (Inr ()) 7, demo_enrol], Inl e)"
proof -
  obtain p where "rotate_peer demo_trust (Inr ()) (Inr ()) (Some 50) demo_db demo_rotation = (demo_db1, Inr p)"
    using demo_rotated(2) by blast
  from rotation_replay_refused [OF demo_db_run this refl refl order_refl] show ?thesis .
qed

theorem interrupted_rotation_stuck_witness:
  "\<exists>db1 res. rotate_peer demo_trust (Inr ()) (Inl ST_Database) (Some 50) demo_db demo_rotation = (db1, res) \<and>
     db_peers db1 = db_peers demo_db \<and>
     (\<exists>e. rotate_peer demo_trust (Inr ()) (Inr ()) (Some 60) db1 demo_rotation = (db1, Inl e))"
proof -
  obtain db1 res where cut:
    "rotate_peer demo_trust (Inr ()) (Inl ST_Database) (Some 50) demo_db demo_rotation = (db1, res)"
    by fastforce
  have "db_peers db1 = db_peers demo_db \<and>
     (\<forall>cs' now'. \<exists>e. rotate_peer demo_trust (Inr ()) (Inr ()) now' (trust_run demo_trust db1 cs') demo_rotation =
       (trust_run demo_trust db1 cs', Inl e))"
    using interrupted_rotation_stuck [OF demo_db_run demo_admissible _ _ _ cut] by (simp add: demo_rotation_def)
  then have "db_peers db1 = db_peers demo_db \<and>
     (\<exists>e. rotate_peer demo_trust (Inr ()) (Inr ()) (Some 60) (trust_run demo_trust db1 []) demo_rotation =
       (trust_run demo_trust db1 [], Inl e))"
    by blast
  then show ?thesis
    using cut by auto
qed

end
