(* ===== verification/Rust_Utf8.thy ===== *)
theory Rust_Utf8
  imports Rust_Str "HOL-Library.Sublist"
begin

text \<open>
  The characters of a \<open>str\<close> (Unicode scalar values) and their UTF-8 encoding. The order of
  strings, which compares bytes, is the order of their characters, and one string starts
  with another exactly when its characters do: encodings are monotone and prefix free.
\<close>

definition scalar :: "nat \<Rightarrow> bool" where
  "scalar c \<longleftrightarrow> c < 0x110000 \<and> \<not> (0xD800 \<le> c \<and> c < 0xE000)"

definition utf8_char :: "nat \<Rightarrow> string" where
  "utf8_char c =
     (if c < 0x80 then [char_of c]
      else if c < 0x800 then [char_of (0xC0 + c div 64), char_of (0x80 + c mod 64)]
      else if c < 0x10000 then
        [char_of (0xE0 + c div 64 div 64), char_of (0x80 + c div 64 mod 64), char_of (0x80 + c mod 64)]
      else
        [char_of (0xF0 + c div 64 div 64 div 64), char_of (0x80 + c div 64 div 64 mod 64),
         char_of (0x80 + c div 64 mod 64), char_of (0x80 + c mod 64)])"

definition utf8 :: "nat list \<Rightarrow> string" where
  "utf8 cs = concat (map utf8_char cs)"

text \<open>\<open>str::chars\<close>, on the bytes of a valid string: the lead byte tells the length.\<close>

definition tail_length :: "char \<Rightarrow> nat" where
  "tail_length a = (if byte_of a < 0x80 then 0 else if byte_of a < 0xE0 then 1 else if byte_of a < 0xF0 then 2 else 3)"

definition lead_bits :: "char \<Rightarrow> nat" where
  "lead_bits a =
     (if byte_of a < 0x80 then byte_of a else if byte_of a < 0xE0 then byte_of a - 0xC0
      else if byte_of a < 0xF0 then byte_of a - 0xE0 else byte_of a - 0xF0)"

definition decode_char :: "char \<Rightarrow> string \<Rightarrow> nat" where
  "decode_char a bs = fold (\<lambda>b n. n * 64 + (byte_of b - 0x80)) bs (lead_bits a)"

function chars :: "string \<Rightarrow> nat list" where
  "chars [] = []"
| "chars (a # s) = decode_char a (take (tail_length a) s) # chars (drop (tail_length a) s)"
  by pat_completeness auto
termination
  by (relation "measure length") auto

lemma utf8_simps [simp]: "utf8 [] = []" "utf8 (c # cs) = utf8_char c @ utf8 cs"
  by (simp_all add: utf8_def)

lemma utf8_append: "utf8 (cs @ ds) = utf8 cs @ utf8 ds"
  by (simp add: utf8_def)

lemma char_of_less: "m < 256 \<Longrightarrow> n < 256 \<Longrightarrow> char_of m < char_of n \<longleftrightarrow> m < (n :: nat)"
  by (simp add: less_char_def)

lemma char_of_inject: "m < 256 \<Longrightarrow> n < 256 \<Longrightarrow> char_of m = char_of n \<longleftrightarrow> m = (n :: nat)"
  by (metis of_char_of mod_less)

lemma div_mod_less: "(c :: nat) < d \<Longrightarrow> 0 < k \<Longrightarrow> c div k < d div k \<or> c div k = d div k \<and> c mod k < d mod k"
  by (metis div_le_mono div_mult_mod_eq less_or_eq_imp_le linorder_neqE_nat nat_add_left_cancel_less not_less)

lemma utf8_char_not_Nil [simp]: "utf8_char c \<noteq> []"
  by (simp add: utf8_char_def)

lemma append_less_same: "xs @ ys < xs @ zs \<longleftrightarrow> ys < zs" for xs :: "'a::linorder list"
  by (induction xs) auto

lemma utf8_char_bounds:
  fixes c :: nat
  shows "c < 0x110000 \<Longrightarrow> c div 64 div 64 div 64 < 5"
    "c < 0x10000 \<Longrightarrow> c div 64 div 64 < 16"
    "c < 0x800 \<Longrightarrow> c div 64 < 32"
  by (simp_all add: div_mult2_eq [symmetric] less_mult_imp_div_less)

text \<open>The four groups of six bits of a scalar value compare like the value.\<close>

lemma six_bits_less:
  fixes c d :: nat
  assumes "c < d"
  shows "c div 64 div 64 div 64 < d div 64 div 64 div 64 \<or>
    c div 64 div 64 div 64 = d div 64 div 64 div 64 \<and>
      (c div 64 div 64 mod 64 < d div 64 div 64 mod 64 \<or>
       c div 64 div 64 mod 64 = d div 64 div 64 mod 64 \<and>
         (c div 64 mod 64 < d div 64 mod 64 \<or>
          c div 64 mod 64 = d div 64 mod 64 \<and> c mod 64 < d mod 64))"
  using div_mod_less [OF assms, of 64] div_mod_less [of "c div 64" "d div 64" 64]
    div_mod_less [of "c div 64 div 64" "d div 64 div 64" 64] by auto

lemma utf8_char_less:
  assumes "c < d" "d < 0x110000"
  shows "utf8_char c @ x < utf8_char d @ y"
proof -
  define c0 c1 c2 c3 where c: "c0 = c mod 64" "c1 = c div 64 mod 64" "c2 = c div 64 div 64 mod 64" "c3 = c div 64 div 64 div 64"
  define d0 d1 d2 d3 where d: "d0 = d mod 64" "d1 = d div 64 mod 64" "d2 = d div 64 div 64 mod 64" "d3 = d div 64 div 64 div 64"
  have less: "c3 < d3 \<or> c3 = d3 \<and> (c2 < d2 \<or> c2 = d2 \<and> (c1 < d1 \<or> c1 = d1 \<and> c0 < d0))"
    unfolding c d by (rule six_bits_less [OF assms(1)])
  have b: "c0 < 64" "c1 < 64" "c2 < 64" "c3 < 5" "d0 < 64" "d1 < 64" "d2 < 64" "d3 < 5"
    using assms by (simp_all add: c d utf8_char_bounds)
  have enc: "utf8_char e = (if e < 0x80 then [char_of e]
      else if e < 0x800 then [char_of (0xC0 + e1), char_of (0x80 + e0)]
      else if e < 0x10000 then [char_of (0xE0 + e2), char_of (0x80 + e1), char_of (0x80 + e0)]
      else [char_of (0xF0 + e3), char_of (0x80 + e2), char_of (0x80 + e1), char_of (0x80 + e0)])"
    if "e0 = e mod 64" "e1 = e div 64 mod 64" "e2 = e div 64 div 64 mod 64" "e3 = e div 64 div 64 div 64" for e e0 e1 e2 e3
  proof -
    have "e < 0x10000 \<Longrightarrow> e div 64 div 64 mod 64 = e div 64 div 64" "e < 0x800 \<Longrightarrow> e div 64 mod 64 = e div 64"
      using utf8_char_bounds(2,3) [of e] by simp_all
    then show ?thesis
      by (simp only: utf8_char_def that split: if_split) simp
  qed
  have short: "e < 0x800 \<Longrightarrow> e2 = 0 \<and> e1 < 32" "e < 0x10000 \<Longrightarrow> e3 = 0 \<and> e2 < 16"
    "0x80 \<le> e \<Longrightarrow> e < 0x800 \<Longrightarrow> 2 \<le> e1"
    if "e1 = e div 64 mod 64" "e2 = e div 64 div 64 mod 64" "e3 = e div 64 div 64 div 64" for e e1 e2 e3 :: nat
    using that utf8_char_bounds [of e] by (simp_all add: div_mult2_eq [symmetric])
  note facts = less b assms(1) enc [OF c] enc [OF d] char_of_less char_of_inject
  consider "d < 0x80" | "0x80 \<le> d" "d < 0x800" | "0x800 \<le> d" "d < 0x10000" | "0x10000 \<le> d" "\<not> d < 0x80" "\<not> d < 0x800"
    by linarith
  then show ?thesis
  proof cases
    case 1
    then show ?thesis using facts by simp
  next
    case 2
    then show ?thesis using facts short [OF c(2-4)] short [OF d(2-4)]
      by (cases "c < 0x80") auto
  next
    case 3
    then show ?thesis using facts short [OF c(2-4)] short [OF d(2-4)]
      by (cases "c < 0x80"; cases "c < 0x800") auto
  next
    case 4
    then show ?thesis using facts short [OF c(2-4)]
      by (cases "c < 0x80"; cases "c < 0x800"; cases "c < 0x10000") auto
  qed
qed

lemma utf8_less:
  "\<forall>c \<in> set cs \<union> set ds. c < 0x110000 \<Longrightarrow> utf8 cs < utf8 ds \<longleftrightarrow> cs < ds"
proof (induction cs arbitrary: ds)
  case Nil
  have "[] < utf8_char c @ s" for c s
    by (cases "utf8_char c") simp_all
  then show ?case by (cases ds) auto
next
  case (Cons c cs)
  show ?case
  proof (cases ds)
    case Nil
    then show ?thesis by simp
  next
    case (Cons d ds')
    have "utf8_char c @ utf8 cs < utf8_char d @ utf8 ds' \<longleftrightarrow> c < d \<or> c = d \<and> utf8 cs < utf8 ds'"
    proof (cases c d rule: linorder_cases)
      case less
      then show ?thesis using Cons.prems Cons utf8_char_less by simp
    next
      case greater
      then have "utf8_char d @ utf8 ds' < utf8_char c @ utf8 cs"
        using Cons.prems Cons utf8_char_less by simp
      then show ?thesis using greater by auto
    qed (simp add: append_less_same)
    then show ?thesis
      using Cons Cons.IH [of ds'] Cons.prems by simp
  qed
qed

lemma utf8_prefix:
  assumes "\<forall>c \<in> set cs \<union> set ds. c < 0x110000"
  shows "prefix (utf8 cs) (utf8 ds) \<longleftrightarrow> prefix cs ds"
  using assms
proof (induction cs arbitrary: ds)
  case (Cons c cs)
  show ?case
  proof (cases ds)
    case Nil
    then show ?thesis by (simp add: prefix_def)
  next
    case (Cons d ds')
    have "c = d" if pre: "prefix (utf8_char c @ utf8 cs) (utf8_char d @ utf8 ds')"
    proof -
      obtain z where z: "utf8_char d @ utf8 ds' = utf8_char c @ utf8 cs @ z"
        using pre by (auto simp: prefix_def)
      have "c < 0x110000" "d < 0x110000"
        using Cons.prems Cons by simp_all
      then have "\<not> c < d" "\<not> d < c"
        using z utf8_char_less [of c d "utf8 cs @ z" "utf8 ds'"] utf8_char_less [of d c "utf8 ds'" "utf8 cs @ z"]
        by (metis order.irrefl)+
      then show ?thesis by simp
    qed
    then show ?thesis
      using Cons Cons.IH [of ds'] Cons.prems by (auto simp: same_prefix_prefix)
  qed
qed simp

text \<open>Decoding inverts encoding.\<close>

lemma chars_utf8_char:
  assumes "c < 0x110000"
  shows "chars (utf8_char c @ s) = c # chars s"
proof -
  have "c mod 64 < 64" "c div 64 mod 64 < 64" "c div 64 div 64 mod 64 < 64" by simp_all
  moreover have "byte_of (char_of n) = n" if "n < 256" for n
    using that by (rule byte_of_char_of)
  moreover have "c div 64 * 64 + c mod 64 = c" "c div 64 div 64 * 64 + c div 64 mod 64 = c div 64"
    "c div 64 div 64 div 64 * 64 + c div 64 div 64 mod 64 = c div 64 div 64" by simp_all
  ultimately show ?thesis
    using utf8_char_bounds [of c] assms
    by (auto simp: utf8_char_def tail_length_def decode_char_def lead_bits_def add.commute)
qed

lemma chars_utf8: "\<forall>c \<in> set cs. c < 0x110000 \<Longrightarrow> chars (utf8 cs) = cs"
  by (induction cs) (simp_all add: chars_utf8_char)

definition valid_utf8 :: "string \<Rightarrow> bool" where
  "valid_utf8 s \<longleftrightarrow> list_all scalar (chars s) \<and> utf8 (chars s) = s"

lemma valid_utf8_utf8: "list_all scalar cs \<Longrightarrow> valid_utf8 (utf8 cs)"
  by (simp add: valid_utf8_def chars_utf8 scalar_def list_all_iff)

lemma valid_utf8_order:
  assumes "valid_utf8 s" "valid_utf8 t"
  shows "s < t \<longleftrightarrow> chars s < chars t" "s \<le> t \<longleftrightarrow> chars s \<le> chars t" "prefix s t \<longleftrightarrow> prefix (chars s) (chars t)"
proof -
  have c: "\<forall>c \<in> set (chars s) \<union> set (chars t). c < 0x110000"
    using assms by (auto simp: valid_utf8_def scalar_def list_all_iff)
  have st: "s = utf8 (chars s)" "t = utf8 (chars t)"
    using assms by (simp_all add: valid_utf8_def)
  show less: "s < t \<longleftrightarrow> chars s < chars t"
    using utf8_less [OF c] st by simp
  have "s = t \<longleftrightarrow> chars s = chars t"
    using st by metis
  then show "s \<le> t \<longleftrightarrow> chars s \<le> chars t"
    using less by (simp add: order.order_iff_strict)
  show "prefix s t \<longleftrightarrow> prefix (chars s) (chars t)"
    using utf8_prefix [OF c] st by simp
qed

end
