(* ===== verification/Sql_Header_Query.thy ===== *)
theory Sql_Header_Query
  imports Rust_Utf8 Core_Addressing Core_Select
begin

text \<open>
  The queries both SQLite backends share: header rows and the header predicate over them
  (\<open>airc-store/src/header_query.rs\<close>), and the addressee branches with their merge
  (\<open>event_table.rs\<close>). The header entity of an event table is an ordered map from its
  primary key (event id and key) to the value. A predicate is what its SQL means on the row
  with a given id: \<open>IN (SELECT ...)\<close> is membership in the ids selected, text compares by
  bytes, and \<open>ON CONFLICT DO NOTHING\<close> keeps the row that is there.
\<close>

section \<open>Header rows\<close>

text \<open>The version of the derived columns that this binary writes (\<open>derive.rs\<close>).\<close>

definition DERIVED_VERSION :: int where
  "DERIVED_VERSION = 1"

type_synonym header_table = "(uuid \<times> string, string) btree"

definition HEADER_ROWS_PER_INSERT :: nat where
  "HEADER_ROWS_PER_INSERT = 5000"

definition insert_ignore :: "'k::linorder \<Rightarrow> 'v \<Rightarrow> ('k, 'v) btree \<Rightarrow> ('k, 'v) btree" where
  "insert_ignore k v m = (if bt_contains m k then m else bt_insert k v m)"

text \<open>\<open>slice::chunks\<close>.\<close>

function chunks :: "nat \<Rightarrow> 'a list \<Rightarrow> 'a list list" where
  "chunks n xs = (if xs = [] \<or> n = 0 then [] else take n xs # chunks n (drop n xs))"
  by pat_completeness auto
termination
  by (relation "measure (\<lambda>(_, xs). length xs)") auto

declare chunks.simps [simp del]

definition header_rows_of :: "uuid \<times> headers \<Rightarrow> ((uuid \<times> string) \<times> string) list" where
  "header_rows_of = (\<lambda>(i, h). map (\<lambda>(k, v). ((i, k), v)) h)"

definition write_header_rows :: "header_table \<Rightarrow> (uuid \<times> headers) list \<Rightarrow> header_table" where
  "write_header_rows tbl events =
     fold (\<lambda>chunk tbl. fold (\<lambda>(k, v) tbl. insert_ignore k v tbl) chunk tbl)
       (chunks HEADER_ROWS_PER_INSERT (concat (map header_rows_of events))) tbl"

section \<open>The header predicate\<close>

definition char_from_u32 :: "nat \<Rightarrow> nat option" where
  "char_from_u32 code = (if scalar code then Some code else None)"

definition next_scalar :: "nat \<Rightarrow> nat option" where
  "next_scalar c = (if c + 1 = 0xD800 then char_from_u32 0xE000 else char_from_u32 (c + 1))"

text \<open>The loop pops the last character; the argument holds the characters left, reversed.\<close>

fun successor_loop :: "nat list \<Rightarrow> nat list option" where
  "successor_loop [] = None"
| "successor_loop (popped # rest) =
     (case next_scalar popped of
        Some n \<Rightarrow> Some (rev rest @ [n])
      | None \<Rightarrow> successor_loop rest)"

definition successor :: "string \<Rightarrow> string option" where
  "successor value_prefix = map_option utf8 (successor_loop (rev (chars value_prefix)))"

text \<open>The ids of events that hold a header with the key and an accepted value.\<close>

definition header_ids :: "header_table \<Rightarrow> string \<Rightarrow> (string \<Rightarrow> bool) \<Rightarrow> uuid list" where
  "header_ids tbl key accept =
     map (\<lambda>((i, _), _). i) (filter (\<lambda>((_, k), v). k = key \<and> accept v) tbl)"

definition holding :: "uuid list \<Rightarrow> uuid \<Rightarrow> bool" where
  "holding ids i \<longleftrightarrow> i \<in> set ids"

fun sql_predicate :: "header_filter \<Rightarrow> header_table \<Rightarrow> uuid \<Rightarrow> bool" where
  "sql_predicate HF_Any tbl i = True"
| "sql_predicate (HF_Has key) tbl i = holding (header_ids tbl key (\<lambda>_. True)) i"
| "sql_predicate (HF_Exact key wanted) tbl i = holding (header_ids tbl key (\<lambda>v. v = wanted)) i"
| "sql_predicate (HF_Prefix key value_prefix) tbl i =
     holding (header_ids tbl key (\<lambda>v.
       case successor value_prefix of
         Some upper \<Rightarrow> value_prefix \<le> v \<and> v < upper
       | None \<Rightarrow> if value_prefix = [] then True else value_prefix \<le> v)) i"
| "sql_predicate (HF_Not inner) tbl i = (\<not> sql_predicate inner tbl i)"
| "sql_predicate (HF_All items) tbl i = fold (\<lambda>f acc. acc \<and> sql_predicate f tbl i) items True"
| "sql_predicate (HF_AnyOf items) tbl i = fold (\<lambda>f acc. acc \<or> sql_predicate f tbl i) items False"

definition not_runtime_self :: "runtime_self \<Rightarrow> header_table \<Rightarrow> uuid \<Rightarrow> client_id \<Rightarrow> bool" where
  "not_runtime_self rule tbl i client =
     (let unstamped_self = (sql_predicate (HF_Not (HF_Has HEADER_AIRC_CLIENT)) tbl i \<and>
            client = rtself_client_id rule);
          is_self = (case rtself_runtime_client rule of
            Some tag \<Rightarrow> sql_predicate (HF_Exact HEADER_AIRC_CLIENT tag) tbl i \<or> unstamped_self
          | None \<Rightarrow> unstamped_self)
      in \<not> is_self)"

section \<open>Addressee branches\<close>

text \<open>
  A select is its \<open>WHERE\<close> condition on rows; a row's columns \<open>addressed_peer\<close> and
  \<open>leading_mention\<close> are given by two functions, as each table has its own.
\<close>

definition addressee_branches ::
  "('r \<Rightarrow> uuid option) \<Rightarrow> ('r \<Rightarrow> bool) \<Rightarrow> ('r \<Rightarrow> bool) \<Rightarrow> addressee_filter option \<Rightarrow> ('r \<Rightarrow> bool) list" where
  "addressee_branches addressed_peer leading_mention query addressed_to =
     (case addressed_to of
        None \<Rightarrow> [query]
      | Some addressee \<Rightarrow>
          [\<lambda>r. query r \<and> addressed_peer r = Some (af_peer addressee), \<lambda>r. query r \<and> leading_mention r])"

fun dedup_by :: "('r \<Rightarrow> 'k) \<Rightarrow> 'r list \<Rightarrow> 'r list" where
  "dedup_by key (a # b # xs) = (if key b = key a then dedup_by key (a # xs) else a # dedup_by key (b # xs))"
| "dedup_by key xs = xs"

definition merge_branches :: "'r list list \<Rightarrow> ('r \<Rightarrow> 'k::linorder) \<Rightarrow> nat \<Rightarrow> bool \<Rightarrow> 'r list" where
  "merge_branches branches key limit tail =
     (let rows = dedup_by key (sort_key key (concat branches))
      in if tail then drop (length rows - limit) rows else take limit rows)"

section \<open>The range of a prefix\<close>

lemma next_scalar_Some:
  "next_scalar c = Some n \<Longrightarrow> scalar c \<Longrightarrow> scalar n \<and> c < n \<and> (\<forall>b. scalar b \<longrightarrow> c \<le> b \<longrightarrow> b < n \<longrightarrow> b = c)"
  by (auto simp: next_scalar_def char_from_u32_def scalar_def split: if_splits)

lemma next_scalar_None: "next_scalar c = None \<Longrightarrow> scalar c \<Longrightarrow> c = 0x10FFFF"
  by (auto simp: next_scalar_def char_from_u32_def scalar_def split: if_splits)

lemma successor_loop_Some:
  "successor_loop cs = Some u \<Longrightarrow> list_all scalar cs \<Longrightarrow>
   \<exists>q a n k. rev cs = q @ a # replicate k 0x10FFFF \<and> u = q @ [n] \<and> next_scalar a = Some n"
proof (induction cs)
  case (Cons c cs)
  show ?case
  proof (cases "next_scalar c")
    case None
    then obtain q a n k where "rev cs = q @ a # replicate k 0x10FFFF" "u = q @ [n]" "next_scalar a = Some n"
      using Cons by auto
    moreover have "c = 0x10FFFF"
      using None Cons.prems(2) next_scalar_None by simp
    ultimately have "rev (c # cs) = q @ a # replicate (Suc k) 0x10FFFF"
      by (simp add: replicate_append_same)
    then show ?thesis
      using \<open>u = q @ [n]\<close> \<open>next_scalar a = Some n\<close> by blast
  next
    case (Some n)
    then have "rev (c # cs) = rev cs @ c # replicate 0 0x10FFFF" "u = rev cs @ [n]"
      using Cons.prems by simp_all
    then show ?thesis using Some by blast
  qed
qed simp

lemma successor_loop_None:
  "successor_loop cs = None \<Longrightarrow> list_all scalar cs \<Longrightarrow> rev cs = replicate (length cs) 0x10FFFF"
  by (induction cs) (auto simp: replicate_append_same dest: next_scalar_None split: option.splits)

text \<open>Above a run of the greatest element there are only lists that start with the run.\<close>

lemma top_run_prefix:
  fixes m :: "'a::linorder"
  shows "\<forall>x \<in> set xs. x \<le> m \<Longrightarrow> prefix (replicate k m) xs \<longleftrightarrow> replicate k m \<le> xs"
proof (induction k arbitrary: xs)
  case (Suc k)
  show ?case
  proof (cases xs)
    case (Cons x ys)
    then show ?thesis
      using Suc.IH [of ys] Suc.prems by (auto simp: order.antisym)
  qed simp
qed simp

lemma prefix_range_chars:
  assumes a: "scalar a" "next_scalar a = Some n" and v: "list_all scalar v"
  shows "prefix (q @ a # replicate k 0x10FFFF) v \<longleftrightarrow> q @ a # replicate k 0x10FFFF \<le> v \<and> v < q @ [n]"
  using v
proof (induction q arbitrary: v)
  case Nil
  note n = next_scalar_Some [OF a(2,1)]
  show ?case
  proof (cases v)
    case (Cons b w)
    have "\<forall>x \<in> set w. x \<le> 0x10FFFF"
      using Nil Cons by (auto simp: scalar_def list_all_iff)
    then have "prefix (replicate k 0x10FFFF) w \<longleftrightarrow> replicate k 0x10FFFF \<le> w"
      by (rule top_run_prefix)
    moreover have "a < b \<Longrightarrow> \<not> b < n" "scalar b"
      using n Nil Cons by auto
    ultimately show ?thesis
      using Cons n by (auto simp: order.order_iff_strict)
  qed simp
next
  case (Cons c q)
  show ?case
  proof (cases v)
    case (Cons b w)
    then show ?thesis
      using Cons.IH [of w] Cons.prems by auto
  qed simp
qed

lemma prefix_range_exact:
  assumes p: "valid_utf8 p" and v: "valid_utf8 v"
  shows "prefix p v \<longleftrightarrow>
    (case successor p of Some upper \<Rightarrow> p \<le> v \<and> v < upper | None \<Rightarrow> if p = [] then True else p \<le> v)"
proof -
  have cs: "list_all scalar (rev (chars p))" "list_all scalar (chars v)"
    using p v by (simp_all add: valid_utf8_def)
  show ?thesis
  proof (cases "successor_loop (rev (chars p))")
    case None
    then have "chars p = replicate (length (chars p)) 0x10FFFF"
      using successor_loop_None [OF None cs(1)] by simp
    moreover have "\<forall>x \<in> set (chars v). x \<le> 0x10FFFF"
      using cs(2) by (auto simp: list_all_iff scalar_def)
    ultimately have "prefix (chars p) (chars v) \<longleftrightarrow> chars p \<le> chars v"
      using top_run_prefix by metis
    then show ?thesis
      using valid_utf8_order [OF p v] None by (simp add: successor_def)
  next
    case (Some u)
    obtain q a n k where q: "chars p = q @ a # replicate k 0x10FFFF" "u = q @ [n]" "next_scalar a = Some n"
      using successor_loop_Some [OF Some cs(1)] by auto
    have sc: "scalar a" "list_all scalar q"
      using cs(1) q(1) by simp_all
    have u: "list_all scalar u"
      using next_scalar_Some [OF q(3) sc(1)] sc by (simp add: q(2))
    have "v < utf8 u \<longleftrightarrow> chars v < u"
      using valid_utf8_order(1) [OF v valid_utf8_utf8 [OF u]] u
      by (simp add: chars_utf8 list_all_iff scalar_def)
    then show ?thesis
      using valid_utf8_order [OF p v] prefix_range_chars [OF sc(1) q(3) cs(2), of q k] Some q(1,2)
      by (simp add: successor_def)
  qed
qed

section \<open>The predicate decides as the header algebra\<close>

text \<open>Every string of a program is valid UTF-8; here that is a condition on the data.\<close>

definition headers_utf8 :: "headers \<Rightarrow> bool" where
  "headers_utf8 h \<longleftrightarrow> list_all (\<lambda>(k, v). valid_utf8 k \<and> valid_utf8 v) h"

fun filter_utf8 :: "header_filter \<Rightarrow> bool" where
  "filter_utf8 (HF_Prefix key value_prefix) = valid_utf8 value_prefix"
| "filter_utf8 (HF_Not inner) = filter_utf8 inner"
| "filter_utf8 (HF_All items) = list_all filter_utf8 items"
| "filter_utf8 (HF_AnyOf items) = list_all filter_utf8 items"
| "filter_utf8 _ = True"

text \<open>The header rows of an event are exactly its headers.\<close>

definition reflects :: "header_table \<Rightarrow> uuid \<Rightarrow> headers \<Rightarrow> bool" where
  "reflects tbl i h \<longleftrightarrow> (\<forall>k. map_of tbl (i, k) = map_of h k)"

lemma holding_header_ids:
  assumes "bt_wf tbl" "reflects tbl i h"
  shows "holding (header_ids tbl key accept) i \<longleftrightarrow> is_some_and (map_of h key) accept"
proof -
  have "holding (header_ids tbl key accept) i \<longleftrightarrow> (\<exists>v. ((i, key), v) \<in> set tbl \<and> accept v)"
    by (force simp: holding_def header_ids_def)
  also have "\<dots> \<longleftrightarrow> is_some_and (map_of h key) accept"
    using assms by (cases "map_of h key") (auto simp: bt_wf_in_set reflects_def)
  finally show ?thesis .
qed

lemma fold_conj: "fold (\<lambda>f acc. acc \<and> P f) fs b \<longleftrightarrow> b \<and> list_all P fs"
  by (induction fs arbitrary: b) auto

lemma fold_disj: "fold (\<lambda>f acc. acc \<or> P f) fs b \<longleftrightarrow> b \<or> list_ex P fs"
  by (induction fs arbitrary: b) auto

lemma headers_utf8_lookup: "headers_utf8 h \<Longrightarrow> map_of h k = Some v \<Longrightarrow> valid_utf8 v"
  by (auto simp: headers_utf8_def list_all_iff dest: map_of_SomeD)

lemma sql_predicate_exact:
  assumes tbl: "bt_wf tbl" "reflects tbl i h" and h: "headers_utf8 h"
  shows "filter_utf8 f \<Longrightarrow> sql_predicate f tbl i = filter_matches f h"
proof (induction f)
  case (HF_Prefix key p)
  then show ?case
    using prefix_range_exact [of p] headers_utf8_lookup [OF h]
    by (cases "map_of h key") (auto simp: holding_header_ids [OF tbl])
next
  case (HF_All fs)
  then show ?case by (auto simp: fold_conj list_all_iff)
next
  case (HF_AnyOf fs)
  then show ?case by (auto simp: fold_disj list_all_iff list_ex_iff)
next
  case (HF_Exact key w)
  then show ?case by (cases "map_of h key") (auto simp: holding_header_ids [OF tbl])
next
  case (HF_Has key)
  then show ?case by (cases "map_of h key") (auto simp: holding_header_ids [OF tbl])
qed simp_all

lemma not_runtime_self_exact:
  assumes tbl: "bt_wf tbl" "reflects tbl i h"
  shows "not_runtime_self rule tbl i client \<longleftrightarrow> \<not> is_self rule h client"
  by (cases "map_of h HEADER_AIRC_CLIENT"; cases "rtself_runtime_client rule")
    (auto simp: not_runtime_self_def is_self_def holding_header_ids [OF tbl])

section \<open>Writing header rows\<close>

lemma fold_chunks: "0 < n \<Longrightarrow> fold (\<lambda>c t. fold f c t) (chunks n xs) t = fold f xs t"
proof (induction n xs arbitrary: t rule: chunks.induct)
  case (1 n xs)
  show ?case
  proof (cases "xs = []")
    case False
    then show ?thesis
      using 1 by (subst chunks.simps) (simp flip: fold_append [THEN fun_cong, unfolded comp_def])
  qed (simp add: chunks.simps)
qed

lemma insert_ignore_wf [simp]: "bt_wf m \<Longrightarrow> bt_wf (insert_ignore k v m)"
  by (simp add: insert_ignore_def)

lemma map_of_insert_ignore:
  "map_of (insert_ignore k v m) l = (if l = k \<and> map_of m k = None then Some v else map_of m l)"
  by (auto simp: insert_ignore_def bt_contains_def)

lemma fold_insert_ignore:
  "bt_wf m \<Longrightarrow> bt_wf (fold (\<lambda>(k, v) t. insert_ignore k v t) es m)"
  "map_of (fold (\<lambda>(k, v) t. insert_ignore k v t) es m) l =
     (case map_of m l of Some v \<Rightarrow> Some v | None \<Rightarrow> map_of es l)"
  by (induction es arbitrary: m) (auto simp: map_of_insert_ignore split: option.splits)

lemma map_of_header_rows:
  "map_of (concat (map header_rows_of events)) (i, k) =
     (case filter (\<lambda>(j, h). j = i \<and> map_of h k \<noteq> None) events of [] \<Rightarrow> None | (_, h) # _ \<Rightarrow> map_of h k)"
proof (induction events)
  case (Cons e events)
  obtain j h where e: "e = (j, h)" by (cases e)
  have "map_of (header_rows_of (j, h)) (i, k) = (if j = i then map_of h k else None)"
    by (induction h) (auto simp: header_rows_of_def)
  then show ?case
    using Cons.IH by (simp add: e map_add_def split: option.splits)
qed simp

lemma write_header_rows_wf: "bt_wf tbl \<Longrightarrow> bt_wf (write_header_rows tbl events)"
  by (simp add: write_header_rows_def HEADER_ROWS_PER_INSERT_def fold_chunks fold_insert_ignore)

lemma write_header_rows_lookup:
  "map_of (write_header_rows tbl events) (i, k) =
     (case map_of tbl (i, k) of
        Some v \<Rightarrow> Some v
      | None \<Rightarrow> (case filter (\<lambda>(j, h). j = i \<and> map_of h k \<noteq> None) events of
                  [] \<Rightarrow> None | (_, h) # _ \<Rightarrow> map_of h k))"
  unfolding map_of_header_rows [symmetric]
  by (simp add: write_header_rows_def HEADER_ROWS_PER_INSERT_def fold_chunks fold_insert_ignore)

section \<open>Merging the branches\<close>

lemma take_two_branches:
  "distinct xs \<Longrightarrow> l \<le> m \<Longrightarrow> l \<le> n \<Longrightarrow>
   take l (filter (\<lambda>y. y \<in> set (take m (filter P xs)) \<or> y \<in> set (take n (filter Q xs))) xs) =
   take l (filter (\<lambda>y. P y \<or> Q y) xs)"
proof (induction xs arbitrary: l m n)
  case (Cons x xs)
  have x: "x \<notin> set xs" using Cons.prems by simp
  have sub: "x \<notin> set (take k (filter R xs))" for k R
    using x by (auto dest: in_set_takeD)
  define m' where "m' = (if P x then m - 1 else m)"
  define n' where "n' = (if Q x then n - 1 else n)"
  define sel where "sel y \<longleftrightarrow> y \<in> set (take m (filter P (x # xs))) \<or> y \<in> set (take n (filter Q (x # xs)))" for y
  have rest: "filter sel xs =
      filter (\<lambda>y. y \<in> set (take m' (filter P xs)) \<or> y \<in> set (take n' (filter Q xs))) xs"
    using x by (intro filter_cong) (auto simp: sel_def m'_def n'_def take_Cons' split: if_splits)
  have "take l (filter sel (x # xs)) = take l (filter (\<lambda>y. P y \<or> Q y) (x # xs))"
  proof (cases l)
    case (Suc k)
    then have mn: "k \<le> m'" "k \<le> n'" "0 < m" "0 < n"
      using Cons.prems by (auto simp: m'_def n'_def)
    show ?thesis
    proof (cases "P x \<or> Q x")
      case True
      then have "sel x"
        using mn by (auto simp: sel_def take_Cons')
      then show ?thesis
        using Cons.IH [of k m' n'] Cons.prems(1) mn True Suc by (simp add: rest)
    next
      case False
      then have "\<not> sel x"
        using sub by (simp add: sel_def)
      moreover have "Suc k \<le> m'" "Suc k \<le> n'"
        using False Cons.prems Suc by (auto simp: m'_def n'_def)
      ultimately show ?thesis
        using Cons.IH [of "Suc k" m' n'] Cons.prems(1) False Suc by (simp add: rest)
    qed
  qed simp
  then show ?case unfolding sel_def [abs_def] .
qed simp

lemma kept_rev: "kept limit True xs = rev (kept limit False (rev xs))"
  by (simp add: kept_def rev_take)

lemma kept_two_branches:
  assumes "distinct xs"
  shows "kept limit tail (filter (\<lambda>y. y \<in> set (kept limit tail (filter P xs)) \<or>
      y \<in> set (kept limit tail (filter Q xs))) xs) = kept limit tail (filter (\<lambda>y. P y \<or> Q y) xs)"
proof (cases tail)
  case True
  then show ?thesis
    using take_two_branches [of "rev xs" limit limit limit P Q] assms
    by (simp add: kept_rev rev_filter kept_def [of _ False])
next
  case False
  then show ?thesis
    using take_two_branches [of xs limit limit limit P Q] assms by (simp add: kept_def)
qed

lemma dedup_by_sorted:
  "sorted (map key xs) \<Longrightarrow> inj_on key (set xs) \<Longrightarrow>
   set (dedup_by key xs) = set xs \<and> sorted_wrt (<) (map key (dedup_by key xs))"
proof (induction key xs rule: dedup_by.induct)
  case (1 key a b xs)
  show ?case
  proof (cases "key b = key a")
    case True
    have "b = a" by (rule inj_onD [OF 1(4) True]) simp_all
    then show ?thesis using 1(1) [OF True] 1(3,4) by simp
  next
    case False
    then have "set (dedup_by key (b # xs)) = set (b # xs)"
      "sorted_wrt (<) (map key (dedup_by key (b # xs)))"
      using 1(2) [OF False] 1(3,4) by simp_all
    moreover have "\<forall>y \<in> set (b # xs). key a < key y"
      using 1(3) False by (auto simp: order.order_iff_strict intro: order.strict_trans2)
    ultimately show ?thesis using False by simp
  qed
qed simp_all

lemma strict_sorted_key_unique:
  fixes key :: "'r \<Rightarrow> 'k::linorder"
  assumes "sorted_wrt (<) (map key xs)" "sorted_wrt (<) (map key ys)" "set xs = set ys"
  shows "xs = ys"
proof (rule map_inj_on [where f = key])
  have "distinct (map key xs)" "sorted (map key xs)" "distinct (map key ys)" "sorted (map key ys)"
    using assms by (simp_all add: strict_sorted_iff)
  then show "map key xs = map key ys"
    using assms(3) by (intro sorted_distinct_set_unique) simp_all
  show "inj_on key (set xs \<union> set ys)"
    using \<open>distinct (map key xs)\<close> assms(3) by (simp add: distinct_map)
qed

lemma sorted_wrt_map_filter: "sorted_wrt R (map f xs) \<Longrightarrow> sorted_wrt R (map f (filter P xs))"
  by (simp add: sorted_wrt_map sorted_wrt_filter)

lemma merge_branches_set:
  assumes xs: "sorted_wrt (<) (map key xs)" and sub: "set (concat branches) \<subseteq> set xs"
  shows "merge_branches branches key limit tail = kept limit tail (filter (\<lambda>y. y \<in> set (concat branches)) xs)"
proof -
  let ?s = "sort_key key (concat branches)"
  have "inj_on key (set xs)"
    using xs by (auto simp: strict_sorted_iff distinct_map)
  then have "inj_on key (set ?s)"
    using sub by (auto elim: inj_on_subset)
  then have "set (dedup_by key ?s) = set ?s" "sorted_wrt (<) (map key (dedup_by key ?s))"
    using dedup_by_sorted [of key ?s] by simp_all
  then have "dedup_by key ?s = filter (\<lambda>y. y \<in> set (concat branches)) xs"
    using xs sub by (intro strict_sorted_key_unique [where key = key] sorted_wrt_map_filter) auto
  then show ?thesis by (simp add: merge_branches_def kept_def Let_def)
qed

text \<open>
  What a bounded scan returns: the branches are read to the limit each, in either order, and
  merged; the result is the same as one scan of the disjunction.
\<close>

definition scan_branch :: "nat \<Rightarrow> bool \<Rightarrow> 'r list \<Rightarrow> ('r \<Rightarrow> bool) \<Rightarrow> 'r list" where
  "scan_branch limit tail xs query =
     (if tail then take limit (rev (filter query xs)) else take limit (filter query xs))"

lemma set_scan_branch: "set (scan_branch limit tail xs query) = set (kept limit tail (filter query xs))"
  by (cases tail) (simp_all add: scan_branch_def kept_rev kept_def [of _ False] rev_filter)

lemma addressee_scan_exact:
  assumes xs: "sorted_wrt (<) (map key xs)"
  shows "merge_branches (map (scan_branch limit tail xs) (addressee_branches peer leading query addressed_to)) key limit tail =
    kept limit tail (filter (\<lambda>r. query r \<and>
      is_none_or addressed_to (admitted_by \<lparr> ad_peer = peer r, ad_leading_mention = leading r \<rparr>)) xs)"
proof -
  have sub: "set (scan_branch l t xs q) \<subseteq> set xs" for l t q
    by (auto simp: scan_branch_def dest: in_set_takeD)
  have dist: "distinct xs"
    using xs by (simp add: strict_sorted_iff distinct_map)
  show ?thesis
  proof (cases addressed_to)
    case None
    have "kept limit tail (filter (\<lambda>y. y \<in> set (kept limit tail (filter query xs))) xs) = kept limit tail (filter query xs)"
      using kept_two_branches [OF dist, of limit tail query query] by simp
    then show ?thesis
      using None sub by (simp add: addressee_branches_def merge_branches_set [OF xs] set_scan_branch)
  next
    case (Some a)
    have "(\<lambda>r. query r \<and> admitted_by \<lparr> ad_peer = peer r, ad_leading_mention = leading r \<rparr> a) =
        (\<lambda>r. query r \<and> peer r = Some (af_peer a) \<or> query r \<and> leading r)"
      by (auto simp: admitted_by_def)
    then show ?thesis
      using Some sub kept_two_branches [OF dist, of limit tail "\<lambda>r. query r \<and> peer r = Some (af_peer a)" "\<lambda>r. query r \<and> leading r"]
      by (simp add: addressee_branches_def merge_branches_set [OF xs] set_scan_branch)
  qed
qed

end
