(* ===== verification/Sql_Bus_Sink.thy ===== *)
theory Sql_Bus_Sink
  imports Bus_Sink Store_Rows Sql_Header_Query
begin

text \<open>
  The durable tier of the event server on SQLite (\<open>airc-store/src/bus_sink.rs\<close>,
  \<open>bus_epoch_store.rs\<close>): the tables \<open>bus_events\<close>, \<open>bus_event_headers\<close> and \<open>bus_epoch\<close>, and the
  operations of \<open>DurableSink\<close> as queries on them. \<open>sink_env\<close> holds what other crates do: the
  JSON codec of targets and headers (\<open>serde_json\<close>, with its error text), the admission of
  a write (lock files, the migration table) and the database driver, which may fail any
  statement; a failed transaction leaves the tables as they were.
\<close>

section \<open>Tables\<close>

record bus_event_row =
  bev_room_id :: uuid
  bev_epoch :: int
  bev_counter :: int
  bev_kind :: string
  bev_delivery :: string
  bev_target :: json
  bev_correlation_id :: "uuid option"
  bev_coalesce_key :: "string option"
  bev_headers :: json
  bev_payload :: "8 word list"
  bev_peer_id :: uuid
  bev_client_id :: uuid
  bev_occurred_at_ms :: int
  bev_addressed_peer :: "uuid option"
  bev_leading_mention :: bool
  bev_derived_version :: int

record sqlite_sink =
  qs_events :: "(uuid, bus_event_row) btree"
  qs_headers :: header_table
  qs_epoch :: "int option"

record sink_env =
  sv_deps :: bus_deps
  sv_target_json :: "target \<Rightarrow> string + json"
  sv_target_of :: "json \<Rightarrow> string + target"
  sv_headers_json :: "headers \<Rightarrow> string + json"
  sv_headers_of :: "json \<Rightarrow> string + headers"
  sv_admit :: "sqlite_sink \<Rightarrow> bus_error option"
  sv_write :: "sqlite_sink \<Rightarrow> bus_error option"
  sv_read :: "sqlite_sink \<Rightarrow> bus_error option"

definition sqlite_sink_empty :: sqlite_sink where
  "sqlite_sink_empty = \<lparr> qs_events = [], qs_headers = [], qs_epoch = None \<rparr>"

section \<open>Envelopes and rows\<close>

fun kind_to_text :: "kind \<Rightarrow> string" where
  "kind_to_text KMessage = ''message''"
| "kind_to_text KEvent = ''event''"
| "kind_to_text KCommand = ''command''"
| "kind_to_text KCommandResult = ''command_result''"
| "kind_to_text KSignal = ''signal''"
| "kind_to_text KStreamChunk = ''stream_chunk''"
| "kind_to_text KControl = ''control''"

definition kind_from_text :: "string \<Rightarrow> bus_error + kind" where
  "kind_from_text text =
     (if text = ''message'' then Inr KMessage
      else if text = ''event'' then Inr KEvent
      else if text = ''command'' then Inr KCommand
      else if text = ''command_result'' then Inr KCommandResult
      else if text = ''signal'' then Inr KSignal
      else if text = ''stream_chunk'' then Inr KStreamChunk
      else if text = ''control'' then Inr KControl
      else Inl (BE_Sink (''unknown bus_events.kind: '' @ text)))"

fun delivery_to_text :: "delivery_class \<Rightarrow> string" where
  "delivery_to_text DC_Durable = ''durable''"
| "delivery_to_text DC_EphemeralLatest = ''ephemeral_latest''"
| "delivery_to_text DC_EphemeralWindow = ''ephemeral_window''"
| "delivery_to_text DC_RequestResponse = ''request_response''"
| "delivery_to_text DC_StreamChunk = ''stream_chunk''"

definition delivery_from_text :: "string \<Rightarrow> bus_error + delivery_class" where
  "delivery_from_text text =
     (if text = ''durable'' then Inr DC_Durable
      else if text = ''ephemeral_latest'' then Inr DC_EphemeralLatest
      else if text = ''ephemeral_window'' then Inr DC_EphemeralWindow
      else if text = ''request_response'' then Inr DC_RequestResponse
      else if text = ''stream_chunk'' then Inr DC_StreamChunk
      else Inl (BE_Sink (''unknown bus_events.delivery: '' @ text)))"

definition bus_codec :: "string + 'a \<Rightarrow> bus_error + 'a" where
  "bus_codec r = (case r of Inl e \<Rightarrow> Inl (BE_Sink (''envelope codec error: '' @ e)) | Inr a \<Rightarrow> Inr a)"

definition show_int :: "int \<Rightarrow> string" where
  "show_int i = (if i < 0 then CHR ''-'' # show_nat (nat (- i)) else show_nat (nat i))"

definition bus_u64_to_i64 :: "string \<Rightarrow> u64 \<Rightarrow> bus_error + int" where
  "bus_u64_to_i64 field value =
     (if uint value < 2 ^ 63 then Inr (uint value)
      else Inl (BE_Sink (field @ '' out of i64 range: '' @ show_int (uint value))))"

definition bus_i64_to_u64 :: "string \<Rightarrow> int \<Rightarrow> bus_error + u64" where
  "bus_i64_to_u64 field value =
     (if 0 \<le> value then Inr (word_of_int value)
      else Inl (BE_Sink (field @ '' out of u64 range: '' @ show_int value)))"

definition bus_to_active_model :: "sink_env \<Rightarrow> envelope \<Rightarrow> bus_error + uuid \<times> bus_event_row" where
  "bus_to_active_model v e =
     (let addressing = env_addressing (sv_deps v) e
      in res_bind (bus_u64_to_i64 ''bus_events.epoch'' (sq_epoch (en_seq e))) (\<lambda>epoch.
         res_bind (bus_u64_to_i64 ''bus_events.counter'' (sq_counter (en_seq e))) (\<lambda>counter.
         res_bind (bus_codec (sv_target_json v (en_target e))) (\<lambda>target.
         res_bind (bus_codec (sv_headers_json v (en_headers e))) (\<lambda>headers.
         res_bind (bus_u64_to_i64 ''bus_events.occurred_at_ms'' (en_occurred_at_ms e)) (\<lambda>occurred.
         Inr (en_event_id e,
           \<lparr> bev_room_id = en_channel e, bev_epoch = epoch, bev_counter = counter,
             bev_kind = kind_to_text (en_kind e), bev_delivery = delivery_to_text (en_delivery e),
             bev_target = target, bev_correlation_id = en_correlation_id e,
             bev_coalesce_key = en_coalesce_key e, bev_headers = headers,
             bev_payload = en_payload e, bev_peer_id = fst (en_from e),
             bev_client_id = snd (en_from e), bev_occurred_at_ms = occurred,
             bev_addressed_peer = ad_peer addressing,
             bev_leading_mention = ad_leading_mention addressing,
             bev_derived_version = DERIVED_VERSION \<rparr>)))))))"

definition bus_from_model :: "sink_env \<Rightarrow> uuid \<times> bus_event_row \<Rightarrow> bus_error + envelope" where
  "bus_from_model v = (\<lambda>(event_id, m).
     res_bind (bus_codec (sv_target_of v (bev_target m))) (\<lambda>target.
     res_bind (bus_codec (sv_headers_of v (bev_headers m))) (\<lambda>headers.
     res_bind (kind_from_text (bev_kind m)) (\<lambda>kind.
     res_bind (delivery_from_text (bev_delivery m)) (\<lambda>delivery.
     res_bind (bus_i64_to_u64 ''bus_events.epoch'' (bev_epoch m)) (\<lambda>epoch.
     res_bind (bus_i64_to_u64 ''bus_events.counter'' (bev_counter m)) (\<lambda>counter.
     res_bind (bus_i64_to_u64 ''bus_events.occurred_at_ms'' (bev_occurred_at_ms m)) (\<lambda>occurred.
     Inr \<lparr> en_event_id = event_id, en_channel = bev_room_id m,
           en_from = (bev_peer_id m, bev_client_id m), en_target = target, en_kind = kind,
           en_delivery = delivery, en_seq = Seq epoch counter, en_occurred_at_ms = occurred,
           en_correlation_id = bev_correlation_id m, en_coalesce_key = bev_coalesce_key m,
           en_headers = headers, en_payload = bev_payload m \<rparr>))))))))"

section \<open>Writing\<close>

definition sql_append_batch :: "sink_env \<Rightarrow> sqlite_sink \<Rightarrow> envelope list \<Rightarrow> (bus_error + unit) \<times> sqlite_sink" where
  "sql_append_batch v s events =
     (if events = [] then (Inr (), s)
      else case sv_admit v s of
        Some e \<Rightarrow> (Inl e, s)
      | None \<Rightarrow>
          case collect_results (bus_to_active_model v) events of
            Inl e \<Rightarrow> (Inl e, s)
          | Inr actives \<Rightarrow>
              (case sv_write v s of
                 Some e \<Rightarrow> (Inl e, s)
               | None \<Rightarrow>
                   (Inr (), s\<lparr> qs_events := fold (\<lambda>(i, row) tbl. insert_ignore i row tbl) actives (qs_events s),
                              qs_headers := write_header_rows (qs_headers s)
                                (map (\<lambda>e. (en_event_id e, en_headers e)) events) \<rparr>)))"

definition sql_append :: "sink_env \<Rightarrow> sqlite_sink \<Rightarrow> envelope \<Rightarrow> (bus_error + unit) \<times> sqlite_sink" where
  "sql_append v s e = sql_append_batch v s [e]"

text \<open>
  \<open>SqliteEpochStore::bump\<close> through \<open>bump_epoch\<close>: insert 1 or increment, read back. The column
  is an \<open>i64\<close>; the model does not follow SQLite past \<open>2 ^ 63\<close> daemon starts.
\<close>

definition sql_bump_epoch :: "sink_env \<Rightarrow> sqlite_sink \<Rightarrow> (bus_error + u64) \<times> sqlite_sink" where
  "sql_bump_epoch v s =
     (case sv_admit v s of
        Some e \<Rightarrow> (Inl e, s)
      | None \<Rightarrow>
          case sv_write v s of
            Some e \<Rightarrow> (Inl e, s)
          | None \<Rightarrow>
              let epoch = (case qs_epoch s of None \<Rightarrow> 1 | Some old \<Rightarrow> old + 1)
              in (if 0 \<le> epoch then Inr (word_of_int epoch)
                  else Inl (BE_Sink (''bus_epoch out of u64 range: '' @ show_int epoch)),
                  s\<lparr> qs_epoch := Some epoch \<rparr>))"

section \<open>Reading\<close>

text \<open>The rows in the order of the composite index.\<close>

definition bus_row_key :: "uuid \<times> bus_event_row \<Rightarrow> int \<times> int \<times> uuid" where
  "bus_row_key = (\<lambda>(i, r). (bev_epoch r, bev_counter r, i))"

definition ordered_rows :: "sqlite_sink \<Rightarrow> (uuid \<times> bus_event_row) list" where
  "ordered_rows s = sort_key bus_row_key (qs_events s)"

definition sql_bounded :: "nat \<Rightarrow> nat" where
  "sql_bounded limit = min limit (2 ^ 63 - 1)"

definition sql_strictly_after :: "cursor \<Rightarrow> uuid \<times> bus_event_row \<Rightarrow> bool" where
  "sql_strictly_after c = (\<lambda>(i, r).
     let epoch = as_i64 (sq_epoch (cu_seq c)); counter = as_i64 (sq_counter (cu_seq c)) in
     epoch < bev_epoch r \<or> bev_epoch r = epoch \<and> counter < bev_counter r \<or>
     bev_epoch r = epoch \<and> bev_counter r = counter \<and> cu_event_id c < i)"

definition sql_strictly_before :: "cursor \<Rightarrow> uuid \<times> bus_event_row \<Rightarrow> bool" where
  "sql_strictly_before c = (\<lambda>(i, r).
     let epoch = as_i64 (sq_epoch (cu_seq c)); counter = as_i64 (sq_counter (cu_seq c)) in
     bev_epoch r < epoch \<or> bev_epoch r = epoch \<and> bev_counter r < counter \<or>
     bev_epoch r = epoch \<and> bev_counter r = counter \<and> i < cu_event_id c)"

definition matching_rows :: "sqlite_sink \<Rightarrow> room_id \<Rightarrow> cursor \<Rightarrow> cursor \<Rightarrow> header_filter \<Rightarrow> uuid \<times> bus_event_row \<Rightarrow> bool" where
  "matching_rows s channel after through headers = (\<lambda>(i, r).
     bev_room_id r = channel \<and> sql_strictly_after after (i, r) \<and>
     (sql_strictly_before through (i, r) \<or> i = cu_event_id through) \<and>
     sql_predicate headers (qs_headers s) i \<and> bev_delivery r = ''durable'')"

text \<open>A query that the driver answers, then the decoding of its rows.\<close>

definition sql_query ::
  "sink_env \<Rightarrow> sqlite_sink \<Rightarrow> (bus_error + 'a) \<Rightarrow> bus_error + 'a" where
  "sql_query v s answer = (case sv_read v s of Some e \<Rightarrow> Inl e | None \<Rightarrow> answer)"

definition sql_page_matching ::
  "sink_env \<Rightarrow> sqlite_sink \<Rightarrow> room_id \<Rightarrow> cursor \<Rightarrow> cursor \<Rightarrow> history_match \<Rightarrow> nat \<Rightarrow> bool \<Rightarrow> bus_error + envelope list" where
  "sql_page_matching v s channel after through rule limit tail =
     sql_query v s (collect_results (bus_from_model v)
       (merge_branches
          (map (scan_branch (sql_bounded limit) tail (ordered_rows s))
             (addressee_branches (\<lambda>(_, r). bev_addressed_peer r) (\<lambda>(_, r). bev_leading_mention r)
                (matching_rows s channel after through (hm_headers rule)) (hm_addressed_to rule)))
          bus_row_key limit tail))"

definition sql_count_matching ::
  "sink_env \<Rightarrow> sqlite_sink \<Rightarrow> room_id \<Rightarrow> cursor \<Rightarrow> cursor \<Rightarrow> header_filter \<Rightarrow> runtime_self option \<Rightarrow> bus_error + history_count" where
  "sql_count_matching v s channel after through headers exclude =
     sql_query v s (res_bind
       (collect_results (\<lambda>(_, r). bus_i64_to_u64 ''occurred_at_ms'' (bev_occurred_at_ms r))
          (take (HISTORY_COUNT_CAP + 1) (rev (filter (\<lambda>(i, r).
             matching_rows s channel after through headers (i, r) \<and>
             is_none_or exclude (\<lambda>rule. not_runtime_self rule (qs_headers s) i (bev_client_id r)))
             (ordered_rows s)))))
       (\<lambda>times. Inr (of_newest times)))"

definition sql_page ::
  "sink_env \<Rightarrow> sqlite_sink \<Rightarrow> room_id \<Rightarrow> cursor option \<Rightarrow> nat \<Rightarrow> (bus_error + envelope list) \<times> sqlite_sink" where
  "sql_page v s channel from_cursor limit =
     (sql_query v s (collect_results (bus_from_model v)
        (take (sql_bounded limit) (filter (\<lambda>(i, r). bev_room_id r = channel \<and>
           is_none_or from_cursor (\<lambda>c. sql_strictly_after c (i, r))) (ordered_rows s)))), s)"

definition sql_page_tail :: "sink_env \<Rightarrow> sqlite_sink \<Rightarrow> room_id \<Rightarrow> cursor option \<Rightarrow> nat \<Rightarrow> bus_error + envelope list" where
  "sql_page_tail v s channel before limit =
     sql_query v s (collect_results (bus_from_model v)
       (rev (take (sql_bounded limit) (rev (filter (\<lambda>(i, r). bev_room_id r = channel \<and>
          is_none_or before (\<lambda>c. sql_strictly_before c (i, r))) (ordered_rows s))))))"

definition sql_page_tail_of_kinds ::
  "sink_env \<Rightarrow> sqlite_sink \<Rightarrow> room_id \<Rightarrow> cursor option \<Rightarrow> kind list \<Rightarrow> nat \<Rightarrow> bus_error + envelope list" where
  "sql_page_tail_of_kinds v s channel before kinds limit =
     sql_query v s (collect_results (bus_from_model v)
       (rev (take (sql_bounded limit) (rev (filter (\<lambda>(i, r). bev_room_id r = channel \<and>
          bev_kind r \<in> set (map kind_to_text kinds) \<and>
          is_none_or before (\<lambda>c. sql_strictly_before c (i, r))) (ordered_rows s))))))"

definition sql_head_cursor :: "sink_env \<Rightarrow> sqlite_sink \<Rightarrow> room_id \<Rightarrow> bus_error + cursor option" where
  "sql_head_cursor v s channel =
     sql_query v s (Inr (map_option (\<lambda>(i, r). Cursor (Seq (as_u64 (bev_epoch r)) (as_u64 (bev_counter r))) i)
       (last_opt (filter (\<lambda>(_, r). bev_room_id r = channel) (ordered_rows s)))))"

definition sql_contains :: "sink_env \<Rightarrow> sqlite_sink \<Rightarrow> event_id \<Rightarrow> bus_error + bool" where
  "sql_contains v s i = sql_query v s (Inr (bt_contains (qs_events s) i))"

definition sqlite_sink_ops :: "sink_env \<Rightarrow> sqlite_sink sink_ops" where
  "sqlite_sink_ops v =
     \<lparr> so_append_batch = sql_append_batch v, so_page = sql_page v, so_page_tail = sql_page_tail v,
       so_page_tail_of_kinds = sql_page_tail_of_kinds v, so_page_matching = sql_page_matching v,
       so_count_matching = sql_count_matching v, so_head_cursor = sql_head_cursor v,
       so_contains = sql_contains v \<rparr>"

end
