(* ===== verification/Sql_Event_Table.thy ===== *)
theory Sql_Event_Table
  imports Sql_Header_Query Store_Rows
begin

text \<open>
  What the two event tables have in common (\<open>airc-store/src/event_table.rs\<close>, the trait
  \<open>EventTable\<close>): a row and the header rows per event, an order of the index, a decoder. The
  locale states the laws of a table; its lemmas say that the table is the ordered list of
  the events stored, and that every query is a slice of that list. Both tables interpret it.
\<close>

section \<open>Tables that hold a set of events\<close>

definition represents ::
  "('e \<Rightarrow> uuid) \<Rightarrow> ('e \<Rightarrow> headers) \<Rightarrow> ('e \<Rightarrow> 'r) \<Rightarrow> ('e \<Rightarrow> bool) \<Rightarrow> (uuid, 'r) btree \<Rightarrow> header_table \<Rightarrow> 'e set \<Rightarrow> bool" where
  "represents ident hdrs row ok tbl htbl E \<longleftrightarrow>
     bt_wf tbl \<and> bt_wf htbl \<and> inj_on ident E \<and>
     (\<forall>e \<in> E. ok e \<and> map_of tbl (ident e) = Some (row e) \<and> reflects htbl (ident e) (hdrs e)) \<and>
     (\<forall>i. i \<notin> ident ` E \<longrightarrow> map_of tbl i = None \<and> (\<forall>k. map_of htbl (i, k) = None))"

lemma represents_empty: "represents ident hdrs row ok [] [] {}"
  by (simp add: represents_def)

lemma represents_elem:
  assumes "represents ident hdrs row ok tbl htbl E" "e \<in> E"
  shows "ok e" "map_of tbl (ident e) = Some (row e)" "reflects htbl (ident e) (hdrs e)" "bt_wf htbl"
  using assms by (simp_all add: represents_def)

lemma represents_contains:
  assumes "represents ident hdrs row ok tbl htbl E"
  shows "bt_contains tbl i \<longleftrightarrow> i \<in> ident ` E"
  using assms by (auto simp: represents_def bt_contains_def)

lemma represents_rows:
  assumes "represents ident hdrs row ok tbl htbl E"
  shows "set tbl = (\<lambda>e. (ident e, row e)) ` E"
proof -
  have wf: "bt_wf tbl" using assms by (simp add: represents_def)
  have "(i, r) \<in> set tbl \<longleftrightarrow> (i, r) \<in> (\<lambda>e. (ident e, row e)) ` E" for i r
  proof
    assume "(i, r) \<in> set tbl"
    then have r: "map_of tbl i = Some r" using wf by (simp add: bt_wf_in_set)
    have "i \<in> ident ` E"
      by (rule ccontr) (use assms r in \<open>simp add: represents_def\<close>)
    then show "(i, r) \<in> (\<lambda>e. (ident e, row e)) ` E"
      using assms r by (auto simp: represents_def)
  next
    assume "(i, r) \<in> (\<lambda>e. (ident e, row e)) ` E"
    then show "(i, r) \<in> set tbl"
      using assms wf by (auto simp: represents_def bt_wf_in_set)
  qed
  then show ?thesis by auto
qed

section \<open>Storing\<close>

lemma map_of_stored:
  assumes inj: "inj_on ident (set es)" and e: "e \<in> set es"
  shows "map_of (map (\<lambda>e. (ident e, row e)) es) (ident e) = Some (row e)"
proof -
  have "map_of (map (\<lambda>e. (ident e, row e)) ds) (ident e) = Some (row e)" if "e \<in> set ds" "set ds \<subseteq> set es" for ds
    using that
  proof (induction ds)
    case (Cons x ds)
    then have "ident x = ident e \<Longrightarrow> x = e"
      using inj e by (auto dest: inj_onD)
    then show ?case using Cons by (cases "x = e") auto
  qed simp
  then show ?thesis using e by simp
qed

lemma header_rows_reflect:
  assumes inj: "inj_on ident (E \<union> set es)"
    and old: "\<And>e. e \<in> E \<Longrightarrow> reflects tbl (ident e) (hdrs e)"
    and free: "\<And>i k. i \<notin> ident ` E \<Longrightarrow> map_of tbl (i, k) = None"
    and e: "e \<in> E \<union> set es"
  shows "reflects (write_header_rows tbl (map (\<lambda>e. (ident e, hdrs e)) es)) (ident e) (hdrs e)"
proof -
  let ?rows = "map (\<lambda>e. (ident e, hdrs e)) es"
  have same: "x = e" if "x \<in> set es" "ident x = ident e" for x
    using inj that e by (auto dest: inj_onD)
  have first: "(case filter (\<lambda>(j, h). j = ident e \<and> map_of h k \<noteq> None) ?rows of
      [] \<Rightarrow> None | (_, h) # _ \<Rightarrow> map_of h k) = (if e \<in> set es then map_of (hdrs e) k else None)" for k
  proof (cases "filter (\<lambda>(j, h). j = ident e \<and> map_of h k \<noteq> None) ?rows")
    case Nil
    then have "e \<in> set es \<Longrightarrow> map_of (hdrs e) k = None"
      by (auto simp: filter_empty_conv)
    then show ?thesis using Nil by simp
  next
    case (Cons p ps)
    then have "p \<in> set (filter (\<lambda>(j, h). j = ident e \<and> map_of h k \<noteq> None) ?rows)" by simp
    then obtain x where "x \<in> set es" "p = (ident x, hdrs x)" "ident x = ident e" by auto
    then have "p = (ident e, hdrs e) \<and> e \<in> set es"
      using same [of x] by simp
    then show ?thesis using Cons by simp
  qed
  show ?thesis
  proof (cases "e \<in> E")
    case True
    then show ?thesis
      using old [OF True] first by (auto simp: reflects_def write_header_rows_lookup split: option.splits)
  next
    case False
    then have "ident e \<notin> ident ` E"
      using inj e by (auto dest: inj_onD)
    then show ?thesis
      using free first e False by (auto simp: reflects_def write_header_rows_lookup)
  qed
qed

lemma represents_append:
  assumes repr: "represents ident hdrs row ok tbl htbl E"
    and inj: "inj_on ident (E \<union> set es)" and ok: "\<forall>e \<in> set es. ok e"
  shows "represents ident hdrs row ok
    (fold (\<lambda>(i, r) t. insert_ignore i r t) (map (\<lambda>e. (ident e, row e)) es) tbl)
    (write_header_rows htbl (map (\<lambda>e. (ident e, hdrs e)) es)) (E \<union> set es)"
    (is "represents _ _ _ _ ?tbl ?htbl _")
proof -
  have inj_es: "inj_on ident (set es)"
    using inj by (rule inj_on_subset) simp
  have tbl: "map_of ?tbl i = (case map_of tbl i of
      Some r \<Rightarrow> Some r | None \<Rightarrow> map_of (map (\<lambda>e. (ident e, row e)) es) i)" for i
    by (simp add: fold_insert_ignore)
  have row: "map_of ?tbl (ident e) = Some (row e)" if "e \<in> E \<union> set es" for e
  proof (cases "e \<in> E")
    case True
    then show ?thesis using repr by (simp add: tbl represents_def)
  next
    case False
    then have "e \<in> set es" "ident e \<notin> ident ` E"
      using that inj by (auto dest: inj_onD)
    then show ?thesis
      using repr by (simp add: tbl represents_def map_of_stored [OF inj_es])
  qed
  have free: "map_of ?tbl i = None \<and> (\<forall>k. map_of ?htbl (i, k) = None)" if "i \<notin> ident ` (E \<union> set es)" for i
  proof -
    have "filter (\<lambda>(j, h). j = i \<and> map_of h k \<noteq> None) (map (\<lambda>e. (ident e, hdrs e)) es) = []" for k
      using that by (auto simp: filter_empty_conv)
    moreover have "map_of (map (\<lambda>e. (ident e, row e)) es) i = None"
      using that by (auto simp: map_of_eq_None_iff)
    ultimately show ?thesis
      using that repr unfolding tbl write_header_rows_lookup by (simp add: represents_def image_Un)
  qed
  have refl: "reflects ?htbl (ident e) (hdrs e)" if "e \<in> E \<union> set es" for e
    using repr that by (intro header_rows_reflect [OF inj]) (simp_all add: represents_def)
  show ?thesis
    unfolding represents_def
  proof (intro conjI ballI allI impI)
    show "bt_wf ?tbl" "bt_wf ?htbl"
      using repr by (simp_all add: represents_def fold_insert_ignore write_header_rows_wf)
    show "ok e" if "e \<in> E \<union> set es" for e
      using that repr ok by (auto simp: represents_def)
  qed (use inj row free refl in auto)
qed

section \<open>Reading\<close>

text \<open>The newest \<open>limit\<close> entries of a list, as a reversed descending scan.\<close>

lemma kept_tail: "kept limit True xs = rev (take limit (rev xs))"
  by (simp add: kept_def rev_take)

lemma kept_head: "kept limit False xs = take limit xs"
  by (simp add: kept_def)

lemma kept_subset: "set (kept limit tail (filter Q es)) \<subseteq> set es"
  by (auto simp: kept_def dest: in_set_takeD in_set_dropD)

lemma kept_map: "kept limit tail (map f xs) = map f (kept limit tail xs)"
  by (simp add: kept_def take_map drop_map)

lemma filter_rows:
  assumes "\<And>e. e \<in> set es \<Longrightarrow> P (f e) \<longleftrightarrow> Q e"
  shows "filter P (map f es) = map f (filter Q es)"
  using assms by (induction es) auto

lemma strict_max_last:
  fixes key :: "'a \<Rightarrow> 'k::linorder"
  assumes "sorted_wrt (<) (map key xs)" "e \<in> set xs" "\<forall>x \<in> set xs. key x \<le> key e"
  shows "last xs = e"
proof (cases xs rule: rev_cases)
  case (snoc ys y)
  then show ?thesis using assms by (auto simp: sorted_wrt_append not_less dest: leD)
qed (use assms in simp)

lemma distinct_map_sort: "distinct (map f xs) \<Longrightarrow> distinct (map f (sort_key g xs))"
  by (simp add: distinct_map)

lemma addressing_eta [simp]: "\<lparr> ad_peer = ad_peer a, ad_leading_mention = ad_leading_mention a \<rparr> = a"
  by (cases a) simp

locale event_table =
  fixes ident :: "'e \<Rightarrow> uuid"
    and hdrs :: "'e \<Rightarrow> headers"
    and row :: "'e \<Rightarrow> 'r"
    and ok :: "'e \<Rightarrow> bool"
    and decode :: "uuid \<times> 'r \<Rightarrow> 'x + 'e"
    and rowkey :: "uuid \<times> 'r \<Rightarrow> 'k::linorder"
    and position :: "'e \<Rightarrow> 'o::linorder"
  assumes decode_row: "ok e \<Longrightarrow> decode (ident e, row e) = Inr e"
    and key_order: "ok e \<Longrightarrow> ok f \<Longrightarrow> rowkey (ident e, row e) < rowkey (ident f, row f) \<longleftrightarrow> position e < position f"
    and key_ident: "rowkey p = rowkey q \<Longrightarrow> fst p = fst q"
begin

abbreviation stored_row :: "'e \<Rightarrow> uuid \<times> 'r" where
  "stored_row e \<equiv> (ident e, row e)"

text \<open>The rows in index order are the events in their order.\<close>

lemma view:
  assumes repr: "represents ident hdrs row ok tbl htbl E"
  shows "\<exists>es. sort_key rowkey tbl = map stored_row es \<and> set es = E \<and> sorted_wrt (<) (map position es)"
proof -
  define es where "es = map (\<lambda>p. projr (decode p)) (sort_key rowkey tbl)"
  have rows: "set (sort_key rowkey tbl) = stored_row ` E"
    using represents_rows [OF repr] by simp
  have dec: "decode (stored_row e) = Inr e" if "e \<in> E" for e
    using that represents_elem(1) [OF repr] decode_row by blast
  have "stored_row (projr (decode p)) = p" if "p \<in> set (sort_key rowkey tbl)" for p
    using that dec unfolding rows by auto
  then have map: "sort_key rowkey tbl = map stored_row es"
    unfolding es_def map_map by (intro map_idI [symmetric]) simp
  have set: "set es = E"
    unfolding es_def set_map rows using dec by force
  have "distinct (map fst tbl)"
    using repr by (simp add: represents_def bt_wf_distinct)
  then have "distinct (map fst (sort_key rowkey tbl))"
    by (rule distinct_map_sort)
  then have "distinct (map rowkey (sort_key rowkey tbl))"
    unfolding distinct_map inj_on_def using key_ident by blast
  then have "sorted_wrt (<) (map rowkey (map stored_row es))"
    unfolding map [symmetric] by (simp add: strict_sorted_iff)
  then have "sorted_wrt (\<lambda>e f. rowkey (stored_row e) < rowkey (stored_row f)) es"
    by (simp add: sorted_wrt_map)
  then have "sorted_wrt (<) (map position es)"
    unfolding sorted_wrt_map
    by (rule sorted_wrt_mono_rel [rotated]) (use key_order represents_elem(1) [OF repr] set in auto)
  then show ?thesis using map set by blast
qed

lemma decode_list: "\<forall>e \<in> set xs. ok e \<Longrightarrow> collect_results decode (map stored_row xs) = Inr xs"
  by (induction xs) (simp_all add: decode_row)

lemma rows_strict:
  assumes "\<forall>e \<in> set es. ok e" "sorted_wrt (<) (map position es)"
  shows "sorted_wrt (<) (map rowkey (map stored_row es))"
proof -
  have "sorted_wrt (\<lambda>e f. position e < position f) es"
    using assms(2) by (simp add: sorted_wrt_map)
  then have "sorted_wrt (\<lambda>e f. rowkey (stored_row e) < rowkey (stored_row f)) es"
    by (rule sorted_wrt_mono_rel [rotated]) (use key_order assms(1) in auto)
  then show ?thesis by (simp add: sorted_wrt_map comp_def)
qed

text \<open>A bounded query, read in either direction and decoded.\<close>

lemma slice:
  assumes "\<forall>e \<in> set es. ok e" "\<And>e. e \<in> set es \<Longrightarrow> P (stored_row e) \<longleftrightarrow> Q e"
  shows "collect_results decode (kept limit tail (filter P (map stored_row es))) = Inr (kept limit tail (filter Q es))"
proof -
  have "filter P (map stored_row es) = map stored_row (filter Q es)"
    using assms(2) by (rule filter_rows)
  moreover have "\<forall>e \<in> set (kept limit tail (filter Q es)). ok e"
    using assms(1) kept_subset [of limit tail Q es] by blast
  ultimately show ?thesis
    by (simp add: kept_map decode_list)
qed

text \<open>A bounded history query: one select per addressee branch, merged.\<close>

lemma addressee_slice:
  assumes "\<forall>e \<in> set es. ok e" "sorted_wrt (<) (map position es)"
    and "\<And>e. e \<in> set es \<Longrightarrow> query (stored_row e) \<and>
      is_none_or addressed_to (admitted_by \<lparr> ad_peer = peer (stored_row e), ad_leading_mention = leading (stored_row e) \<rparr>) \<longleftrightarrow> Q e"
  shows "collect_results decode (merge_branches
      (map (scan_branch limit tail (map stored_row es)) (addressee_branches peer leading query addressed_to))
      rowkey limit tail) = Inr (kept limit tail (filter Q es))"
  unfolding addressee_scan_exact [OF rows_strict [OF assms(1,2)]]
  by (rule slice [OF assms(1)]) (rule assms(3))

end

end
