(* ===== verification/Sql_Bus_Refine.thy ===== *)
theory Sql_Bus_Refine
  imports Sql_Bus_Sink Sql_Event_Table
begin

text \<open>
  The SQLite durable tier holds the same envelopes in the same order as the in-memory sink,
  and answers every read alike: the in-memory sink is its specification. What this needs of
  the program's data: an event id names one envelope, strings are valid UTF-8, and a cursor
  is one the server hands out (its numbers fit an \<open>i64\<close>, as those of every stored row do).
\<close>

section \<open>Envelopes and their rows\<close>

definition codec_ok :: "sink_env \<Rightarrow> bool" where
  "codec_ok v \<longleftrightarrow>
     (\<forall>t j. sv_target_json v t = Inr j \<longrightarrow> sv_target_of v j = Inr t) \<and>
     (\<forall>h j. bt_wf h \<longrightarrow> sv_headers_json v h = Inr j \<longrightarrow> sv_headers_of v j = Inr h)"

definition env_ok :: "envelope \<Rightarrow> bool" where
  "env_ok e \<longleftrightarrow> bt_wf (en_headers e) \<and> headers_utf8 (en_headers e)"

definition bus_row :: "sink_env \<Rightarrow> envelope \<Rightarrow> bus_event_row" where
  "bus_row v e = snd (projr (bus_to_active_model v e))"

definition storable :: "sink_env \<Rightarrow> envelope \<Rightarrow> bool" where
  "storable v e \<longleftrightarrow> codec_ok v \<and> env_ok e \<and> (\<exists>p. bus_to_active_model v e = Inr p)"

definition cursor_ok :: "cursor \<Rightarrow> bool" where
  "cursor_ok c \<longleftrightarrow> uint (sq_epoch (cu_seq c)) < 2 ^ 63 \<and> uint (sq_counter (cu_seq c)) < 2 ^ 63"

lemma bus_u64_to_i64_Ok: "bus_u64_to_i64 f w = Inr i \<longleftrightarrow> uint w < 2 ^ 63 \<and> i = uint w"
  by (auto simp: bus_u64_to_i64_def)

lemma bus_i64_to_u64_uint [simp]: "bus_i64_to_u64 f (uint w) = Inr w"
  by (simp add: bus_i64_to_u64_def)

lemma bus_codec_Ok: "bus_codec r = Inr a \<longleftrightarrow> r = Inr a"
  by (auto simp: bus_codec_def split: sum.splits)

lemma kind_text_round_trip [simp]: "kind_from_text (kind_to_text k) = Inr k"
  by (cases k) (simp_all add: kind_from_text_def)

lemma kind_to_text_inject [simp]: "kind_to_text k = kind_to_text l \<longleftrightarrow> k = l"
  by (metis kind_text_round_trip sum.inject(2))

lemma delivery_text_round_trip [simp]: "delivery_from_text (delivery_to_text c) = Inr c"
  by (cases c) (simp_all add: delivery_from_text_def)

lemma delivery_durable_text: "delivery_to_text c = ''durable'' \<longleftrightarrow> is_durable c"
  by (cases c) (simp_all add: is_durable_def)

lemma to_active_model_Ok:
  assumes "bus_to_active_model v e = Inr p"
  shows "\<exists>t h. p = (en_event_id e,
     \<lparr> bev_room_id = en_channel e, bev_epoch = uint (sq_epoch (en_seq e)),
       bev_counter = uint (sq_counter (en_seq e)), bev_kind = kind_to_text (en_kind e),
       bev_delivery = delivery_to_text (en_delivery e), bev_target = t,
       bev_correlation_id = en_correlation_id e, bev_coalesce_key = en_coalesce_key e,
       bev_headers = h, bev_payload = en_payload e, bev_peer_id = fst (en_from e),
       bev_client_id = snd (en_from e), bev_occurred_at_ms = uint (en_occurred_at_ms e),
       bev_addressed_peer = ad_peer (env_addressing (sv_deps v) e),
       bev_leading_mention = ad_leading_mention (env_addressing (sv_deps v) e),
       bev_derived_version = DERIVED_VERSION \<rparr>) \<and>
     sv_target_json v (en_target e) = Inr t \<and> sv_headers_json v (en_headers e) = Inr h \<and>
     cursor_ok (env_cursor e)"
  using assms
  by (auto simp: bus_to_active_model_def Let_def res_bind_eq_Inr bus_u64_to_i64_Ok bus_codec_Ok
      cursor_ok_def env_cursor_def)

text \<open>Serialising and deserialising gives the envelope back.\<close>

lemma bus_model_round_trip:
  assumes "codec_ok v" "bt_wf (en_headers e)" "bus_to_active_model v e = Inr p"
  shows "bus_from_model v p = Inr e"
proof -
  obtain t h where p: "p = (en_event_id e,
     \<lparr> bev_room_id = en_channel e, bev_epoch = uint (sq_epoch (en_seq e)),
       bev_counter = uint (sq_counter (en_seq e)), bev_kind = kind_to_text (en_kind e),
       bev_delivery = delivery_to_text (en_delivery e), bev_target = t,
       bev_correlation_id = en_correlation_id e, bev_coalesce_key = en_coalesce_key e,
       bev_headers = h, bev_payload = en_payload e, bev_peer_id = fst (en_from e),
       bev_client_id = snd (en_from e), bev_occurred_at_ms = uint (en_occurred_at_ms e),
       bev_addressed_peer = ad_peer (env_addressing (sv_deps v) e),
       bev_leading_mention = ad_leading_mention (env_addressing (sv_deps v) e),
       bev_derived_version = DERIVED_VERSION \<rparr>)"
    and "sv_target_json v (en_target e) = Inr t" "sv_headers_json v (en_headers e) = Inr h"
    using to_active_model_Ok [OF assms(3)] by blast
  then have "sv_target_of v t = Inr (en_target e)" "sv_headers_of v h = Inr (en_headers e)"
    using assms(1,2) by (simp_all add: codec_ok_def)
  then show ?thesis
    by (simp add: p bus_from_model_def bus_codec_def)
qed

lemma bus_row_model:
  assumes "bus_to_active_model v e = Inr p"
  shows "p = (en_event_id e, bus_row v e)"
  using assms to_active_model_Ok [OF assms] by (auto simp: bus_row_def)

lemma bus_row_fields:
  assumes "storable v e"
  shows "bev_room_id (bus_row v e) = en_channel e"
    "bev_kind (bus_row v e) = kind_to_text (en_kind e)"
    "bev_delivery (bus_row v e) = delivery_to_text (en_delivery e)"
    "bev_client_id (bus_row v e) = snd (en_from e)"
    "bev_occurred_at_ms (bus_row v e) = uint (en_occurred_at_ms e)"
    "bev_addressed_peer (bus_row v e) = ad_peer (env_addressing (sv_deps v) e)"
    "bev_leading_mention (bus_row v e) = ad_leading_mention (env_addressing (sv_deps v) e)"
    "bev_epoch (bus_row v e) = uint (sq_epoch (en_seq e))"
    "bev_counter (bus_row v e) = uint (sq_counter (en_seq e))"
    "cursor_ok (env_cursor e)"
proof -
  obtain p where p: "bus_to_active_model v e = Inr p"
    using assms by (auto simp: storable_def)
  then have "bus_row v e = snd p" by (simp add: bus_row_def)
  then show "bev_room_id (bus_row v e) = en_channel e"
    "bev_kind (bus_row v e) = kind_to_text (en_kind e)"
    "bev_delivery (bus_row v e) = delivery_to_text (en_delivery e)"
    "bev_client_id (bus_row v e) = snd (en_from e)"
    "bev_occurred_at_ms (bus_row v e) = uint (en_occurred_at_ms e)"
    "bev_addressed_peer (bus_row v e) = ad_peer (env_addressing (sv_deps v) e)"
    "bev_leading_mention (bus_row v e) = ad_leading_mention (env_addressing (sv_deps v) e)"
    "bev_epoch (bus_row v e) = uint (sq_epoch (en_seq e))"
    "bev_counter (bus_row v e) = uint (sq_counter (en_seq e))"
    "cursor_ok (env_cursor e)"
    using to_active_model_Ok [OF p] by auto
qed

lemma bus_key_less:
  "storable v e \<Longrightarrow> storable v f \<Longrightarrow>
   bus_row_key (en_event_id e, bus_row v e) < bus_row_key (en_event_id f, bus_row v f) \<longleftrightarrow> env_cursor e < env_cursor f"
  by (cases "en_seq e"; cases "en_seq f")
    (auto simp: bus_row_key_def bus_row_fields env_cursor_def cursor_less_iff seq_less_iff word_less_def word_uint_eq_iff)

interpretation bus_table:
  event_table en_event_id en_headers "bus_row v" "storable v" "bus_from_model v" bus_row_key env_cursor for v
proof unfold_locales
  show "bus_from_model v (en_event_id e, bus_row v e) = Inr e" if "storable v e" for e
    using that bus_model_round_trip bus_row_model by (fastforce simp: storable_def env_ok_def)
  show "fst p = fst q" if "bus_row_key p = bus_row_key q" for p q
    using that by (auto simp: bus_row_key_def split: prod.splits)
qed (rule bus_key_less)

lemma cursor_row:
  assumes "cursor_ok c" "storable v e"
  shows "sql_strictly_after c (en_event_id e, bus_row v e) \<longleftrightarrow> c < env_cursor e"
    "sql_strictly_before c (en_event_id e, bus_row v e) \<longleftrightarrow> env_cursor e < c"
proof -
  obtain ep n j where c: "c = Cursor (Seq ep n) j" by (metis cursor.exhaust seq.exhaust)
  obtain ee en where e: "en_seq e = Seq ee en" by (cases "en_seq e")
  have "bev_epoch (bus_row v e) = uint ee" "bev_counter (bus_row v e) = uint en"
    using bus_row_fields [OF assms(2)] e by simp_all
  moreover have "as_i64 ep = uint ep" "as_i64 n = uint n"
    using assms(1) by (simp_all add: c cursor_ok_def as_i64_small)
  ultimately show "sql_strictly_after c (en_event_id e, bus_row v e) \<longleftrightarrow> c < env_cursor e"
    "sql_strictly_before c (en_event_id e, bus_row v e) \<longleftrightarrow> env_cursor e < c"
    by (auto simp: c e sql_strictly_after_def sql_strictly_before_def env_cursor_def
        cursor_less_iff seq_less_iff word_less_def word_uint_eq_iff)
qed

section \<open>Appending\<close>

abbreviation sink_repr :: "sink_env \<Rightarrow> sqlite_sink \<Rightarrow> envelope set \<Rightarrow> bool" where
  "sink_repr v s E \<equiv> represents en_event_id en_headers (bus_row v) (storable v) (qs_events s) (qs_headers s) E"

lemma sink_repr_empty: "sink_repr v sqlite_sink_empty {}"
  by (simp add: sqlite_sink_empty_def represents_empty)

lemma collect_results_Inr:
  "collect_results f as = Inr bs \<Longrightarrow> bs = map (\<lambda>a. projr (f a)) as \<and> (\<forall>a \<in> set as. \<exists>b. f a = Inr b)"
  by (induction as arbitrary: bs) (auto simp: res_bind_eq_Inr)

lemma sql_append_batch_Ok:
  assumes "sql_append_batch v s es = (Inr (), s')"
  shows "(\<forall>e \<in> set es. \<exists>p. bus_to_active_model v e = Inr p) \<and>
    qs_events s' = fold (\<lambda>(i, row) tbl. insert_ignore i row tbl) (map (\<lambda>e. (en_event_id e, bus_row v e)) es) (qs_events s) \<and>
    qs_headers s' = write_header_rows (qs_headers s) (map (\<lambda>e. (en_event_id e, en_headers e)) es)"
proof (cases "es = []")
  case True
  then show ?thesis
    using assms by (auto simp: sql_append_batch_def write_header_rows_def chunks.simps)
next
  case False
  then obtain actives where a: "collect_results (bus_to_active_model v) es = Inr actives"
    and s': "s' = s\<lparr> qs_events := fold (\<lambda>(i, row) tbl. insert_ignore i row tbl) actives (qs_events s),
                 qs_headers := write_header_rows (qs_headers s) (map (\<lambda>e. (en_event_id e, en_headers e)) es) \<rparr>"
    using assms by (auto simp: sql_append_batch_def split: option.splits sum.splits)
  have ok: "\<forall>e \<in> set es. \<exists>p. bus_to_active_model v e = Inr p"
    using collect_results_Inr [OF a] by blast
  have "actives = map (\<lambda>e. projr (bus_to_active_model v e)) es"
    using collect_results_Inr [OF a] by blast
  also have "\<dots> = map (\<lambda>e. (en_event_id e, bus_row v e)) es"
  proof (rule map_cong [OF refl])
    fix e assume "e \<in> set es"
    then obtain p where "bus_to_active_model v e = Inr p" using ok by blast
    then show "projr (bus_to_active_model v e) = (en_event_id e, bus_row v e)"
      using bus_row_model [of v e p] by simp
  qed
  finally show ?thesis using ok by (simp add: s')
qed

lemma sink_repr_append:
  assumes "sink_repr v s E" and app: "sql_append_batch v s es = (Inr (), s')" and "codec_ok v"
    and "inj_on en_event_id (E \<union> set es)" "\<forall>e \<in> set es. env_ok e"
  shows "sink_repr v s' (E \<union> set es)"
  using represents_append [OF assms(1,4)] sql_append_batch_Ok [OF app] assms(3,5) by (simp add: storable_def)

section \<open>Reading\<close>

text \<open>
  A read that the driver answers is a slice of the envelopes in cursor order. Below, \<open>es\<close> is
  that list.
\<close>

definition sink_list :: "sink_env \<Rightarrow> sqlite_sink \<Rightarrow> envelope list \<Rightarrow> bool" where
  "sink_list v s es \<longleftrightarrow>
     sink_repr v s (set es) \<and> ordered_rows s = map (\<lambda>e. (en_event_id e, bus_row v e)) es \<and>
     sorted_wrt (<) (map env_cursor es) \<and> sv_read v s = None"

lemma sink_list_elem:
  assumes "sink_list v s es" "e \<in> set es"
  shows "storable v e" "reflects (qs_headers s) (en_event_id e) (en_headers e)" "bt_wf (qs_headers s)"
  using assms by (simp_all add: sink_list_def represents_def)

lemma sink_list_up:
  assumes "sink_list v s es"
  shows "sql_query v s r = r" "ordered_rows s = map (\<lambda>e. (en_event_id e, bus_row v e)) es"
    "\<forall>e \<in> set es. storable v e" "sorted_wrt (<) (map env_cursor es)"
  using assms by (simp_all add: sink_list_def sql_query_def represents_def)

lemma sql_bounded_small: "limit < 2 ^ 63 \<Longrightarrow> sql_bounded limit = limit"
  by (simp add: sql_bounded_def)

lemma newest_kept: "newest limit xs = kept limit True xs"
  by (simp add: newest_def kept_def)

lemma sql_page_slice:
  assumes l: "sink_list v s es" and "limit < 2 ^ 63" and c: "pred_option cursor_ok start"
  shows "sql_page v s ch start limit =
    (Inr (take limit (filter (after_opt start) (filter (\<lambda>e. en_channel e = ch) es))), s)"
  unfolding sql_page_def sink_list_up(1,2) [OF l] sql_bounded_small [OF assms(2)] filter_filter kept_head [symmetric]
  by (rule arg_cong [of _ _ "\<lambda>r. (r, s)"], rule bus_table.slice [OF sink_list_up(3) [OF l]])
    (use c in \<open>cases start; auto simp: bus_row_fields cursor_row sink_list_elem(1) [OF l]\<close>)

lemma sql_page_tail_slice:
  assumes l: "sink_list v s es" and "limit < 2 ^ 63" and c: "pred_option cursor_ok before"
  shows "sql_page_tail v s ch before limit =
    Inr (newest limit (filter (before_opt before) (filter (\<lambda>e. en_channel e = ch) es)))"
  unfolding sql_page_tail_def sink_list_up(1,2) [OF l] sql_bounded_small [OF assms(2)] filter_filter kept_tail [symmetric]
    newest_kept
  by (rule bus_table.slice [OF sink_list_up(3) [OF l]])
    (use c in \<open>cases before; auto simp: bus_row_fields cursor_row sink_list_elem(1) [OF l]\<close>)

lemma sql_page_tail_of_kinds_slice:
  assumes l: "sink_list v s es" and "limit < 2 ^ 63" and c: "pred_option cursor_ok before"
  shows "sql_page_tail_of_kinds v s ch before kinds limit =
    Inr (newest limit (filter (\<lambda>e. en_kind e \<in> set kinds) (filter (before_opt before) (filter (\<lambda>e. en_channel e = ch) es))))"
  unfolding sql_page_tail_of_kinds_def sink_list_up(1,2) [OF l] sql_bounded_small [OF assms(2)] filter_filter
    kept_tail [symmetric] newest_kept
  by (rule bus_table.slice [OF sink_list_up(3) [OF l]])
    (use c in \<open>cases before; auto simp: bus_row_fields cursor_row sink_list_elem(1) [OF l]\<close>)

text \<open>The range of a history query. Its upper end is a cursor of the server.\<close>

definition through_ok :: "envelope list \<Rightarrow> cursor \<Rightarrow> bool" where
  "through_ok es c \<longleftrightarrow> cursor_ok c \<and> (\<forall>e \<in> set es. en_event_id e = cu_event_id c \<longrightarrow> env_cursor e = c)"

lemma matching_row:
  assumes l: "sink_list v s es" and e: "e \<in> set es"
    and c: "cursor_ok after" "through_ok es through" and f: "filter_utf8 headers"
  shows "matching_rows s ch after through headers (en_event_id e, bus_row v e) \<longleftrightarrow>
    en_channel e = ch \<and> in_range after through e \<and> filter_matches headers (en_headers e)"
proof -
  note elem = sink_list_elem [OF l e]
  have "sql_strictly_before through (en_event_id e, bus_row v e) \<or> en_event_id e = cu_event_id through \<longleftrightarrow>
      \<not> through < env_cursor e"
    using c(2) e cursor_row(2) [OF _ elem(1), of through]
    by (auto simp: through_ok_def env_cursor_def not_less order.order_iff_strict)
  moreover have "sql_predicate headers (qs_headers s) (en_event_id e) = filter_matches headers (en_headers e)"
    using elem f by (intro sql_predicate_exact) (simp_all add: storable_def env_ok_def)
  ultimately show ?thesis
    using cursor_row(1) [OF c(1) elem(1)]
    by (auto simp: matching_rows_def in_range_def delivery_durable_text bus_row_fields [OF elem(1)])
qed

lemma sql_page_matching_slice:
  assumes l: "sink_list v s es" and "limit < 2 ^ 63"
    and c: "cursor_ok after" "through_ok es through" and f: "filter_utf8 (hm_headers rule)"
  shows "sql_page_matching v s ch after through rule limit tail =
    Inr (kept limit tail (filter (\<lambda>e. in_range after through e \<and> matches_history (sv_deps v) e rule)
      (filter (\<lambda>e. en_channel e = ch) es)))"
  unfolding sql_page_matching_def sink_list_up(1,2) [OF l] sql_bounded_small [OF assms(2)] filter_filter
proof (rule bus_table.addressee_slice [OF sink_list_up(3) [OF l] sink_list_up(4) [OF l]])
  fix e assume e: "e \<in> set es"
  show "matching_rows s ch after through (hm_headers rule) (en_event_id e, bus_row v e) \<and>
      is_none_or (hm_addressed_to rule) (admitted_by
        \<lparr> ad_peer = (case (en_event_id e, bus_row v e) of (_, r) \<Rightarrow> bev_addressed_peer r),
          ad_leading_mention = (case (en_event_id e, bus_row v e) of (_, r) \<Rightarrow> bev_leading_mention r) \<rparr>) \<longleftrightarrow>
    en_channel e = ch \<and> in_range after through e \<and> matches_history (sv_deps v) e rule"
    using matching_row [OF l e c f]
    by (auto simp: bus_row_fields [OF sink_list_elem(1) [OF l e]] matches_history_def matches_with_def)
qed

lemma collect_times:
  assumes l: "sink_list v s es"
  shows "set xs \<subseteq> set es \<Longrightarrow>
    collect_results (\<lambda>(_, r). bus_i64_to_u64 f (bev_occurred_at_ms r)) (map (\<lambda>e. (en_event_id e, bus_row v e)) xs) =
      Inr (map en_occurred_at_ms xs)"
  by (induction xs) (simp_all add: bus_row_fields [OF sink_list_elem(1) [OF l]])

lemma sql_count_matching_slice:
  assumes l: "sink_list v s es" and c: "cursor_ok after" "through_ok es through" and f: "filter_utf8 headers"
  shows "sql_count_matching v s ch after through headers exclude =
    Inr (of_newest (map en_occurred_at_ms
      (rev (filter (counted after through headers exclude) (filter (\<lambda>e. en_channel e = ch) es)))))"
proof -
  let ?P = "\<lambda>(i, r). matching_rows s ch after through headers (i, r) \<and>
      is_none_or exclude (\<lambda>rule. not_runtime_self rule (qs_headers s) i (bev_client_id r))"
  let ?row = "\<lambda>e. (en_event_id e, bus_row v e)"
  let ?xs = "rev (filter (counted after through headers exclude) (filter (\<lambda>e. en_channel e = ch) es))"
  have "filter ?P (map ?row es) =
      map ?row (filter (counted after through headers exclude) (filter (\<lambda>e. en_channel e = ch) es))"
    unfolding filter_filter
  proof (rule filter_rows)
    fix e assume e: "e \<in> set es"
    note elem = sink_list_elem [OF l e]
    have "is_none_or exclude (\<lambda>rule. not_runtime_self rule (qs_headers s) (en_event_id e) (snd (en_from e))) \<longleftrightarrow>
        \<not> is_some_and exclude (\<lambda>rule. is_self rule (en_headers e) (snd (en_from e)))"
      using not_runtime_self_exact [OF elem(3,2)] by (cases exclude) simp_all
    then show "?P (?row e) \<longleftrightarrow> en_channel e = ch \<and> counted after through headers exclude e"
      using matching_row [OF l e c f, of ch] by (simp add: bus_row_fields [OF elem(1)] counted_def)
  qed
  then have "sql_count_matching v s ch after through headers exclude =
      res_bind (collect_results (\<lambda>(_, r). bus_i64_to_u64 ''occurred_at_ms'' (bev_occurred_at_ms r))
        (map ?row (take (HISTORY_COUNT_CAP + 1) ?xs))) (\<lambda>times. Inr (of_newest times))"
    by (simp add: sql_count_matching_def sink_list_up [OF l] rev_map take_map)
  moreover have "set (take n ?xs) \<subseteq> set es" for n
    by (auto dest: in_set_takeD)
  ultimately have "sql_count_matching v s ch after through headers exclude =
      Inr (of_newest (take (HISTORY_COUNT_CAP + 1) (map en_occurred_at_ms ?xs)))"
    by (simp add: collect_times [OF l] take_map)
  then show ?thesis by (simp only: of_newest_take)
qed

lemma sql_head_cursor_slice:
  assumes l: "sink_list v s es"
  shows "sql_head_cursor v s ch = Inr (map_option env_cursor (last_opt (filter (\<lambda>e. en_channel e = ch) es)))"
proof -
  let ?row = "\<lambda>e. (en_event_id e, bus_row v e)"
  have f: "filter (\<lambda>(_, r). bev_room_id r = ch) (map ?row es) = map ?row (filter (\<lambda>e. en_channel e = ch) es)"
    by (rule filter_rows) (simp add: bus_row_fields sink_list_elem(1) [OF l])
  have "Cursor (Seq (as_u64 (bev_epoch (bus_row v e))) (as_u64 (bev_counter (bus_row v e)))) (en_event_id e) = env_cursor e"
    if "e \<in> set es" for e
    using bus_row_fields [OF sink_list_elem(1) [OF l that]] by (cases "en_seq e") (simp add: env_cursor_def as_u64_def)
  moreover have "last (filter (\<lambda>e. en_channel e = ch) es) \<in> set es" if "filter (\<lambda>e. en_channel e = ch) es \<noteq> []"
    using last_in_set [OF that] by simp
  ultimately show ?thesis
    by (simp add: sql_head_cursor_def sink_list_up [OF l] f last_opt_def last_map)
qed

lemma sql_contains_exact:
  assumes l: "sink_list v s es"
  shows "sql_contains v s i = Inr (i \<in> en_event_id ` set es)"
  using l represents_contains [of en_event_id en_headers "bus_row v" "storable v" "qs_events s" "qs_headers s" "set es" i]
  by (simp add: sql_contains_def sink_list_up [OF l] sink_list_def)

section \<open>Against the in-memory sink\<close>

fun sql_append_all :: "sink_env \<Rightarrow> sqlite_sink \<Rightarrow> envelope list list \<Rightarrow> bus_error + sqlite_sink" where
  "sql_append_all v s [] = Inr s"
| "sql_append_all v s (b # bs) =
     (case sql_append_batch v s b of
        (Inl e, _) \<Rightarrow> Inl e
      | (Inr _, s') \<Rightarrow> sql_append_all v s' bs)"

fun mem_append_all :: "mem_sink \<Rightarrow> envelope list list \<Rightarrow> mem_sink" where
  "mem_append_all m [] = m"
| "mem_append_all m (b # bs) = mem_append_all (snd (sink_append_batch m b)) bs"

definition mem_holds :: "mem_sink \<Rightarrow> envelope set \<Rightarrow> bool" where
  "mem_holds m E \<longleftrightarrow> sink_wf m \<and> (\<forall>ch. set (bucket_of m ch) = {e \<in> E. en_channel e = ch})"

lemma mem_holds_append:
  "mem_holds m E \<Longrightarrow> inj_on en_event_id (E \<union> set es) \<Longrightarrow> mem_holds (snd (sink_append_batch m es)) (E \<union> set es)"
proof (induction es arbitrary: m E)
  case (Cons e es)
  obtain r m' where m': "sink_append m e = (r, m')" by (cases "sink_append m e")
  have wf: "sink_wf m" using Cons.prems by (simp add: mem_holds_def)
  note spec = sink_append_spec [OF wf m']
  have "set (bucket_of m' ch) = {x \<in> insert e E. en_channel x = ch}" for ch
  proof -
    have "e \<in> E" if "en_event_id e \<in> en_event_id ` set (bucket_of m ch)"
      using that Cons.prems by (auto simp: mem_holds_def dest: inj_onD)
    then show ?thesis
      using spec Cons.prems(1) by (auto simp: mem_holds_def)
  qed
  then have "mem_holds m' (insert e E)"
    using spec by (simp add: mem_holds_def)
  moreover have "snd (sink_append_batch m (e # es)) = snd (sink_append_batch m' es)"
    using m' spec by (simp add: sink_append_batch_def)
  ultimately show ?case
    using Cons.IH [of m' "insert e E"] Cons.prems(2) by simp
qed (simp add: sink_append_batch_def)

lemma append_all_sim:
  "codec_ok v \<Longrightarrow> sink_repr v s E \<Longrightarrow> mem_holds m E \<Longrightarrow> inj_on en_event_id (E \<union> set (concat batches)) \<Longrightarrow>
   \<forall>e \<in> set (concat batches). env_ok e \<Longrightarrow> sql_append_all v s batches = Inr s' \<Longrightarrow>
   sink_repr v s' (E \<union> set (concat batches)) \<and> mem_holds (mem_append_all m batches) (E \<union> set (concat batches))"
proof (induction batches arbitrary: s m E)
  case (Cons b batches)
  obtain t where t: "sql_append_batch v s b = (Inr (), t)" "sql_append_all v t batches = Inr s'"
    using Cons.prems(6) by (auto split: prod.splits sum.splits)
  have inj: "inj_on en_event_id (E \<union> set b)"
    using Cons.prems(4) by (rule inj_on_subset) auto
  have "sink_repr v t (E \<union> set b)"
    using sink_repr_append [OF Cons.prems(2) t(1) Cons.prems(1) inj] Cons.prems(5) by simp
  moreover have "mem_holds (snd (sink_append_batch m b)) (E \<union> set b)"
    using mem_holds_append [OF Cons.prems(3) inj] .
  ultimately show ?case
    using Cons.IH [of t "E \<union> set b" "snd (sink_append_batch m b)"] Cons.prems t(2) by (simp add: Un_assoc)
qed simp

lemma sink_agree:
  assumes v: "sv_read v s = None" and repr: "sink_repr v s E" and m: "mem_holds m E"
  shows "\<exists>es. sink_list v s es \<and> set es = E \<and> (\<forall>ch. bucket_of m ch = filter (\<lambda>e. en_channel e = ch) es)"
proof -
  obtain es where es: "ordered_rows s = map (\<lambda>e. (en_event_id e, bus_row v e)) es" "set es = E"
      "sorted_wrt (<) (map env_cursor es)"
    using bus_table.view [OF repr] by (auto simp: ordered_rows_def)
  have "bucket_of m ch = filter (\<lambda>e. en_channel e = ch) es" for ch
  proof (rule strict_sorted_key_unique [where key = env_cursor])
    show "sorted_wrt (<) (map env_cursor (bucket_of m ch))"
      using m bucket_of_ok by (auto simp: mem_holds_def bucket_ok_def)
    show "sorted_wrt (<) (map env_cursor (filter (\<lambda>e. en_channel e = ch) es))"
      using es(3) by (rule sorted_wrt_map_filter)
    show "set (bucket_of m ch) = set (filter (\<lambda>e. en_channel e = ch) es)"
      using m es(2) by (auto simp: mem_holds_def)
  qed
  then show ?thesis
    using es v repr by (auto simp: sink_list_def)
qed

lemma mem_reads:
  assumes "sink_wf m"
  shows "fst (sink_page m ch start limit) = Inr (take limit (filter (after_opt start) (bucket_of m ch)))"
    "sink_page_tail m ch before limit = Inr (newest limit (filter (before_opt before) (bucket_of m ch)))"
    "sink_page_tail_of_kinds m ch before kinds limit =
       Inr (newest limit (filter (\<lambda>e. en_kind e \<in> set kinds) (filter (before_opt before) (bucket_of m ch))))"
    "sink_page_matching d m ch after through rule limit tail =
       Inr (kept limit tail (filter (\<lambda>e. in_range after through e \<and> matches_history d e rule) (bucket_of m ch)))"
    "sink_count_matching m ch after through headers exclude =
       Inr (of_newest (map en_occurred_at_ms (rev (filter (counted after through headers exclude) (bucket_of m ch)))))"
    "sink_head_cursor m ch = Inr (map_option env_cursor (last_opt (bucket_of m ch)))"
    "sink_contains m i = Inr (\<exists>ch. \<exists>e \<in> set (bucket_of m ch). en_event_id e = i)"
proof -
  have ok: "\<exists>x. sink_page_tail m ch before limit = Inr x" "\<exists>x. sink_page_tail_of_kinds m ch before kinds limit = Inr x"
    "\<exists>x. sink_page_matching d m ch after through rule limit tail = Inr x"
    "\<exists>x. sink_count_matching m ch after through headers exclude = Inr x" "\<exists>x. sink_contains m i = Inr x"
    by (simp_all add: sink_page_tail_def sink_page_tail_of_kinds_def sink_page_matching_def sink_count_matching_def
        sink_contains_def Let_def)
  show "fst (sink_page m ch start limit) = Inr (take limit (filter (after_opt start) (bucket_of m ch)))"
    by (simp add: sink_page_def)
  show "sink_page_tail m ch before limit = Inr (newest limit (filter (before_opt before) (bucket_of m ch)))"
    using ok(1) mem.page_tail_exact [OF assms] by (auto simp: mem_sink_ops_def)
  show "sink_page_tail_of_kinds m ch before kinds limit =
       Inr (newest limit (filter (\<lambda>e. en_kind e \<in> set kinds) (filter (before_opt before) (bucket_of m ch))))"
    using ok(2) mem.page_tail_of_kinds_exact [OF assms] by (auto simp: mem_sink_ops_def)
  show "sink_page_matching d m ch after through rule limit tail =
       Inr (kept limit tail (filter (\<lambda>e. in_range after through e \<and> matches_history d e rule) (bucket_of m ch)))"
    using ok(3) mem.page_matching_exact [OF assms, of d] by (auto simp: mem_sink_ops_def)
  show "sink_count_matching m ch after through headers exclude =
       Inr (of_newest (map en_occurred_at_ms (rev (filter (counted after through headers exclude) (bucket_of m ch)))))"
    using ok(4) mem.count_matching_exact [OF assms] by (auto simp: mem_sink_ops_def)
  show "sink_head_cursor m ch = Inr (map_option env_cursor (last_opt (bucket_of m ch)))"
    by (simp add: sink_head_cursor_def)
  show "sink_contains m i = Inr (\<exists>ch. \<exists>e \<in> set (bucket_of m ch). en_event_id e = i)"
    using ok(5) mem.contains_exact [OF assms] by (auto simp: mem_sink_ops_def)
qed


definition demo_sink_env :: sink_env where
  "demo_sink_env =
     \<lparr> sv_deps = \<lparr> bd_alnum = (\<lambda>_. None), bd_from_payload = (\<lambda>_. None), bd_uuid_display = (\<lambda>_. []) \<rparr>,
       sv_target_json = (\<lambda>t. if t = TargetAll then Inr JNull else Inl ''target''),
       sv_target_of = (\<lambda>_. Inr TargetAll),
       sv_headers_json = (\<lambda>h. Inr (JObject (map (\<lambda>(k, v). (k, JString v)) h))),
       sv_headers_of = (\<lambda>j. case j of
          JObject kvs \<Rightarrow> Inr (map (\<lambda>(k, v). (k, case v of JString t \<Rightarrow> t | _ \<Rightarrow> [])) kvs) | _ \<Rightarrow> Inl ''headers''),
       sv_admit = (\<lambda>_. None), sv_write = (\<lambda>_. None), sv_read = (\<lambda>_. None) \<rparr>"

definition demo_durable :: "headers \<Rightarrow> envelope" where
  "demo_durable h = (envelope_new 7 2 (1, 1) KMessage DC_Durable [])\<lparr> en_seq := Seq 1 5, en_headers := h \<rparr>"

lemma demo_codec: "codec_ok demo_sink_env"
  by (auto simp: codec_ok_def demo_sink_env_def comp_def split_beta split: if_splits)

lemma demo_append:
  "sql_append_all demo_sink_env sqlite_sink_empty [[demo_durable []]] =
     Inr \<lparr> qs_events = [(7, bus_row demo_sink_env (demo_durable []))], qs_headers = [], qs_epoch = None \<rparr>"
  by (simp add: sql_append_batch_def sqlite_sink_empty_def demo_sink_env_def demo_durable_def envelope_new_def bus_row_def
      bus_to_active_model_def bus_u64_to_i64_def bus_codec_def insert_ignore_def bt_contains_def write_header_rows_def
      header_rows_of_def chunks.simps Let_def)


section \<open>An id stored twice\<close>

lemma last_in_newest: "xs \<noteq> [] \<Longrightarrow> 0 < limit \<Longrightarrow> last xs \<in> set (newest limit xs)"
  by (cases xs rule: rev_cases) (auto simp: newest_def)

text \<open>A tail query for a header filter, on tables with the event rows of \<open>s\<close>.\<close>

lemma tail_query_rows:
  assumes l: "sink_list v s es" and rows: "ordered_rows s' = map (\<lambda>e. (en_event_id e, bus_row v e)) es"
    and read: "sv_read v s' = None" "limit < 2 ^ 63"
  shows "sql_page_matching v s' ch after through (history_match_headers f) limit True =
    Inr (newest limit (filter (\<lambda>y. matching_rows s' ch after through f (en_event_id y, bus_row v y)) es))"
proof -
  have q: "sql_query v s' r = r" for r :: "bus_error + envelope list"
    using read(1) by (simp add: sql_query_def)
  show ?thesis
    unfolding sql_page_matching_def q rows sql_bounded_small [OF read(2)] newest_kept
    by (rule bus_table.addressee_slice [OF sink_list_up(3) [OF l] sink_list_up(4) [OF l]]) (simp add: history_match_headers_def)
qed

lemma matching_rows_bound:
  assumes l: "sink_list v s es" and y: "y \<in> set es" "e \<in> set es" "inj_on en_event_id (set es)"
    and m: "matching_rows s' ch after (env_cursor e) f (en_event_id y, bus_row v y)"
  shows "env_cursor y \<le> env_cursor e"
proof -
  have "sql_strictly_before (env_cursor e) (en_event_id y, bus_row v y) \<or> en_event_id y = en_event_id e"
    using m by (simp add: matching_rows_def env_cursor_def)
  moreover have "en_event_id y = en_event_id e \<Longrightarrow> y = e"
    using y by (auto dest: inj_onD)
  ultimately show ?thesis
    using cursor_row(2) [OF bus_row_fields(10) [OF sink_list_elem(1) [OF l y(2)]] sink_list_elem(1) [OF l y(1)]] by auto
qed

text \<open>
  C27. The header rows of an event can come from another envelope. When an envelope is
  stored and later another one with the same id but a further header is appended, the event
  row keeps its first content while the header row is added: a history query for that
  header returns the stored envelope, which does not have it.
\<close>

theorem reused_id_adds_headers:
  assumes codec: "codec_ok v"
    and data: "\<forall>e \<in> set (concat batches). env_ok e" "inj_on en_event_id (set (concat batches))"
    and run: "sql_append_all v sqlite_sink_empty batches = Inr s"
    and e: "e \<in> set (concat batches)" "env_durable e" "map_of (en_headers e) k = None"
    and x: "en_event_id x = en_event_id e" "map_of (en_headers x) k = Some w"
    and app: "sql_append_batch v s [x] = (Inr (), s')"
    and read: "sv_read v s = None" "sv_read v s' = None" "0 < limit" "limit < 2 ^ 63"
    and after: "cursor_ok after" "after < env_cursor e"
  shows "\<exists>es. sql_page_matching v s' (en_channel e) after (env_cursor e) (history_match_headers (HF_Has k)) limit True = Inr es \<and>
     e \<in> set es \<and> \<not> filter_matches (HF_Has k) (en_headers e)"
proof -
  have m0: "mem_holds sink_new {}"
    by (simp add: mem_holds_def sink_wf_def sink_new_def bucket_of_def)
  have repr: "sink_repr v s (set (concat batches))"
    using append_all_sim [OF codec sink_repr_empty m0 _ data(1) run(1)] data(2) by simp
  obtain es where l: "sink_list v s es" and set: "set es = set (concat batches)"
    using bus_table.view [OF repr] repr read(1) by (auto simp: sink_list_def ordered_rows_def)
  have ees: "e \<in> set es" using e(1) set by simp
  note fields = bus_row_fields [OF sink_list_elem(1) [OF l ees]]
  have st: "qs_headers s' = write_header_rows (qs_headers s) [(en_event_id e, en_headers x)]"
    and ev: "qs_events s' = insert_ignore (en_event_id e) (bus_row v x) (qs_events s)"
    using sql_append_batch_Ok [OF app] x(1) by simp_all
  have "map_of (qs_events s) (en_event_id e) \<noteq> None"
    using l ees by (auto simp: sink_list_def represents_def)
  then have rows: "ordered_rows s' = map (\<lambda>e. (en_event_id e, bus_row v e)) es"
    using sink_list_up(2) [OF l] by (simp add: ev ordered_rows_def insert_ignore_def bt_contains_def)
  have hw: "bt_wf (qs_headers s')" "map_of (qs_headers s') (en_event_id e, k) = Some w"
    using sink_list_elem(2,3) [OF l ees] e(3) x(2)
    by (simp_all add: st write_header_rows_wf write_header_rows_lookup reflects_def)
  have has: "sql_predicate (HF_Has k) (qs_headers s') (en_event_id e)"
    using hw by (force simp: holding_def header_ids_def bt_wf_in_set [symmetric])
  define ys where "ys = filter (\<lambda>y. matching_rows s' (en_channel e) after (env_cursor e) (HF_Has k) (en_event_id y, bus_row v y)) es"
  have "matching_rows s' (en_channel e) after (env_cursor e) (HF_Has k) (en_event_id e, bus_row v e)"
    using has cursor_row(1) [OF after(1) sink_list_elem(1) [OF l ees]] after(2) e(2)
    by (simp add: matching_rows_def delivery_durable_text env_cursor_def fields)
  then have mem: "e \<in> set ys" using ees by (simp add: ys_def)
  have "env_cursor y \<le> env_cursor e" if "y \<in> set ys" for y
    using that data(2) by (intro matching_rows_bound [OF l _ ees]) (auto simp: ys_def set)
  moreover have "sorted_wrt (<) (map env_cursor ys)"
    using l by (auto simp: sink_list_def ys_def intro: sorted_wrt_map_filter)
  ultimately have "last ys = e"
    using mem by (intro strict_max_last) auto
  then have "e \<in> set (newest limit ys)"
    using last_in_newest [of ys limit, OF _ read(3)] mem by (cases ys) simp_all
  then show ?thesis
    using tail_query_rows [OF l rows read(2,4)] e(3) by (simp add: ys_def)
qed

theorem reused_id_adds_headers_witness:
  "\<exists>s es. snd (sql_append_batch demo_sink_env s [demo_durable [(''k'', ''w'')]]) \<noteq> s \<and>
     sql_page_matching demo_sink_env (snd (sql_append_batch demo_sink_env s [demo_durable [(''k'', ''w'')]])) 2
       (Cursor (Seq 0 0) 0) (env_cursor (demo_durable [])) (history_match_headers (HF_Has ''k'')) 5 True = Inr es \<and>
     demo_durable [] \<in> set es"
proof -
  define s where "s = \<lparr> qs_events = [(7, bus_row demo_sink_env (demo_durable []))], qs_headers = [], qs_epoch = None \<rparr>"
  define s' where "s' = s\<lparr> qs_headers := [((7, ''k''), ''w'')] \<rparr>"
  have app: "sql_append_batch demo_sink_env s [demo_durable [(''k'', ''w'')]] = (Inr (), s')"
    by (simp add: s_def s'_def sql_append_batch_def demo_sink_env_def demo_durable_def envelope_new_def bus_row_def
      bus_to_active_model_def bus_u64_to_i64_def bus_codec_def insert_ignore_def bt_contains_def write_header_rows_def
      header_rows_of_def chunks.simps HEADER_ROWS_PER_INSERT_def Let_def)
  have "\<exists>es. sql_page_matching demo_sink_env s' 2 (Cursor (Seq 0 0) 0) (env_cursor (demo_durable []))
      (history_match_headers (HF_Has ''k'')) 5 True = Inr es \<and> demo_durable [] \<in> set es"
    using reused_id_adds_headers [OF demo_codec _ _ demo_append [folded s_def], of "demo_durable []" "''k''"
        "demo_durable [(''k'', ''w'')]" "''w''" s' 5 "Cursor (Seq 0 0) 0"] app
    by (simp add: env_ok_def headers_utf8_def demo_durable_def envelope_new_def demo_sink_env_def cursor_ok_def
        env_cursor_def is_durable_def cursor_less_iff seq_less_iff)
  moreover have "s' \<noteq> s"
    by (simp add: s_def s'_def)
  ultimately show ?thesis
    using app by (intro exI [of _ s]) auto
qed

end
