(* ===== verification/Store_Memory_Tables.thy ===== *)
theory Store_Memory_Tables
  imports Store_Memory
begin

text \<open>
  The remaining tables of \<open>airc-store/src/memory.rs\<close>: local identities, subscriptions, mesh
  identities, scoped state, beacons and refresh locks. The sort of the beacons by the text
  of their ids is a sort by the ids: the text has a fixed width and lower case hex digits.
\<close>

section \<open>Local identities\<close>

definition load_local_identity_by_agent_name :: "memory_store \<Rightarrow> string \<Rightarrow> stored_local_identity option" where
  "load_local_identity_by_agent_name s agent_name = map_of (ms_local_identities s) agent_name"

definition load_local_identity :: "memory_store \<Rightarrow> stored_local_identity option" where
  "load_local_identity s = load_local_identity_by_agent_name s DEFAULT_AGENT_NAME"

definition insert_local_identity :: "memory_store \<Rightarrow> stored_local_identity \<Rightarrow> store_error + memory_store" where
  "insert_local_identity s identity =
     (if bt_contains (ms_local_identities s) (li_agent_name identity) then Inl ST_Database
      else Inr (s\<lparr> ms_local_identities :=
             bt_insert (li_agent_name identity) identity (ms_local_identities s) \<rparr>))"

definition save_local_identity_card :: "memory_store \<Rightarrow> identity_card \<Rightarrow> store_error + memory_store" where
  "save_local_identity_card s identity =
     (case map_of (ms_local_identities s) DEFAULT_AGENT_NAME of
        None \<Rightarrow> Inl (ST_NotFound ''local_identity'')
      | Some row \<Rightarrow> Inr (s\<lparr> ms_local_identities :=
             bt_insert DEFAULT_AGENT_NAME (row\<lparr> li_identity := identity \<rparr>) (ms_local_identities s) \<rparr>))"

section \<open>Subscriptions and mesh identities\<close>

definition load_subscriptions :: "memory_store \<Rightarrow> stored_subscription list" where
  "load_subscriptions s = ms_subscriptions s"

definition replace_subscriptions :: "memory_store \<Rightarrow> stored_subscription list \<Rightarrow> memory_store" where
  "replace_subscriptions s rows = s\<lparr> ms_subscriptions := rows \<rparr>"

definition load_mesh_identity :: "memory_store \<Rightarrow> string \<Rightarrow> stored_mesh_identity option" where
  "load_mesh_identity s scope = map_of (ms_mesh_identities s) scope"

definition save_mesh_identity :: "memory_store \<Rightarrow> stored_mesh_identity \<Rightarrow> memory_store" where
  "save_mesh_identity s entry =
     s\<lparr> ms_mesh_identities := bt_insert (mi_scope entry) entry (ms_mesh_identities s) \<rparr>"

section \<open>Scoped state\<close>

definition get_scoped_state :: "memory_store \<Rightarrow> string \<Rightarrow> string \<Rightarrow> stored_scoped_state option" where
  "get_scoped_state s scope_key key = map_of (ms_scoped_state s) (scope_key, key)"

definition set_scoped_state :: "memory_store \<Rightarrow> stored_scoped_state \<Rightarrow> memory_store" where
  "set_scoped_state s entry =
     s\<lparr> ms_scoped_state := bt_insert (sc_scope_key entry, sc_key entry) entry (ms_scoped_state s) \<rparr>"

definition advance_scoped_state :: "memory_store \<Rightarrow> stored_scoped_state \<Rightarrow> bool \<times> memory_store" where
  "advance_scoped_state s entry =
     (let slot = (sc_scope_key entry, sc_key entry)
      in if is_some_and (map_of (ms_scoped_state s) slot)
              (\<lambda>stored. sc_value_json entry \<le> sc_value_json stored)
         then (False, s)
         else (True, s\<lparr> ms_scoped_state := bt_insert slot entry (ms_scoped_state s) \<rparr>))"

definition list_scoped_state :: "memory_store \<Rightarrow> string \<Rightarrow> stored_scoped_state list" where
  "list_scoped_state s scope_key =
     map snd (filter (\<lambda>((sk, _), _). sk = scope_key) (ms_scoped_state s))"

definition delete_scoped_state :: "memory_store \<Rightarrow> string \<Rightarrow> string \<Rightarrow> memory_store" where
  "delete_scoped_state s scope_key key =
     s\<lparr> ms_scoped_state := bt_remove (scope_key, key) (ms_scoped_state s) \<rparr>"

section \<open>Beacons\<close>

definition load_beacon :: "memory_store \<Rightarrow> string \<Rightarrow> uuid \<Rightarrow> stored_beacon option" where
  "load_beacon s mesh_identity peer_id = map_of (ms_beacons s) (mesh_identity, peer_id)"

definition list_beacons :: "memory_store \<Rightarrow> string \<Rightarrow> stored_beacon list" where
  "list_beacons s mesh_identity =
     sort_key sb_peer_id
       (filter (\<lambda>beacon. sb_mesh_identity beacon = mesh_identity) (bt_values (ms_beacons s)))"

definition save_beacon :: "memory_store \<Rightarrow> stored_beacon \<Rightarrow> memory_store" where
  "save_beacon s beacon =
     s\<lparr> ms_beacons := bt_insert (sb_mesh_identity beacon, sb_peer_id beacon) beacon (ms_beacons s) \<rparr>"

fun delete_beacons_loop ::
  "string \<Rightarrow> uuid list \<Rightarrow> (string \<times> uuid, stored_beacon) btree \<Rightarrow> nat \<Rightarrow>
     nat \<times> (string \<times> uuid, stored_beacon) btree" where
  "delete_beacons_loop mesh_identity [] beacons removed = (removed, beacons)"
| "delete_beacons_loop mesh_identity (p # ps) beacons removed =
     delete_beacons_loop mesh_identity ps (bt_remove (mesh_identity, p) beacons)
       (if bt_contains beacons (mesh_identity, p) then removed + 1 else removed)"

definition delete_beacons :: "memory_store \<Rightarrow> string \<Rightarrow> uuid list \<Rightarrow> nat \<times> memory_store" where
  "delete_beacons s mesh_identity peer_ids =
     (let (removed, beacons) = delete_beacons_loop mesh_identity peer_ids (ms_beacons s) 0
      in (removed, s\<lparr> ms_beacons := beacons \<rparr>))"

section \<open>Refresh locks\<close>

definition try_acquire_refresh_lock ::
  "memory_store \<Rightarrow> string \<Rightarrow> u64 \<Rightarrow> u64 \<Rightarrow> 32 word \<Rightarrow> refresh_lock_outcome \<times> memory_store" where
  "try_acquire_refresh_lock s mesh_identity now_ms refresh_interval_ms holder_pid =
     (let acquired = (RL_Acquired, s\<lparr> ms_refresh_locks := bt_insert mesh_identity
            \<lparr> rl_mesh_identity = mesh_identity, rl_held_at_ms = now_ms, rl_holder_pid = holder_pid \<rparr>
            (ms_refresh_locks s) \<rparr>)
      in case map_of (ms_refresh_locks s) mesh_identity of
           Some existing \<Rightarrow>
             if saturating_sub now_ms (rl_held_at_ms existing) < refresh_interval_ms
             then (RL_HeldFresh (rl_held_at_ms existing), s)
             else acquired
         | None \<Rightarrow> acquired)"

definition release_refresh_lock :: "memory_store \<Rightarrow> string \<Rightarrow> memory_store" where
  "release_refresh_lock s mesh_identity =
     s\<lparr> ms_refresh_locks := bt_remove mesh_identity (ms_refresh_locks s) \<rparr>"

end
