(* ===== verification/Sql_Event_Store.thy ===== *)
theory Sql_Event_Store
  imports Store_Memory_Tables Sql_Header_Query
begin

text \<open>
  The event store on SQLite (\<open>airc-store/src/sqlite.rs\<close>, \<open>sqlite/event_store.rs\<close>,
  \<open>event_query.rs\<close>, \<open>history_count.rs\<close>): the tables of the store and every operation on them,
  the account-registry cache included. \<open>store_env\<close> holds the JSON codecs (\<open>serde_json\<close>) and
  the Unicode test of the addressing. A call comes with the answers of admission and driver
  (\<open>db_call\<close>); a failed statement or transaction leaves the tables as they were. Text
  compares by bytes, an omitted \<open>INTEGER PRIMARY KEY\<close> gets the largest id plus one.
\<close>

section \<open>Tables\<close>

record db_call =
  dc_admit :: "store_error option"
  dc_db :: "store_error option"

record event_row =
  evr_room_id :: uuid
  evr_peer_id :: uuid
  evr_client_id :: uuid
  evr_kind :: string
  evr_occurred_at_ms :: int
  evr_lamport :: int
  evr_target :: json
  evr_headers :: json
  evr_body :: "json option"
  evr_attachment :: "json option"
  evr_receipt :: "json option"
  evr_metadata :: json
  evr_addressed_peer :: "uuid option"
  evr_leading_mention :: bool
  evr_derived_version :: int

record runtime_cursor_row =
  rcr_lamport :: int
  rcr_event_id :: uuid
  rcr_updated_at_ms :: int

record subscription_row =
  sbr_room_id :: uuid
  sbr_wire :: string
  sbr_joined_at_ms :: int
  sbr_is_default :: bool
  sbr_parted :: bool

record mesh_identity_row =
  mir_identity :: string
  mir_source :: string
  mir_resolved_at_ms :: int
  mir_ttl_ms :: int

record beacon_row =
  bcr_scope_home :: string
  bcr_pid :: int
  bcr_published_at_ms :: int
  bcr_heartbeat_at_ms :: int

record refresh_lock_row =
  rlr_held_at_ms :: int
  rlr_holder_pid :: int

record local_identity_row =
  lir_peer_id :: uuid
  lir_client_id :: uuid
  lir_version :: int
  lir_created_at_ms :: int
  lir_name :: string
  lir_pronouns :: string
  lir_role :: string
  lir_bio :: string
  lir_status :: string
  lir_fingerprint :: string
  lir_integrations_json :: json
  lir_agent_name :: string

record account_registry_row =
  arr_schema_version :: int
  arr_generated_at_ms :: int
  arr_document_json :: string
  arr_updated_at_ms :: int

record gist_sentinel_row =
  gsr_gist_id :: string
  gsr_updated_at_ms :: int

type_synonym lock_table = "(string, refresh_lock_row) btree"

record sqlite_store =
  qe_events :: "(uuid, event_row) btree"
  qe_headers :: header_table
  qe_runtime_cursors :: "(string, runtime_cursor_row) btree"
  qe_subscriptions :: "(string, subscription_row) btree"
  qe_mesh_identity :: "(string, mesh_identity_row) btree"
  qe_scoped_state :: "(string \<times> string, stored_scoped_state) btree"
  qe_beacons :: "(string \<times> uuid, beacon_row) btree"
  qe_beacon_channels :: "(string \<times> uuid \<times> string, unit) btree"
  qe_refresh_locks :: lock_table
  qe_local_identity :: "(int, local_identity_row) btree"
  qe_account_registry :: "(string, account_registry_row) btree"
  qe_gist_sentinel :: "(string, gist_sentinel_row) btree"

definition sqlite_store_empty :: sqlite_store where
  "sqlite_store_empty =
     \<lparr> qe_events = [], qe_headers = [], qe_runtime_cursors = [], qe_subscriptions = [],
       qe_mesh_identity = [], qe_scoped_state = [], qe_beacons = [], qe_beacon_channels = [],
       qe_refresh_locks = [], qe_local_identity = [], qe_account_registry = [], qe_gist_sentinel = [] \<rparr>"

record store_env =
  se_alnum :: "string \<Rightarrow> nat option"
  se_target_json :: "mention_target \<Rightarrow> json option"
  se_target_of :: "json \<Rightarrow> mention_target option"
  se_headers_json :: "headers \<Rightarrow> json option"
  se_headers_of :: "json \<Rightarrow> headers option"
  se_body_json :: "body \<Rightarrow> json option"
  se_body_of :: "json \<Rightarrow> body option"
  se_attachment_json :: "attachment_manifest \<Rightarrow> json option"
  se_attachment_of :: "json \<Rightarrow> attachment_manifest option"
  se_receipt_json :: "receipt \<Rightarrow> json option"
  se_receipt_of :: "json \<Rightarrow> receipt option"
  se_integrations_json :: "(string, string) btree \<Rightarrow> json option"
  se_integrations_of :: "json \<Rightarrow> (string, string) btree option"

text \<open>
  A write is admitted, then prepares its rows, then runs its statements; a read only asks
  the driver.
\<close>

definition db_write :: "db_call \<Rightarrow> 's \<Rightarrow> (store_error + 'p) \<Rightarrow> ('p \<Rightarrow> (store_error + 'a) \<times> 's) \<Rightarrow> (store_error + 'a) \<times> 's" where
  "db_write c s prepare run =
     (case dc_admit c of
        Some e \<Rightarrow> (Inl e, s)
      | None \<Rightarrow>
          case prepare of
            Inl e \<Rightarrow> (Inl e, s)
          | Inr p \<Rightarrow> (case dc_db c of Some e \<Rightarrow> (Inl e, s) | None \<Rightarrow> run p))"

definition db_read :: "db_call \<Rightarrow> (store_error + 'a) \<Rightarrow> store_error + 'a" where
  "db_read c answer = (case dc_db c of Some e \<Rightarrow> Inl e | None \<Rightarrow> answer)"

section \<open>Events and rows\<close>

definition json_opt :: "('a \<Rightarrow> json option) \<Rightarrow> 'a option \<Rightarrow> store_error + json option" where
  "json_opt enc x = (case x of None \<Rightarrow> Inr None | Some a \<Rightarrow> res_bind (ok_or (enc a) ST_Codec) (\<lambda>j. Inr (Some j)))"

definition opt_of_json :: "(json \<Rightarrow> 'a option) \<Rightarrow> json option \<Rightarrow> store_error + 'a option" where
  "opt_of_json dec x = (case x of None \<Rightarrow> Inr None | Some j \<Rightarrow> res_bind (ok_or (dec j) ST_Codec) (\<lambda>a. Inr (Some a)))"

definition to_active_model :: "store_env \<Rightarrow> transcript_event \<Rightarrow> store_error + event_row" where
  "to_active_model v ev =
     (let addressing = addressing_of_event (se_alnum v) ev
      in res_bind (ok_or (se_target_json v (te_target ev)) ST_Codec) (\<lambda>target.
         res_bind (ok_or (se_headers_json v (te_headers ev)) ST_Codec) (\<lambda>headers.
         res_bind (json_opt (se_body_json v) (te_body ev)) (\<lambda>body.
         res_bind (json_opt (se_attachment_json v) (te_attachment ev)) (\<lambda>attachment.
         res_bind (json_opt (se_receipt_json v) (te_receipt ev)) (\<lambda>receipt.
         Inr \<lparr> evr_room_id = te_room_id ev, evr_peer_id = te_peer_id ev, evr_client_id = te_client_id ev,
               evr_kind = as_wire_str (te_kind ev), evr_occurred_at_ms = as_i64 (te_occurred_at_ms ev),
               evr_lamport = as_i64 (te_lamport ev), evr_target = target, evr_headers = headers,
               evr_body = body, evr_attachment = attachment, evr_receipt = receipt,
               evr_metadata = te_metadata ev, evr_addressed_peer = ad_peer addressing,
               evr_leading_mention = ad_leading_mention addressing, evr_derived_version = DERIVED_VERSION \<rparr>))))))"

definition from_model :: "store_env \<Rightarrow> uuid \<times> event_row \<Rightarrow> store_error + transcript_event" where
  "from_model v = (\<lambda>(event_id, m).
     res_bind (ok_or (from_wire_str (evr_kind m)) (ST_UnknownTranscriptKind (evr_kind m))) (\<lambda>kind.
     res_bind (ok_or (se_target_of v (evr_target m)) ST_Codec) (\<lambda>target.
     res_bind (ok_or (se_headers_of v (evr_headers m)) ST_Codec) (\<lambda>headers.
     res_bind (opt_of_json (se_body_of v) (evr_body m)) (\<lambda>body.
     res_bind (opt_of_json (se_attachment_of v) (evr_attachment m)) (\<lambda>attachment.
     res_bind (opt_of_json (se_receipt_of v) (evr_receipt m)) (\<lambda>receipt.
     Inr \<lparr> te_event_id = event_id, te_room_id = evr_room_id m, te_peer_id = evr_peer_id m,
           te_client_id = evr_client_id m, te_kind = kind,
           te_occurred_at_ms = as_u64 (evr_occurred_at_ms m), te_lamport = as_u64 (evr_lamport m),
           te_target = target, te_headers = headers, te_body = body, te_attachment = attachment,
           te_receipt = receipt, te_metadata = evr_metadata m \<rparr>)))))))"

section \<open>The event log\<close>

definition sqlite_append :: "store_env \<Rightarrow> db_call \<Rightarrow> sqlite_store \<Rightarrow> transcript_event \<Rightarrow> (store_error + unit) \<times> sqlite_store" where
  "sqlite_append v c s ev =
     db_write c s (to_active_model v ev) (\<lambda>row.
       if bt_contains (qe_events s) (te_event_id ev)
       then (Inl (ST_DuplicateEventId (te_event_id ev)), s)
       else (Inr (), s\<lparr> qe_events := bt_insert (te_event_id ev) row (qe_events s),
                       qe_headers := write_header_rows (qe_headers s) [(te_event_id ev, te_headers ev)] \<rparr>))"

text \<open>The rows in the order of the index: the signed lamport column, then the event id.\<close>

definition event_row_key :: "uuid \<times> event_row \<Rightarrow> int \<times> uuid" where
  "event_row_key = (\<lambda>(i, r). (evr_lamport r, i))"

definition ordered_events :: "sqlite_store \<Rightarrow> (uuid \<times> event_row) list" where
  "ordered_events s = sort_key event_row_key (qe_events s)"

definition row_strictly_after :: "transcript_cursor \<Rightarrow> uuid \<times> event_row \<Rightarrow> bool" where
  "row_strictly_after c = (\<lambda>(i, r).
     as_i64 (tc_lamport c) < evr_lamport r \<or> evr_lamport r = as_i64 (tc_lamport c) \<and> tc_event_id c < i)"

definition row_through :: "transcript_cursor \<Rightarrow> uuid \<times> event_row \<Rightarrow> bool" where
  "row_through c = (\<lambda>(i, r).
     evr_lamport r < as_i64 (tc_lamport c) \<or> evr_lamport r = as_i64 (tc_lamport c) \<and> i \<le> tc_event_id c)"

definition row_in_channel :: "room_id option \<Rightarrow> uuid \<times> event_row \<Rightarrow> bool" where
  "row_in_channel channel = (\<lambda>(_, r). is_none_or channel (\<lambda>room. evr_room_id r = room))"

definition sqlite_page_recent ::
  "store_env \<Rightarrow> db_call \<Rightarrow> sqlite_store \<Rightarrow> room_id option \<Rightarrow> nat \<Rightarrow> store_error + transcript_event list" where
  "sqlite_page_recent v c s channel limit =
     db_read c (collect_results (from_model v)
       (rev (take limit (rev (filter (row_in_channel channel) (ordered_events s))))))"

text \<open>The selects of \<open>event_query::matching\<close>, as conditions on rows.\<close>

definition event_query_matching ::
  "sqlite_store \<Rightarrow> transcript_cursor \<Rightarrow> transcript_cursor \<Rightarrow> room_id list \<Rightarrow> history_match \<Rightarrow> (uuid \<times> event_row \<Rightarrow> bool) list" where
  "event_query_matching s cursor through channels rule =
     addressee_branches (\<lambda>(_, r). evr_addressed_peer r) (\<lambda>(_, r). evr_leading_mention r)
       (\<lambda>(i, r). row_strictly_after cursor (i, r) \<and> evr_room_id r \<in> set channels \<and>
          sql_predicate (hm_headers rule) (qe_headers s) i \<and> row_through through (i, r))
       (hm_addressed_to rule)"

definition sqlite_matching_history ::
  "store_env \<Rightarrow> db_call \<Rightarrow> sqlite_store \<Rightarrow> transcript_cursor \<Rightarrow> transcript_cursor \<Rightarrow> room_id list \<Rightarrow>
     history_match \<Rightarrow> nat \<Rightarrow> bool \<Rightarrow> store_error + transcript_event list" where
  "sqlite_matching_history v c s cursor through channels rule limit tail =
     db_read c (collect_results (from_model v)
       (merge_branches
          (map (scan_branch limit tail (ordered_events s)) (event_query_matching s cursor through channels rule))
          event_row_key limit tail))"

definition sqlite_resume_from ::
  "store_env \<Rightarrow> db_call \<Rightarrow> sqlite_store \<Rightarrow> transcript_cursor \<Rightarrow> room_id option \<Rightarrow> nat \<Rightarrow> store_error + transcript_event list" where
  "sqlite_resume_from v c s cursor channel limit =
     db_read c (collect_results (from_model v)
       (take limit (filter (\<lambda>p. row_strictly_after cursor p \<and> row_in_channel channel p) (ordered_events s))))"

definition sqlite_latest_cursor ::
  "db_call \<Rightarrow> sqlite_store \<Rightarrow> room_id option \<Rightarrow> store_error + transcript_cursor option" where
  "sqlite_latest_cursor c s channel =
     db_read c (Inr (map_option (\<lambda>(i, r). \<lparr> tc_lamport = as_u64 (evr_lamport r), tc_event_id = i \<rparr>)
       (last_opt (filter (row_in_channel channel) (ordered_events s)))))"

definition history_to_u64 :: "string \<Rightarrow> int \<Rightarrow> store_error + u64" where
  "history_to_u64 field value =
     (if 0 \<le> value then Inr (word_of_int value) else Inl (ST_InvalidStoredValue field value))"

definition sqlite_count_history ::
  "db_call \<Rightarrow> sqlite_store \<Rightarrow> transcript_cursor \<Rightarrow> transcript_cursor \<Rightarrow> room_id list \<Rightarrow> header_filter \<Rightarrow>
     runtime_self option \<Rightarrow> store_error + history_count" where
  "sqlite_count_history c s after through channels headers exclude =
     db_read c (res_bind
       (collect_results (\<lambda>(_, r). history_to_u64 ''occurred_at_ms'' (evr_occurred_at_ms r))
          (take (HISTORY_COUNT_CAP + 1) (rev (filter (\<lambda>(i, r).
             evr_room_id r \<in> set channels \<and> row_strictly_after after (i, r) \<and> row_through through (i, r) \<and>
             sql_predicate headers (qe_headers s) i \<and>
             is_none_or exclude (\<lambda>rule. not_runtime_self rule (qe_headers s) i (evr_client_id r)))
             (ordered_events s)))))
       (\<lambda>times. Inr (of_newest times)))"

section \<open>Consumer cursors\<close>

definition sqlite_load_runtime_cursor :: "db_call \<Rightarrow> sqlite_store \<Rightarrow> string \<Rightarrow> store_error + transcript_cursor option" where
  "sqlite_load_runtime_cursor c s consumer_id =
     db_read c (Inr (map_option (\<lambda>m. \<lparr> tc_lamport = as_u64 (rcr_lamport m), tc_event_id = rcr_event_id m \<rparr>)
       (map_of (qe_runtime_cursors s) consumer_id)))"

text \<open>The condition of the upsert: the stored lamport is older, across the sign bit too.\<close>

definition older_lamport :: "int \<Rightarrow> int \<Rightarrow> bool" where
  "older_lamport lamport stored =
     (if lamport < 0 then 0 \<le> stored \<or> stored < lamport else 0 \<le> stored \<and> stored < lamport)"

definition sqlite_save_runtime_cursor ::
  "db_call \<Rightarrow> sqlite_store \<Rightarrow> string \<Rightarrow> transcript_cursor \<Rightarrow> u64 \<Rightarrow> (store_error + unit) \<times> sqlite_store" where
  "sqlite_save_runtime_cursor c s consumer_id cursor updated_at_ms =
     db_write c s (Inr (as_i64 (tc_lamport cursor))) (\<lambda>lamport.
       let row = \<lparr> rcr_lamport = lamport, rcr_event_id = tc_event_id cursor, rcr_updated_at_ms = as_i64 updated_at_ms \<rparr>;
           stored = (case map_of (qe_runtime_cursors s) consumer_id of
             None \<Rightarrow> row
           | Some old \<Rightarrow>
               if older_lamport lamport (rcr_lamport old) \<or>
                  rcr_lamport old = lamport \<and> rcr_event_id old < tc_event_id cursor
               then row else old)
       in (Inr (), s\<lparr> qe_runtime_cursors := bt_insert consumer_id stored (qe_runtime_cursors s) \<rparr>))"

end
