(* ===== verification/Sql_Store_Tables.thy ===== *)
theory Sql_Store_Tables
  imports Sql_Event_Store
begin

text \<open>
  The other tables of the SQLite store (\<open>airc-store/src/sqlite.rs\<close>, \<open>sqlite/event_store.rs\<close>):
  subscriptions, mesh identities, scoped state, beacons with their channels, refresh locks,
  local identities and the account-registry cache. The refresh lock is taken in several
  statements; other processes act in between, which \<open>others\<close> describes: \<open>others n\<close> is what
  they did to the table before statement \<open>n\<close> of the call.
\<close>

section \<open>Subscriptions and mesh identities\<close>

definition sqlite_load_subscriptions :: "db_call \<Rightarrow> sqlite_store \<Rightarrow> store_error + stored_subscription list" where
  "sqlite_load_subscriptions c s =
     db_read c (collect_results (\<lambda>(channel_name, row).
       res_bind (i64_to_u64 ''subscriptions.joined_at_ms'' (sbr_joined_at_ms row)) (\<lambda>joined.
       Inr \<lparr> ss_channel_name = channel_name, ss_room_id = sbr_room_id row, ss_wire = sbr_wire row,
             ss_joined_at_ms = joined, ss_is_default = sbr_is_default row, ss_parted = sbr_parted row \<rparr>))
       (qe_subscriptions s))"

text \<open>The inserts of the transaction; a second row for a channel violates the primary key.\<close>

fun insert_subscriptions ::
  "stored_subscription list \<Rightarrow> (string, subscription_row) btree \<Rightarrow> store_error + (string, subscription_row) btree" where
  "insert_subscriptions [] tbl = Inr tbl"
| "insert_subscriptions (row # rows) tbl =
     res_bind (u64_to_i64 ''subscriptions.joined_at_ms'' (ss_joined_at_ms row)) (\<lambda>joined.
       if bt_contains tbl (ss_channel_name row) then Inl ST_Database
       else insert_subscriptions rows (bt_insert (ss_channel_name row)
         \<lparr> sbr_room_id = ss_room_id row, sbr_wire = ss_wire row, sbr_joined_at_ms = joined,
           sbr_is_default = ss_is_default row, sbr_parted = ss_parted row \<rparr> tbl))"

definition sqlite_replace_subscriptions ::
  "db_call \<Rightarrow> sqlite_store \<Rightarrow> stored_subscription list \<Rightarrow> (store_error + unit) \<times> sqlite_store" where
  "sqlite_replace_subscriptions c s rows =
     db_write c s (Inr ()) (\<lambda>_.
       case insert_subscriptions rows [] of
         Inl e \<Rightarrow> (Inl e, s)
       | Inr tbl \<Rightarrow> (Inr (), s\<lparr> qe_subscriptions := tbl \<rparr>))"

definition sqlite_load_mesh_identity :: "db_call \<Rightarrow> sqlite_store \<Rightarrow> string \<Rightarrow> store_error + stored_mesh_identity option" where
  "sqlite_load_mesh_identity c s scope =
     db_read c (case map_of (qe_mesh_identity s) scope of
        None \<Rightarrow> Inr None
      | Some row \<Rightarrow>
          res_bind (i64_to_u64 ''mesh_identity.resolved_at_ms'' (mir_resolved_at_ms row)) (\<lambda>resolved.
          res_bind (i64_to_u64 ''mesh_identity.ttl_ms'' (mir_ttl_ms row)) (\<lambda>ttl.
          Inr (Some \<lparr> mi_scope = scope, mi_identity = mir_identity row, mi_source = mir_source row,
                      mi_resolved_at_ms = resolved, mi_ttl_ms = ttl \<rparr>))))"

definition sqlite_save_mesh_identity ::
  "db_call \<Rightarrow> sqlite_store \<Rightarrow> stored_mesh_identity \<Rightarrow> (store_error + unit) \<times> sqlite_store" where
  "sqlite_save_mesh_identity c s entry =
     db_write c s
       (res_bind (u64_to_i64 ''mesh_identity.resolved_at_ms'' (mi_resolved_at_ms entry)) (\<lambda>resolved.
        res_bind (u64_to_i64 ''mesh_identity.ttl_ms'' (mi_ttl_ms entry)) (\<lambda>ttl.
        Inr \<lparr> mir_identity = mi_identity entry, mir_source = mi_source entry,
              mir_resolved_at_ms = resolved, mir_ttl_ms = ttl \<rparr>)))
       (\<lambda>row. (Inr (), s\<lparr> qe_mesh_identity := bt_insert (mi_scope entry) row (qe_mesh_identity s) \<rparr>))"

section \<open>Scoped state\<close>

definition sqlite_get_scoped_state :: "db_call \<Rightarrow> sqlite_store \<Rightarrow> string \<Rightarrow> string \<Rightarrow> store_error + stored_scoped_state option" where
  "sqlite_get_scoped_state c s scope_key key = db_read c (Inr (map_of (qe_scoped_state s) (scope_key, key)))"

definition sqlite_set_scoped_state :: "db_call \<Rightarrow> sqlite_store \<Rightarrow> stored_scoped_state \<Rightarrow> (store_error + unit) \<times> sqlite_store" where
  "sqlite_set_scoped_state c s entry =
     db_write c s (Inr ()) (\<lambda>_.
       (Inr (), s\<lparr> qe_scoped_state := bt_insert (sc_scope_key entry, sc_key entry) entry (qe_scoped_state s) \<rparr>))"

definition sqlite_advance_scoped_state :: "db_call \<Rightarrow> sqlite_store \<Rightarrow> stored_scoped_state \<Rightarrow> (store_error + bool) \<times> sqlite_store" where
  "sqlite_advance_scoped_state c s entry =
     db_write c s (Inr ()) (\<lambda>_.
       let slot = (sc_scope_key entry, sc_key entry);
           advanced = is_none_or (map_of (qe_scoped_state s) slot)
             (\<lambda>stored. sc_value_json stored < sc_value_json entry)
       in (Inr advanced,
           if advanced then s\<lparr> qe_scoped_state := bt_insert slot entry (qe_scoped_state s) \<rparr> else s))"

definition sqlite_list_scoped_state :: "db_call \<Rightarrow> sqlite_store \<Rightarrow> string \<Rightarrow> store_error + stored_scoped_state list" where
  "sqlite_list_scoped_state c s scope_key =
     db_read c (Inr (map snd (sort_key (\<lambda>((_, key), _). key)
       (filter (\<lambda>((sk, _), _). sk = scope_key) (qe_scoped_state s)))))"

definition sqlite_delete_scoped_state :: "db_call \<Rightarrow> sqlite_store \<Rightarrow> string \<Rightarrow> string \<Rightarrow> (store_error + unit) \<times> sqlite_store" where
  "sqlite_delete_scoped_state c s scope_key key =
     db_write c s (Inr ()) (\<lambda>_.
       (Inr (), s\<lparr> qe_scoped_state := bt_remove (scope_key, key) (qe_scoped_state s) \<rparr>))"

section \<open>Beacons\<close>

definition beacon_channels_of :: "sqlite_store \<Rightarrow> string \<Rightarrow> uuid \<Rightarrow> string list" where
  "beacon_channels_of s mesh_identity peer_id =
     sort (map (\<lambda>((_, _, channel), _). channel)
       (filter (\<lambda>((m, p, _), _). m = mesh_identity \<and> p = peer_id) (qe_beacon_channels s)))"

definition beacon_from_model :: "sqlite_store \<Rightarrow> (string \<times> uuid) \<times> beacon_row \<Rightarrow> store_error + stored_beacon" where
  "beacon_from_model s = (\<lambda>((mesh_identity, peer_id), row).
     res_bind (if 0 \<le> bcr_pid row \<and> bcr_pid row < 2 ^ 32 then Inr (word_of_int (bcr_pid row))
               else Inl (ST_InvalidStoredValue ''beacons.pid'' (bcr_pid row))) (\<lambda>pid.
     res_bind (i64_to_u64 ''beacons.published_at_ms'' (bcr_published_at_ms row)) (\<lambda>published.
     res_bind (i64_to_u64 ''beacons.heartbeat_at_ms'' (bcr_heartbeat_at_ms row)) (\<lambda>heartbeat.
     Inr \<lparr> sb_mesh_identity = mesh_identity, sb_peer_id = peer_id, sb_scope_home = bcr_scope_home row,
           sb_subscribed_channels = beacon_channels_of s mesh_identity peer_id, sb_pid = pid,
           sb_published_at_ms = published, sb_heartbeat_at_ms = heartbeat \<rparr>))))"

definition sqlite_load_beacon :: "db_call \<Rightarrow> sqlite_store \<Rightarrow> string \<Rightarrow> uuid \<Rightarrow> store_error + stored_beacon option" where
  "sqlite_load_beacon c s mesh_identity peer_id =
     db_read c (case map_of (qe_beacons s) (mesh_identity, peer_id) of
        Some row \<Rightarrow> res_bind (beacon_from_model s ((mesh_identity, peer_id), row)) (\<lambda>b. Inr (Some b))
      | None \<Rightarrow> Inr None)"

definition sqlite_list_beacons :: "db_call \<Rightarrow> sqlite_store \<Rightarrow> string \<Rightarrow> store_error + stored_beacon list" where
  "sqlite_list_beacons c s mesh_identity =
     db_read c (collect_results (beacon_from_model s)
       (sort_key (\<lambda>((_, p), _). p) (filter (\<lambda>((m, _), _). m = mesh_identity) (qe_beacons s))))"

definition sqlite_save_beacon :: "db_call \<Rightarrow> sqlite_store \<Rightarrow> stored_beacon \<Rightarrow> (store_error + unit) \<times> sqlite_store" where
  "sqlite_save_beacon c s entry =
     db_write c s (Inr ()) (\<lambda>_.
       case res_bind (u64_to_i64 ''beacons.published_at_ms'' (sb_published_at_ms entry)) (\<lambda>published.
            res_bind (u64_to_i64 ''beacons.heartbeat_at_ms'' (sb_heartbeat_at_ms entry)) (\<lambda>heartbeat.
            Inr \<lparr> bcr_scope_home = sb_scope_home entry, bcr_pid = uint (sb_pid entry),
                  bcr_published_at_ms = published, bcr_heartbeat_at_ms = heartbeat \<rparr>)) of
         Inl e \<Rightarrow> (Inl e, s)
       | Inr row \<Rightarrow>
           let m = sb_mesh_identity entry; p = sb_peer_id entry;
               kept_rows = filter (\<lambda>((m', p', _), _). \<not> (m' = m \<and> p' = p)) (qe_beacon_channels s);
               channels = remdups_adj (sort (sb_subscribed_channels entry))
           in (Inr (), s\<lparr> qe_beacons := bt_insert (m, p) row (qe_beacons s),
                         qe_beacon_channels := fold (\<lambda>ch tbl. bt_insert (m, p, ch) () tbl) channels kept_rows \<rparr>))"

fun delete_beacon_rows ::
  "string \<Rightarrow> uuid list \<Rightarrow> (string \<times> uuid, beacon_row) btree \<Rightarrow> (string \<times> uuid \<times> string, unit) btree \<Rightarrow> nat \<Rightarrow>
     nat \<times> (string \<times> uuid, beacon_row) btree \<times> (string \<times> uuid \<times> string, unit) btree" where
  "delete_beacon_rows mesh_identity [] beacons channels removed = (removed, beacons, channels)"
| "delete_beacon_rows mesh_identity (p # ps) beacons channels removed =
     delete_beacon_rows mesh_identity ps (bt_remove (mesh_identity, p) beacons)
       (filter (\<lambda>((m', p', _), _). \<not> (m' = mesh_identity \<and> p' = p)) channels)
       (if bt_contains beacons (mesh_identity, p) then removed + 1 else removed)"

definition sqlite_delete_beacons :: "db_call \<Rightarrow> sqlite_store \<Rightarrow> string \<Rightarrow> uuid list \<Rightarrow> (store_error + nat) \<times> sqlite_store" where
  "sqlite_delete_beacons c s mesh_identity peer_ids =
     db_write c s (Inr ()) (\<lambda>_.
       let (removed, beacons, channels) =
             delete_beacon_rows mesh_identity peer_ids (qe_beacons s) (qe_beacon_channels s) 0
       in (Inr removed, s\<lparr> qe_beacons := beacons, qe_beacon_channels := channels \<rparr>))"

section \<open>Refresh locks\<close>

definition LOCK_MAX_ATTEMPTS :: nat where
  "LOCK_MAX_ATTEMPTS = 8"

fun lock_attempts ::
  "(nat \<Rightarrow> lock_table \<Rightarrow> lock_table) \<Rightarrow> string \<Rightarrow> u64 \<Rightarrow> u64 \<Rightarrow> refresh_lock_row \<Rightarrow> nat \<Rightarrow> nat \<Rightarrow> lock_table \<Rightarrow>
     (store_error + refresh_lock_outcome) \<times> lock_table" where
  "lock_attempts others mesh now_ms interval row n 0 tbl = (Inr (RL_HeldFresh now_ms), tbl)"
| "lock_attempts others mesh now_ms interval row n (Suc k) tbl =
     (let seen = others n tbl
      in case map_of seen mesh of
           None \<Rightarrow> lock_attempts others mesh now_ms interval row (n + 1) k seen
         | Some existing \<Rightarrow>
             (case i64_to_u64 ''refresh_locks.held_at_ms'' (rlr_held_at_ms existing) of
                Inl e \<Rightarrow> (Inl e, seen)
              | Inr existing_held_at \<Rightarrow>
                  if saturating_sub now_ms existing_held_at < interval
                  then (Inr (RL_HeldFresh existing_held_at), seen)
                  else
                    let current = others (n + 1) seen
                    in if is_some_and (map_of current mesh) (\<lambda>r. rlr_held_at_ms r = rlr_held_at_ms existing)
                       then (Inr RL_Acquired, bt_insert mesh row current)
                       else lock_attempts others mesh now_ms interval row (n + 2) k current))"

definition sqlite_try_acquire_refresh_lock ::
  "(nat \<Rightarrow> lock_table \<Rightarrow> lock_table) \<Rightarrow> db_call \<Rightarrow> sqlite_store \<Rightarrow> string \<Rightarrow> u64 \<Rightarrow> u64 \<Rightarrow> 32 word \<Rightarrow>
     (store_error + refresh_lock_outcome) \<times> sqlite_store" where
  "sqlite_try_acquire_refresh_lock others c s mesh_identity now_ms refresh_interval_ms holder_pid =
     db_write c s
       (res_bind (u64_to_i64 ''refresh_locks.held_at_ms'' now_ms) (\<lambda>held_at_ms.
        res_bind (u64_to_i64 ''refresh_locks.holder_pid'' (ucast holder_pid)) (\<lambda>pid.
        Inr \<lparr> rlr_held_at_ms = held_at_ms, rlr_holder_pid = pid \<rparr>)))
       (\<lambda>row.
          let first = others 0 (qe_refresh_locks s);
              (outcome, tbl) =
                (if bt_contains first mesh_identity
                 then lock_attempts others mesh_identity now_ms refresh_interval_ms row 1 LOCK_MAX_ATTEMPTS first
                 else (Inr RL_Acquired, bt_insert mesh_identity row first))
          in (outcome, s\<lparr> qe_refresh_locks := tbl \<rparr>))"

definition sqlite_release_refresh_lock :: "db_call \<Rightarrow> sqlite_store \<Rightarrow> string \<Rightarrow> (store_error + unit) \<times> sqlite_store" where
  "sqlite_release_refresh_lock c s mesh_identity =
     db_write c s (Inr ()) (\<lambda>_.
       (Inr (), s\<lparr> qe_refresh_locks := bt_remove mesh_identity (qe_refresh_locks s) \<rparr>))"

section \<open>Local identities\<close>

definition SINGLETON_ID :: int where
  "SINGLETON_ID = 1"

definition identity_from_row :: "store_env \<Rightarrow> local_identity_row \<Rightarrow> identity_card" where
  "identity_from_row v row =
     \<lparr> ic_name = lir_name row, ic_pronouns = lir_pronouns row, ic_role = lir_role row, ic_bio = lir_bio row,
       ic_status = lir_status row, ic_fingerprint = lir_fingerprint row,
       ic_integrations = (case se_integrations_of v (lir_integrations_json row) of Some m \<Rightarrow> m | None \<Rightarrow> []) \<rparr>"

definition identity_row_named :: "sqlite_store \<Rightarrow> string \<Rightarrow> local_identity_row option" where
  "identity_row_named s agent_name =
     find (\<lambda>row. lir_agent_name row = agent_name) (bt_values (qe_local_identity s))"

definition sqlite_load_local_identity_by_agent_name ::
  "store_env \<Rightarrow> db_call \<Rightarrow> sqlite_store \<Rightarrow> string \<Rightarrow> store_error + stored_local_identity option" where
  "sqlite_load_local_identity_by_agent_name v c s agent_name =
     db_read c (case identity_row_named s agent_name of
        None \<Rightarrow> Inr None
      | Some m \<Rightarrow>
          res_bind (if 0 \<le> lir_version m then Inr (word_of_int (lir_version m))
                    else Inl (ST_InvalidStoredValue ''local_identity.version'' (lir_version m))) (\<lambda>version.
          res_bind (i64_to_u64 ''local_identity.created_at_ms'' (lir_created_at_ms m)) (\<lambda>created.
          Inr (Some \<lparr> li_peer_id = lir_peer_id m, li_client_id = lir_client_id m, li_version = version,
                      li_created_at_ms = created, li_identity = identity_from_row v m,
                      li_agent_name = lir_agent_name m \<rparr>))))"

definition sqlite_load_local_identity ::
  "store_env \<Rightarrow> db_call \<Rightarrow> sqlite_store \<Rightarrow> store_error + stored_local_identity option" where
  "sqlite_load_local_identity v c s = sqlite_load_local_identity_by_agent_name v c s DEFAULT_AGENT_NAME"

definition sqlite_has_local_identity_rows :: "db_call \<Rightarrow> sqlite_store \<Rightarrow> store_error + bool" where
  "sqlite_has_local_identity_rows c s = db_read c (Inr (qe_local_identity s \<noteq> []))"

definition next_row_id :: "(int, 'r) btree \<Rightarrow> int" where
  "next_row_id tbl = fold max (bt_keys tbl) 0 + 1"

definition sqlite_insert_local_identity ::
  "store_env \<Rightarrow> db_call \<Rightarrow> sqlite_store \<Rightarrow> stored_local_identity \<Rightarrow> (store_error + unit) \<times> sqlite_store" where
  "sqlite_insert_local_identity v c s identity =
     db_write c s
       (res_bind (if uint (li_version identity) < 2 ^ 31 then Inr (uint (li_version identity))
                  else Inl (ST_InvalidStoredValue ''local_identity.version'' (uint (li_version identity)))) (\<lambda>version.
        res_bind (u64_to_i64 ''local_identity.created_at_ms'' (li_created_at_ms identity)) (\<lambda>created.
        res_bind (ok_or (se_integrations_json v (ic_integrations (li_identity identity))) ST_Codec) (\<lambda>integrations.
        Inr \<lparr> lir_peer_id = li_peer_id identity, lir_client_id = li_client_id identity, lir_version = version,
              lir_created_at_ms = created, lir_name = ic_name (li_identity identity),
              lir_pronouns = ic_pronouns (li_identity identity), lir_role = ic_role (li_identity identity),
              lir_bio = ic_bio (li_identity identity), lir_status = ic_status (li_identity identity),
              lir_fingerprint = ic_fingerprint (li_identity identity), lir_integrations_json = integrations,
              lir_agent_name = li_agent_name identity \<rparr>))))
       (\<lambda>row. if identity_row_named s (lir_agent_name row) \<noteq> None then (Inl ST_Database, s)
              else (Inr (), s\<lparr> qe_local_identity :=
                      bt_insert (next_row_id (qe_local_identity s)) row (qe_local_identity s) \<rparr>))"

text \<open>The row is looked up before the integrations are encoded.\<close>

definition sqlite_save_local_identity_card ::
  "store_env \<Rightarrow> db_call \<Rightarrow> sqlite_store \<Rightarrow> identity_card \<Rightarrow> (store_error + unit) \<times> sqlite_store" where
  "sqlite_save_local_identity_card v c s identity =
     db_write c s (Inr ()) (\<lambda>_.
       case map_of (qe_local_identity s) SINGLETON_ID of
         None \<Rightarrow> (Inl (ST_NotFound ''local_identity''), s)
       | Some row \<Rightarrow>
           (case se_integrations_json v (ic_integrations identity) of
              None \<Rightarrow> (Inl ST_Codec, s)
            | Some integrations \<Rightarrow>
                (Inr (), s\<lparr> qe_local_identity := bt_insert SINGLETON_ID
                   (row\<lparr> lir_name := ic_name identity, lir_pronouns := ic_pronouns identity,
                         lir_role := ic_role identity, lir_bio := ic_bio identity,
                         lir_status := ic_status identity, lir_fingerprint := ic_fingerprint identity,
                         lir_integrations_json := integrations \<rparr>) (qe_local_identity s) \<rparr>)))"

section \<open>The account-registry cache\<close>

definition sqlite_load_account_registry :: "db_call \<Rightarrow> sqlite_store \<Rightarrow> string \<Rightarrow> store_error + stored_account_registry option" where
  "sqlite_load_account_registry c s mesh_identity =
     db_read c (case map_of (qe_account_registry s) mesh_identity of
        None \<Rightarrow> Inr None
      | Some m \<Rightarrow>
          res_bind (if 0 \<le> arr_schema_version m \<and> arr_schema_version m < 2 ^ 16
                    then Inr (word_of_int (arr_schema_version m))
                    else Inl (ST_InvalidStoredValue ''account_registry.schema_version'' (arr_schema_version m))) (\<lambda>version.
          res_bind (i64_to_u64 ''account_registry.generated_at_ms'' (arr_generated_at_ms m)) (\<lambda>generated.
          res_bind (i64_to_u64 ''account_registry.updated_at_ms'' (arr_updated_at_ms m)) (\<lambda>updated.
          Inr (Some \<lparr> sa_mesh_identity = mesh_identity, sa_schema_version = version,
                      sa_generated_at_ms = generated, sa_document_json = arr_document_json m,
                      sa_updated_at_ms = updated \<rparr>)))))"

definition sqlite_save_account_registry :: "db_call \<Rightarrow> sqlite_store \<Rightarrow> stored_account_registry \<Rightarrow> (store_error + unit) \<times> sqlite_store" where
  "sqlite_save_account_registry c s document =
     db_write c s
       (res_bind (u64_to_i64 ''account_registry.generated_at_ms'' (sa_generated_at_ms document)) (\<lambda>generated.
        res_bind (u64_to_i64 ''account_registry.updated_at_ms'' (sa_updated_at_ms document)) (\<lambda>updated.
        Inr \<lparr> arr_schema_version = uint (sa_schema_version document), arr_generated_at_ms = generated,
              arr_document_json = sa_document_json document, arr_updated_at_ms = updated \<rparr>)))
       (\<lambda>row. (Inr (), s\<lparr> qe_account_registry := bt_insert (sa_mesh_identity document) row (qe_account_registry s) \<rparr>))"

definition sqlite_load_gist_sentinel :: "db_call \<Rightarrow> sqlite_store \<Rightarrow> string \<Rightarrow> store_error + stored_gist_sentinel option" where
  "sqlite_load_gist_sentinel c s mesh_identity =
     db_read c (case map_of (qe_gist_sentinel s) mesh_identity of
        None \<Rightarrow> Inr None
      | Some m \<Rightarrow>
          res_bind (i64_to_u64 ''account_registry_gist_sentinel.updated_at_ms'' (gsr_updated_at_ms m)) (\<lambda>updated.
          Inr (Some \<lparr> sg_mesh_identity = mesh_identity, sg_gist_id = gsr_gist_id m, sg_updated_at_ms = updated \<rparr>)))"

definition sqlite_clear_gist_sentinel :: "db_call \<Rightarrow> sqlite_store \<Rightarrow> string \<Rightarrow> (store_error + unit) \<times> sqlite_store" where
  "sqlite_clear_gist_sentinel c s mesh_identity =
     db_write c s (Inr ()) (\<lambda>_. (Inr (), s\<lparr> qe_gist_sentinel := bt_remove mesh_identity (qe_gist_sentinel s) \<rparr>))"

definition sqlite_save_gist_sentinel :: "db_call \<Rightarrow> sqlite_store \<Rightarrow> stored_gist_sentinel \<Rightarrow> (store_error + unit) \<times> sqlite_store" where
  "sqlite_save_gist_sentinel c s sentinel =
     db_write c s
       (res_bind (u64_to_i64 ''account_registry_gist_sentinel.updated_at_ms'' (sg_updated_at_ms sentinel)) (\<lambda>updated.
        Inr \<lparr> gsr_gist_id = sg_gist_id sentinel, gsr_updated_at_ms = updated \<rparr>))
       (\<lambda>row. (Inr (), s\<lparr> qe_gist_sentinel := bt_insert (sg_mesh_identity sentinel) row (qe_gist_sentinel s) \<rparr>))"

end
