(* ===== verification/Sql_Store_Refine.thy ===== *)
theory Sql_Store_Refine
  imports Sql_Store_Tables Sql_Event_Table
begin

text \<open>
  The SQLite event store against the in-memory one. While lamports stay below \<open>2 ^ 63\<close> the
  event log answers alike; the signed column misorders larger ones. Consumer cursors agree
  for all lamports, because their upsert compares across the sign bit.
\<close>

section \<open>Events and their rows\<close>

definition event_codec_ok :: "store_env \<Rightarrow> bool" where
  "event_codec_ok v \<longleftrightarrow>
     (\<forall>t j. se_target_json v t = Some j \<longrightarrow> se_target_of v j = Some t) \<and>
     (\<forall>h j. bt_wf h \<longrightarrow> se_headers_json v h = Some j \<longrightarrow> se_headers_of v j = Some h) \<and>
     (\<forall>b j. se_body_json v b = Some j \<longrightarrow> se_body_of v j = Some b) \<and>
     (\<forall>a j. se_attachment_json v a = Some j \<longrightarrow> se_attachment_of v j = Some a) \<and>
     (\<forall>r j. se_receipt_json v r = Some j \<longrightarrow> se_receipt_of v j = Some r)"

definition event_row_of :: "store_env \<Rightarrow> transcript_event \<Rightarrow> event_row" where
  "event_row_of v e = projr (to_active_model v e)"

text \<open>An event that can be stored, with UTF-8 headers.\<close>

definition event_ok :: "store_env \<Rightarrow> transcript_event \<Rightarrow> bool" where
  "event_ok v e \<longleftrightarrow>
     event_codec_ok v \<and> bt_wf (te_headers e) \<and> headers_utf8 (te_headers e) \<and>
     (\<exists>row. to_active_model v e = Inr row)"

definition small_stamps :: "transcript_event \<Rightarrow> bool" where
  "small_stamps e \<longleftrightarrow> uint (te_lamport e) < 2 ^ 63 \<and> uint (te_occurred_at_ms e) < 2 ^ 63"

lemma json_opt_round_trip:
  "json_opt enc x = Inr j \<Longrightarrow> (\<And>a j. enc a = Some j \<Longrightarrow> dec j = Some a) \<Longrightarrow> opt_of_json dec j = Inr x"
  by (auto simp: json_opt_def opt_of_json_def res_bind_eq_Inr ok_or_eq_Inr split: option.splits)

lemma event_row_fields:
  assumes "event_ok v e"
  shows "evr_room_id (event_row_of v e) = te_room_id e" "evr_lamport (event_row_of v e) = as_i64 (te_lamport e)"
    "evr_client_id (event_row_of v e) = te_client_id e"
    "evr_occurred_at_ms (event_row_of v e) = as_i64 (te_occurred_at_ms e)"
    "evr_addressed_peer (event_row_of v e) = ad_peer (addressing_of_event (se_alnum v) e)"
    "evr_leading_mention (event_row_of v e) = ad_leading_mention (addressing_of_event (se_alnum v) e)"
  using assms
  by (auto simp: event_ok_def event_row_of_def to_active_model_def Let_def res_bind_eq_Inr)

text \<open>The wire string of a kind reads back as the kind.\<close>

lemma wire_kind_round_trip: "from_wire_str (as_wire_str k) = Some k"
  by (cases k) (simp_all add: from_wire_str_def)

lemma event_model_round_trip:
  assumes "event_ok v e"
  shows "from_model v (te_event_id e, event_row_of v e) = Inr e"
proof -
  obtain row where row: "to_active_model v e = Inr row"
    using assms by (auto simp: event_ok_def)
  obtain t h b a r where j: "se_target_json v (te_target e) = Some t" "se_headers_json v (te_headers e) = Some h"
      "json_opt (se_body_json v) (te_body e) = Inr b" "json_opt (se_attachment_json v) (te_attachment e) = Inr a"
      "json_opt (se_receipt_json v) (te_receipt e) = Inr r"
    and row': "row = \<lparr> evr_room_id = te_room_id e, evr_peer_id = te_peer_id e, evr_client_id = te_client_id e,
      evr_kind = as_wire_str (te_kind e), evr_occurred_at_ms = as_i64 (te_occurred_at_ms e),
      evr_lamport = as_i64 (te_lamport e), evr_target = t, evr_headers = h, evr_body = b, evr_attachment = a,
      evr_receipt = r, evr_metadata = te_metadata e,
      evr_addressed_peer = ad_peer (addressing_of_event (se_alnum v) e),
      evr_leading_mention = ad_leading_mention (addressing_of_event (se_alnum v) e),
      evr_derived_version = DERIVED_VERSION \<rparr>"
    using row by (auto simp: to_active_model_def Let_def res_bind_eq_Inr ok_or_eq_Inr)
  have codec: "event_codec_ok v" "bt_wf (te_headers e)"
    using assms by (simp_all add: event_ok_def)
  have "se_target_of v t = Some (te_target e)" "se_headers_of v h = Some (te_headers e)"
    "opt_of_json (se_body_of v) b = Inr (te_body e)" "opt_of_json (se_attachment_of v) a = Inr (te_attachment e)"
    "opt_of_json (se_receipt_of v) r = Inr (te_receipt e)"
    using codec j(1,2) json_opt_round_trip [OF j(3), of "se_body_of v"]
      json_opt_round_trip [OF j(4), of "se_attachment_of v"] json_opt_round_trip [OF j(5), of "se_receipt_of v"]
    by (simp_all add: event_codec_ok_def)
  then show ?thesis
    by (simp add: event_row_of_def row row' from_model_def wire_kind_round_trip)
qed

interpretation log_table:
  event_table te_event_id te_headers "event_row_of v" "\<lambda>e. event_ok v e \<and> small_stamps e" "from_model v"
    event_row_key event_order for v
proof unfold_locales
  show "from_model v (te_event_id e, event_row_of v e) = Inr e" if "event_ok v e \<and> small_stamps e" for e
    using that event_model_round_trip by blast
  show "event_row_key (te_event_id e, event_row_of v e) < event_row_key (te_event_id f, event_row_of v f) \<longleftrightarrow>
      event_order e < event_order f"
    if "event_ok v e \<and> small_stamps e" "event_ok v f \<and> small_stamps f" for e f
    using that by (auto simp: event_row_key_def event_row_fields small_stamps_def as_i64_small event_order_def
        word_less_def word_le_def word_uint_eq_iff)
  show "fst p = fst q" if "event_row_key p = event_row_key q" for p q
    using that by (auto simp: event_row_key_def split: prod.splits)
qed

section \<open>The event log\<close>

definition db_up :: db_call where
  "db_up = \<lparr> dc_admit = None, dc_db = None \<rparr>"

lemma db_up_simps [simp]:
  "db_write db_up s (Inr p) run = run p" "db_write db_up s (Inl e) run = (Inl e, s)" "db_read db_up r = r"
  by (simp_all add: db_up_def db_write_def db_read_def)

definition log_sim :: "store_env \<Rightarrow> sqlite_store \<Rightarrow> memory_store \<Rightarrow> bool" where
  "log_sim v s m \<longleftrightarrow>
     represents te_event_id te_headers (event_row_of v) (\<lambda>e. event_ok v e \<and> small_stamps e)
       (qe_events s) (qe_headers s) (set (ms_events m)) \<and>
     distinct (map te_event_id (ms_events m))"

lemma log_sim_append:
  assumes sim: "log_sim v s m" and e: "event_ok v e" "small_stamps e"
  shows "case store_append m e of
      Inl err \<Rightarrow> sqlite_append v db_up s e = (Inl err, s)
    | Inr m' \<Rightarrow> \<exists>s'. sqlite_append v db_up s e = (Inr (), s') \<and> log_sim v s' m'"
proof -
  have repr: "represents te_event_id te_headers (event_row_of v) (\<lambda>e. event_ok v e \<and> small_stamps e)
      (qe_events s) (qe_headers s) (set (ms_events m))"
    using sim by (simp add: log_sim_def)
  have seen: "bt_contains (qe_events s) (te_event_id e) \<longleftrightarrow> list_ex (\<lambda>x. te_event_id x = te_event_id e) (ms_events m)"
    unfolding represents_contains [OF repr] list_ex_iff image_iff by metis
  have row: "to_active_model v e = Inr (event_row_of v e)"
    using e(1) by (auto simp: event_ok_def event_row_of_def)
  show ?thesis
  proof (cases "list_ex (\<lambda>x. te_event_id x = te_event_id e) (ms_events m)")
    case True
    then show ?thesis using seen row by (simp add: store_append_def sqlite_append_def)
  next
    case False
    then have fresh: "te_event_id e \<notin> te_event_id ` set (ms_events m)" by (auto simp: list_ex_iff)
    have "inj_on te_event_id (set (ms_events m) \<union> set [e])"
      using sim fresh by (auto simp: log_sim_def distinct_map)
    from represents_append [OF repr this] e False seen
    have "represents te_event_id te_headers (event_row_of v) (\<lambda>e. event_ok v e \<and> small_stamps e)
        (bt_insert (te_event_id e) (event_row_of v e) (qe_events s))
        (write_header_rows (qe_headers s) [(te_event_id e, te_headers e)]) (insert e (set (ms_events m)))"
      by (simp add: insert_ignore_def)
    then show ?thesis
      using False seen row fresh sim by (simp add: store_append_def sqlite_append_def log_sim_def)
  qed
qed

text \<open>The reads, on the events in transcript order.\<close>

lemma log_sim_view:
  assumes "log_sim v s m"
  shows "ordered_events s = map (\<lambda>e. (te_event_id e, event_row_of v e)) (sort_key event_order (ms_events m))"
    "\<forall>e \<in> set (sort_key event_order (ms_events m)). event_ok v e \<and> small_stamps e"
    "sorted_wrt (<) (map event_order (sort_key event_order (ms_events m)))"
proof -
  let ?es = "sort_key event_order (ms_events m)"
  have repr: "represents te_event_id te_headers (event_row_of v) (\<lambda>e. event_ok v e \<and> small_stamps e)
      (qe_events s) (qe_headers s) (set (ms_events m))" and d: "distinct (map te_event_id (ms_events m))"
    using assms by (simp_all add: log_sim_def)
  have "distinct (map event_order (ms_events m))"
    using d by (auto simp: distinct_map inj_on_def event_order_def)
  then show strict: "sorted_wrt (<) (map event_order ?es)"
    using distinct_map_sort by (auto simp: strict_sorted_iff)
  obtain es where es: "sort_key event_row_key (qe_events s) = map (\<lambda>e. (te_event_id e, event_row_of v e)) es"
      "set es = set (ms_events m)" "sorted_wrt (<) (map event_order es)"
    using log_table.view [OF repr] by blast
  have "es = ?es"
    by (rule strict_sorted_key_unique [where key = event_order]) (use es strict in simp_all)
  then show "ordered_events s = map (\<lambda>e. (te_event_id e, event_row_of v e)) ?es"
    using es(1) by (simp add: ordered_events_def)
  show "\<forall>e \<in> set ?es. event_ok v e \<and> small_stamps e"
    using represents_elem(1) [OF repr] by simp
qed

lemma log_row:
  assumes "event_ok v e" "small_stamps e"
  shows "row_in_channel ch (te_event_id e, event_row_of v e) \<longleftrightarrow> in_channel ch e"
    "uint (tc_lamport c) < 2 ^ 63 \<Longrightarrow> row_strictly_after c (te_event_id e, event_row_of v e) \<longleftrightarrow> strictly_after e c"
    "uint (tc_lamport c) < 2 ^ 63 \<Longrightarrow> row_through c (te_event_id e, event_row_of v e) \<longleftrightarrow> \<not> strictly_after e c"
  using assms
  by (auto simp: row_in_channel_def in_channel_def row_strictly_after_def row_through_def strictly_after_def
      event_row_fields small_stamps_def as_i64_small word_less_def word_le_def word_uint_eq_iff)

lemma sim_page_recent:
  assumes sim: "log_sim v s m"
  shows "sqlite_page_recent v db_up s ch limit = Inr (store_page_recent m ch limit)"
proof -
  note view = log_sim_view [OF sim]
  have "sqlite_page_recent v db_up s ch limit = Inr (kept limit True (filter (in_channel ch) (sort_key event_order (ms_events m))))"
    unfolding sqlite_page_recent_def db_up_simps view(1) kept_tail [symmetric]
    by (rule log_table.slice [OF view(2)]) (use view(2) log_row in auto)
  then show ?thesis
    by (simp add: store_page_recent_def newest_slice_eq kept_def filter_sort)
qed

lemma sim_resume_from:
  assumes sim: "log_sim v s m" and c: "uint (tc_lamport c) < 2 ^ 63"
  shows "sqlite_resume_from v db_up s c ch limit = store_resume_from m c ch limit"
proof -
  note view = log_sim_view [OF sim]
  have "sqlite_resume_from v db_up s c ch limit =
      Inr (kept limit False (filter (\<lambda>e. strictly_after e c \<and> in_channel ch e) (sort_key event_order (ms_events m))))"
    unfolding sqlite_resume_from_def db_up_simps view(1) kept_head [symmetric]
    by (rule log_table.slice [OF view(2)]) (use view(2) log_row c in auto)
  then show ?thesis
    by (simp add: store_resume_from_def kept_def filter_sort conj_commute)
qed

lemma event_query_row:
  assumes sim: "log_sim v s m" and e: "e \<in> set (ms_events m)" and f: "filter_utf8 f"
    and c: "uint (tc_lamport after) < 2 ^ 63" "uint (tc_lamport through) < 2 ^ 63"
  shows "row_strictly_after after (te_event_id e, event_row_of v e) \<longleftrightarrow> strictly_after e after"
    "row_through through (te_event_id e, event_row_of v e) \<longleftrightarrow> \<not> strictly_after e through"
    "sql_predicate f (qe_headers s) (te_event_id e) \<longleftrightarrow> filter_matches f (te_headers e)"
    "not_runtime_self rule (qe_headers s) (te_event_id e) client \<longleftrightarrow> \<not> is_self rule (te_headers e) client"
    "event_ok v e" "small_stamps e"
proof -
  have repr: "represents te_event_id te_headers (event_row_of v) (\<lambda>e. event_ok v e \<and> small_stamps e)
      (qe_events s) (qe_headers s) (set (ms_events m))"
    using sim by (simp add: log_sim_def)
  note elem = represents_elem [OF repr e]
  show ok: "event_ok v e" "small_stamps e" using elem(1) by simp_all
  show "row_strictly_after after (te_event_id e, event_row_of v e) \<longleftrightarrow> strictly_after e after"
    "row_through through (te_event_id e, event_row_of v e) \<longleftrightarrow> \<not> strictly_after e through"
    using log_row [OF ok] c by simp_all
  show "sql_predicate f (qe_headers s) (te_event_id e) \<longleftrightarrow> filter_matches f (te_headers e)"
    using elem(3,4) ok f by (intro sql_predicate_exact) (simp_all add: event_ok_def)
  show "not_runtime_self rule (qe_headers s) (te_event_id e) client \<longleftrightarrow> \<not> is_self rule (te_headers e) client"
    using elem(3,4) by (intro not_runtime_self_exact)
qed

lemma sim_matching_history:
  assumes sim: "log_sim v s m" and f: "filter_utf8 (hm_headers rule)"
    and c: "uint (tc_lamport after) < 2 ^ 63" "uint (tc_lamport through) < 2 ^ 63"
  shows "sqlite_matching_history v db_up s after through channels rule limit tail =
    Inr (store_matching_history (se_alnum v) m after through channels rule limit tail)"
proof -
  note view = log_sim_view [OF sim]
  let ?Q = "\<lambda>e. te_room_id e \<in> set channels \<and> strictly_after e after \<and> \<not> strictly_after e through \<and>
    matches_event (se_alnum v) rule e"
  have eo: "(\<lambda>e. (te_lamport e, te_event_id e)) = event_order"
    by (simp add: fun_eq_iff event_order_def)
  have "sqlite_matching_history v db_up s after through channels rule limit tail =
      Inr (kept limit tail (filter ?Q (sort_key event_order (ms_events m))))"
    unfolding sqlite_matching_history_def db_up_simps view(1) event_query_matching_def
  proof (rule log_table.addressee_slice [OF view(2,3)])
    fix e assume "e \<in> set (sort_key event_order (ms_events m))"
    then have e: "e \<in> set (ms_events m)" by simp
    note row = event_query_row [OF sim e f c]
    show "(case (te_event_id e, event_row_of v e) of (i, r) \<Rightarrow> row_strictly_after after (i, r) \<and> evr_room_id r \<in> set channels \<and>
        sql_predicate (hm_headers rule) (qe_headers s) i \<and> row_through through (i, r)) \<and>
      is_none_or (hm_addressed_to rule) (admitted_by
        \<lparr> ad_peer = (case (te_event_id e, event_row_of v e) of (_, r) \<Rightarrow> evr_addressed_peer r),
          ad_leading_mention = (case (te_event_id e, event_row_of v e) of (_, r) \<Rightarrow> evr_leading_mention r) \<rparr>) \<longleftrightarrow> ?Q e"
      using row by (auto simp: event_row_fields matches_event_def matches_with_def)
  qed
  then show ?thesis
    unfolding store_matching_history_def select_sorted eo by (simp add: kept_def filter_sort)
qed

text \<open>The newest event is the last one in order.\<close>

lemma max_by_order_max:
  "es \<noteq> [] \<Longrightarrow> \<exists>x. max_by_order es = Some x \<and> x \<in> set es \<and> (\<forall>y \<in> set es. event_order y \<le> event_order x)"
proof (induction es)
  case (Cons e es)
  show ?case
  proof (cases "es = []")
    case False
    then obtain x where "max_by_order es = Some x" "x \<in> set es" "\<forall>y \<in> set es. event_order y \<le> event_order x"
      using Cons.IH by blast
    then show ?thesis
      by (cases "event_order x < event_order e") (auto intro: order_trans less_imp_le simp: not_less)
  qed simp
qed simp

lemma max_by_order_last:
  assumes "distinct (map event_order es)"
  shows "max_by_order es = last_opt (sort_key event_order es)"
proof (cases "es = []")
  case False
  then obtain x where x: "max_by_order es = Some x" "x \<in> set es" "\<forall>y \<in> set es. event_order y \<le> event_order x"
    using max_by_order_max by blast
  have "sorted_wrt (<) (map event_order (sort_key event_order es))"
    using distinct_map_sort [OF assms] by (simp add: strict_sorted_iff)
  then have "last (sort_key event_order es) = x"
    by (rule strict_max_last) (use x in simp_all)
  moreover have "sort_key event_order es \<noteq> []"
    using False by (metis length_0_conv length_sort)
  ultimately show ?thesis by (simp add: x(1) last_opt_def)
qed (simp add: last_opt_def)

lemma sim_latest_cursor:
  assumes sim: "log_sim v s m"
  shows "sqlite_latest_cursor db_up s ch = Inr (latest_cursor m ch)"
proof -
  note view = log_sim_view [OF sim]
  let ?row = "\<lambda>e. (te_event_id e, event_row_of v e)"
  let ?es = "filter (in_channel ch) (sort_key event_order (ms_events m))"
  have f: "filter (row_in_channel ch) (ordered_events s) = map ?row ?es"
    unfolding view(1) by (rule filter_rows) (use view(2) log_row(1) in blast)
  have "distinct (map event_order (ms_events m))"
    using sim by (simp add: log_sim_def distinct_ids_order)
  then have "distinct (map event_order (filter (in_channel ch) (ms_events m)))"
    by (rule distinct_map_filter)
  then have mem: "latest_cursor m ch = map_option event_cursor (last_opt ?es)"
    by (simp add: latest_cursor_def max_by_order_last filter_sort)
  have "\<lparr> tc_lamport = as_u64 (evr_lamport (event_row_of v e)), tc_event_id = te_event_id e \<rparr> = event_cursor e"
    if "e \<in> set ?es" for e
    using that view(2) by (simp add: event_row_fields event_cursor_def)
  moreover have "?es \<noteq> [] \<Longrightarrow> last ?es \<in> set ?es"
    by (rule last_in_set)
  ultimately show ?thesis
    by (simp add: sqlite_latest_cursor_def f mem last_opt_def last_map)
qed

lemma fold_with_event_perm:
  "length ts = length us \<Longrightarrow> set ts = set us \<Longrightarrow>
     fold (\<lambda>t c. with_event c t) ts history_count_default = fold (\<lambda>t c. with_event c t) us history_count_default"
  unfolding fold_with_event by (cases "ts = []") auto

lemma sim_count_history:
  assumes sim: "log_sim v s m" and f: "filter_utf8 headers"
    and c: "uint (tc_lamport after) < 2 ^ 63" "uint (tc_lamport through) < 2 ^ 63"
  shows "\<exists>c. sqlite_count_history db_up s after through channels headers exclude = Inr c \<and>
    (\<not> hc_more c \<longrightarrow> c = store_count_history m after through channels headers exclude)"
proof -
  note view = log_sim_view [OF sim]
  let ?row = "\<lambda>e. (te_event_id e, event_row_of v e)"
  let ?Q = "\<lambda>e. te_room_id e \<in> set channels \<and> strictly_after e after \<and> \<not> strictly_after e through \<and>
    filter_matches headers (te_headers e) \<and> \<not> is_some_and exclude (\<lambda>rule. is_self_event rule e)"
  let ?es = "filter ?Q (sort_key event_order (ms_events m))"
  have rows: "filter (\<lambda>(i, r). evr_room_id r \<in> set channels \<and> row_strictly_after after (i, r) \<and> row_through through (i, r) \<and>
      sql_predicate headers (qe_headers s) i \<and>
      is_none_or exclude (\<lambda>rule. not_runtime_self rule (qe_headers s) i (evr_client_id r))) (ordered_events s) = map ?row ?es"
    unfolding view(1)
  proof (rule filter_rows)
    fix e assume "e \<in> set (sort_key event_order (ms_events m))"
    then have e: "e \<in> set (ms_events m)" by simp
    note row = event_query_row [OF sim e f c]
    have "is_none_or exclude (\<lambda>rule. not_runtime_self rule (qe_headers s) (te_event_id e) (te_client_id e)) \<longleftrightarrow>
        \<not> is_some_and exclude (\<lambda>rule. is_self_event rule e)"
      by (cases exclude) (simp_all add: row(4) is_self_event_def)
    then show "(case ?row e of (i, r) \<Rightarrow> evr_room_id r \<in> set channels \<and> row_strictly_after after (i, r) \<and>
        row_through through (i, r) \<and> sql_predicate headers (qe_headers s) i \<and>
        is_none_or exclude (\<lambda>rule. not_runtime_self rule (qe_headers s) i (evr_client_id r))) \<longleftrightarrow> ?Q e"
      using row by (simp add: event_row_fields)
  qed
  have times: "collect_results (\<lambda>(_, r). history_to_u64 g (evr_occurred_at_ms r)) (map ?row xs) = Inr (map te_occurred_at_ms xs)"
    if "set xs \<subseteq> set (sort_key event_order (ms_events m))" for g xs
    using that view(2)
    by (induction xs) (auto simp: event_row_fields history_to_u64_def small_stamps_def as_i64_small)
  have "set (take n (rev ?es)) \<subseteq> set (sort_key event_order (ms_events m))" for n
    by (auto dest: in_set_takeD)
  then have "sqlite_count_history db_up s after through channels headers exclude =
      Inr (of_newest (take (HISTORY_COUNT_CAP + 1) (rev (map te_occurred_at_ms ?es))))"
    by (simp add: sqlite_count_history_def rows rev_map take_map times del: set_sort)
  then have sql: "sqlite_count_history db_up s after through channels headers exclude =
      Inr (of_newest (rev (map te_occurred_at_ms ?es)))"
    by (simp only: of_newest_take)
  have "store_count_history m after through channels headers exclude =
      fold (\<lambda>t c. with_event c t) (map te_occurred_at_ms (filter ?Q (ms_events m))) history_count_default"
    by (simp add: store_count_history_def fold_map comp_def)
  also have "\<dots> = fold (\<lambda>t c. with_event c t) (map te_occurred_at_ms ?es) history_count_default"
    by (rule fold_with_event_perm) (simp_all add: filter_sort)
  finally have mem: "store_count_history m after through channels headers exclude =
      fold (\<lambda>t c. with_event c t) (map te_occurred_at_ms ?es) history_count_default" .
  show ?thesis
    unfolding sql mem by (intro exI conjI impI, rule refl, rule of_newest_complete)
qed

section \<open>Runs\<close>

fun memory_run :: "memory_store \<Rightarrow> transcript_event list \<Rightarrow> (store_error + unit) list \<times> memory_store" where
  "memory_run m [] = ([], m)"
| "memory_run m (e # es) =
     (case store_append m e of
        Inl err \<Rightarrow> (let (rs, m') = memory_run m es in (Inl err # rs, m'))
      | Inr m1 \<Rightarrow> (let (rs, m') = memory_run m1 es in (Inr () # rs, m')))"

fun sqlite_run :: "store_env \<Rightarrow> sqlite_store \<Rightarrow> transcript_event list \<Rightarrow> (store_error + unit) list \<times> sqlite_store" where
  "sqlite_run v s [] = ([], s)"
| "sqlite_run v s (e # es) =
     (let (r, s1) = sqlite_append v db_up s e; (rs, s') = sqlite_run v s1 es in (r # rs, s'))"

lemma run_sim:
  assumes "log_sim v s m" "\<forall>e \<in> set es. event_ok v e \<and> small_stamps e"
  shows "fst (sqlite_run v s es) = fst (memory_run m es) \<and> log_sim v (snd (sqlite_run v s es)) (snd (memory_run m es))"
  using assms
proof (induction es arbitrary: s m)
  case (Cons e es)
  note step = log_sim_append [OF Cons.prems(1), of e]
  show ?case
  proof (cases "store_append m e")
    case (Inl err)
    then have "sqlite_append v db_up s e = (Inl err, s)"
      using step Cons.prems(2) by simp
    then show ?thesis
      using Cons.IH [OF Cons.prems(1)] Cons.prems(2) Inl by (simp add: split_beta)
  next
    case (Inr m1)
    then obtain s1 where "sqlite_append v db_up s e = (Inr (), s1)" "log_sim v s1 m1"
      using step Cons.prems(2) by auto
    then show ?thesis
      using Cons.IH [of s1 m1] Cons.prems(2) Inr by (simp add: split_beta)
  qed
qed simp

lemma log_sim_empty: "log_sim v sqlite_store_empty memory_store_new"
  by (simp add: log_sim_def sqlite_store_empty_def memory_store_new_def represents_empty)

text \<open>
  C22. The SQLite event store implements the in-memory one. Given the same events, each append
  answers alike, a second event with an id being refused by both; afterwards every read
  agrees: the recent page, resuming from a cursor, the history query, the latest cursor, and
  the count unless it reports that there is more. Required are numbers below \<open>2 ^ 63\<close>.
\<close>

theorem event_store_refines_memory:
  assumes data: "\<forall>e \<in> set es. event_ok v e \<and> small_stamps e"
    and run: "sqlite_run v sqlite_store_empty es = (answers, s)" "memory_run memory_store_new es = (answers', m)"
    and c: "uint (tc_lamport after) < 2 ^ 63" "uint (tc_lamport through) < 2 ^ 63"
    and f: "filter_utf8 (hm_headers rule)" "filter_utf8 headers"
  shows "answers = answers' \<and>
    sqlite_page_recent v db_up s ch limit = Inr (store_page_recent m ch limit) \<and>
    sqlite_resume_from v db_up s after ch limit = store_resume_from m after ch limit \<and>
    sqlite_matching_history v db_up s after through channels rule limit tail =
      Inr (store_matching_history (se_alnum v) m after through channels rule limit tail) \<and>
    sqlite_latest_cursor db_up s ch = Inr (latest_cursor m ch) \<and>
    (\<exists>n. sqlite_count_history db_up s after through channels headers exclude = Inr n \<and>
      (\<not> hc_more n \<longrightarrow> n = store_count_history m after through channels headers exclude))"
proof -
  have "answers = answers'" and sim: "log_sim v s m"
    using run_sim [OF log_sim_empty data] run by simp_all
  then show ?thesis
    using sim_page_recent [OF sim] sim_resume_from [OF sim c(1)] sim_matching_history [OF sim f(1) c]
      sim_latest_cursor [OF sim] sim_count_history [OF sim f(2) c]
    by (intro conjI) blast+
qed

definition demo_store_env :: store_env where
  "demo_store_env =
     \<lparr> se_alnum = (\<lambda>_. None),
       se_target_json = (\<lambda>t. if t = MT_All then Some JNull else None), se_target_of = (\<lambda>_. Some MT_All),
       se_headers_json = (\<lambda>h. Some (JObject (map (\<lambda>(k, v). (k, JString v)) h))),
       se_headers_of = (\<lambda>j. case j of
          JObject kvs \<Rightarrow> Some (map (\<lambda>(k, v). (k, case v of JString t \<Rightarrow> t | _ \<Rightarrow> [])) kvs) | _ \<Rightarrow> None),
       se_body_json = (\<lambda>_. None), se_body_of = (\<lambda>_. None),
       se_attachment_json = (\<lambda>_. None), se_attachment_of = (\<lambda>_. None),
       se_receipt_json = (\<lambda>_. None), se_receipt_of = (\<lambda>_. None),
       se_integrations_json = (\<lambda>_. Some JNull), se_integrations_of = (\<lambda>_. Some []) \<rparr>"

lemma demo_event_codec: "event_codec_ok demo_store_env"
  by (auto simp: event_codec_ok_def demo_store_env_def comp_def split_beta split: if_splits)

lemma demo_event_ok: "event_ok demo_store_env (sample_event n)"
  using demo_event_codec
  by (simp add: event_ok_def sample_event_def headers_utf8_def to_active_model_def demo_store_env_def json_opt_def Let_def)

theorem event_store_refines_memory_witness:
  "\<exists>answers s m. sqlite_run demo_store_env sqlite_store_empty [sample_event 5] = (answers, s) \<and>
     memory_run memory_store_new [sample_event 5] = (answers, m) \<and>
     sqlite_page_recent demo_store_env db_up s None 1 = Inr (store_page_recent m None 1)"
proof -
  obtain answers s where s: "sqlite_run demo_store_env sqlite_store_empty [sample_event 5] = (answers, s)"
    by fastforce
  obtain answers' m where m: "memory_run memory_store_new [sample_event 5] = (answers', m)"
    by fastforce
  have small: "\<forall>e \<in> set [sample_event 5]. event_ok demo_store_env e \<and> small_stamps e"
    using demo_event_ok by (simp add: small_stamps_def sample_event_def)
  show ?thesis
    using event_store_refines_memory [OF small s m, of "\<lparr> tc_lamport = 0, tc_event_id = 0 \<rparr>"
        "\<lparr> tc_lamport = 9, tc_event_id = 0 \<rparr>" "history_match_headers HF_Any" HF_Any None 1] s m
    by (simp add: history_match_headers_def)
qed

end
