(* ===== verification/Sql_Store_Props.thy ===== *)
theory Sql_Store_Props
  imports Sql_Store_Refine
begin

text \<open>
  Further properties of the SQLite event store: lamports past the sign bit of their column,
  consumer checkpoints, the identity card, and the refresh lock under interference of other
  processes.
\<close>

section \<open>Lamports past the sign bit\<close>

lemma as_i64_big:
  assumes "2 ^ 63 \<le> uint (w :: u64)"
  shows "as_i64 w = uint w - 2 ^ 64"
proof -
  have "uint w < 2 ^ 64" using uint_lt2p [of w] by simp
  then have "uint w div 2 ^ 63 = 1" using assms by (simp add: div_pos_geq)
  then have "bit (uint w) 63" by (simp add: bit_iff_odd)
  then show ?thesis
    using \<open>uint w < 2 ^ 64\<close>
    by (simp add: as_i64_def sint_uint signed_take_bit_eq_take_bit_minus take_bit_int_eq_self)
qed

lemma as_i64_cases:
  obtains "uint w < 2 ^ 63" "as_i64 w = uint w" | "2 ^ 63 \<le> uint w" "as_i64 w = uint w - 2 ^ 64" "as_i64 w < 0"
  using as_i64_small [of w] as_i64_big [of w] uint_lt2p [of w] by (cases "uint w < 2 ^ 63") simp_all

lemma as_i64_sign: "as_i64 w < 0 \<longleftrightarrow> 2 ^ 63 \<le> uint w"
  by (rule as_i64_cases [of w]) (simp_all add: not_less)

text \<open>The comparison of the cursor upsert is the order of the unsigned lamports.\<close>

lemma older_lamport_exact: "older_lamport (as_i64 a) (as_i64 b) \<longleftrightarrow> b < a"
  by (rule as_i64_cases [of a]; rule as_i64_cases [of b])
    (auto simp: older_lamport_def word_less_def)

text \<open>Every row of the log was made from an appended event.\<close>

definition rows_from :: "store_env \<Rightarrow> sqlite_store \<Rightarrow> transcript_event set \<Rightarrow> bool" where
  "rows_from v s E \<longleftrightarrow> (\<forall>p \<in> set (qe_events s). \<exists>e \<in> E. event_ok v e \<and> p = (te_event_id e, event_row_of v e))"

lemma sqlite_append_rows_from:
  assumes "rows_from v s E" "event_ok v e" "sqlite_append v db_up s e = (r, s')"
  shows "rows_from v s' (insert e E)"
proof -
  have "to_active_model v e = Inr (event_row_of v e)"
    using assms(2) by (auto simp: event_ok_def event_row_of_def)
  then have "qe_events s' = qe_events s \<or> qe_events s' = bt_insert (te_event_id e) (event_row_of v e) (qe_events s)"
    using assms(3) by (auto simp: sqlite_append_def split: if_splits)
  then have "set (qe_events s') \<subseteq> insert (te_event_id e, event_row_of v e) (set (qe_events s))"
    using set_bt_insert_subset [of "te_event_id e" "event_row_of v e" "qe_events s"] by auto
  then show ?thesis
    using assms(1,2) by (fastforce simp: rows_from_def)
qed

lemma sqlite_run_rows_from:
  "rows_from v s E \<Longrightarrow> \<forall>e \<in> set es. event_ok v e \<Longrightarrow> rows_from v (snd (sqlite_run v s es)) (E \<union> set es)"
proof (induction es arbitrary: s E)
  case (Cons e es)
  obtain r s1 where app: "sqlite_append v db_up s e = (r, s1)" by fastforce
  then have "rows_from v s1 (insert e E)"
    using Cons.prems sqlite_append_rows_from by simp
  from Cons.IH [OF this] show ?case
    using Cons.prems app by (simp add: split_beta)
qed simp

lemma collect_results_elem: "collect_results f xs = Inr ys \<Longrightarrow> y \<in> set ys \<Longrightarrow> \<exists>x \<in> set xs. f x = Inr y"
  by (induction xs arbitrary: ys) (auto simp: res_bind_eq_Inr)

text \<open>An event that resuming returns was appended, and its row lies after the cursor.\<close>

lemma resume_from_elem:
  assumes "rows_from v s E" "sqlite_resume_from v db_up s c ch limit = Inr out" "e \<in> set out"
  shows "e \<in> E \<and> row_strictly_after c (te_event_id e, event_row_of v e)"
proof -
  obtain p where p: "p \<in> set (filter (\<lambda>p. row_strictly_after c p \<and> row_in_channel ch p) (ordered_events s))"
      "from_model v p = Inr e"
    using collect_results_elem assms(2,3) by (fastforce simp: sqlite_resume_from_def dest: in_set_takeD)
  then obtain x where "x \<in> E" "event_ok v x" "p = (te_event_id x, event_row_of v x)"
    using assms(1) by (auto simp: rows_from_def ordered_events_def)
  then show ?thesis using p event_model_round_trip by auto
qed

lemma memory_run_set: "set (ms_events m) \<subseteq> set (ms_events (snd (memory_run m es)))"
proof (induction es arbitrary: m)
  case (Cons e es)
  then show ?case
  proof (cases "store_append m e")
    case (Inr m1)
    then have "set (ms_events m) \<subseteq> set (ms_events m1)" by (auto simp: store_append_def split: if_splits)
    then show ?thesis using Cons.IH [of m1] Inr by (simp add: split_beta)
  qed (use Cons.IH in \<open>simp add: split_beta\<close>)
qed simp

lemma memory_run_length: "length (ms_events (snd (memory_run m es))) \<le> length (ms_events m) + length es"
proof (induction es arbitrary: m)
  case (Cons e es)
  then show ?case
  proof (cases "store_append m e")
    case (Inr m1)
    then have "length (ms_events m1) = Suc (length (ms_events m))" by (auto simp: store_append_def split: if_splits)
    then show ?thesis using Cons.IH [of m1] Inr by (simp add: split_beta)
  next
    case (Inl err)
    then show ?thesis using Cons.IH [of m] by (simp add: split_beta)
  qed
qed simp

text \<open>
  A consumer that resumes never sees an event whose lamport has the top bit set. The
  column is signed and \<open>resume_from\<close> compares signed values, so from a cursor below
  \<open>2 ^ 63\<close> such an event, although stored, is returned for no limit and no channel, where
  the in-memory store returns it.
\<close>

theorem large_lamport_unseen:
  assumes data: "\<forall>x \<in> set (e # es). event_ok v x"
    and big: "2 ^ 63 \<le> uint (te_lamport e)" and c: "uint (tc_lamport c) < 2 ^ 63"
    and run: "sqlite_run v sqlite_store_empty (e # es) = (answers, s)" "memory_run memory_store_new (e # es) = (answers', m)"
  shows "hd answers = Inr () \<and>
    (\<forall>ch limit out. sqlite_resume_from v db_up s c ch limit = Inr out \<longrightarrow> e \<notin> set out) \<and>
    (\<exists>out. store_resume_from m c None (Suc (length es)) = Inr out \<and> e \<in> set out)"
proof (intro conjI allI impI)
  have "to_active_model v e = Inr (event_row_of v e)"
    using data by (auto simp: event_ok_def event_row_of_def)
  then show "hd answers = Inr ()"
    using run(1) by (auto simp: sqlite_append_def sqlite_store_empty_def bt_contains_def split_beta)
next
  fix ch limit out assume out: "sqlite_resume_from v db_up s c ch limit = Inr out"
  have "rows_from v sqlite_store_empty {}"
    by (simp add: rows_from_def sqlite_store_empty_def)
  from sqlite_run_rows_from [OF this data] have "rows_from v s (set (e # es))"
    using run(1) by simp
  moreover have "\<not> row_strictly_after c (te_event_id e, event_row_of v e)"
    using data as_i64_sign [of "te_lamport e"] as_i64_sign [of "tc_lamport c"] big c
    by (auto simp: row_strictly_after_def event_row_fields)
  ultimately show "e \<notin> set out"
    using resume_from_elem [OF _ out] by blast
next
  have m: "m = snd (memory_run (memory_store_new\<lparr> ms_events := [e] \<rparr>) es)"
    using run(2) by (simp add: store_append_def memory_store_new_def split_beta)
  have "e \<in> set (ms_events m)" "length (ms_events m) \<le> Suc (length es)"
    unfolding m
    using memory_run_set [of "memory_store_new\<lparr> ms_events := [e] \<rparr>" es] memory_run_length [of "memory_store_new\<lparr> ms_events := [e] \<rparr>" es]
    by auto
  moreover have "strictly_after e c"
    using big c by (simp add: strictly_after_def word_less_def)
  moreover have "length (filter P (filter Q xs)) \<le> length xs" for P Q and xs :: "transcript_event list"
    by (metis filter_filter length_filter_le)
  ultimately have "take (Suc (length es)) (sort_key event_order (filter (\<lambda>x. strictly_after x c) (filter (in_channel None) (ms_events m)))) =
      sort_key event_order (filter (\<lambda>x. strictly_after x c) (filter (in_channel None) (ms_events m)))"
    by (intro take_all) (metis length_sort le_trans)
  then show "\<exists>out. store_resume_from m c None (Suc (length es)) = Inr out \<and> e \<in> set out"
    using \<open>e \<in> set (ms_events m)\<close> \<open>strictly_after e c\<close>
    by (simp add: store_resume_from_def in_channel_def)
qed

theorem large_lamport_unseen_witness:
  "\<exists>s. snd (sqlite_run demo_store_env sqlite_store_empty [sample_event (2 ^ 63)]) = s \<and>
     (\<forall>out. sqlite_resume_from demo_store_env db_up s \<lparr> tc_lamport = 1, tc_event_id = 0 \<rparr> None 10 = Inr out \<longrightarrow>
       sample_event (2 ^ 63) \<notin> set out)"
proof -
  obtain answers s where s: "sqlite_run demo_store_env sqlite_store_empty [sample_event (2 ^ 63)] = (answers, s)"
    by fastforce
  obtain answers' m where m: "memory_run memory_store_new [sample_event (2 ^ 63)] = (answers', m)"
    by fastforce
  show ?thesis
    using large_lamport_unseen [of "sample_event (2 ^ 63)" "[]" demo_store_env "\<lparr> tc_lamport = 1, tc_event_id = 0 \<rparr>",
        OF _ _ _ s m] demo_event_ok s
    by (simp add: sample_event_def)
qed

section \<open>Consumer checkpoints\<close>

fun memory_saves :: "memory_store \<Rightarrow> (string \<times> transcript_cursor \<times> u64) list \<Rightarrow> memory_store" where
  "memory_saves m [] = m"
| "memory_saves m ((consumer, c, t) # saves) = memory_saves (save_runtime_cursor m consumer c) saves"

fun sqlite_saves :: "sqlite_store \<Rightarrow> (string \<times> transcript_cursor \<times> u64) list \<Rightarrow> sqlite_store" where
  "sqlite_saves s [] = s"
| "sqlite_saves s ((consumer, c, t) # saves) = sqlite_saves (snd (sqlite_save_runtime_cursor db_up s consumer c t)) saves"

definition cursor_row_of :: "runtime_cursor_row \<Rightarrow> transcript_cursor" where
  "cursor_row_of r = \<lparr> tc_lamport = as_u64 (rcr_lamport r), tc_event_id = rcr_event_id r \<rparr>"

definition cursors_sim :: "sqlite_store \<Rightarrow> memory_store \<Rightarrow> bool" where
  "cursors_sim s m \<longleftrightarrow>
     (\<forall>k. map_option cursor_row_of (map_of (qe_runtime_cursors s) k) = map_of (ms_runtime_cursors m) k) \<and>
     (\<forall>k r. map_of (qe_runtime_cursors s) k = Some r \<longrightarrow> (\<exists>w. rcr_lamport r = as_i64 w))"

lemma save_cursor_sim:
  assumes sim: "cursors_sim s m"
  shows "cursors_sim (snd (sqlite_save_runtime_cursor db_up s k c t)) (save_runtime_cursor m k c)"
proof (cases "map_of (qe_runtime_cursors s) k")
  case None
  then have "map_of (ms_runtime_cursors m) k = None"
    using sim by (metis cursors_sim_def option.map_disc_iff)
  then show ?thesis
    using sim None by (auto simp: cursors_sim_def sqlite_save_runtime_cursor_def save_runtime_cursor_def cursor_row_of_def Let_def)
next
  case (Some old)
  then obtain w where w: "rcr_lamport old = as_i64 w" using sim unfolding cursors_sim_def by blast
  have "map_of (ms_runtime_cursors m) k = Some (cursor_row_of old)"
    using sim Some unfolding cursors_sim_def by (metis option.map(2))
  moreover have "older_lamport (as_i64 (tc_lamport c)) (rcr_lamport old) \<or>
      rcr_lamport old = as_i64 (tc_lamport c) \<and> rcr_event_id old < tc_event_id c \<longleftrightarrow>
      (tc_lamport (cursor_row_of old), tc_event_id (cursor_row_of old)) < (tc_lamport c, tc_event_id c)"
    by (auto simp: w older_lamport_exact cursor_row_of_def)
  ultimately show ?thesis
    using sim Some w
    by (auto simp: cursors_sim_def sqlite_save_runtime_cursor_def save_runtime_cursor_def Let_def cursor_row_of_def)
qed

lemma saves_sim: "cursors_sim s m \<Longrightarrow> cursors_sim (sqlite_saves s saves) (memory_saves m saves)"
  by (induction s saves arbitrary: m rule: sqlite_saves.induct) (auto dest: save_cursor_sim)

text \<open>
  C24. A consumer's checkpoint is the newest cursor it ever saved, for lamports of the full
  64-bit range. The upsert on the signed column and the in-memory map agree after any
  sequence of saves by any consumers.
\<close>

theorem runtime_cursor_refines:
  "sqlite_load_runtime_cursor db_up (sqlite_saves sqlite_store_empty saves) consumer =
     Inr (load_runtime_cursor (memory_saves memory_store_new saves) consumer)"
proof -
  have "cursors_sim sqlite_store_empty memory_store_new"
    by (simp add: cursors_sim_def sqlite_store_empty_def memory_store_new_def)
  from saves_sim [OF this, of saves] show ?thesis
    by (simp add: cursors_sim_def sqlite_load_runtime_cursor_def load_runtime_cursor_def cursor_row_of_def [abs_def])
qed

section \<open>The identity card\<close>

definition identity_fits :: "store_env \<Rightarrow> stored_local_identity \<Rightarrow> bool" where
  "identity_fits v i \<longleftrightarrow>
     uint (li_version i) < 2 ^ 31 \<and> uint (li_created_at_ms i) < 2 ^ 63 \<and>
     (\<exists>j. se_integrations_json v (ic_integrations (li_identity i)) = Some j \<and>
        se_integrations_of v j = Some (ic_integrations (li_identity i)))"

definition identity_row :: "store_env \<Rightarrow> stored_local_identity \<Rightarrow> local_identity_row" where
  "identity_row v i =
     \<lparr> lir_peer_id = li_peer_id i, lir_client_id = li_client_id i, lir_version = uint (li_version i),
       lir_created_at_ms = uint (li_created_at_ms i), lir_name = ic_name (li_identity i),
       lir_pronouns = ic_pronouns (li_identity i), lir_role = ic_role (li_identity i),
       lir_bio = ic_bio (li_identity i), lir_status = ic_status (li_identity i),
       lir_fingerprint = ic_fingerprint (li_identity i),
       lir_integrations_json = the (se_integrations_json v (ic_integrations (li_identity i))),
       lir_agent_name = li_agent_name i \<rparr>"

lemma insert_identity_fits:
  assumes "identity_fits v i" "identity_row_named s (li_agent_name i) = None"
  shows "sqlite_insert_local_identity v db_up s i = (Inr (), s\<lparr> qe_local_identity :=
    bt_insert (next_row_id (qe_local_identity s)) (identity_row v i) (qe_local_identity s) \<rparr>)"
  using assms
  by (auto simp: sqlite_insert_local_identity_def identity_fits_def identity_row_def u64_to_i64_def ok_or_def)

lemma load_identity_row:
  assumes "identity_fits v i" "identity_row_named s name = Some (identity_row v i)"
  shows "sqlite_load_local_identity_by_agent_name v db_up s name = Inr (Some i)"
  using assms
  by (auto simp: sqlite_load_local_identity_by_agent_name_def identity_fits_def identity_row_def identity_from_row_def
      i64_to_u64_Ok)

text \<open>
  C25. The identity card goes to the wrong agent. When another agent's identity was stored
  before the default agent's, saving the card changes the row with id 1, which is the other
  agent's: the default agent keeps its old card and the other agent has the new one. The
  in-memory store changes the default agent's card.
\<close>

theorem card_saved_to_first_agent:
  assumes names: "li_agent_name d = DEFAULT_AGENT_NAME" "li_agent_name a \<noteq> DEFAULT_AGENT_NAME"
    and fits: "identity_fits v a" "identity_fits v d" "identity_fits v (d\<lparr> li_identity := card_new \<rparr>)"
    and run: "sqlite_insert_local_identity v db_up sqlite_store_empty a = (r1, s1)"
      "sqlite_insert_local_identity v db_up s1 d = (r2, s2)" "sqlite_save_local_identity_card v db_up s2 card_new = (r3, s3)"
    and mem: "insert_local_identity memory_store_new a = Inr m1" "insert_local_identity m1 d = Inr m2"
      "save_local_identity_card m2 card_new = Inr m3"
  shows "r1 = Inr () \<and> r2 = Inr () \<and> r3 = Inr () \<and>
    sqlite_load_local_identity v db_up s3 = Inr (Some d) \<and>
    sqlite_load_local_identity_by_agent_name v db_up s3 (li_agent_name a) = Inr (Some (a\<lparr> li_identity := card_new \<rparr>)) \<and>
    load_local_identity m3 = Some (d\<lparr> li_identity := card_new \<rparr>) \<and>
    load_local_identity_by_agent_name m3 (li_agent_name a) = Some a"
proof -
  let ?a = "a\<lparr> li_identity := card_new \<rparr>"
  have fits': "identity_fits v ?a" using fits by (simp add: identity_fits_def)
  obtain j where j: "se_integrations_json v (ic_integrations card_new) = Some j"
    using fits(3) by (auto simp: identity_fits_def)
  have s1: "r1 = Inr ()" "s1 = sqlite_store_empty\<lparr> qe_local_identity := [(1, identity_row v a)] \<rparr>"
    using run(1) insert_identity_fits [OF fits(1), of sqlite_store_empty]
    by (simp_all add: identity_row_named_def sqlite_store_empty_def next_row_id_def bt_keys_def bt_values_def)
  have "lir_agent_name (identity_row v a) = li_agent_name a" "lir_agent_name (identity_row v d) = DEFAULT_AGENT_NAME"
      "lir_agent_name (identity_row v ?a) = li_agent_name a"
    by (simp_all add: identity_row_def names(1))
  note name = this
  have s2: "r2 = Inr ()" "s2 = sqlite_store_empty\<lparr> qe_local_identity := [(1, identity_row v a), (2, identity_row v d)] \<rparr>"
    using run(2) insert_identity_fits [OF fits(2), of s1] names name
    by (simp_all add: s1 identity_row_named_def next_row_id_def bt_keys_def bt_values_def)
  have row: "(identity_row v a)\<lparr> lir_name := ic_name card_new, lir_pronouns := ic_pronouns card_new,
      lir_role := ic_role card_new, lir_bio := ic_bio card_new, lir_status := ic_status card_new,
      lir_fingerprint := ic_fingerprint card_new, lir_integrations_json := j \<rparr> = identity_row v ?a"
    by (simp add: identity_row_def j)
  have s3: "r3 = Inr ()" "s3 = sqlite_store_empty\<lparr> qe_local_identity := [(1, identity_row v ?a), (2, identity_row v d)] \<rparr>"
    using run(3) by (simp_all add: sqlite_save_local_identity_card_def s2 SINGLETON_ID_def j row)
  have "sqlite_load_local_identity v db_up s3 = Inr (Some d)"
    unfolding sqlite_load_local_identity_def
    by (rule load_identity_row [OF fits(2)]) (simp add: s3 identity_row_named_def bt_values_def name names)
  moreover have "sqlite_load_local_identity_by_agent_name v db_up s3 (li_agent_name a) = Inr (Some ?a)"
    by (rule load_identity_row [OF fits']) (simp add: s3 identity_row_named_def bt_values_def name names)
  moreover have "load_local_identity m3 = Some (d\<lparr> li_identity := card_new \<rparr>)"
      "load_local_identity_by_agent_name m3 (li_agent_name a) = Some a"
    using mem names
    by (auto simp: insert_local_identity_def save_local_identity_card_def load_local_identity_def
        load_local_identity_by_agent_name_def split: if_splits option.splits)
  ultimately show ?thesis by (simp add: s1 s2 s3)
qed

definition demo_identity :: "string \<Rightarrow> string \<Rightarrow> stored_local_identity" where
  "demo_identity agent role =
     \<lparr> li_peer_id = 1, li_client_id = 2, li_version = 1, li_created_at_ms = 5,
       li_identity = \<lparr> ic_name = agent, ic_pronouns = [], ic_role = role, ic_bio = [], ic_status = [], ic_fingerprint = [],
         ic_integrations = [] \<rparr>, li_agent_name = agent \<rparr>"

theorem card_saved_to_first_agent_witness:
  "\<exists>s. sqlite_load_local_identity demo_store_env db_up
       (snd (sqlite_save_local_identity_card demo_store_env db_up s (li_identity (demo_identity DEFAULT_AGENT_NAME ''new'')))) =
     Inr (Some (demo_identity DEFAULT_AGENT_NAME ''old''))"
proof -
  let ?v = demo_store_env
  let ?a = "demo_identity ''other'' []" and ?d = "demo_identity DEFAULT_AGENT_NAME ''old''"
  let ?c = "li_identity (demo_identity DEFAULT_AGENT_NAME ''new'')"
  obtain r1 s1 where 1: "sqlite_insert_local_identity ?v db_up sqlite_store_empty ?a = (r1, s1)" by fastforce
  obtain r2 s2 where 2: "sqlite_insert_local_identity ?v db_up s1 ?d = (r2, s2)" by fastforce
  obtain r3 s3 where 3: "sqlite_save_local_identity_card ?v db_up s2 ?c = (r3, s3)" by fastforce
  obtain m1 where m1: "insert_local_identity memory_store_new ?a = Inr m1"
    by (simp add: insert_local_identity_def memory_store_new_def bt_contains_def)
  then obtain m2 where m2: "insert_local_identity m1 ?d = Inr m2"
    by (auto simp: insert_local_identity_def memory_store_new_def bt_contains_def demo_identity_def DEFAULT_AGENT_NAME_def split: if_splits)
  then obtain m3 where m3: "save_local_identity_card m2 ?c = Inr m3"
    by (auto simp: insert_local_identity_def save_local_identity_card_def demo_identity_def split: if_splits)
  have "sqlite_load_local_identity ?v db_up s3 = Inr (Some ?d)"
    using card_saved_to_first_agent [OF _ _ _ _ _ 1 2 3 m1 m2 m3]
    by (simp add: identity_fits_def demo_identity_def demo_store_env_def DEFAULT_AGENT_NAME_def)
  then show ?thesis using 3 by (intro exI [of _ s2]) simp
qed

section \<open>The refresh lock\<close>

definition lock_fresh :: "u64 \<Rightarrow> u64 \<Rightarrow> refresh_lock_row \<Rightarrow> bool" where
  "lock_fresh now_ms interval r \<longleftrightarrow>
     0 \<le> rlr_held_at_ms r \<and> saturating_sub now_ms (word_of_int (rlr_held_at_ms r)) < interval"

lemma pid_to_i64: "u64_to_i64 f (ucast (pid :: 32 word)) = Inr (uint pid)"
  using uint_lt2p [of pid] by (simp add: u64_to_i64_def unsigned_ucast_eq take_bit_int_eq_self)

text \<open>What a call does to the lock table, between the effects of the other processes.\<close>

definition lock_effect ::
  "(nat \<Rightarrow> lock_table \<Rightarrow> lock_table) \<Rightarrow> string \<Rightarrow> u64 \<Rightarrow> u64 \<Rightarrow> refresh_lock_row \<Rightarrow> nat \<Rightarrow> lock_table \<Rightarrow>
     refresh_lock_outcome \<Rightarrow> lock_table \<Rightarrow> bool" where
  "lock_effect others mesh now_ms interval row n tbl outcome tbl' \<longleftrightarrow>
     (\<exists>k. let before = fold others [n..<k] tbl in
        case outcome of
          RL_Acquired \<Rightarrow> tbl' = bt_insert mesh row before \<and> (\<forall>r. map_of before mesh = Some r \<longrightarrow> \<not> lock_fresh now_ms interval r)
        | RL_HeldFresh _ \<Rightarrow> tbl' = before)"

lemma lock_effect_after:
  assumes "lock_effect others mesh now_ms interval row (n + 1) (others n tbl) outcome tbl'"
  shows "lock_effect others mesh now_ms interval row n tbl outcome tbl'"
proof -
  obtain k where k: "let before = fold others [n + 1..<k] (others n tbl) in
      case outcome of
        RL_Acquired \<Rightarrow> tbl' = bt_insert mesh row before \<and> (\<forall>r. map_of before mesh = Some r \<longrightarrow> \<not> lock_fresh now_ms interval r)
      | RL_HeldFresh _ \<Rightarrow> tbl' = before"
    using assms unfolding lock_effect_def by blast
  have "fold others [n..<max k (n + 1)] tbl = fold others [n + 1..<k] (others n tbl)"
    by (cases "n + 1 \<le> k") (simp_all add: max_def upt_rec [of n])
  then show ?thesis
    unfolding lock_effect_def using k by (intro exI [of _ "max k (n + 1)"]) simp
qed

lemma lock_attempts_effect:
  "lock_attempts others mesh now_ms interval row n k tbl = (Inr outcome, tbl') \<Longrightarrow>
     lock_effect others mesh now_ms interval row n tbl outcome tbl'"
proof (induction k arbitrary: n tbl)
  case 0
  then show ?case by (auto simp: lock_effect_def intro!: exI [of _ n])
next
  case (Suc k)
  let ?seen = "others n tbl"
  show ?case
  proof (cases "map_of ?seen mesh")
    case None
    then have "lock_effect others mesh now_ms interval row (n + 1) ?seen outcome tbl'"
      using Suc by simp
    then show ?thesis by (rule lock_effect_after)
  next
    case (Some r)
    then obtain h where h: "i64_to_u64 ''refresh_locks.held_at_ms'' (rlr_held_at_ms r) = Inr h"
      using Suc.prems by (auto simp: Let_def split: sum.splits)
    then have nonneg: "0 \<le> rlr_held_at_ms r" "h = word_of_int (rlr_held_at_ms r)"
      by (auto simp: i64_to_u64_def split: if_splits)
    consider "lock_fresh now_ms interval r" | (swap) "\<not> lock_fresh now_ms interval r"
        "is_some_and (map_of (others (n + 1) ?seen) mesh) (\<lambda>r'. rlr_held_at_ms r' = rlr_held_at_ms r)"
      | (lost) "\<not> lock_fresh now_ms interval r"
        "\<not> is_some_and (map_of (others (n + 1) ?seen) mesh) (\<lambda>r'. rlr_held_at_ms r' = rlr_held_at_ms r)"
      by blast
    then show ?thesis
    proof cases
      case 1
      then have "outcome = RL_HeldFresh h \<and> tbl' = ?seen"
        using Suc.prems Some h nonneg by (auto simp: lock_fresh_def Let_def)
      then show ?thesis by (auto simp: lock_effect_def intro!: exI [of _ "n + 1"])
    next
      case swap
      then have "outcome = RL_Acquired \<and> tbl' = bt_insert mesh row (others (n + 1) ?seen)"
        using Suc.prems Some h nonneg by (auto simp: lock_fresh_def Let_def)
      moreover have "\<not> lock_fresh now_ms interval r'" if "map_of (others (n + 1) ?seen) mesh = Some r'" for r'
        using swap that by (simp add: lock_fresh_def)
      ultimately show ?thesis
        by (auto simp: lock_effect_def intro!: exI [of _ "n + 2"])
    next
      case lost
      then have "lock_effect others mesh now_ms interval row (n + 2) (others (n + 1) ?seen) outcome tbl'"
        using Suc Some h nonneg by (auto simp: lock_fresh_def Let_def)
      then have "lock_effect others mesh now_ms interval row (n + 1) ?seen outcome tbl'"
        using lock_effect_after [of others mesh now_ms interval row "n + 1"] by simp
      then show ?thesis by (rule lock_effect_after)
    qed
  qed
qed

text \<open>
  C23. The refresh lock is exclusive whatever other processes do to the table between the
  statements of a call. A call that acquires the lock writes its row once, over a table that
  at that moment has no row for the mesh or one that is not fresh; a call that reports the
  lock as held writes nothing.
\<close>

theorem refresh_lock_exclusive:
  assumes "sqlite_try_acquire_refresh_lock others db_up s mesh now_ms interval pid = (Inr outcome, s')"
  shows "\<exists>k. let before = fold others [0..<k] (qe_refresh_locks s) in
    case outcome of
      RL_Acquired \<Rightarrow>
        qe_refresh_locks s' = bt_insert mesh \<lparr> rlr_held_at_ms = uint now_ms, rlr_holder_pid = uint pid \<rparr> before \<and>
        (\<forall>r. map_of before mesh = Some r \<longrightarrow> \<not> lock_fresh now_ms interval r)
    | RL_HeldFresh _ \<Rightarrow> qe_refresh_locks s' = before"
proof -
  let ?row = "\<lparr> rlr_held_at_ms = uint now_ms, rlr_holder_pid = uint pid \<rparr>"
  let ?first = "others 0 (qe_refresh_locks s)"
  have now: "uint now_ms < 2 ^ 63"
    using assms by (auto simp: sqlite_try_acquire_refresh_lock_def u64_to_i64_def split: if_splits)
  have "lock_effect others mesh now_ms interval ?row 0 (qe_refresh_locks s) outcome (qe_refresh_locks s')"
  proof (cases "bt_contains ?first mesh")
    case True
    then have "lock_attempts others mesh now_ms interval ?row 1 LOCK_MAX_ATTEMPTS ?first = (Inr outcome, qe_refresh_locks s')"
      using assms now pid_to_i64
      by (cases "lock_attempts others mesh now_ms interval ?row 1 LOCK_MAX_ATTEMPTS ?first")
        (auto simp: sqlite_try_acquire_refresh_lock_def u64_to_i64_def Let_def)
    from lock_attempts_effect [OF this] show ?thesis
      using lock_effect_after [of others mesh now_ms interval ?row 0] by simp
  next
    case False
    then have "outcome = RL_Acquired \<and> qe_refresh_locks s' = bt_insert mesh ?row ?first"
      using assms now pid_to_i64 by (auto simp: sqlite_try_acquire_refresh_lock_def u64_to_i64_def Let_def)
    moreover have "map_of ?first mesh = None"
      using False by (simp add: bt_contains_def)
    ultimately show ?thesis
      by (auto simp: lock_effect_def intro!: exI [of _ 1])
  qed
  then show ?thesis by (simp only: lock_effect_def)
qed

theorem refresh_lock_exclusive_witness:
  "\<exists>outcome s'. sqlite_try_acquire_refresh_lock (\<lambda>_ t. t) db_up sqlite_store_empty ''m'' 5 10 3 = (Inr outcome, s') \<and>
     (\<exists>k. let before = fold (\<lambda>_ t. t) [0..<k] (qe_refresh_locks sqlite_store_empty) in
       case outcome of
         RL_Acquired \<Rightarrow>
           qe_refresh_locks s' = bt_insert ''m'' \<lparr> rlr_held_at_ms = uint (5 :: u64), rlr_holder_pid = uint (3 :: 32 word) \<rparr> before \<and>
           (\<forall>r. map_of before ''m'' = Some r \<longrightarrow> \<not> lock_fresh 5 10 r)
       | RL_HeldFresh _ \<Rightarrow> qe_refresh_locks s' = before)"
proof -
  have "\<exists>outcome s'. sqlite_try_acquire_refresh_lock (\<lambda>_ t. t) db_up sqlite_store_empty ''m'' 5 10 3 = (Inr outcome, s')"
    by (simp add: sqlite_try_acquire_refresh_lock_def u64_to_i64_def sqlite_store_empty_def bt_contains_def)
  then show ?thesis using refresh_lock_exclusive by blast
qed

lemma lock_attempts_gone:
  "\<forall>n tbl. 0 < n \<longrightarrow> map_of (others n tbl) mesh = None \<Longrightarrow> 0 < n \<Longrightarrow> map_of tbl mesh = None \<or> 0 < k \<Longrightarrow>
     \<exists>tbl'. lock_attempts others mesh now_ms interval row n k tbl = (Inr (RL_HeldFresh now_ms), tbl') \<and> map_of tbl' mesh = None"
proof (induction k arbitrary: n tbl)
  case (Suc k)
  then have "map_of (others n tbl) mesh = None" by blast
  then show ?case using Suc.IH [of "n + 1" "others n tbl"] Suc.prems by simp
qed simp

text \<open>
  C26. A lock that its holder releases while another process asks for it is reported as held
  although it is free: after the insert met the row, the attempts only look for the row and
  never insert again, and the call answers that the lock was taken just now.
\<close>

theorem released_lock_reported_held:
  assumes "uint now_ms < 2 ^ 63" "bt_contains (others 0 (qe_refresh_locks s)) mesh"
    and "\<forall>n tbl. 0 < n \<longrightarrow> map_of (others n tbl) mesh = None"
  shows "\<exists>s'. sqlite_try_acquire_refresh_lock others db_up s mesh now_ms interval pid = (Inr (RL_HeldFresh now_ms), s') \<and>
    map_of (qe_refresh_locks s') mesh = None"
proof -
  obtain tbl' where "lock_attempts others mesh now_ms interval \<lparr> rlr_held_at_ms = uint now_ms, rlr_holder_pid = uint pid \<rparr> 1
      LOCK_MAX_ATTEMPTS (others 0 (qe_refresh_locks s)) = (Inr (RL_HeldFresh now_ms), tbl')" "map_of tbl' mesh = None"
    using lock_attempts_gone [OF assms(3), of 1 "others 0 (qe_refresh_locks s)" LOCK_MAX_ATTEMPTS]
    by (simp add: LOCK_MAX_ATTEMPTS_def) blast
  then show ?thesis
    using assms(1,2) pid_to_i64 by (simp add: sqlite_try_acquire_refresh_lock_def u64_to_i64_def Let_def)
qed

theorem released_lock_reported_held_witness:
  "\<exists>s'. sqlite_try_acquire_refresh_lock
      (\<lambda>n t. if n = 0 then [(''m'', \<lparr> rlr_held_at_ms = 4, rlr_holder_pid = 9 \<rparr>)] else []) db_up sqlite_store_empty ''m'' 5 10 3 =
        (Inr (RL_HeldFresh 5), s') \<and> map_of (qe_refresh_locks s') ''m'' = None"
  by (rule released_lock_reported_held) (simp_all add: bt_contains_def)

text \<open>Left alone, the lock on SQLite is the in-memory lock.\<close>

definition locks_sim :: "sqlite_store \<Rightarrow> memory_store \<Rightarrow> bool" where
  "locks_sim s m \<longleftrightarrow>
     (\<forall>k. map_of (qe_refresh_locks s) k = map_option (\<lambda>r. \<lparr> rlr_held_at_ms = uint (rl_held_at_ms r), rlr_holder_pid = uint (rl_holder_pid r) \<rparr>)
        (map_of (ms_refresh_locks m) k))"

lemma lock_attempts_undisturbed:
  assumes "map_of tbl mesh = Some r" "rlr_held_at_ms r = uint h"
  shows "lock_attempts (\<lambda>_ t. t) mesh now_ms interval row n (Suc k) tbl =
    (if saturating_sub now_ms h < interval then (Inr (RL_HeldFresh h), tbl) else (Inr RL_Acquired, bt_insert mesh row tbl))"
  using assms by (simp add: i64_to_u64_Ok)

lemma undisturbed_lock_refines:
  assumes sim: "locks_sim s m" and now: "uint now_ms < 2 ^ 63"
    and mem: "try_acquire_refresh_lock m mesh now_ms interval pid = (outcome, m')"
  shows "\<exists>s'. sqlite_try_acquire_refresh_lock (\<lambda>_ t. t) db_up s mesh now_ms interval pid = (Inr outcome, s') \<and> locks_sim s' m'"
proof -
  have row: "map_of (qe_refresh_locks s) mesh = map_option (\<lambda>r. \<lparr> rlr_held_at_ms = uint (rl_held_at_ms r), rlr_holder_pid = uint (rl_holder_pid r) \<rparr>)
      (map_of (ms_refresh_locks m) mesh)"
    using sim unfolding locks_sim_def by blast
  show ?thesis
  proof (cases "map_of (ms_refresh_locks m) mesh")
    case None
    then show ?thesis
      using mem now pid_to_i64 row sim
      by (auto simp: sqlite_try_acquire_refresh_lock_def try_acquire_refresh_lock_def u64_to_i64_def bt_contains_def locks_sim_def)
  next
    case (Some r)
    then have "map_of (qe_refresh_locks s) mesh = Some \<lparr> rlr_held_at_ms = uint (rl_held_at_ms r), rlr_holder_pid = uint (rl_holder_pid r) \<rparr>"
      using row by simp
    from lock_attempts_undisturbed [OF this, of "rl_held_at_ms r" now_ms interval _ 1 7]
    have att: "lock_attempts (\<lambda>_ t. t) mesh now_ms interval row 1 LOCK_MAX_ATTEMPTS (qe_refresh_locks s) =
        (if saturating_sub now_ms (rl_held_at_ms r) < interval then (Inr (RL_HeldFresh (rl_held_at_ms r)), qe_refresh_locks s)
         else (Inr RL_Acquired, bt_insert mesh row (qe_refresh_locks s)))" for row
      by (simp add: LOCK_MAX_ATTEMPTS_def)
    show ?thesis
      using mem now row sim Some att
      by (auto simp: sqlite_try_acquire_refresh_lock_def try_acquire_refresh_lock_def u64_to_i64_def [of _ now_ms] pid_to_i64
          bt_contains_def locks_sim_def split: if_splits)
  qed
qed

end
