(* ===== verification/Rust_F64.thy ===== *)
theory Rust_F64
  imports Airc_Prelude
begin

text \<open>
  Rust's \<open>f64\<close>: IEEE 754 binary64 as its 64 bits, with the operations the sources use, rounded
  to nearest with ties to even. A model of the language; no line of the repository is its
  source. Exact intermediate results are fractions of integers.
\<close>

type_synonym f64 = u64

definition f64_neg_bit :: "f64 \<Rightarrow> bool" where
  "f64_neg_bit w \<longleftrightarrow> 2 ^ 63 \<le> uint w"

definition f64_mag :: "f64 \<Rightarrow> int" where
  "f64_mag w = uint w mod 2 ^ 63"

definition f64_is_nan :: "f64 \<Rightarrow> bool" where
  "f64_is_nan w \<longleftrightarrow> 2047 * 2 ^ 52 < f64_mag w"

definition f64_is_inf :: "f64 \<Rightarrow> bool" where
  "f64_is_inf w \<longleftrightarrow> f64_mag w = 2047 * 2 ^ 52"

definition f64_is_finite :: "f64 \<Rightarrow> bool" where
  "f64_is_finite w \<longleftrightarrow> f64_mag w < 2047 * 2 ^ 52"

definition f64_pack :: "bool \<Rightarrow> int \<Rightarrow> f64" where
  "f64_pack neg m = word_of_int (if neg then 2 ^ 63 + m else m)"

definition f64_nan :: f64 where
  "f64_nan = f64_pack False (2047 * 2 ^ 52 + 2 ^ 51)"

definition f64_inf :: "bool \<Rightarrow> f64" where
  "f64_inf neg = f64_pack neg (2047 * 2 ^ 52)"

section \<open>Exact values and rounding\<close>

text \<open>Numerator and denominator of the magnitude of a finite number.\<close>

definition f64_fraction :: "f64 \<Rightarrow> int \<times> int" where
  "f64_fraction w =
     (let e = f64_mag w div 2 ^ 52; m = f64_mag w mod 2 ^ 52
      in if m = 0 \<and> e = 0 then (0, 1)
         else if e = 0 then (m, 2 ^ 1074)
         else if 1075 \<le> e then ((2 ^ 52 + m) * 2 ^ nat (e - 1075), 1)
         else (2 ^ 52 + m, 2 ^ nat (1075 - e)))"

definition f64_signed :: "f64 \<Rightarrow> int" where
  "f64_signed w = (let p = fst (f64_fraction w) in if f64_neg_bit w then - p else p)"

text \<open>The number of binary digits.\<close>

function int_len :: "int \<Rightarrow> int" where
  "int_len n = (if n \<le> 0 then 0 else 1 + int_len (n div 2))"
  by auto
termination
  by (relation "measure nat") auto

declare int_len.simps [simp del]

text \<open>\<open>p / q\<close> scaled by \<open>2 ^ - u\<close>.\<close>

definition scale_frac :: "int \<Rightarrow> int \<Rightarrow> int \<Rightarrow> int \<times> int" where
  "scale_frac p q u = (if 0 \<le> u then (p, q * 2 ^ nat u) else (p * 2 ^ nat (- u), q))"

definition round_half_even :: "int \<times> int \<Rightarrow> int" where
  "round_half_even = (\<lambda>(p, q).
     let n = p div q; r = p mod q
     in if q < 2 * r \<or> 2 * r = q \<and> odd n then n + 1 else n)"

text \<open>
  The number nearest to \<open>p / q\<close>. The exponent is that of the leading bit, at least the least
  normal one; a mantissa that rounds up to the next power of two carries into the exponent.
\<close>

definition f64_round :: "bool \<Rightarrow> int \<Rightarrow> int \<Rightarrow> f64" where
  "f64_round neg p q =
     (if p = 0 then f64_pack neg 0
      else
        let k = int_len p - int_len q;
            lead = (case scale_frac p q k of (a, b) \<Rightarrow> if b \<le> a then k else k - 1);
            e = max lead (- 1022);
            mag = (e + 1022) * 2 ^ 52 + round_half_even (scale_frac p q (e - 52))
        in if 2047 * 2 ^ 52 \<le> mag then f64_inf neg else f64_pack neg mag)"

section \<open>Arithmetic\<close>

definition f64_add :: "f64 \<Rightarrow> f64 \<Rightarrow> f64" where
  "f64_add a b =
     (if f64_is_nan a \<or> f64_is_nan b then f64_nan
      else if f64_is_inf a then (if f64_is_inf b \<and> f64_neg_bit a \<noteq> f64_neg_bit b then f64_nan else a)
      else if f64_is_inf b then b
      else
        let qa = snd (f64_fraction a); qb = snd (f64_fraction b);
            n = f64_signed a * qb + f64_signed b * qa
        in if n = 0 then f64_pack (f64_neg_bit a \<and> f64_neg_bit b) 0
           else f64_round (n < 0) \<bar>n\<bar> (qa * qb))"

definition f64_neg :: "f64 \<Rightarrow> f64" where
  "f64_neg a = f64_pack (\<not> f64_neg_bit a) (f64_mag a)"

definition f64_sub :: "f64 \<Rightarrow> f64 \<Rightarrow> f64" where
  "f64_sub a b = f64_add a (f64_neg b)"

definition f64_abs :: "f64 \<Rightarrow> f64" where
  "f64_abs a = f64_pack False (f64_mag a)"

definition f64_mul :: "f64 \<Rightarrow> f64 \<Rightarrow> f64" where
  "f64_mul a b =
     (let neg = (f64_neg_bit a \<noteq> f64_neg_bit b)
      in if f64_is_nan a \<or> f64_is_nan b then f64_nan
         else if f64_is_inf a \<or> f64_is_inf b then (if f64_mag a = 0 \<or> f64_mag b = 0 then f64_nan else f64_inf neg)
         else f64_round neg (fst (f64_fraction a) * fst (f64_fraction b)) (snd (f64_fraction a) * snd (f64_fraction b)))"

definition f64_div :: "f64 \<Rightarrow> f64 \<Rightarrow> f64" where
  "f64_div a b =
     (let neg = (f64_neg_bit a \<noteq> f64_neg_bit b)
      in if f64_is_nan a \<or> f64_is_nan b then f64_nan
         else if f64_is_inf a then (if f64_is_inf b then f64_nan else f64_inf neg)
         else if f64_is_inf b then f64_pack neg 0
         else if f64_mag b = 0 then (if f64_mag a = 0 then f64_nan else f64_inf neg)
         else f64_round neg (fst (f64_fraction a) * snd (f64_fraction b)) (snd (f64_fraction a) * fst (f64_fraction b)))"

text \<open>\<open>n as f64\<close>\<close>

definition f64_of_u64 :: "u64 \<Rightarrow> f64" where
  "f64_of_u64 n = f64_round False (uint n) 1"

section \<open>Comparison\<close>

text \<open>The order of the numbers that are not NaN; both zeros are equal.\<close>

definition f64_key :: "f64 \<Rightarrow> int" where
  "f64_key a = (if f64_neg_bit a then - f64_mag a else f64_mag a)"

definition f64_le :: "f64 \<Rightarrow> f64 \<Rightarrow> bool" where
  "f64_le a b \<longleftrightarrow> \<not> f64_is_nan a \<and> \<not> f64_is_nan b \<and> f64_key a \<le> f64_key b"

definition f64_less :: "f64 \<Rightarrow> f64 \<Rightarrow> bool" where
  "f64_less a b \<longleftrightarrow> \<not> f64_is_nan a \<and> \<not> f64_is_nan b \<and> f64_key a < f64_key b"

text \<open>\<open>f64::total_cmp\<close> compares the bits as sign and magnitude; \<open>-0\<close> is below \<open>0\<close>.\<close>

definition total_key :: "f64 \<Rightarrow> int" where
  "total_key a = (if f64_neg_bit a then - f64_mag a - 1 else f64_mag a)"

lemma f64_mag_nonneg [simp]: "0 \<le> f64_mag a"
  by (simp add: f64_mag_def)

lemma f64_bits: "uint w = (if f64_neg_bit w then 2 ^ 63 else 0) + f64_mag w"
proof -
  have "uint w < 2 ^ 64" using uint_lt2p [of w] by simp
  then have "uint w div 2 ^ 63 = (if f64_neg_bit w then 1 else 0)"
    by (auto simp: f64_neg_bit_def div_pos_geq not_le)
  then show ?thesis
    using div_mult_mod_eq [of "uint w" "2 ^ 63"] by (simp add: f64_mag_def split: if_splits)
qed

lemma total_key_inject: "total_key a = total_key b \<longleftrightarrow> a = b"
proof
  assume eq: "total_key a = total_key b"
  have "uint a = uint b"
    using eq f64_mag_nonneg [of a] f64_mag_nonneg [of b] unfolding f64_bits [of a] f64_bits [of b] total_key_def
    by (cases "f64_neg_bit a"; cases "f64_neg_bit b") auto
  then show "a = b" by (rule unsigned_word_eqI)
qed simp

text \<open>On numbers that are not NaN the total order refines the numeric one.\<close>

lemma f64_less_total: "f64_less a b \<Longrightarrow> total_key a < total_key b"
  using f64_mag_nonneg [of a] f64_mag_nonneg [of b]
  by (cases "f64_neg_bit a"; cases "f64_neg_bit b") (auto simp: f64_less_def f64_key_def total_key_def)

end
