(* ===== verification/Flex_Claim.thy ===== *)
theory Flex_Claim
  imports Rust_F64
begin

text \<open>
  Amounts, values, provenance and claims of the resource solver (\<open>flex/src/amount.rs\<close>,
  \<open>value.rs\<close>, \<open>provenance.rs\<close>, \<open>claim.rs\<close>). An amount is a \<open>u64\<close> whose arithmetic saturates; a
  value is a finite \<open>f64\<close>, and an operation that leaves the finite numbers is an error.
\<close>

section \<open>Amounts and values\<close>

type_synonym amount = u64

lemma saturating_add_code [code]:
  "saturating_add a b = (if uint a + uint b < 2 ^ LENGTH('a) then a + b else - 1)" for a b :: "'a::len word"
proof -
  have "uint a + uint b < 2 ^ LENGTH('a) \<longleftrightarrow> int (unat a + unat b) < int (2 ^ LENGTH('a))"
    by simp
  then show ?thesis
    unfolding saturating_add_def of_nat_less_iff by simp
qed

definition amount_sum :: "amount list \<Rightarrow> amount" where
  "amount_sum xs = fold (\<lambda>x acc. saturating_add acc x) xs 0"

datatype non_finite = NonFinite f64

type_synonym flex_value = f64

definition value_new :: "f64 \<Rightarrow> non_finite + flex_value" where
  "value_new raw = (if f64_is_finite raw then Inr raw else Inl (NonFinite raw))"

definition value_times :: "flex_value \<Rightarrow> u64 \<Rightarrow> non_finite + flex_value" where
  "value_times v n = value_new (f64_mul v (f64_of_u64 n))"

text \<open>\<open>total_cmp\<close> of two values, \<open>is_gt\<close>.\<close>

definition value_gt :: "flex_value \<Rightarrow> flex_value \<Rightarrow> bool" where
  "value_gt a b \<longleftrightarrow> total_key b < total_key a"

definition price_of :: "flex_value \<Rightarrow> amount \<Rightarrow> non_finite + flex_value" where
  "price_of per_unit n = value_times per_unit n"

section \<open>Claims\<close>

datatype provenance =
    PV_Measured uuid u64 u64
  | PV_Stale uuid u64 u64
  | PV_Unmeasured

definition is_measured :: "provenance \<Rightarrow> bool" where
  "is_measured p \<longleftrightarrow> p \<noteq> PV_Unmeasured"

datatype floor = FL_Required amount | FL_Optional amount | FL_None

record increment =
  in_width :: amount
  in_per_unit :: flex_value
  in_divisible :: bool

record claim =
  fc_id :: uuid
  fc_owner :: uuid
  fc_floor :: floor
  fc_increments :: "increment list"
  fc_provenance :: provenance
  fc_switch_cost :: flex_value

datatype claim_error =
    CE_NotConcave nat
  | CE_EmptyIncrement nat
  | CE_Negative
  | CE_DuplicateId
  | CE_OwnerChanged uuid

fun validate_increments :: "nat \<Rightarrow> flex_value option \<Rightarrow> increment list \<Rightarrow> claim_error + unit" where
  "validate_increments at prev [] = Inr ()"
| "validate_increments at prev (i # is) =
     (if in_width i = 0 then Inl (CE_EmptyIncrement at)
      else if f64_less (in_per_unit i) 0 then Inl CE_Negative
      else if is_some_and prev (\<lambda>p. value_gt (in_per_unit i) p) then Inl (CE_NotConcave at)
      else validate_increments (at + 1) (Some (in_per_unit i)) is)"

definition validate_claim :: "claim \<Rightarrow> claim_error + unit" where
  "validate_claim c =
     (if f64_less (fc_switch_cost c) 0 then Inl CE_Negative else validate_increments 0 None (fc_increments c))"

definition reservation :: "claim \<Rightarrow> amount" where
  "reservation c = (case fc_floor c of FL_Required a \<Rightarrow> a | FL_Optional _ \<Rightarrow> 0 | FL_None \<Rightarrow> 0)"

fun value_of_loop :: "increment list \<Rightarrow> u64 \<Rightarrow> flex_value \<Rightarrow> non_finite + flex_value" where
  "value_of_loop [] left acc = Inr acc"
| "value_of_loop (i # is) left acc =
     (if left = 0 then Inr acc
      else
        let take = min left (in_width i)
        in res_bind (value_times (in_per_unit i) take) (\<lambda>v.
           res_bind (value_new (f64_add acc v)) (\<lambda>acc.
           value_of_loop is (left - take) acc)))"

definition claim_value_of :: "claim \<Rightarrow> amount \<Rightarrow> non_finite + flex_value" where
  "claim_value_of c n = value_of_loop (fc_increments c) n 0"

definition claim_value_at :: "claim \<Rightarrow> amount \<Rightarrow> non_finite + flex_value" where
  "claim_value_at c held = claim_value_of c (saturating_sub held (reservation c))"

section \<open>Facts\<close>

text \<open>A sum is exact unless it is the largest amount.\<close>

lemma amount_sum_min: "unat (amount_sum xs) = min (sum_list (map unat xs)) (2 ^ 64 - 1)"
proof -
  have "unat (fold (\<lambda>x acc. saturating_add acc x) xs a) = min (unat a + sum_list (map unat xs)) (2 ^ 64 - 1)" for a :: u64
  proof (induction xs arbitrary: a)
    case Nil
    then show ?case using unat_bound [of a] by (simp add: min_def)
  next
    case (Cons x xs)
    then show ?case using Cons.IH [of "saturating_add a x"]
      by (auto simp: unat_saturating_add min_def)
  qed
  from this [of 0] show ?thesis by (simp add: amount_sum_def)
qed

lemma unat_amount_sum_le: "unat (amount_sum xs) \<le> sum_list (map unat xs)"
  by (simp add: amount_sum_min)

lemma amount_sum_fits:
  assumes "unat (amount_sum xs) \<le> n" "n < 2 ^ 64 - 1"
  shows "unat (amount_sum xs) = sum_list (map unat xs)"
  using assms by (simp add: amount_sum_min min_def split: if_splits)

lemma amount_sum_fits_less: "sum_list (map unat xs) < 2 ^ 64 \<Longrightarrow> unat (amount_sum xs) = sum_list (map unat xs)"
  by (simp add: amount_sum_min)

end
