(* ===== verification/Flex_Solve.thy ===== *)
theory Flex_Solve
  imports Flex_Claim
begin

text \<open>
  The clearing itself (\<open>flex/src/solve.rs\<close>): reservations first, then the block of highest
  value per unit, from a heap that holds the next block of each claim.
\<close>

section \<open>Blocks\<close>

fun join_floor :: "amount \<Rightarrow> increment list \<Rightarrow> amount \<Rightarrow> increment list \<Rightarrow> amount \<times> increment list" where
  "join_floor floor [] joined rest = (joined, rest)"
| "join_floor floor (i # is) joined rest =
     (if joined < floor then
        let take = (if in_divisible i then min (in_width i) (saturating_sub floor joined) else in_width i);
            joined = saturating_add joined take
        in if take < in_width i
           then join_floor floor is joined (rest @ [i\<lparr> in_width := saturating_sub (in_width i) take \<rparr>])
           else join_floor floor is joined rest
      else join_floor floor is joined (rest @ [i]))"

definition blocks :: "claim \<Rightarrow> non_finite + increment list" where
  "blocks c =
     (case fc_floor c of
        FL_Optional floor \<Rightarrow>
          if floor = 0 then Inr (fc_increments c)
          else
            let (joined, rest) = join_floor floor (fc_increments c) 0 []
            in if joined < floor then Inr []
               else
                 res_bind (claim_value_of c joined) (\<lambda>v.
                 res_bind (value_new (f64_div v (f64_of_u64 joined))) (\<lambda>per_unit.
                 Inr (\<lparr> in_width = joined, in_per_unit = per_unit, in_divisible = False \<rparr> # rest)))
      | _ \<Rightarrow> Inr (fc_increments c))"

section \<open>Clearing\<close>

datatype shape = SH_AsClaimed | SH_Relaxed

record candidate =
  cd_per_unit :: flex_value
  cd_claim :: uuid
  cd_slot :: nat
  cd_index :: nat
  cd_block :: increment

text \<open>The order of the heap: the value per unit, then the lower claim id.\<close>

definition candidate_key :: "candidate \<Rightarrow> int \<times> int" where
  "candidate_key c = (total_key (cd_per_unit c), - uint (cd_claim c))"

fun heap_max :: "candidate \<Rightarrow> candidate list \<Rightarrow> candidate" where
  "heap_max c [] = c"
| "heap_max c (d # ds) = (if candidate_key c < candidate_key d then heap_max d ds else heap_max c ds)"

fun heap_pop :: "candidate list \<Rightarrow> (candidate \<times> candidate list) option" where
  "heap_pop [] = None"
| "heap_pop (c # cs) = (let nx = heap_max c cs in Some (nx, remove1 nx (c # cs)))"

record solution =
  so_targets :: "amount list"
  so_price :: flex_value
  so_unallocated :: amount
  so_achieved :: flex_value

definition note_unmet :: "flex_value \<Rightarrow> flex_value \<Rightarrow> flex_value" where
  "note_unmet unmet per_unit = (if value_gt per_unit unmet then per_unit else unmet)"

definition block_at :: "increment list list \<Rightarrow> nat \<Rightarrow> nat \<Rightarrow> increment option" where
  "block_at all slot index =
     (if slot < length all \<and> index < length (all ! slot) then Some (all ! slot ! index) else None)"

record solve_state =
  sl_heap :: "candidate list"
  sl_free :: amount
  sl_achieved :: flex_value
  sl_unmet :: flex_value
  sl_targets :: "amount list"

datatype solve_next = SN_Done flex_value | SN_Fail non_finite | SN_More solve_state

text \<open>
  One turn of the loop. It ends with the price, or goes on: past an indivisible block that
  does not fit, or after granting a block whole or in part.
\<close>

definition solve_step :: "increment list list \<Rightarrow> solve_state \<Rightarrow> solve_next" where
  "solve_step all st =
     (case heap_pop (sl_heap st) of
        None \<Rightarrow> SN_Done (sl_unmet st)
      | Some (nx, heap) \<Rightarrow>
          let block = cd_block nx; unmet = note_unmet (sl_unmet st) (cd_per_unit nx)
          in if f64_le (cd_per_unit nx) 0 then SN_Done (sl_unmet st)
             else if sl_free st = 0 then SN_Done unmet
             else if \<not> in_width block \<le> sl_free st \<and> \<not> in_divisible block
             then SN_More (st\<lparr> sl_heap := heap, sl_unmet := unmet \<rparr>)
             else
               let take = (if in_width block \<le> sl_free st then in_width block else sl_free st)
               in case res_bind (value_times (cd_per_unit nx) take) (\<lambda>v. value_new (f64_add (sl_achieved st) v)) of
                    Inl e \<Rightarrow> SN_Fail e
                  | Inr achieved \<Rightarrow>
                      let slot = cd_slot nx;
                          st = st\<lparr> sl_free := saturating_sub (sl_free st) take, sl_achieved := achieved,
                            sl_targets := (if slot < length (sl_targets st)
                              then (sl_targets st)[slot := saturating_add (sl_targets st ! slot) take] else sl_targets st) \<rparr>
                      in SN_More
                           (if take < in_width block then st\<lparr> sl_heap := heap, sl_unmet := unmet \<rparr>
                            else case block_at all slot (cd_index nx + 1) of
                              None \<Rightarrow> st\<lparr> sl_heap := heap \<rparr>
                            | Some b \<Rightarrow> st\<lparr> sl_heap :=
                                nx\<lparr> cd_index := cd_index nx + 1, cd_per_unit := in_per_unit b, cd_block := b \<rparr> # heap \<rparr>))"

text \<open>The loop ends: a turn removes a candidate or moves it to a later block of its claim.\<close>

definition cand_work :: "increment list list \<Rightarrow> candidate \<Rightarrow> nat" where
  "cand_work all c = Suc (if cd_slot c < length all then length (all ! cd_slot c) - cd_index c else 0)"

definition heap_work :: "increment list list \<Rightarrow> candidate list \<Rightarrow> nat" where
  "heap_work all heap = sum_list (map (cand_work all) heap)"

lemma heap_max_in: "heap_max c cs \<in> set (c # cs)"
  by (induction c cs rule: heap_max.induct) auto

lemma heap_pop_Some:
  assumes "heap_pop heap = Some (nx, heap')"
  shows "nx \<in> set heap" "heap' = remove1 nx heap" "\<forall>c \<in> set heap. candidate_key c \<le> candidate_key nx"
proof -
  obtain c cs where h: "heap = c # cs" using assms by (cases heap) auto
  have nx: "nx = heap_max c cs" "heap' = remove1 nx heap"
    using assms h by (auto simp: Let_def)
  then show "nx \<in> set heap" "heap' = remove1 nx heap"
    using heap_max_in h by metis+
  have "\<forall>d \<in> set (c # cs). candidate_key d \<le> candidate_key (heap_max c cs)"
    by (induction c cs rule: heap_max.induct) (auto intro: order_trans less_imp_le)
  then show "\<forall>c \<in> set heap. candidate_key c \<le> candidate_key nx"
    using nx(1) h by simp
qed

lemma heap_work_remove:
  assumes "heap_pop heap = Some (nx, heap')"
  shows "heap_work all heap = heap_work all heap' + cand_work all nx"
  using sum_list_map_remove1 [OF heap_pop_Some(1) [OF assms], of "cand_work all"] heap_pop_Some(2) [OF assms]
  by (simp add: heap_work_def)

lemma solve_step_work:
  assumes "solve_step all st = SN_More st'"
  shows "heap_work all (sl_heap st') < heap_work all (sl_heap st)"
proof -
  obtain nx heap where p: "heap_pop (sl_heap st) = Some (nx, heap)"
    using assms by (auto simp: solve_step_def split: option.splits)
  have "heap_work all heap < heap_work all (sl_heap st)"
    using heap_work_remove [OF p] by (simp add: cand_work_def)
  moreover have "heap_work all (nx\<lparr> cd_index := cd_index nx + 1, cd_per_unit := v, cd_block := b \<rparr> # heap) <
      heap_work all (sl_heap st)" if "block_at all (cd_slot nx) (cd_index nx + 1) = Some b" for b v
    using that heap_work_remove [OF p] by (auto simp: block_at_def heap_work_def cand_work_def split: if_splits)
  ultimately show ?thesis
    using assms p by (auto simp: solve_step_def Let_def split: if_splits sum.splits option.splits)
qed

function solve_loop :: "increment list list \<Rightarrow> solve_state \<Rightarrow> non_finite + solution" where
  "solve_loop all st =
     (case solve_step all st of
        SN_Done price \<Rightarrow> Inr \<lparr> so_targets = sl_targets st, so_price = price, so_unallocated = sl_free st,
                               so_achieved = sl_achieved st \<rparr>
      | SN_Fail e \<Rightarrow> Inl e
      | SN_More st' \<Rightarrow> solve_loop all st')"
  by pat_completeness auto
termination
  by (relation "measure (\<lambda>(all, st). heap_work all (sl_heap st))") (auto simp: solve_step_work)

declare solve_loop.simps [simp del]

definition relax_blocks :: "shape \<Rightarrow> increment list \<Rightarrow> increment list" where
  "relax_blocks shape bs =
     (case shape of SH_AsClaimed \<Rightarrow> bs | SH_Relaxed \<Rightarrow> map (\<lambda>b. b\<lparr> in_divisible := True \<rparr>) bs)"

fun collect_blocks :: "shape \<Rightarrow> claim list \<Rightarrow> non_finite + increment list list" where
  "collect_blocks shape [] = Inr []"
| "collect_blocks shape (c # cs) =
     res_bind (blocks c) (\<lambda>bs. res_bind (collect_blocks shape cs) (\<lambda>all. Inr (relax_blocks shape bs # all)))"

definition first_candidates :: "claim list \<Rightarrow> increment list list \<Rightarrow> candidate list" where
  "first_candidates claims all =
     concat (map (\<lambda>(slot, c, bs). case bs of
         [] \<Rightarrow> []
       | b # _ \<Rightarrow> [\<lparr> cd_per_unit = in_per_unit b, cd_claim = fc_id c, cd_slot = slot, cd_index = 0, cd_block = b \<rparr>])
       (zip [0..<length claims] (zip claims all)))"

definition solve :: "amount \<Rightarrow> claim list \<Rightarrow> shape \<Rightarrow> non_finite + solution" where
  "solve capacity claims shape =
     (let reserved = amount_sum (map reservation claims);
          free = saturating_sub capacity reserved
      in res_bind (collect_blocks shape claims) (\<lambda>all.
         solve_loop all \<lparr> sl_heap = first_candidates claims all, sl_free = free, sl_achieved = 0, sl_unmet = 0,
                          sl_targets = map reservation claims \<rparr>))"

section \<open>Steps toward a target\<close>

fun commit_loop :: "increment list \<Rightarrow> amount \<Rightarrow> amount \<Rightarrow> amount \<Rightarrow> amount \<Rightarrow> amount \<Rightarrow> amount" where
  "commit_loop [] owned target start reach left = saturating_sub reach owned"
| "commit_loop (seg # segs) owned target start reach left =
     (let stop_at = saturating_add start (in_width seg)
      in if stop_at \<le> owned then commit_loop segs owned target stop_at reach left
         else if target \<le> reach \<or> left = 0 then saturating_sub reach owned
         else
           let stop = min stop_at target; need = saturating_sub stop reach
           in if need \<le> left then commit_loop segs owned target stop_at stop (saturating_sub left need)
              else if in_divisible seg then commit_loop segs owned target stop_at (saturating_add reach left) 0
              else saturating_sub reach owned)"

definition committable :: "claim \<Rightarrow> amount \<Rightarrow> amount \<Rightarrow> amount \<Rightarrow> non_finite + amount" where
  "committable c owned target free =
     res_bind (blocks c) (\<lambda>bs.
       let r = reservation c;
           segments = (if 0 < r then [\<lparr> in_width = r, in_per_unit = 0, in_divisible = False \<rparr>] else []) @ bs
       in Inr (commit_loop segments owned target 0 owned free))"

fun next_value_loop :: "increment list \<Rightarrow> amount \<Rightarrow> amount \<Rightarrow> flex_value" where
  "next_value_loop [] owned start = 0"
| "next_value_loop (b # bs) owned start =
     (let stop = saturating_add start (in_width b)
      in if owned < stop then in_per_unit b else next_value_loop bs owned stop)"

definition next_value :: "claim \<Rightarrow> amount \<Rightarrow> non_finite + flex_value" where
  "next_value c owned =
     (if owned < reservation c then Inr 0
      else res_bind (blocks c) (\<lambda>bs. Inr (next_value_loop bs owned (reservation c))))"

fun boundary_loop :: "increment list \<Rightarrow> amount \<Rightarrow> amount \<Rightarrow> bool" where
  "boundary_loop [] owned at = False"
| "boundary_loop (b # bs) owned at =
     (let at = saturating_add at (in_width b)
      in if owned = at then True
         else if owned < at then in_divisible b
         else boundary_loop bs owned at)"

definition on_boundary :: "claim \<Rightarrow> amount \<Rightarrow> non_finite + bool" where
  "on_boundary c owned =
     (if owned = reservation c then Inr True
      else if owned < reservation c then Inr False
      else res_bind (blocks c) (\<lambda>bs. Inr (boundary_loop bs owned (reservation c))))"

end
