(* ===== verification/Flex_Tier.thy ===== *)
theory Flex_Tier
  imports Flex_Solve
begin

text \<open>
  A tier (\<open>flex/src/tier.rs\<close>): the holdings of one resource across clearings, the reports of
  its holders, and the clearing that plans in full before it moves anything. The counters of
  generations, leases and epochs wrap at \<open>2 ^ 64\<close>, as the arithmetic of a release build does.
\<close>

section \<open>Data\<close>

datatype capacity = CP_Measured amount provenance | CP_Unavailable

datatype grant_state =
    GS_Granted
  | GS_Held
  | GS_ShrinkRequested amount
  | GS_Waiting
  | GS_Unmeasured

record grant =
  gr_claim :: uuid
  gr_owner :: "uuid option"
  gr_target :: amount
  gr_owned :: amount
  gr_state :: grant_state
  gr_generation :: u64
  gr_lease :: u64
  gr_epoch :: u64

record release =
  re_claim :: uuid
  re_lease :: u64
  re_epoch :: u64
  re_holds :: amount

datatype clearing_outcome =
    OC_Cleared
  | OC_Infeasible amount amount "uuid list"
  | OC_CapacityUnavailable
  | OC_NonFinite

record clearing =
  cg_generation :: u64
  cg_capacity :: capacity
  cg_outcome :: clearing_outcome
  cg_grants :: "grant list"
  cg_price :: flex_value
  cg_unallocated :: amount
  cg_overcommitted :: "amount option"
  cg_achieved :: flex_value
  cg_upper_bound :: flex_value
  cg_refused :: "(uuid \<times> claim_error) list"

datatype release_error =
    RE_Unknown
  | RE_AboveOwned amount amount
  | RE_WrongLease u64 u64
  | RE_Superseded u64 u64
  | RE_NotIssued u64 u64

record holding =
  ho_owner :: "uuid option"
  ho_target :: amount
  ho_owned :: amount
  ho_state :: grant_state
  ho_generation :: u64
  ho_lease :: u64
  ho_epoch :: u64

record tier_step =
  st_target :: amount
  st_owned :: amount
  st_state :: grant_state

record tier_plan =
  pl_steps :: "tier_step list"
  pl_price :: flex_value
  pl_unallocated :: amount
  pl_overcommitted :: "amount option"
  pl_achieved :: flex_value
  pl_upper_bound :: flex_value

record tier_targets =
  tt_amounts :: "amount list"
  tt_held :: "uuid list"
  tt_price :: flex_value
  tt_unallocated :: amount

record tier =
  ti_generation :: u64
  ti_holdings :: "(uuid, holding) btree"
  ti_next_lease :: u64

definition tier_new :: tier where
  "tier_new = \<lparr> ti_generation = 0, ti_holdings = [], ti_next_lease = 0 \<rparr>"

section \<open>Reading a tier\<close>

definition owned_now :: "tier \<Rightarrow> amount" where
  "owned_now t = amount_sum (map ho_owned (bt_values (ti_holdings t)))"

definition overcommitted :: "tier \<Rightarrow> amount \<Rightarrow> amount option" where
  "overcommitted t capacity =
     (if capacity < owned_now t then Some (saturating_sub (owned_now t) capacity) else None)"

definition is_current :: "tier \<Rightarrow> uuid \<Rightarrow> u64 \<Rightarrow> bool" where
  "is_current t claim generation = is_some_and (map_of (ti_holdings t) claim) (\<lambda>h. ho_generation h = generation)"

definition tier_grants :: "tier \<Rightarrow> grant list" where
  "tier_grants t = map (\<lambda>(i, h). \<lparr> gr_claim = i, gr_owner = ho_owner h, gr_target = ho_target h, gr_owned = ho_owned h,
     gr_state = ho_state h, gr_generation = ho_generation h, gr_lease = ho_lease h, gr_epoch = ho_epoch h \<rparr>) (ti_holdings t)"

definition owned_of :: "tier \<Rightarrow> uuid \<Rightarrow> amount" where
  "owned_of t claim = (case map_of (ti_holdings t) claim of None \<Rightarrow> 0 | Some h \<Rightarrow> ho_owned h)"

definition unmoved :: "tier \<Rightarrow> capacity \<Rightarrow> clearing_outcome \<Rightarrow> (uuid \<times> claim_error) list \<Rightarrow> clearing" where
  "unmoved t capacity outcome refused =
     \<lparr> cg_generation = ti_generation t, cg_capacity = capacity, cg_outcome = outcome, cg_grants = tier_grants t,
       cg_price = 0, cg_unallocated = 0,
       cg_overcommitted = (case capacity of CP_Measured n _ \<Rightarrow> overcommitted t n | CP_Unavailable \<Rightarrow> None),
       cg_achieved = 0, cg_upper_bound = 0, cg_refused = refused \<rparr>"

section \<open>Targets\<close>

text \<open>The slots whose claims keep what they own, with the amounts.\<close>

fun hold_slots :: "tier \<Rightarrow> claim list \<Rightarrow> (nat \<times> amount) list \<Rightarrow> non_finite + (nat \<times> amount) list" where
  "hold_slots t claims [] = Inr []"
| "hold_slots t claims ((i, target) # rest) =
     (let c = claims ! i; owned = owned_of t (fc_id c);
          skip = hold_slots t claims rest
      in if owned = 0 \<or> owned = target then skip
         else
           res_bind (on_boundary c owned) (\<lambda>whole.
             if \<not> whole then skip
             else
               res_bind (claim_value_at c target) (\<lambda>a.
               res_bind (claim_value_at c owned) (\<lambda>b.
               if f64_le (f64_abs (f64_sub a b)) (fc_switch_cost c)
               then res_bind skip (\<lambda>held. Inr ((i, owned) # held))
               else skip))))"

definition unmeasured_reserved :: "claim list \<Rightarrow> amount" where
  "unmeasured_reserved claims =
     amount_sum (map reservation (filter (\<lambda>c. \<not> is_measured (fc_provenance c)) claims))"

fun set_amounts :: "(nat \<times> amount) list \<Rightarrow> amount list \<Rightarrow> amount list" where
  "set_amounts [] xs = xs"
| "set_amounts ((i, a) # rest) xs = set_amounts rest (xs[i := a])"

definition tier_targets_of :: "tier \<Rightarrow> amount \<Rightarrow> claim list \<Rightarrow> non_finite + tier_targets" where
  "tier_targets_of t capacity claims =
     (let amounts = map reservation claims;
          tradeable = filter (\<lambda>i. is_measured (fc_provenance (claims ! i))) [0..<length claims];
          room = saturating_sub capacity (unmeasured_reserved claims);
          pick = map (\<lambda>i. claims ! i)
      in res_bind (solve room (pick tradeable) SH_AsClaimed) (\<lambda>first.
         res_bind (hold_slots t claims (zip tradeable (so_targets first))) (\<lambda>held.
         let held_amount = amount_sum (map snd held);
             others = filter (\<lambda>i. i \<notin> set (map fst held)) tradeable;
             others_reserved = amount_sum (map (\<lambda>i. reservation (claims ! i)) others);
             holds_fit = (saturating_add held_amount others_reserved \<le> room);
             finish = (\<lambda>solution cleared held. Inr
               \<lparr> tt_amounts = set_amounts held (set_amounts (zip cleared (so_targets solution)) amounts),
                 tt_held = map (\<lambda>(i, _). fc_id (claims ! i)) held,
                 tt_price = so_price solution, tt_unallocated = so_unallocated solution \<rparr>)
         in if held = [] \<or> \<not> holds_fit then finish first tradeable []
            else res_bind (solve (saturating_sub room held_amount) (pick others) SH_AsClaimed)
              (\<lambda>solution. finish solution others held))))"

section \<open>Planning\<close>

text \<open>The first pass: the value achieved, the standing of each claim, and the slots that may grow.\<close>

fun plan_steps ::
  "tier \<Rightarrow> uuid list \<Rightarrow> nat \<Rightarrow> (claim \<times> amount) list \<Rightarrow> flex_value \<Rightarrow> non_finite + flex_value \<times> tier_step list \<times> nat list" where
  "plan_steps t held slot [] achieved = Inr (achieved, [], [])"
| "plan_steps t held slot ((c, target) # rest) achieved =
     res_bind (if is_measured (fc_provenance c)
               then res_bind (claim_value_at c target) (\<lambda>v. value_new (f64_add achieved v))
               else Inr achieved) (\<lambda>achieved.
     let owned = owned_of t (fc_id c);
         is_held = fc_id c \<in> set held;
         state = (if is_held then GS_Held else if target < owned then GS_ShrinkRequested target else GS_Waiting);
         grows = (\<not> is_held \<and> \<not> target < owned);
         step = \<lparr> st_target = (if is_held then owned else target), st_owned = owned, st_state = state \<rparr>
     in res_bind (plan_steps t held (slot + 1) rest achieved) (\<lambda>(achieved, steps, growing).
        Inr (achieved, step # steps, if grows then slot # growing else growing)))"

fun keyed_slots :: "claim list \<Rightarrow> tier_step list \<Rightarrow> nat list \<Rightarrow> non_finite + (bool \<times> flex_value \<times> uuid \<times> nat) list" where
  "keyed_slots claims steps [] = Inr []"
| "keyed_slots claims steps (slot # slots) =
     (let c = claims ! slot; owned = st_owned (steps ! slot)
      in res_bind (next_value c owned) (\<lambda>v.
         res_bind (keyed_slots claims steps slots) (\<lambda>keyed.
         Inr ((owned < reservation c, v, fc_id c, slot) # keyed))))"

text \<open>The order in which free capacity is committed.\<close>

definition grow_key :: "bool \<times> flex_value \<times> uuid \<times> nat \<Rightarrow> bool \<times> int \<times> uuid" where
  "grow_key = (\<lambda>(below, v, i, slot). (\<not> below, - total_key v, i))"

fun grow_slots :: "claim list \<Rightarrow> nat list \<Rightarrow> amount \<Rightarrow> tier_step list \<Rightarrow> non_finite + tier_step list" where
  "grow_slots claims [] free steps = Inr steps"
| "grow_slots claims (slot # slots) free steps =
     (let c = claims ! slot; step = steps ! slot
      in res_bind (committable c (st_owned step) (st_target step) free) (\<lambda>growth.
         let owned = saturating_add (st_owned step) growth;
             state = (if owned \<noteq> st_target step then GS_Waiting
                      else if is_measured (fc_provenance c) then GS_Granted else GS_Unmeasured)
         in grow_slots claims slots (saturating_sub free growth)
              (steps[slot := step\<lparr> st_owned := owned, st_state := state \<rparr>])))"

definition make_plan :: "tier \<Rightarrow> amount \<Rightarrow> claim list \<Rightarrow> non_finite + tier_plan" where
  "make_plan t capacity claims =
     res_bind (tier_targets_of t capacity claims) (\<lambda>targets.
     res_bind (solve (saturating_sub capacity (unmeasured_reserved claims))
         (filter (\<lambda>c. is_measured (fc_provenance c)) claims) SH_Relaxed) (\<lambda>relaxed.
     let free = saturating_sub capacity (owned_now t)
     in res_bind (plan_steps t (tt_held targets) 0 (zip claims (tt_amounts targets)) 0) (\<lambda>(achieved, steps, growing).
        res_bind (keyed_slots claims steps growing) (\<lambda>keyed.
        res_bind (grow_slots claims (map (\<lambda>(_, _, _, slot). slot) (sort_key grow_key keyed)) free steps) (\<lambda>steps.
        Inr \<lparr> pl_steps = steps, pl_price = tt_price targets, pl_unallocated = tt_unallocated targets,
              pl_overcommitted = overcommitted t capacity, pl_achieved = achieved,
              pl_upper_bound = so_achieved relaxed \<rparr>)))))"

section \<open>Clearing\<close>

definition admit_claim :: "tier \<Rightarrow> claim list \<Rightarrow> claim \<Rightarrow> claim_error + unit" where
  "admit_claim t claims c =
     (if 1 < length (filter (\<lambda>d. fc_id d = fc_id c) claims) then Inl CE_DuplicateId
      else case validate_claim c of
        Inl e \<Rightarrow> Inl e
      | Inr _ \<Rightarrow>
          (case map_of (ti_holdings t) (fc_id c) of
             Some h \<Rightarrow>
               (case ho_owner h of
                  Some holder \<Rightarrow> if holder \<noteq> fc_owner c then Inl (CE_OwnerChanged holder) else Inr ()
                | None \<Rightarrow> Inr ())
           | None \<Rightarrow> Inr ()))"

definition valid_claims :: "tier \<Rightarrow> claim list \<Rightarrow> claim list" where
  "valid_claims t claims = sort_key fc_id (filter (\<lambda>c. admit_claim t claims c = Inr ()) claims)"

definition refused_claims :: "tier \<Rightarrow> claim list \<Rightarrow> (uuid \<times> claim_error) list" where
  "refused_claims t claims =
     sort_key fst (concat (map (\<lambda>c. case admit_claim t claims c of Inl e \<Rightarrow> [(fc_id c, e)] | Inr _ \<Rightarrow> []) claims))"

text \<open>The holdings after a clearing: every holder is asked to release, then claimants are set.\<close>

definition ask_release :: "u64 \<Rightarrow> holding \<Rightarrow> holding" where
  "ask_release generation h = h\<lparr> ho_target := 0, ho_state := GS_ShrinkRequested 0, ho_generation := generation \<rparr>"

fun place_claims :: "u64 \<Rightarrow> (claim \<times> tier_step) list \<Rightarrow> (uuid, holding) btree \<Rightarrow> u64 \<Rightarrow> (uuid, holding) btree \<times> u64" where
  "place_claims generation [] holdings next_lease = (holdings, next_lease)"
| "place_claims generation ((c, step) # rest) holdings next_lease =
     (let (lease, epoch, was, next_lease) = (case map_of holdings (fc_id c) of
            Some h \<Rightarrow> (ho_lease h, ho_epoch h, ho_owned h, next_lease)
          | None \<Rightarrow> (next_lease + 1, 0, 0, next_lease + 1));
          epoch = (if was < st_owned step then epoch + 1 else epoch)
      in place_claims generation rest (bt_insert (fc_id c)
           \<lparr> ho_owner = Some (fc_owner c), ho_target = st_target step, ho_owned = st_owned step, ho_state = st_state step,
             ho_generation = generation, ho_lease = lease, ho_epoch = epoch \<rparr> holdings) next_lease)"

definition tier_clear :: "tier \<Rightarrow> capacity \<Rightarrow> claim list \<Rightarrow> clearing \<times> tier" where
  "tier_clear t capacity claims =
     (let valid = valid_claims t claims; refused = refused_claims t claims
      in case capacity of
           CP_Unavailable \<Rightarrow> (unmoved t capacity OC_CapacityUnavailable refused, t)
         | CP_Measured n _ \<Rightarrow>
             let required = amount_sum (map reservation valid)
             in if n < required
                then (unmoved t capacity (OC_Infeasible required n
                  (map fc_id (filter (\<lambda>c. case fc_floor c of FL_Required _ \<Rightarrow> True | _ \<Rightarrow> False) valid))) refused, t)
                else case make_plan t n valid of
                  Inl _ \<Rightarrow> (unmoved t capacity OC_NonFinite refused, t)
                | Inr plan \<Rightarrow>
                    let generation = ti_generation t + 1;
                        (holdings, next_lease) = place_claims generation (zip valid (pl_steps plan))
                          (map (\<lambda>(i, h). (i, ask_release generation h)) (ti_holdings t)) (ti_next_lease t);
                        t' = \<lparr> ti_generation = generation, ti_holdings = holdings, ti_next_lease = next_lease \<rparr>
                    in (\<lparr> cg_generation = generation, cg_capacity = capacity, cg_outcome = OC_Cleared,
                          cg_grants = tier_grants t', cg_price = pl_price plan, cg_unallocated = pl_unallocated plan,
                          cg_overcommitted = pl_overcommitted plan, cg_achieved = pl_achieved plan,
                          cg_upper_bound = pl_upper_bound plan, cg_refused = refused \<rparr>, t'))"

section \<open>Reports\<close>

definition report_held :: "tier \<Rightarrow> release \<Rightarrow> (release_error + amount) \<times> tier" where
  "report_held t r =
     (case map_of (ti_holdings t) (re_claim r) of
        None \<Rightarrow> (Inl RE_Unknown, t)
      | Some h \<Rightarrow>
          if re_lease r \<noteq> ho_lease h then (Inl (RE_WrongLease (ho_lease h) (re_lease r)), t)
          else if re_epoch r < ho_epoch h then (Inl (RE_Superseded (ho_epoch h) (re_epoch r)), t)
          else if ho_epoch h < re_epoch r then (Inl (RE_NotIssued (ho_epoch h) (re_epoch r)), t)
          else if ho_owned h < re_holds r then (Inl (RE_AboveOwned (ho_owned h) (re_holds r)), t)
          else
            let state = (if re_holds r = ho_target h \<and> (case ho_state h of GS_ShrinkRequested _ \<Rightarrow> True | _ \<Rightarrow> False) then GS_Granted
                         else if re_holds r < ho_target h then GS_Waiting else ho_state h);
                h' = h\<lparr> ho_owned := re_holds r, ho_state := state \<rparr>
            in (Inr (saturating_sub (ho_owned h) (re_holds r)),
                t\<lparr> ti_holdings := (if re_holds r = 0 \<and> ho_target h = 0 then bt_remove (re_claim r) (ti_holdings t)
                                  else bt_insert (re_claim r) h' (ti_holdings t)) \<rparr>))"

definition withdraw :: "tier \<Rightarrow> uuid \<Rightarrow> u64 \<Rightarrow> (release_error + amount) \<times> tier" where
  "withdraw t claim lease =
     (case map_of (ti_holdings t) claim of
        None \<Rightarrow> (Inl RE_Unknown, t)
      | Some h \<Rightarrow>
          if lease \<noteq> ho_lease h then (Inl (RE_WrongLease (ho_lease h) lease), t)
          else (Inr (ho_owned h), t\<lparr> ti_holdings := bt_remove claim (ti_holdings t) \<rparr>))"

end
