(* ===== verification/Flex_Growth.thy ===== *)
theory Flex_Growth
  imports Flex_Tier
begin

text \<open>
  What a clearing does to what holders own: it never lowers a charge, and growth comes only
  from capacity that no one owns.
\<close>

section \<open>Growth is bounded by what is free\<close>

lemma commit_loop_bound:
  "unat (commit_loop segs owned target start reach left) \<le> (unat reach - unat owned) + unat left"
proof (induction segs owned target start reach left rule: commit_loop.induct)
  case (2 seg segs owned target start reach left)
  let ?upto = "saturating_add start (in_width seg)"
  let ?stop = "min ?upto target"
  let ?need = "saturating_sub ?stop reach"
  consider "?upto \<le> owned" | "\<not> ?upto \<le> owned" "target \<le> reach \<or> left = 0"
    | (whole) "\<not> ?upto \<le> owned" "\<not> (target \<le> reach \<or> left = 0)" "?need \<le> left"
    | (part) "\<not> ?upto \<le> owned" "\<not> (target \<le> reach \<or> left = 0)" "\<not> ?need \<le> left" by blast
  then show ?case
  proof cases
    case whole
    then have "unat (commit_loop (seg # segs) owned target start reach left) \<le>
        (unat ?stop - unat owned) + unat (saturating_sub left ?need)"
      using "2.IH"(2) [OF refl whole(1,2) refl refl whole(3)] by (simp add: Let_def)
    also have "\<dots> \<le> (unat reach - unat owned) + unat left"
      using whole(3) by (simp add: unat_saturating_sub word_le_nat_alt)
    finally show ?thesis .
  next
    case part
    then show ?thesis
      using "2.IH"(3) [OF refl part(1,2) refl refl part(3)]
      by (auto simp: Let_def unat_saturating_sub unat_saturating_add)
  qed (use 2 in \<open>auto simp: Let_def unat_saturating_sub\<close>)
qed (simp add: unat_saturating_sub)

lemma committable_bound: "committable c owned target free = Inr g \<Longrightarrow> g \<le> free"
  using commit_loop_bound [of _ owned target 0 owned free]
  unfolding committable_def res_bind_eq_Inr Let_def word_le_nat_alt by force

definition steps_owned :: "tier_step list \<Rightarrow> nat" where
  "steps_owned steps = sum_list (map (\<lambda>s. unat (st_owned s)) steps)"

lemma sum_list_update_nat:
  fixes f :: "'a \<Rightarrow> nat"
  shows "i < length xs \<Longrightarrow> sum_list (map f (xs[i := x])) + f (xs ! i) = sum_list (map f xs) + f x"
  by (induction xs arbitrary: i) (auto split: nat.splits)

lemma grow_slots_bound:
  "grow_slots claims slots free steps = Inr steps' \<Longrightarrow>
     length steps' = length steps \<and> steps_owned steps' \<le> steps_owned steps + unat free \<and>
     (\<forall>i < length steps. st_owned (steps ! i) \<le> st_owned (steps' ! i) \<and> st_target (steps' ! i) = st_target (steps ! i))"
proof (induction slots arbitrary: free steps)
  case (Cons slot slots)
  let ?c = "claims ! slot" and ?s = "steps ! slot"
  obtain g where g: "committable ?c (st_owned ?s) (st_target ?s) free = Inr g"
    using Cons.prems by (auto simp: Let_def res_bind_eq_Inr)
  let ?s' = "?s\<lparr> st_owned := saturating_add (st_owned ?s) g, st_state :=
      (if saturating_add (st_owned ?s) g \<noteq> st_target ?s then GS_Waiting
       else if is_measured (fc_provenance ?c) then GS_Granted else GS_Unmeasured) \<rparr>"
  let ?steps = "steps[slot := ?s']"
  have rest: "grow_slots claims slots (saturating_sub free g) ?steps = Inr steps'"
    using Cons.prems g by (simp add: Let_def)
  note IH = Cons.IH [OF rest]
  have "unat g \<le> unat free" using committable_bound [OF g] by (simp add: word_le_nat_alt)
  moreover have "steps_owned ?steps \<le> steps_owned steps + unat g"
  proof (cases "slot < length steps")
    case True
    then have "steps_owned ?steps + unat (st_owned ?s) = steps_owned steps + unat (saturating_add (st_owned ?s) g)"
      using sum_list_update_nat [OF True, of "\<lambda>s. unat (st_owned s)" ?s'] by (simp add: steps_owned_def)
    then show ?thesis by (simp add: unat_saturating_add)
  next
    case False
    then have "?steps = steps" by (simp only: list_update_beyond not_less)
    then show ?thesis by simp
  qed
  moreover have "st_owned (steps ! i) \<le> st_owned (?steps ! i) \<and> st_target (?steps ! i) = st_target (steps ! i)"
    if "i < length steps" for i
    using that saturating_add_ge1 by (cases "i = slot") auto
  ultimately show ?case
    using IH by (auto simp: unat_saturating_sub intro: order_trans)
qed simp

section \<open>The plan\<close>

lemma plan_steps_owned:
  "plan_steps t held slot cs achieved = Inr (a, steps, growing) \<Longrightarrow>
     length steps = length cs \<and> map st_owned steps = map (\<lambda>(c, _). owned_of t (fc_id c)) cs"
proof (induction t held slot cs achieved arbitrary: a steps growing rule: plan_steps.induct)
  case (2 t held slot c target rest achieved)
  then show ?case by (fastforce simp: Let_def res_bind_eq_Inr split: prod.splits)
qed simp

lemma map_zip_fst: "length xs = length ys \<Longrightarrow> map (\<lambda>(x, _). f x) (zip xs ys) = map f xs"
  by (induction xs ys rule: list_induct2) simp_all

lemma map_zip_snd: "length xs = length ys \<Longrightarrow> map (\<lambda>(_, y). f y) (zip xs ys) = map f ys"
  by (induction xs ys rule: list_induct2) simp_all

lemma set_amounts_length [simp]: "length (set_amounts ps xs) = length xs"
  by (induction ps xs rule: set_amounts.induct) simp_all

lemma tier_targets_length: "tier_targets_of t n claims = Inr targets \<Longrightarrow> length (tt_amounts targets) = length claims"
  by (auto simp: tier_targets_of_def res_bind_eq_Inr Let_def split: if_splits)

text \<open>
  The amounts of a plan: every claimant keeps what it owns, and together they gain at most
  what is free.
\<close>

lemma make_plan_owned:
  assumes plan: "make_plan t n claims = Inr plan"
  shows "length (pl_steps plan) = length claims \<and>
    (\<forall>i < length claims. owned_of t (fc_id (claims ! i)) \<le> st_owned (pl_steps plan ! i)) \<and>
    steps_owned (pl_steps plan) \<le> sum_list (map (\<lambda>c. unat (owned_of t (fc_id c))) claims) + (unat n - unat (owned_now t))"
proof -
  obtain targets achieved steps growing slots steps' where tt: "tier_targets_of t n claims = Inr targets"
    and ps: "plan_steps t (tt_held targets) 0 (zip claims (tt_amounts targets)) 0 = Inr (achieved, steps, growing)"
    and gs: "grow_slots claims slots (saturating_sub n (owned_now t)) steps = Inr steps'" and pl: "pl_steps plan = steps'"
    using plan unfolding make_plan_def Let_def split_beta res_bind_eq_Inr by force
  have len: "length (tt_amounts targets) = length claims"
    using tt tier_targets_length by blast
  have own: "length steps = length claims" "map st_owned steps = map (\<lambda>c. owned_of t (fc_id c)) claims"
  proof -
    have "map (\<lambda>(c, _). owned_of t (fc_id c)) (zip claims (tt_amounts targets)) = map (\<lambda>c. owned_of t (fc_id c)) claims"
      using len by (intro map_zip_fst) simp
    then show "length steps = length claims" "map st_owned steps = map (\<lambda>c. owned_of t (fc_id c)) claims"
      using plan_steps_owned [OF ps] len by simp_all
  qed
  have "steps_owned steps = sum_list (map unat (map st_owned steps))"
    by (simp add: steps_owned_def comp_def)
  then have "steps_owned steps = sum_list (map (\<lambda>c. unat (owned_of t (fc_id c))) claims)"
    unfolding own(2) by (simp add: comp_def)
  moreover have "st_owned (steps ! i) = owned_of t (fc_id (claims ! i))" if "i < length claims" for i
    using own that by (metis nth_map)
  ultimately show ?thesis
    using grow_slots_bound [OF gs] own(1) by (simp add: pl unat_saturating_sub)
qed

section \<open>What holders own after a clearing\<close>

definition total_owned :: "(uuid, holding) btree \<Rightarrow> nat" where
  "total_owned holdings = sum_list (map (\<lambda>(_, h). unat (ho_owned h)) holdings)"

definition charge :: "(uuid, holding) btree \<Rightarrow> uuid \<Rightarrow> nat" where
  "charge holdings i = (case map_of holdings i of None \<Rightarrow> 0 | Some h \<Rightarrow> unat (ho_owned h))"

lemma charge_owned_of: "unat (owned_of t i) = charge (ti_holdings t) i"
  by (simp add: owned_of_def charge_def split: option.splits)

lemma charge_insert: "charge (bt_insert k h m) i = (if i = k then unat (ho_owned h) else charge m i)"
  by (simp add: charge_def)

lemma total_insert: "bt_wf m \<Longrightarrow> total_owned (bt_insert k h m) + charge m k = total_owned m + unat (ho_owned h)"
proof (induction m)
  case (Cons e m)
  obtain k' h' where e: "e = (k', h')" by (cases e)
  have none: "k < k' \<Longrightarrow> map_of m k = None"
    using Cons.prems by (force simp: e bt_wf_Cons map_of_eq_None_iff)
  show ?case
    using Cons none by (auto simp: e total_owned_def charge_def bt_wf_Cons)
qed (simp add: total_owned_def charge_def)

lemma total_ask_release: "total_owned (map (\<lambda>(i, h). (i, ask_release g h)) m) = total_owned m"
  by (induction m) (auto simp: total_owned_def ask_release_def)

lemma map_of_ask_release: "map_of (map (\<lambda>(i, h). (i, ask_release g h)) m) i = map_option (ask_release g) (map_of m i)"
  by (induction m) auto

lemma wf_ask_release: "bt_wf m \<Longrightarrow> bt_wf (map (\<lambda>(i, h). (i, ask_release g h)) m)"
  by (simp add: bt_wf_def split_beta comp_def)

lemma charge_ask_release: "charge (map (\<lambda>(i, h). (i, ask_release g h)) m) i = charge m i"
  unfolding charge_def map_of_ask_release by (cases "map_of m i") (simp_all add: ask_release_def)

lemma place_claims_charges:
  assumes "place_claims g cs m l = (m', l')" "bt_wf m" "distinct (map (\<lambda>(c, _). fc_id c) cs)"
  shows "bt_wf m' \<and>
    total_owned m' + sum_list (map (\<lambda>(c, _). charge m (fc_id c)) cs) =
      total_owned m + sum_list (map (\<lambda>(_, s). unat (st_owned s)) cs) \<and>
    (\<forall>(c, s) \<in> set cs. charge m' (fc_id c) = unat (st_owned s)) \<and>
    (\<forall>i. i \<notin> (\<lambda>(c, _). fc_id c) ` set cs \<longrightarrow> map_of m' i = map_of m i)"
  using assms
proof (induction cs arbitrary: m l)
  case (Cons p cs)
  obtain c s where p: "p = (c, s)" by (cases p)
  obtain h l1 where step: "place_claims g cs (bt_insert (fc_id c) h m) l1 = (m', l')" "ho_owned h = st_owned s"
    using Cons.prems(1) by (auto simp: p Let_def split: option.splits)
  let ?m = "bt_insert (fc_id c) h m"
  have fresh: "\<forall>(d, _) \<in> set cs. fc_id d \<noteq> fc_id c" and d: "distinct (map (\<lambda>(c, _). fc_id c) cs)"
    using Cons.prems(3) by (force simp: p)+
  note IH = Cons.IH [OF step(1) bt_wf_insert [OF Cons.prems(2)] d]
  have same: "map (\<lambda>(c, _). charge ?m (fc_id c)) cs = map (\<lambda>(c, _). charge m (fc_id c)) cs"
    using fresh by (auto simp: charge_insert)
  have "fc_id c \<notin> (\<lambda>(c, _). fc_id c) ` set cs"
    using fresh by force
  then have own: "map_of m' (fc_id c) = Some h"
    using IH by simp
  have "total_owned m' + sum_list (map (\<lambda>(c, _). charge m (fc_id c)) (p # cs)) =
      total_owned m + sum_list (map (\<lambda>(_, s). unat (st_owned s)) (p # cs))"
    using IH total_insert [OF Cons.prems(2), of "fc_id c" h] unfolding same by (simp add: p step(2))
  then show ?case
    using IH own by (simp add: p charge_def step(2))
qed simp

text \<open>The claims that are cleared have distinct ids.\<close>

lemma length_filter_mono: "(\<And>x. P x \<Longrightarrow> Q x) \<Longrightarrow> length (filter P xs) \<le> length (filter Q xs)"
  by (induction xs) (auto intro: le_SucI)

lemma distinct_by_count: "(\<And>i. length (filter (\<lambda>x. f x = i) xs) \<le> 1) \<Longrightarrow> distinct (map f xs)"
proof (induction xs)
  case (Cons x xs)
  have "length (filter (\<lambda>y. f y = i) xs) \<le> 1" for i
    using Cons.prems [of i] by (auto split: if_splits)
  moreover have "filter (\<lambda>y. f y = f x) xs = []"
    using Cons.prems [of "f x"] by simp
  ultimately show ?case
    using Cons.IH by (auto simp: filter_empty_conv image_iff)
qed simp

lemma valid_claims_distinct: "distinct (map fc_id (valid_claims t claims))"
proof -
  have "length (filter (\<lambda>c. fc_id c = i) (filter (\<lambda>c. admit_claim t claims c = Inr ()) claims)) \<le> 1" for i
  proof (cases "\<exists>c \<in> set claims. fc_id c = i \<and> admit_claim t claims c = Inr ()")
    case True
    then have "length (filter (\<lambda>d. fc_id d = i) claims) \<le> 1"
      by (auto simp: admit_claim_def not_less split: if_splits)
    moreover have "length (filter (\<lambda>c. fc_id c = i) (filter (\<lambda>c. admit_claim t claims c = Inr ()) claims)) \<le>
        length (filter (\<lambda>d. fc_id d = i) claims)"
      unfolding filter_filter by (rule length_filter_mono) simp
    ultimately show ?thesis by linarith
  next
    case False
    then have "filter (\<lambda>c. fc_id c = i) (filter (\<lambda>c. admit_claim t claims c = Inr ()) claims) = []"
      by (auto simp: filter_empty_conv)
    then show ?thesis by simp
  qed
  then have "distinct (map fc_id (filter (\<lambda>c. admit_claim t claims c = Inr ()) claims))"
    by (rule distinct_by_count)
  then show ?thesis by (simp add: valid_claims_def distinct_map)
qed

lemma tier_clear_cases:
  assumes "tier_clear t (CP_Measured n p) claims = (cg, t')"
  obtains (unmoved) "t' = t" "cg_outcome cg \<noteq> OC_Cleared"
  | (cleared) plan where "make_plan t n (valid_claims t claims) = Inr plan" "cg_outcome cg = OC_Cleared"
      "amount_sum (map reservation (valid_claims t claims)) \<le> n"
      "ti_generation t' = ti_generation t + 1" "cg_grants cg = tier_grants t'"
      "place_claims (ti_generation t + 1) (zip (valid_claims t claims) (pl_steps plan))
        (map (\<lambda>(i, h). (i, ask_release (ti_generation t + 1) h)) (ti_holdings t)) (ti_next_lease t) =
        (ti_holdings t', ti_next_lease t')"
      "cg_price cg = pl_price plan" "cg_unallocated cg = pl_unallocated plan" "cg_achieved cg = pl_achieved plan"
      "cg_upper_bound cg = pl_upper_bound plan"
proof (cases "n < amount_sum (map reservation (valid_claims t claims))")
  case True
  then show ?thesis using assms unmoved by (auto simp: tier_clear_def unmoved_def Let_def)
next
  case small: False
  show ?thesis
  proof (cases "make_plan t n (valid_claims t claims)")
    case (Inl e)
    then show ?thesis using assms unmoved small by (auto simp: tier_clear_def unmoved_def Let_def)
  next
    case (Inr plan)
    obtain m l where pc: "place_claims (ti_generation t + 1) (zip (valid_claims t claims) (pl_steps plan))
        (map (\<lambda>(i, h). (i, ask_release (ti_generation t + 1) h)) (ti_holdings t)) (ti_next_lease t) = (m, l)"
      by fastforce
    show ?thesis
      using cleared [OF Inr] assms small Inr pc by (auto simp: tier_clear_def Let_def not_less)
  qed
qed

text \<open>
  What a clearing leaves every holder, for all tiers with well-formed holdings.
\<close>

lemma clear_charges:
  assumes clear: "tier_clear t (CP_Measured n p) claims = (cg, t')" and ok: "bt_wf (ti_holdings t)"
  shows "bt_wf (ti_holdings t')" "\<forall>i. charge (ti_holdings t) i \<le> charge (ti_holdings t') i"
    "total_owned (ti_holdings t') \<le> max (unat n) (total_owned (ti_holdings t))"
proof -
  have "bt_wf (ti_holdings t') \<and> (\<forall>i. charge (ti_holdings t) i \<le> charge (ti_holdings t') i) \<and>
      total_owned (ti_holdings t') \<le> max (unat n) (total_owned (ti_holdings t))"
    using clear
  proof (cases rule: tier_clear_cases)
    case unmoved
    then show ?thesis using ok by simp
  next
    case (cleared plan)
    let ?valid = "valid_claims t claims" and ?m = "map (\<lambda>(i, h). (i, ask_release (ti_generation t + 1) h)) (ti_holdings t)"
    let ?cs = "zip ?valid (pl_steps plan)"
    note plan = make_plan_owned [OF cleared(1)]
    have len: "length ?valid = length (pl_steps plan)" using plan by simp
    have ids: "map (\<lambda>(c, _). fc_id c) ?cs = map fc_id ?valid"
      using len by (rule map_zip_fst)
    note placed = place_claims_charges [OF cleared(6) wf_ask_release [OF ok], unfolded ids, OF valid_claims_distinct,
        unfolded total_ask_release charge_ask_release]
    have steps: "sum_list (map (\<lambda>(_, s). unat (st_owned s)) ?cs) = steps_owned (pl_steps plan)"
      using len by (simp add: steps_owned_def map_zip_snd)
    have was: "map (\<lambda>(c, _). charge (ti_holdings t) (fc_id c)) ?cs = map (\<lambda>c. unat (owned_of t (fc_id c))) ?valid"
      using map_zip_fst [OF len, of "\<lambda>c. charge (ti_holdings t) (fc_id c)"] by (simp add: charge_owned_of)
    have now: "unat (owned_now t) = min (total_owned (ti_holdings t)) (2 ^ 64 - 1)"
      by (simp add: owned_now_def amount_sum_min total_owned_def bt_values_def comp_def case_prod_unfold)
    have "total_owned (ti_holdings t') \<le> total_owned (ti_holdings t) + (unat n - unat (owned_now t))"
      using placed plan unfolding steps was by linarith
    moreover have "unat n \<le> 2 ^ 64 - 1" using unat_bound [of n] by simp
    ultimately have "total_owned (ti_holdings t') \<le> max (unat n) (total_owned (ti_holdings t))"
      by (simp add: now min_def split: if_splits)
    moreover have "charge (ti_holdings t) i \<le> charge (ti_holdings t') i" for i
    proof (cases "i \<in> fc_id ` set ?valid")
      case True
      then obtain k where k: "k < length ?valid" "fc_id (?valid ! k) = i"
        by (metis imageE in_set_conv_nth)
      then have "(?valid ! k, pl_steps plan ! k) \<in> set ?cs"
        using len by (auto simp: set_zip)
      then have "charge (ti_holdings t') i = unat (st_owned (pl_steps plan ! k))"
        using placed k(2) by fastforce
      then show ?thesis
        using plan k by (metis charge_owned_of word_le_nat_alt)
    next
      case False
      moreover have "(\<lambda>(c, _). fc_id c) ` set ?cs = fc_id ` set ?valid"
        using arg_cong [OF ids, of set] by simp
      ultimately have "map_of (ti_holdings t') i = map_of ?m i"
        using placed by metis
      then have "charge (ti_holdings t') i = charge ?m i" by (simp add: charge_def)
      then show ?thesis by (simp add: charge_ask_release)
    qed
    ultimately show ?thesis using placed by blast
  qed
  then show "bt_wf (ti_holdings t')" "\<forall>i. charge (ti_holdings t) i \<le> charge (ti_holdings t') i"
    "total_owned (ti_holdings t') \<le> max (unat n) (total_owned (ti_holdings t))" by blast+
qed

text \<open>
  C10. Growth comes only from capacity that no one owns. A clearing takes nothing from a
  holder: what each owns stays charged or grows, and the total stays within the measured
  capacity or, when holders own more than that already, within what they own.
\<close>

theorem clear_never_overcommits:
  assumes "tier_clear t (CP_Measured n p) claims = (cg, t')" "bt_wf (ti_holdings t)"
  shows "(\<forall>i. unat (owned_of t i) \<le> unat (owned_of t' i)) \<and>
    total_owned (ti_holdings t') \<le> max (unat n) (total_owned (ti_holdings t))"
  using clear_charges [OF assms] by (simp add: charge_owned_of)

definition demo_claim :: "uuid \<Rightarrow> floor \<Rightarrow> increment list \<Rightarrow> claim" where
  "demo_claim i fl incs =
     \<lparr> fc_id = i, fc_owner = i, fc_floor = fl, fc_increments = incs, fc_provenance = PV_Measured 1 1 1, fc_switch_cost = 0 \<rparr>"

theorem clear_never_overcommits_witness:
  "total_owned (ti_holdings (snd (tier_clear tier_new (CP_Measured 5 PV_Unmeasured) [demo_claim 1 (FL_Required 3) []]))) \<le> 5"
  using clear_never_overcommits [of tier_new 5 PV_Unmeasured "[demo_claim 1 (FL_Required 3) []]"
      "fst (tier_clear tier_new (CP_Measured 5 PV_Unmeasured) [demo_claim 1 (FL_Required 3) []])"
      "snd (tier_clear tier_new (CP_Measured 5 PV_Unmeasured) [demo_claim 1 (FL_Required 3) []])"]
  by (simp add: tier_new_def total_owned_def)

end
