(* ===== verification/Flex_Ownership.thy ===== *)
theory Flex_Ownership
  imports Flex_Growth
begin

text \<open>
  A tier with its holders. Grants reach a holder late, reports reach the tier late, out of
  order and more than once, and a holder may disappear. What a holder uses physically is
  never above what the tier charges it, so physical use never exceeds the capacity that was
  measured.

  A holder moves to a grant of a newer lease or epoch when the tier finds the grant current
  (\<open>Tier::is_current\<close>); within an epoch it only releases. A holder that is gone stays gone
  under its lease.
\<close>

section \<open>The system\<close>

record flex_use =
  us_lease :: u64
  us_epoch :: u64
  us_amount :: amount

record flex_world =
  fw_tier :: tier
  fw_grants :: "grant set"
  fw_uses :: "uuid \<Rightarrow> flex_use"
  fw_reports :: "release set"
  fw_gone :: "(uuid \<times> u64) set"

definition world_new :: flex_world where
  "world_new = \<lparr> fw_tier = tier_new, fw_grants = {}, fw_uses = (\<lambda>_. \<lparr> us_lease = 0, us_epoch = 0, us_amount = 0 \<rparr>),
     fw_reports = {}, fw_gone = {} \<rparr>"

text \<open>The counters of the tier do not wrap in this clearing.\<close>

definition counters_fit :: "tier \<Rightarrow> claim list \<Rightarrow> bool" where
  "counters_fit t claims \<longleftrightarrow>
     unat (ti_generation t) + 1 < 2 ^ 64 \<and> unat (ti_next_lease t) + length claims < 2 ^ 64 \<and>
     (\<forall>i h. map_of (ti_holdings t) i = Some h \<longrightarrow> unat (ho_epoch h) + 1 < 2 ^ 64)"

inductive flex_step :: "nat \<Rightarrow> flex_world \<Rightarrow> flex_world \<Rightarrow> bool" for limit :: nat where
  clears: "flex_step limit w (w\<lparr> fw_tier := t', fw_grants := fw_grants w \<union> set (cg_grants cg) \<rparr>)"
    if "tier_clear (fw_tier w) (CP_Measured n p) claims = (cg, t')" "counters_fit (fw_tier w) claims" "unat n \<le> limit"
| takes: "flex_step limit w (w\<lparr> fw_uses := (fw_uses w)(gr_claim g := \<lparr> us_lease = gr_lease g, us_epoch = gr_epoch g, us_amount = a \<rparr>) \<rparr>)"
    if "g \<in> fw_grants w" "is_current (fw_tier w) (gr_claim g) (gr_generation g)" "a \<le> gr_owned g"
      "us_lease (fw_uses w (gr_claim g)) \<noteq> gr_lease g \<or> us_epoch (fw_uses w (gr_claim g)) < gr_epoch g"
      "(gr_claim g, gr_lease g) \<notin> fw_gone w"
| releases: "flex_step limit w (w\<lparr> fw_uses := (fw_uses w)(i := (fw_uses w i)\<lparr> us_amount := a \<rparr>) \<rparr>)"
    if "a \<le> us_amount (fw_uses w i)"
| reports: "flex_step limit w (w\<lparr> fw_reports := insert \<lparr> re_claim = i, re_lease = us_lease (fw_uses w i),
      re_epoch = us_epoch (fw_uses w i), re_holds = us_amount (fw_uses w i) \<rparr> (fw_reports w) \<rparr>)"
| delivers: "flex_step limit w (w\<lparr> fw_tier := t' \<rparr>)"
    if "r \<in> fw_reports w" "report_held (fw_tier w) r = (answer, t')"
| leaves: "flex_step limit w (w\<lparr> fw_uses := (fw_uses w)(i := (fw_uses w i)\<lparr> us_amount := 0 \<rparr>),
      fw_gone := insert (i, us_lease (fw_uses w i)) (fw_gone w) \<rparr>)"
| withdraws: "flex_step limit w (w\<lparr> fw_tier := t' \<rparr>)"
    if "(i, l) \<in> fw_gone w" "withdraw (fw_tier w) i l = (answer, t')"

section \<open>How a clearing changes a holding\<close>

definition holding_after :: "(uuid, holding) btree \<Rightarrow> u64 \<Rightarrow> u64 \<Rightarrow> uuid \<Rightarrow> holding \<Rightarrow> bool" where
  "holding_after m next_lease next_lease' i h' \<longleftrightarrow>
     (case map_of m i of
        Some h \<Rightarrow> ho_lease h' = ho_lease h \<and> ho_owned h \<le> ho_owned h' \<and>
          (ho_owned h' = ho_owned h \<and> ho_epoch h' = ho_epoch h \<or> unat (ho_epoch h') = unat (ho_epoch h) + 1)
      | None \<Rightarrow> unat next_lease < unat (ho_lease h') \<and> unat (ho_lease h') \<le> unat next_lease')"

lemma unat_Suc_fits: "unat (a :: u64) + 1 < 2 ^ 64 \<Longrightarrow> unat (a + 1) = unat a + 1"
  using unat_add_fits [of a 1] by simp

lemma place_claims_holdings:
  assumes "place_claims g cs m l = (m', l')" "bt_wf m" "distinct (map (\<lambda>(c, _). fc_id c) cs)"
    and "unat l + length cs < 2 ^ 64"
    and "\<forall>(c, s) \<in> set cs. \<forall>h. map_of m (fc_id c) = Some h \<longrightarrow> unat (ho_epoch h) + 1 < 2 ^ 64"
    and "\<forall>(c, s) \<in> set cs. charge m (fc_id c) \<le> unat (st_owned s)"
  shows "unat l \<le> unat l' \<and> (\<forall>i \<in> (\<lambda>(c, _). fc_id c) ` set cs. \<exists>h'. map_of m' i = Some h' \<and>
    holding_after m l l' i h' \<and> ho_generation h' = g)"
  using assms
proof (induction cs arbitrary: m l)
  case (Cons p cs)
  obtain c s where p: "p = (c, s)" by (cases p)
  let ?i = "fc_id c"
  obtain h l1 where step: "place_claims g cs (bt_insert ?i h m) l1 = (m', l')" "ho_generation h = g"
      "holding_after m l l1 ?i h" "unat l \<le> unat l1" "unat l1 \<le> unat l + 1"
  proof (cases "map_of m ?i")
    case None
    have "unat (l + 1) = unat l + 1"
      using Cons.prems(4) by (intro unat_Suc_fits) simp
    with None show ?thesis
      using that [of "\<lparr> ho_owner = Some (fc_owner c), ho_target = st_target s, ho_owned = st_owned s, ho_state = st_state s,
          ho_generation = g, ho_lease = l + 1, ho_epoch = (if 0 < st_owned s then 0 + 1 else 0) \<rparr>" "l + 1"] Cons.prems(1)
      by (simp add: p Let_def holding_after_def)
  next
    case (Some h0)
    have "unat (ho_epoch h0 + 1) = unat (ho_epoch h0) + 1"
      using Cons.prems(5) Some by (intro unat_Suc_fits) (simp add: p)
    moreover have "ho_owned h0 \<le> st_owned s"
      using Cons.prems(6) Some by (simp add: p charge_def word_le_nat_alt)
    ultimately show ?thesis
      using that [of "\<lparr> ho_owner = Some (fc_owner c), ho_target = st_target s, ho_owned = st_owned s, ho_state = st_state s,
          ho_generation = g, ho_lease = ho_lease h0, ho_epoch = (if ho_owned h0 < st_owned s then ho_epoch h0 + 1 else ho_epoch h0) \<rparr>" l]
        Cons.prems(1) Some
      by (auto simp: p Let_def holding_after_def split: if_splits)
  qed
  let ?m = "bt_insert ?i h m"
  have fresh: "\<forall>(d, _) \<in> set cs. fc_id d \<noteq> ?i" and d: "distinct (map (\<lambda>(c, _). fc_id c) cs)"
    using Cons.prems(3) by (force simp: p)+
  have "unat l \<le> unat l' \<and> unat l1 \<le> unat l' \<and> (\<forall>i \<in> (\<lambda>(c, _). fc_id c) ` set cs. \<exists>h'. map_of m' i = Some h' \<and>
      holding_after ?m l1 l' i h' \<and> ho_generation h' = g)"
    using Cons.IH [OF step(1) bt_wf_insert [OF Cons.prems(2)] d] Cons.prems(4-6) fresh step(4,5)
    by (fastforce simp: p charge_insert)
  moreover have "holding_after m l l' i h'" if "holding_after ?m l1 l' i h'" "i \<noteq> ?i" for i h'
    using that step(4) by (auto simp: holding_after_def split: option.splits)
  moreover have "?i \<notin> (\<lambda>(c, _). fc_id c) ` set cs"
    using fresh by force
  then have "map_of m' ?i = Some h"
    using place_claims_charges [OF step(1) bt_wf_insert [OF Cons.prems(2)] d] by simp
  moreover have "holding_after m l l' ?i h" if "unat l1 \<le> unat l'"
    using step(3) that by (auto simp: holding_after_def split: option.splits)
  ultimately show ?case
    using fresh step(2) by (fastforce simp: p)
qed simp

lemma clear_holdings:
  assumes clear: "tier_clear t (CP_Measured n p) claims = (cg, t')" and ok: "bt_wf (ti_holdings t)"
    and fit: "counters_fit t claims" and gen: "\<forall>i h. map_of (ti_holdings t) i = Some h \<longrightarrow> ho_generation h = ti_generation t"
  shows "unat (ti_next_lease t) \<le> unat (ti_next_lease t') \<and> cg_grants cg = tier_grants t' \<and>
    (t' = t \<or> unat (ti_generation t') = unat (ti_generation t) + 1) \<and>
    (\<forall>i h'. map_of (ti_holdings t') i = Some h' \<longrightarrow>
       holding_after (ti_holdings t) (ti_next_lease t) (ti_next_lease t') i h' \<and> ho_generation h' = ti_generation t') \<and>
    (\<forall>i h. map_of (ti_holdings t) i = Some h \<longrightarrow> (\<exists>h'. map_of (ti_holdings t') i = Some h'))"
  using clear
proof (cases rule: tier_clear_cases)
  case unmoved
  then have "cg_grants cg = tier_grants t"
    using clear by (auto simp: tier_clear_def Let_def unmoved_def split: if_splits sum.splits prod.splits)
  then show ?thesis
    using unmoved(1) gen by (auto simp: holding_after_def)
next
  case (cleared plan)
  let ?valid = "valid_claims t claims" and ?g = "ti_generation t + 1"
  let ?m = "map (\<lambda>(i, h). (i, ask_release ?g h)) (ti_holdings t)" and ?cs = "zip ?valid (pl_steps plan)"
  note plan = make_plan_owned [OF cleared(1)]
  have len: "length ?valid = length (pl_steps plan)" using plan by simp
  have ids: "map (\<lambda>(c, _). fc_id c) ?cs = map fc_id ?valid" using len by (rule map_zip_fst)
  have "length ?valid \<le> length claims" by (simp add: valid_claims_def)
  then have room: "unat (ti_next_lease t) + length ?cs < 2 ^ 64"
    using fit len by (simp add: counters_fit_def)
  have epochs: "\<forall>(c, s) \<in> set ?cs. \<forall>h. map_of ?m (fc_id c) = Some h \<longrightarrow> unat (ho_epoch h) + 1 < 2 ^ 64"
    using fit unfolding counters_fit_def map_of_ask_release by (auto simp: ask_release_def)
  have own: "charge ?m (fc_id c) \<le> unat (st_owned s)" if "(c, s) \<in> set ?cs" for c s
  proof -
    from that obtain k where "k < length ?valid" "c = ?valid ! k" "s = pl_steps plan ! k"
      by (auto simp: set_zip)
    then show ?thesis
      using plan by (simp add: charge_ask_release flip: charge_owned_of word_le_nat_alt)
  qed
  have d: "distinct (map (\<lambda>(c, _). fc_id c) ?cs)"
    unfolding ids by (rule valid_claims_distinct)
  have "\<forall>(c, s) \<in> set ?cs. charge ?m (fc_id c) \<le> unat (st_owned s)" using own by blast
  note placed = place_claims_holdings [OF cleared(6) wf_ask_release [OF ok] d room epochs this]
  have rest: "map_of (ti_holdings t') i = map_of ?m i" if "i \<notin> (\<lambda>(c, _). fc_id c) ` set ?cs" for i
    using place_claims_charges [OF cleared(6) wf_ask_release [OF ok] d] that by blast
  have conv: "holding_after (ti_holdings t) a b i h'" if "holding_after ?m a b i h'" for a b i h'
    using that unfolding holding_after_def map_of_ask_release
    by (cases "map_of (ti_holdings t) i") (auto simp: ask_release_def)
  have "unat ?g = unat (ti_generation t) + 1"
    using fit by (intro unat_Suc_fits) (simp add: counters_fit_def)
  moreover have "holding_after (ti_holdings t) (ti_next_lease t) (ti_next_lease t') i h' \<and> ho_generation h' = ?g"
    if h': "map_of (ti_holdings t') i = Some h'" for i h'
  proof (cases "i \<in> (\<lambda>(c, _). fc_id c) ` set ?cs")
    case True
    then obtain h'' where "map_of (ti_holdings t') i = Some h''" "holding_after ?m (ti_next_lease t) (ti_next_lease t') i h''"
        "ho_generation h'' = ?g"
      using placed by blast
    then show ?thesis using h' conv by simp
  next
    case False
    then have "map_option (ask_release ?g) (map_of (ti_holdings t) i) = Some h'"
      using rest [OF False] h' by (simp only: map_of_ask_release)
    then show ?thesis by (auto simp: holding_after_def ask_release_def)
  qed
  moreover have "\<exists>h'. map_of (ti_holdings t') i = Some h'" if h: "map_of (ti_holdings t) i = Some h" for i h
  proof (cases "i \<in> (\<lambda>(c, _). fc_id c) ` set ?cs")
    case False
    from rest [OF False] h show ?thesis by (simp only: map_of_ask_release option.map(2)) simp
  qed (use placed in blast)
  ultimately show ?thesis
    using placed cleared(4,5) by simp
qed

section \<open>The invariant\<close>

definition tier_inv :: "nat \<Rightarrow> tier \<Rightarrow> bool" where
  "tier_inv limit t \<longleftrightarrow>
     bt_wf (ti_holdings t) \<and> total_owned (ti_holdings t) \<le> limit \<and>
     (\<forall>i h. map_of (ti_holdings t) i = Some h \<longrightarrow>
        ho_generation h = ti_generation t \<and> unat (ho_lease h) \<le> unat (ti_next_lease t))"

text \<open>A current grant is what the tier charges, unless its holder has moved to it.\<close>

definition grant_inv :: "tier \<Rightarrow> (uuid \<Rightarrow> flex_use) \<Rightarrow> grant \<Rightarrow> bool" where
  "grant_inv t uses g \<longleftrightarrow>
     unat (gr_generation g) \<le> unat (ti_generation t) \<and>
     (\<forall>h. map_of (ti_holdings t) (gr_claim g) = Some h \<and> gr_generation g = ti_generation t \<longrightarrow>
        gr_lease g = ho_lease h \<and> gr_epoch g = ho_epoch h \<and>
        (ho_owned h = gr_owned g \<or>
         us_lease (uses (gr_claim g)) = ho_lease h \<and> us_epoch (uses (gr_claim g)) = ho_epoch h))"

text \<open>What a holder uses is charged to it, under the lease it uses it with.\<close>

definition use_inv :: "tier \<Rightarrow> (uuid \<times> u64) set \<Rightarrow> uuid \<Rightarrow> flex_use \<Rightarrow> bool" where
  "use_inv t gone i u \<longleftrightarrow>
     unat (us_lease u) \<le> unat (ti_next_lease t) \<and>
     (\<forall>h. map_of (ti_holdings t) i = Some h \<and> ho_lease h = us_lease u \<longrightarrow> us_epoch u \<le> ho_epoch h) \<and>
     (us_amount u \<noteq> 0 \<longrightarrow>
        (\<exists>h. map_of (ti_holdings t) i = Some h \<and> ho_lease h = us_lease u \<and> us_amount u \<le> ho_owned h)) \<and>
     ((i, us_lease u) \<in> gone \<longrightarrow> us_amount u = 0)"

text \<open>A report of the current epoch was written by a holder that uses no more now.\<close>

definition report_inv :: "tier \<Rightarrow> (uuid \<Rightarrow> flex_use) \<Rightarrow> release \<Rightarrow> bool" where
  "report_inv t uses r \<longleftrightarrow>
     unat (re_lease r) \<le> unat (ti_next_lease t) \<and>
     (\<forall>h. map_of (ti_holdings t) (re_claim r) = Some h \<and> ho_lease h = re_lease r \<longrightarrow>
        re_epoch r \<le> ho_epoch h \<and>
        (re_epoch r = ho_epoch h \<longrightarrow>
           us_lease (uses (re_claim r)) = re_lease r \<and> us_epoch (uses (re_claim r)) = re_epoch r \<and>
           us_amount (uses (re_claim r)) \<le> re_holds r))"

definition flex_inv :: "nat \<Rightarrow> flex_world \<Rightarrow> bool" where
  "flex_inv limit w \<longleftrightarrow>
     tier_inv limit (fw_tier w) \<and>
     (\<forall>g \<in> fw_grants w. grant_inv (fw_tier w) (fw_uses w) g) \<and>
     (\<forall>i. use_inv (fw_tier w) (fw_gone w) i (fw_uses w i)) \<and>
     (\<forall>r \<in> fw_reports w. report_inv (fw_tier w) (fw_uses w) r)"

lemma world_new_inv: "flex_inv limit world_new"
  by (simp add: flex_inv_def world_new_def tier_inv_def tier_new_def use_inv_def total_owned_def)

text \<open>A clearing, seen by one grant, use or report.\<close>

lemma clear_grant_inv:
  assumes t: "tier_inv limit t" and clear: "tier_clear t (CP_Measured n p) claims = (cg, t')" and fit: "counters_fit t claims"
  shows "grant_inv t uses g \<Longrightarrow> grant_inv t' uses g" "g \<in> set (cg_grants cg) \<Longrightarrow> grant_inv t' uses g"
    "use_inv t gone i u \<Longrightarrow> use_inv t' gone i u" "report_inv t uses r \<Longrightarrow> report_inv t' uses r"
    "unat n \<le> limit \<Longrightarrow> tier_inv limit t'"
proof -
  have ok: "bt_wf (ti_holdings t)" and gen: "\<forall>i h. map_of (ti_holdings t) i = Some h \<longrightarrow> ho_generation h = ti_generation t"
    and lease: "\<And>i h. map_of (ti_holdings t) i = Some h \<Longrightarrow> unat (ho_lease h) \<le> unat (ti_next_lease t)"
    using t by (auto simp: tier_inv_def)
  note H = clear_holdings [OF clear ok fit gen]
  note C = clear_charges [OF clear ok]
  have after: "holding_after (ti_holdings t) (ti_next_lease t) (ti_next_lease t') i h'" "ho_generation h' = ti_generation t'"
    if "map_of (ti_holdings t') i = Some h'" for i h'
    using H that by blast+
  show "grant_inv t' uses g" if "grant_inv t uses g"
  proof (cases "t' = t")
    case False
    then have "unat (gr_generation g) < unat (ti_generation t')"
      using H that by (auto simp: grant_inv_def)
    then show ?thesis by (auto simp: grant_inv_def)
  qed (use that in simp)
  show "grant_inv t' uses g" if "g \<in> set (cg_grants cg)"
  proof -
    have "g \<in> set (tier_grants t')" using that H by simp
    then obtain i h' where "(i, h') \<in> set (ti_holdings t')" "gr_claim g = i" "gr_generation g = ho_generation h'"
        "gr_lease g = ho_lease h'" "gr_epoch g = ho_epoch h'" "gr_owned g = ho_owned h'"
      by (auto simp: tier_grants_def)
    then show ?thesis
      using after(2) by (auto simp: grant_inv_def bt_wf_in_set [OF C(1)])
  qed
  have old: "\<exists>h. map_of (ti_holdings t) i = Some h \<and> ho_lease h = l \<and> ho_owned h \<le> ho_owned h' \<and>
      (ho_epoch h' = ho_epoch h \<or> ho_epoch h < ho_epoch h')"
    if "map_of (ti_holdings t') i = Some h'" "ho_lease h' = l" "unat l \<le> unat (ti_next_lease t)" for i h' l
    using after(1) [OF that(1)] that(2,3) by (auto simp: holding_after_def word_less_nat_alt split: option.splits)
  show "use_inv t' gone i u" if u: "use_inv t gone i u"
    unfolding use_inv_def
  proof (intro conjI allI impI)
    have bound: "unat (us_lease u) \<le> unat (ti_next_lease t)" using u by (simp add: use_inv_def)
    then show "unat (us_lease u) \<le> unat (ti_next_lease t')" using H by linarith
    show "us_epoch u \<le> ho_epoch h'" if "map_of (ti_holdings t') i = Some h' \<and> ho_lease h' = us_lease u" for h'
      using old [of i h' "us_lease u"] that bound u by (fastforce simp: use_inv_def)
    show "us_amount u = 0" if "(i, us_lease u) \<in> gone" using u that by (simp add: use_inv_def)
    show "\<exists>h. map_of (ti_holdings t') i = Some h \<and> ho_lease h = us_lease u \<and> us_amount u \<le> ho_owned h"
      if amt: "us_amount u \<noteq> 0"
    proof -
      obtain h where h: "map_of (ti_holdings t) i = Some h" "ho_lease h = us_lease u" "us_amount u \<le> ho_owned h"
        using u amt by (auto simp: use_inv_def)
      then obtain h' where h': "map_of (ti_holdings t') i = Some h'" using H by blast
      then have "ho_lease h' = ho_lease h" "ho_owned h \<le> ho_owned h'"
        using after(1) [OF h'] h(1) by (auto simp: holding_after_def)
      then show ?thesis using h h' by auto
    qed
  qed
  show "report_inv t' uses r" if r: "report_inv t uses r"
    unfolding report_inv_def
  proof (intro conjI allI impI)
    have bound: "unat (re_lease r) \<le> unat (ti_next_lease t)" using r by (simp add: report_inv_def)
    then show "unat (re_lease r) \<le> unat (ti_next_lease t')" using H by linarith
    fix h' assume h': "map_of (ti_holdings t') (re_claim r) = Some h' \<and> ho_lease h' = re_lease r"
    then obtain h where h: "map_of (ti_holdings t) (re_claim r) = Some h" "ho_lease h = re_lease r"
        "ho_epoch h' = ho_epoch h \<or> ho_epoch h < ho_epoch h'"
      using old bound by blast
    then have e: "re_epoch r \<le> ho_epoch h" using r by (auto simp: report_inv_def)
    then show "re_epoch r \<le> ho_epoch h'" using h(3) by auto
    show "us_lease (uses (re_claim r)) = re_lease r" "us_epoch (uses (re_claim r)) = re_epoch r"
      "us_amount (uses (re_claim r)) \<le> re_holds r" if "re_epoch r = ho_epoch h'"
      using r h e that by (auto simp: report_inv_def)
  qed
  show "tier_inv limit t'" if "unat n \<le> limit"
    unfolding tier_inv_def
  proof (intro conjI allI impI)
    show "bt_wf (ti_holdings t')" by (rule C(1))
    show "total_owned (ti_holdings t') \<le> limit"
      using C(3) that t by (auto simp: tier_inv_def)
    fix i h' assume h': "map_of (ti_holdings t') i = Some h'"
    show "ho_generation h' = ti_generation t'" using after(2) [OF h'] .
    show "unat (ho_lease h') \<le> unat (ti_next_lease t')"
      using after(1) [OF h'] lease H by (fastforce simp: holding_after_def split: option.splits)
  qed
qed

text \<open>A grant that its holder may move to is exactly what the tier charges.\<close>

lemma current_grant:
  assumes inv: "flex_inv limit w" and g: "g \<in> fw_grants w" "is_current (fw_tier w) (gr_claim g) (gr_generation g)"
    and ahead: "us_lease (fw_uses w (gr_claim g)) \<noteq> gr_lease g \<or> us_epoch (fw_uses w (gr_claim g)) < gr_epoch g"
  obtains h where "map_of (ti_holdings (fw_tier w)) (gr_claim g) = Some h"
    "ho_lease h = gr_lease g" "ho_epoch h = gr_epoch g" "ho_owned h = gr_owned g"
proof -
  obtain h where h: "map_of (ti_holdings (fw_tier w)) (gr_claim g) = Some h" "ho_generation h = gr_generation g"
    using g(2) by (cases "map_of (ti_holdings (fw_tier w)) (gr_claim g)") (auto simp: is_current_def)
  moreover have "ho_generation h = ti_generation (fw_tier w)"
    using inv h(1) by (auto simp: flex_inv_def tier_inv_def)
  ultimately show ?thesis
    using inv g(1) ahead that [of h] by (fastforce simp: flex_inv_def grant_inv_def)
qed

lemma takes_inv:
  assumes inv: "flex_inv limit w" and g: "g \<in> fw_grants w" "is_current (fw_tier w) (gr_claim g) (gr_generation g)"
    and a: "a \<le> gr_owned g"
    and ahead: "us_lease (fw_uses w (gr_claim g)) \<noteq> gr_lease g \<or> us_epoch (fw_uses w (gr_claim g)) < gr_epoch g"
    and here: "(gr_claim g, gr_lease g) \<notin> fw_gone w"
  shows "flex_inv limit (w\<lparr> fw_uses := (fw_uses w)(gr_claim g := \<lparr> us_lease = gr_lease g, us_epoch = gr_epoch g, us_amount = a \<rparr>) \<rparr>)"
proof -
  let ?i = "gr_claim g" and ?t = "fw_tier w"
  let ?u = "\<lparr> us_lease = gr_lease g, us_epoch = gr_epoch g, us_amount = a \<rparr>"
  obtain h where h: "map_of (ti_holdings ?t) ?i = Some h" "ho_lease h = gr_lease g" "ho_epoch h = gr_epoch g"
      "ho_owned h = gr_owned g"
    using current_grant [OF inv g ahead] .
  have lease: "unat (gr_lease g) \<le> unat (ti_next_lease ?t)"
    using inv h unfolding flex_inv_def tier_inv_def by metis
  have "use_inv ?t (fw_gone w) ?i ?u"
    using h lease a here by (simp add: use_inv_def)
  moreover have "grant_inv ?t ((fw_uses w)(?i := ?u)) f" if "f \<in> fw_grants w" for f
    using inv that h by (auto simp: flex_inv_def grant_inv_def)
  moreover have "report_inv ?t ((fw_uses w)(?i := ?u)) r" if r: "r \<in> fw_reports w" for r
  proof -
    have "report_inv ?t (fw_uses w) r" using inv r by (simp add: flex_inv_def)
    then show ?thesis
      using h ahead by (auto simp: report_inv_def)
  qed
  ultimately show ?thesis
    using inv by (auto simp: flex_inv_def)
qed

lemma holder_moves_inv:
  assumes inv: "flex_inv limit w" and a: "a \<le> us_amount (fw_uses w i)"
  shows "flex_inv limit (w\<lparr> fw_uses := (fw_uses w)(i := (fw_uses w i)\<lparr> us_amount := a \<rparr>) \<rparr>)"
proof -
  let ?u = "(fw_uses w i)\<lparr> us_amount := a \<rparr>"
  have u: "use_inv (fw_tier w) (fw_gone w) i (fw_uses w i)" using inv by (simp add: flex_inv_def)
  have "use_inv (fw_tier w) (fw_gone w) i ?u"
    using u a by (auto simp: use_inv_def intro: order_trans)
  moreover have "grant_inv (fw_tier w) ((fw_uses w)(i := ?u)) g" if "g \<in> fw_grants w" for g
    using inv that by (auto simp: flex_inv_def grant_inv_def)
  moreover have "report_inv (fw_tier w) ((fw_uses w)(i := ?u)) r" if "r \<in> fw_reports w" for r
    using inv that a by (auto simp: flex_inv_def report_inv_def intro: order_trans)
  ultimately show ?thesis using inv by (auto simp: flex_inv_def)
qed

text \<open>A change of the tier that lowers or removes one holding, at no less than its use.\<close>

lemma lowers_inv:
  assumes inv: "flex_inv limit w" and h: "map_of (ti_holdings (fw_tier w)) i = Some h"
    and low: "a \<le> ho_owned h" "us_amount (fw_uses w i) \<le> a"
    and t': "ti_generation t' = ti_generation (fw_tier w)" "ti_next_lease t' = ti_next_lease (fw_tier w)"
      "bt_wf (ti_holdings t')" "total_owned (ti_holdings t') \<le> total_owned (ti_holdings (fw_tier w))"
      "\<forall>j. j \<noteq> i \<longrightarrow> map_of (ti_holdings t') j = map_of (ti_holdings (fw_tier w)) j"
      "a = 0 \<and> map_of (ti_holdings t') i = None \<or>
       us_lease (fw_uses w i) = ho_lease h \<and> us_epoch (fw_uses w i) = ho_epoch h \<and>
       (\<exists>st. map_of (ti_holdings t') i = Some (h\<lparr> ho_owned := a, ho_state := st \<rparr>))"
  shows "flex_inv limit (w\<lparr> fw_tier := t' \<rparr>)"
proof -
  have t: "tier_inv limit (fw_tier w)" using inv by (simp add: flex_inv_def)
  have same: "\<exists>h. map_of (ti_holdings (fw_tier w)) j = Some h \<and> ho_lease h' = ho_lease h \<and> ho_epoch h' = ho_epoch h \<and>
      ho_generation h' = ho_generation h" if "map_of (ti_holdings t') j = Some h'" for j h'
    using that t'(5,6) h by (cases "j = i") auto
  have "tier_inv limit t'"
    unfolding tier_inv_def t'(1,2)
  proof (intro conjI allI impI)
    show "bt_wf (ti_holdings t')" by (rule t'(3))
    show "total_owned (ti_holdings t') \<le> limit" using t t'(4) by (simp add: tier_inv_def)
    fix j h' assume "map_of (ti_holdings t') j = Some h'"
    then obtain g where "map_of (ti_holdings (fw_tier w)) j = Some g" "ho_lease h' = ho_lease g" "ho_generation h' = ho_generation g"
      using same by blast
    then show "ho_generation h' = ti_generation (fw_tier w)" "unat (ho_lease h') \<le> unat (ti_next_lease (fw_tier w))"
      using t by (simp_all add: tier_inv_def)
  qed
  moreover have "grant_inv t' (fw_uses w) g" if g: "g \<in> fw_grants w" for g
  proof -
    have "grant_inv (fw_tier w) (fw_uses w) g" using inv g by (simp add: flex_inv_def)
    then show ?thesis
      using h t'(1,5,6) by (cases "gr_claim g = i") (auto simp: grant_inv_def)
  qed
  moreover have "use_inv t' (fw_gone w) j (fw_uses w j)" for j
  proof -
    have u: "use_inv (fw_tier w) (fw_gone w) j (fw_uses w j)" using inv by (simp add: flex_inv_def)
    show ?thesis
    proof (cases "j = i")
      case True
      show ?thesis
      proof (cases "map_of (ti_holdings t') i")
        case None
        then have "us_amount (fw_uses w i) = 0" using t'(6) low(2) by simp
        then show ?thesis using u True None t'(2) by (simp add: use_inv_def)
      next
        case (Some h')
        then obtain st where "h' = h\<lparr> ho_owned := a, ho_state := st \<rparr>" "us_lease (fw_uses w i) = ho_lease h"
            "us_epoch (fw_uses w i) = ho_epoch h"
          using t'(6) by auto
        then show ?thesis using u True Some t'(2) low(2) by (simp add: use_inv_def)
      qed
    next
      case False
      then show ?thesis using u t'(2,5) by (simp add: use_inv_def)
    qed
  qed
  moreover have "report_inv t' (fw_uses w) r" if r: "r \<in> fw_reports w" for r
  proof -
    have "report_inv (fw_tier w) (fw_uses w) r" using inv r by (simp add: flex_inv_def)
    then show ?thesis
      unfolding report_inv_def t'(2) using same [of "re_claim r"] by metis
  qed
  ultimately show ?thesis by (simp add: flex_inv_def)
qed

lemma total_remove: "bt_wf m \<Longrightarrow> total_owned (bt_remove k m) \<le> total_owned m"
  by (induction m) (auto simp: bt_remove_def total_owned_def bt_wf_Cons)

lemma delivers_inv:
  assumes inv: "flex_inv limit w" and r: "r \<in> fw_reports w" "report_held (fw_tier w) r = (answer, t')"
  shows "flex_inv limit (w\<lparr> fw_tier := t' \<rparr>)"
proof (cases "t' = fw_tier w")
  case False
  let ?m = "ti_holdings (fw_tier w)" and ?i = "re_claim r"
  have ok: "bt_wf ?m" using inv by (simp add: flex_inv_def tier_inv_def)
  obtain h where h: "map_of ?m ?i = Some h" using False r(2) by (auto simp: report_held_def split: option.splits)
  have e: "re_lease r = ho_lease h" "re_epoch r = ho_epoch h" "re_holds r \<le> ho_owned h"
    using False r(2) h by (auto simp: report_held_def split: if_splits)
  have use: "us_lease (fw_uses w ?i) = ho_lease h" "us_epoch (fw_uses w ?i) = ho_epoch h"
      "us_amount (fw_uses w ?i) \<le> re_holds r"
    using inv r(1) h e by (auto simp: flex_inv_def report_inv_def)
  obtain st where t': "t' = (fw_tier w)\<lparr> ti_holdings := (if re_holds r = 0 \<and> ho_target h = 0 then bt_remove ?i ?m
      else bt_insert ?i (h\<lparr> ho_owned := re_holds r, ho_state := st \<rparr>) ?m) \<rparr>"
    using r(2) h e(1,2) leD [OF e(3)] by (simp add: report_held_def Let_def) blast
  have "total_owned (bt_insert ?i (h\<lparr> ho_owned := re_holds r, ho_state := st \<rparr>) ?m) \<le> total_owned ?m"
    using total_insert [OF ok, of ?i "h\<lparr> ho_owned := re_holds r, ho_state := st \<rparr>"] h e(3)
    by (simp add: charge_def word_le_nat_alt)
  then show ?thesis
    by (intro lowers_inv [OF inv h e(3) use(3)]) (use t' use ok total_remove [OF ok] in auto)
qed (use inv in simp)

lemma withdraws_inv:
  assumes inv: "flex_inv limit w" and gone: "(i, l) \<in> fw_gone w" "withdraw (fw_tier w) i l = (answer, t')"
  shows "flex_inv limit (w\<lparr> fw_tier := t' \<rparr>)"
proof (cases "t' = fw_tier w")
  case False
  let ?m = "ti_holdings (fw_tier w)"
  have ok: "bt_wf ?m" using inv by (simp add: flex_inv_def tier_inv_def)
  obtain h where h: "map_of ?m i = Some h" "ho_lease h = l" and t': "t' = (fw_tier w)\<lparr> ti_holdings := bt_remove i ?m \<rparr>"
    using False gone(2) by (auto simp: withdraw_def split: option.splits if_splits)
  have "use_inv (fw_tier w) (fw_gone w) i (fw_uses w i)" using inv by (simp add: flex_inv_def)
  then have "us_amount (fw_uses w i) = 0"
    using h gone(1) by (auto simp: use_inv_def)
  then show ?thesis
    by (intro lowers_inv [OF inv h(1), of 0]) (use t' ok total_remove [OF ok] in auto)
qed (use inv in simp)

lemma flex_step_inv:
  assumes "flex_step limit w w'" "flex_inv limit w"
  shows "flex_inv limit w'"
  using assms
proof cases
  case (clears n p claims cg t')
  have t: "tier_inv limit (fw_tier w)" using assms(2) by (simp add: flex_inv_def)
  show ?thesis
    unfolding clears(1)
    using clear_grant_inv [OF t clears(2,3)] clears(4) assms(2) by (auto simp: flex_inv_def)
next
  case (takes g a)
  then show ?thesis using takes_inv [OF assms(2)] by blast
next
  case (releases a i)
  then show ?thesis using holder_moves_inv [OF assms(2)] by blast
next
  case (reports i)
  have u: "use_inv (fw_tier w) (fw_gone w) i (fw_uses w i)" using assms(2) by (simp add: flex_inv_def)
  then show ?thesis
    unfolding reports using assms(2) by (auto simp: flex_inv_def report_inv_def use_inv_def)
next
  case (delivers r answer t')
  then show ?thesis using delivers_inv [OF assms(2)] by blast
next
  case (leaves i)
  have "flex_inv limit (w\<lparr> fw_uses := (fw_uses w)(i := (fw_uses w i)\<lparr> us_amount := 0 \<rparr>) \<rparr>)"
    by (rule holder_moves_inv [OF assms(2)]) simp
  then show ?thesis unfolding leaves by (auto simp: flex_inv_def use_inv_def)
next
  case (withdraws i l answer t')
  then show ?thesis using withdraws_inv [OF assms(2)] by blast
qed

lemma charge_outside: "i \<notin> fst ` set m \<Longrightarrow> charge m i = 0"
  by (simp add: charge_def map_of_eq_None_iff [THEN iffD2])

lemma charges_total:
  assumes "bt_wf m" "finite A"
  shows "(\<Sum>i \<in> A. charge m i) \<le> total_owned m"
proof -
  have d: "distinct (map fst m)" using assms(1) by (rule bt_wf_distinct)
  have "(\<Sum>i \<in> A. charge m i) = (\<Sum>i \<in> A \<inter> set (map fst m). charge m i)"
    using assms(2) by (intro sum.mono_neutral_right ballI) (simp_all add: charge_outside)
  also have "\<dots> \<le> (\<Sum>i \<in> set (map fst m). charge m i)"
    by (intro sum_mono2) auto
  also have "\<dots> = sum_list (map (charge m) (map fst m))"
    by (rule sum_list_distinct_conv_sum_set [OF d, symmetric])
  also have "\<dots> = total_owned m"
    unfolding total_owned_def map_map
    by (rule arg_cong [of _ _ sum_list], rule map_cong) (use d in \<open>auto simp: charge_def\<close>)
  finally show ?thesis .
qed

text \<open>
  C5. Physical use never exceeds the capacity. Whatever claims are cleared, reports delayed,
  reordered, repeated or lost, holders withdrawn and claims made anew: as long as no clearing
  measured more than \<open>limit\<close>, all holders together use at most \<open>limit\<close>.
\<close>

theorem physical_use_within_capacity:
  assumes "(flex_step limit)\<^sup>*\<^sup>* world_new w" "finite A"
  shows "(\<Sum>i \<in> A. unat (us_amount (fw_uses w i))) \<le> limit"
proof -
  have inv: "flex_inv limit w"
    using assms(1) by (induction rule: rtranclp_induct) (auto intro: world_new_inv flex_step_inv)
  have "unat (us_amount (fw_uses w i)) \<le> charge (ti_holdings (fw_tier w)) i" for i
  proof -
    have "use_inv (fw_tier w) (fw_gone w) i (fw_uses w i)" using inv by (simp add: flex_inv_def)
    then show ?thesis
      by (cases "us_amount (fw_uses w i) = 0") (auto simp: use_inv_def charge_def word_le_nat_alt)
  qed
  then have "(\<Sum>i \<in> A. unat (us_amount (fw_uses w i))) \<le> (\<Sum>i \<in> A. charge (ti_holdings (fw_tier w)) i)"
    by (rule sum_mono)
  also have "\<dots> \<le> limit"
    using charges_total [OF _ assms(2)] inv by (force simp: flex_inv_def tier_inv_def)
  finally show ?thesis .
qed

theorem physical_use_within_capacity_witness:
  "\<exists>w. (flex_step 5)\<^sup>*\<^sup>* world_new w \<and> fw_tier w \<noteq> fw_tier world_new \<and> us_amount (fw_uses w 1) = 3 \<and>
     (\<Sum>i \<in> {1}. unat (us_amount (fw_uses w i))) \<le> 5"
proof -
  let ?claims = "[demo_claim 1 (FL_Required 3) []]"
  define h where "h = \<lparr> ho_owner = Some 1, ho_target = 3, ho_owned = 3, ho_state = GS_Granted, ho_generation = 1, ho_lease = 1,
    ho_epoch = 1 \<rparr>"
  define t where "t = \<lparr> ti_generation = 1, ti_holdings = [(1, h)], ti_next_lease = 1 \<rparr>"
  define g where "g = \<lparr> gr_claim = 1, gr_owner = Some 1, gr_target = 3, gr_owned = 3, gr_state = GS_Granted, gr_generation = 1,
    gr_lease = 1, gr_epoch = 1 \<rparr>"
  have clear: "snd (tier_clear tier_new (CP_Measured 5 PV_Unmeasured) ?claims) = t \<and>
      g \<in> set (cg_grants (fst (tier_clear tier_new (CP_Measured 5 PV_Unmeasured) ?claims)))"
    unfolding t_def h_def g_def by code_simp
  obtain cg t' where run: "tier_clear tier_new (CP_Measured 5 PV_Unmeasured) ?claims = (cg, t')" by fastforce
  then have cg: "tier_clear tier_new (CP_Measured 5 PV_Unmeasured) ?claims = (cg, t)" "g \<in> set (cg_grants cg)"
    using clear by (simp_all only: run fst_conv snd_conv)
  let ?w = "world_new\<lparr> fw_tier := t, fw_grants := fw_grants world_new \<union> set (cg_grants cg) \<rparr>"
  let ?v = "?w\<lparr> fw_uses := (fw_uses ?w)(gr_claim g := \<lparr> us_lease = gr_lease g, us_epoch = gr_epoch g, us_amount = 3 \<rparr>) \<rparr>"
  have "flex_step 5 world_new ?w"
    by (rule flex_step.clears [of world_new 5 PV_Unmeasured ?claims])
      (use cg in \<open>simp_all add: world_new_def counters_fit_def tier_new_def\<close>)
  moreover have "flex_step 5 ?w ?v"
    by (rule flex_step.takes) (use cg in \<open>simp_all add: world_new_def g_def t_def h_def is_current_def\<close>)
  ultimately have run: "(flex_step 5)\<^sup>*\<^sup>* world_new ?v" by auto
  from physical_use_within_capacity [OF this, of "{1}"] run show ?thesis
    by (intro exI [of _ ?v]) (simp add: g_def t_def world_new_def tier_new_def)
qed

end
