(* ===== verification/Flex_Price.thy ===== *)
theory Flex_Price
  imports Flex_Growth
begin

text \<open>
  What the solver decides: its targets fill the capacity exactly, and where blocks can be
  split the price clears, every unit granted being worth at least the price and every unit
  refused at most.
\<close>

section \<open>Reasoning about the loop\<close>

lemma solve_loop_end:
  assumes "solve_loop all st = Inr sol" "P st"
    and step: "\<And>st st'. P st \<Longrightarrow> solve_step all st = SN_More st' \<Longrightarrow> P st'"
  obtains st' price where "P st'" "solve_step all st' = SN_Done price" "so_targets sol = sl_targets st'"
    "so_price sol = price" "so_unallocated sol = sl_free st'" "so_achieved sol = sl_achieved st'"
proof -
  have "solve_loop all st = Inr sol \<Longrightarrow> P st \<Longrightarrow> \<exists>st' price. P st' \<and> solve_step all st' = SN_Done price \<and>
      sol = \<lparr> so_targets = sl_targets st', so_price = price, so_unallocated = sl_free st', so_achieved = sl_achieved st' \<rparr>"
  proof (induction "heap_work all (sl_heap st)" arbitrary: st rule: less_induct)
    case less
    show ?case
    proof (cases "solve_step all st")
      case (SN_More st')
      then have "solve_loop all st' = Inr sol" "P st'"
        using less.prems step [OF _ SN_More] by (simp_all add: solve_loop.simps [of all st])
      then show ?thesis using less.hyps [OF solve_step_work [OF SN_More]] by blast
    qed (use less.prems in \<open>auto simp: solve_loop.simps [of all st]\<close>)
  qed
  then show ?thesis using assms(1,2) that by fastforce
qed

text \<open>A turn that goes on skips a block or grants one.\<close>

lemma solve_step_cases:
  assumes "solve_step all st = SN_More st'"
  obtains (skip) nx heap where "heap_pop (sl_heap st) = Some (nx, heap)" "\<not> f64_le (cd_per_unit nx) 0" "sl_free st \<noteq> 0"
      "sl_free st < in_width (cd_block nx)" "\<not> in_divisible (cd_block nx)"
      "st' = st\<lparr> sl_heap := heap, sl_unmet := note_unmet (sl_unmet st) (cd_per_unit nx) \<rparr>"
  | (part) nx heap where "heap_pop (sl_heap st) = Some (nx, heap)" "\<not> f64_le (cd_per_unit nx) 0" "sl_free st \<noteq> 0"
      "sl_free st < in_width (cd_block nx)" "in_divisible (cd_block nx)"
      "sl_heap st' = heap" "sl_free st' = 0" "sl_unmet st' = note_unmet (sl_unmet st) (cd_per_unit nx)"
      "sl_targets st' = (if cd_slot nx < length (sl_targets st)
        then (sl_targets st)[cd_slot nx := saturating_add (sl_targets st ! cd_slot nx) (sl_free st)] else sl_targets st)"
  | (whole) nx heap where "heap_pop (sl_heap st) = Some (nx, heap)" "\<not> f64_le (cd_per_unit nx) 0" "sl_free st \<noteq> 0"
      "in_width (cd_block nx) \<le> sl_free st" "sl_free st' = sl_free st - in_width (cd_block nx)" "sl_unmet st' = sl_unmet st"
      "sl_heap st' = (case block_at all (cd_slot nx) (cd_index nx + 1) of None \<Rightarrow> heap
        | Some b \<Rightarrow> nx\<lparr> cd_index := cd_index nx + 1, cd_per_unit := in_per_unit b, cd_block := b \<rparr> # heap)"
      "sl_targets st' = (if cd_slot nx < length (sl_targets st)
        then (sl_targets st)[cd_slot nx := saturating_add (sl_targets st ! cd_slot nx) (in_width (cd_block nx))] else sl_targets st)"
proof -
  obtain nx heap where p: "heap_pop (sl_heap st) = Some (nx, heap)"
    using assms by (auto simp: solve_step_def split: option.splits)
  have g: "\<not> f64_le (cd_per_unit nx) 0" "sl_free st \<noteq> 0"
    using assms p by (auto simp: solve_step_def Let_def split: if_splits)
  show ?thesis
  proof (cases "in_width (cd_block nx) \<le> sl_free st")
    case True
    then show ?thesis
      using whole [OF p g True] assms p g
      by (auto simp: solve_step_def Let_def saturating_sub_def split: sum.splits option.splits)
  next
    case False
    then have w: "sl_free st < in_width (cd_block nx)" by (simp add: not_le)
    show ?thesis
    proof (cases "in_divisible (cd_block nx)")
      case True
      then show ?thesis
        using part [OF p g w True] assms p g False w
        by (auto simp: solve_step_def Let_def saturating_sub_def split: sum.splits)
    next
      case False
      then show ?thesis
        using skip [OF p g w False] assms p g w by (auto simp: solve_step_def Let_def not_le)
    qed
  qed
qed

section \<open>The targets fill the capacity\<close>

definition sum_amounts :: "amount list \<Rightarrow> nat" where
  "sum_amounts xs = sum_list (map unat xs)"

definition balanced :: "nat \<Rightarrow> solve_state \<Rightarrow> bool" where
  "balanced n st \<longleftrightarrow>
     (\<forall>c \<in> set (sl_heap st). cd_slot c < length (sl_targets st)) \<and>
     sum_amounts (sl_targets st) + unat (sl_free st) = n"

lemma sum_amounts_update:
  assumes "i < length xs" "sum_amounts xs + unat a \<le> 2 ^ 64 - 1"
  shows "unat (saturating_add (xs ! i) a) = unat (xs ! i) + unat a"
    "sum_amounts (xs[i := saturating_add (xs ! i) a]) = sum_amounts xs + unat a"
proof -
  have "unat (xs ! i) \<le> sum_amounts xs"
    unfolding sum_amounts_def using assms(1) by (intro member_le_sum_list) auto
  then show fits: "unat (saturating_add (xs ! i) a) = unat (xs ! i) + unat a"
    using assms(2) by (simp add: unat_saturating_add)
  then show "sum_amounts (xs[i := saturating_add (xs ! i) a]) = sum_amounts xs + unat a"
    using sum_list_update_nat [OF assms(1), of unat "saturating_add (xs ! i) a"] by (simp add: sum_amounts_def)
qed

lemma balanced_step:
  assumes "balanced n st" "n < 2 ^ 64" "solve_step all st = SN_More st'"
  shows "balanced n st'"
  using assms(3)
proof (cases rule: solve_step_cases)
  case (skip nx heap)
  then show ?thesis
    using assms(1) heap_pop_Some(2) [OF skip(1)] by (auto simp: balanced_def dest: notin_set_remove1)
next
  case (part nx heap)
  have slot: "cd_slot nx < length (sl_targets st)" and heap: "\<forall>c \<in> set heap. cd_slot c < length (sl_targets st)"
    using assms(1) heap_pop_Some(1,2) [OF part(1)] by (auto simp: balanced_def dest: notin_set_remove1)
  have "sum_amounts (sl_targets st) + unat (sl_free st) \<le> 2 ^ 64 - 1"
    using assms(1,2) by (simp add: balanced_def)
  from sum_amounts_update(2) [OF slot this] show ?thesis
    using assms(1) part slot heap by (simp add: balanced_def)
next
  case (whole nx heap)
  have slot: "cd_slot nx < length (sl_targets st)" and heap: "\<forall>c \<in> set heap. cd_slot c < length (sl_targets st)"
    using assms(1) heap_pop_Some(1,2) [OF whole(1)] by (auto simp: balanced_def dest: notin_set_remove1)
  have le: "unat (in_width (cd_block nx)) \<le> unat (sl_free st)" using whole(4) by (simp add: word_le_nat_alt)
  then have "sum_amounts (sl_targets st) + unat (in_width (cd_block nx)) \<le> 2 ^ 64 - 1"
    using assms(1,2) by (simp add: balanced_def)
  from sum_amounts_update(2) [OF slot this]
  have "sum_amounts (sl_targets st') + unat (sl_free st') = n"
    using assms(1) whole slot le by (simp add: balanced_def unat_sub word_le_nat_alt)
  moreover have "\<forall>c \<in> set (sl_heap st'). cd_slot c < length (sl_targets st')"
    using whole(7,8) slot heap by (auto split: option.splits)
  ultimately show ?thesis by (simp add: balanced_def)
qed

lemma solve_step_length: "solve_step all st = SN_More st' \<Longrightarrow> length (sl_targets st') = length (sl_targets st)"
  by (erule solve_step_cases) simp_all

lemma first_candidates_slots:
  assumes "c \<in> set (first_candidates claims all)" "length all = length claims"
  shows "cd_slot c < length claims" "cd_index c = 0" "all ! cd_slot c \<noteq> []" "cd_block c = all ! cd_slot c ! 0"
    "cd_per_unit c = in_per_unit (cd_block c)"
proof -
  let ?f = "\<lambda>(slot, c, bs). case bs of [] \<Rightarrow> []
    | b # _ \<Rightarrow> [\<lparr> cd_per_unit = in_per_unit b, cd_claim = fc_id c, cd_slot = slot, cd_index = 0, cd_block = b \<rparr>]"
  obtain q where q: "q \<in> set (zip [0..<length claims] (zip claims all))" "c \<in> set (?f q)"
    using assms(1) unfolding first_candidates_def by auto
  then obtain slot where "slot < length claims" "q = (slot, claims ! slot, all ! slot)"
    using assms(2) by (auto simp: set_zip)
  with q(2) show "cd_slot c < length claims" "cd_index c = 0" "all ! cd_slot c \<noteq> []" "cd_block c = all ! cd_slot c ! 0"
    "cd_per_unit c = in_per_unit (cd_block c)"
    by (cases "all ! slot"; simp)+
qed

lemma collect_blocks_length: "collect_blocks shape claims = Inr all \<Longrightarrow> length all = length claims"
  by (induction claims arbitrary: all) (auto simp: res_bind_eq_Inr)

lemma solve_Ok:
  assumes "solve n claims shape = Inr sol"
  obtains all where "collect_blocks shape claims = Inr all" "length all = length claims"
    "solve_loop all \<lparr> sl_heap = first_candidates claims all, sl_free = saturating_sub n (amount_sum (map reservation claims)),
       sl_achieved = 0, sl_unmet = 0, sl_targets = map reservation claims \<rparr> = Inr sol"
  using assms collect_blocks_length by (auto simp: solve_def Let_def res_bind_eq_Inr)

lemma balanced_start:
  assumes fit: "sum_amounts (map reservation claims) \<le> unat n" and len: "length all = length claims"
  shows "balanced (unat n) \<lparr> sl_heap = first_candidates claims all, sl_free = saturating_sub n (amount_sum (map reservation claims)),
       sl_achieved = 0, sl_unmet = 0, sl_targets = map reservation claims \<rparr>"
proof -
  have "unat n < 2 ^ 64" using unsigned_less [of n] by simp
  then have "unat (amount_sum (map reservation claims)) = sum_amounts (map reservation claims)"
    using fit by (simp add: amount_sum_fits_less sum_amounts_def)
  then show ?thesis
    using fit first_candidates_slots(1) [OF _ len] by (auto simp: balanced_def unat_saturating_sub)
qed

lemma solve_fills:
  assumes sol: "solve n claims shape = Inr sol" and fit: "sum_amounts (map reservation claims) \<le> unat n"
  shows "sum_amounts (so_targets sol) + unat (so_unallocated sol) = unat n \<and> length (so_targets sol) = length claims"
proof -
  obtain all where len: "length all = length claims"
    and loop: "solve_loop all \<lparr> sl_heap = first_candidates claims all, sl_free = saturating_sub n (amount_sum (map reservation claims)),
       sl_achieved = 0, sl_unmet = 0, sl_targets = map reservation claims \<rparr> = Inr sol" (is "solve_loop all ?st = _")
    using solve_Ok [OF sol] by metis
  have n: "unat n < 2 ^ 64" using unsigned_less [of n] by simp
  have "balanced (unat n) ?st \<and> length (sl_targets ?st) = length claims"
    using balanced_start [OF fit len] by simp
  then obtain st where "balanced (unat n) st \<and> length (sl_targets st) = length claims"
      "so_targets sol = sl_targets st" "so_unallocated sol = sl_free st"
    by (rule solve_loop_end [OF loop, where P = "\<lambda>st. balanced (unat n) st \<and> length (sl_targets st) = length claims"])
      (auto intro: balanced_step [OF _ n] simp: solve_step_length)
  then show ?thesis by (simp add: balanced_def)
qed

section \<open>The price clears\<close>

lemma f64_le_zero: "f64_le v 0 \<longleftrightarrow> \<not> f64_is_nan v \<and> total_key v \<le> 0"
proof -
  have "f64_key 0 = 0" "\<not> f64_is_nan 0"
    by (simp_all add: f64_key_def f64_mag_def f64_neg_bit_def f64_is_nan_def)
  moreover have "f64_key v \<le> 0 \<longleftrightarrow> total_key v \<le> 0"
    using f64_mag_nonneg [of v] unfolding f64_key_def total_key_def by (cases "f64_neg_bit v"; simp; linarith?)
  ultimately show ?thesis by (simp add: f64_le_def)
qed

lemma total_key_zero [simp]: "total_key 0 = 0"
  by (simp add: total_key_def f64_mag_def f64_neg_bit_def)

lemma total_key_note_unmet: "total_key (note_unmet u v) = max (total_key u) (total_key v)"
  by (simp add: note_unmet_def value_gt_def max_def)

text \<open>The units of the first blocks of a claim, and what a target covers past the reservation.\<close>

definition first_units :: "increment list \<Rightarrow> nat \<Rightarrow> nat" where
  "first_units bs j = sum_list (map (\<lambda>b. unat (in_width b)) (take j bs))"

definition covered :: "amount list \<Rightarrow> amount list \<Rightarrow> nat \<Rightarrow> nat" where
  "covered res targets s = unat (targets ! s) - unat (res ! s)"

lemma first_units_0 [simp]: "first_units bs 0 = 0"
  by (simp add: first_units_def)

lemma first_units_Suc: "j < length bs \<Longrightarrow> first_units bs (Suc j) = first_units bs j + unat (in_width (bs ! j))"
  by (simp add: first_units_def take_Suc_conv_app_nth)

lemma first_units_mono: "i \<le> j \<Longrightarrow> first_units bs i \<le> first_units bs j"
proof -
  assume "i \<le> j"
  then obtain k where "j = i + k" by (metis le_Suc_ex)
  then show ?thesis by (simp add: first_units_def take_add)
qed

definition falling :: "increment list \<Rightarrow> bool" where
  "falling bs \<longleftrightarrow> (\<forall>i j. i \<le> j \<and> j < length bs \<longrightarrow> total_key (in_per_unit (bs ! j)) \<le> total_key (in_per_unit (bs ! i)))"

definition divisible_all :: "increment list list \<Rightarrow> bool" where
  "divisible_all all \<longleftrightarrow> (\<forall>bs \<in> set all. falling bs \<and> (\<forall>b \<in> set bs. in_divisible b \<and> \<not> f64_is_nan (in_per_unit b)))"

text \<open>
  The invariant of the loop: the heap holds the next block of a claim that is covered up to
  it, the blocks of the other claims are covered or worth no more than the unmet value, and
  what is granted is worth at least everything that waits.
\<close>

definition price_inv :: "increment list list \<Rightarrow> amount list \<Rightarrow> solve_state \<Rightarrow> bool" where
  "price_inv all res st \<longleftrightarrow>
     length (sl_targets st) = length all \<and> distinct (map cd_slot (sl_heap st)) \<and>
     (\<forall>c \<in> set (sl_heap st). cd_slot c < length all \<and> cd_index c < length (all ! cd_slot c) \<and>
        cd_block c = all ! cd_slot c ! cd_index c \<and> cd_per_unit c = in_per_unit (cd_block c) \<and>
        covered res (sl_targets st) (cd_slot c) = first_units (all ! cd_slot c) (cd_index c)) \<and>
     (\<forall>s < length all. unat (res ! s) \<le> unat (sl_targets st ! s)) \<and>
     (\<forall>s < length all. s \<notin> cd_slot ` set (sl_heap st) \<longrightarrow>
        (\<forall>j < length (all ! s). covered res (sl_targets st) s < first_units (all ! s) (Suc j) \<longrightarrow>
           total_key (in_per_unit (all ! s ! j)) \<le> total_key (sl_unmet st))) \<and>
     (\<forall>s < length all. \<forall>j < length (all ! s). first_units (all ! s) j < covered res (sl_targets st) s \<longrightarrow>
        (\<forall>c \<in> set (sl_heap st). total_key (cd_per_unit c) \<le> total_key (in_per_unit (all ! s ! j))) \<and>
        total_key (sl_unmet st) \<le> total_key (in_per_unit (all ! s ! j))) \<and>
     (sl_free st \<noteq> 0 \<longrightarrow> sl_unmet st = 0) \<and> 0 \<le> total_key (sl_unmet st)"

lemma price_invD:
  assumes "price_inv all res st"
  shows "length (sl_targets st) = length all" "distinct (map cd_slot (sl_heap st))"
    "c \<in> set (sl_heap st) \<Longrightarrow> cd_slot c < length all \<and> cd_index c < length (all ! cd_slot c) \<and>
       cd_block c = all ! cd_slot c ! cd_index c \<and> cd_per_unit c = in_per_unit (cd_block c) \<and>
       covered res (sl_targets st) (cd_slot c) = first_units (all ! cd_slot c) (cd_index c)"
    "s < length all \<Longrightarrow> unat (res ! s) \<le> unat (sl_targets st ! s)"
    "s < length all \<Longrightarrow> s \<notin> cd_slot ` set (sl_heap st) \<Longrightarrow> j < length (all ! s) \<Longrightarrow>
       covered res (sl_targets st) s < first_units (all ! s) (Suc j) \<Longrightarrow> total_key (in_per_unit (all ! s ! j)) \<le> total_key (sl_unmet st)"
    "s < length all \<Longrightarrow> j < length (all ! s) \<Longrightarrow> first_units (all ! s) j < covered res (sl_targets st) s \<Longrightarrow>
       c \<in> set (sl_heap st) \<Longrightarrow> total_key (cd_per_unit c) \<le> total_key (in_per_unit (all ! s ! j))"
    "s < length all \<Longrightarrow> j < length (all ! s) \<Longrightarrow> first_units (all ! s) j < covered res (sl_targets st) s \<Longrightarrow>
       total_key (sl_unmet st) \<le> total_key (in_per_unit (all ! s ! j))"
    "sl_free st \<noteq> 0 \<Longrightarrow> sl_unmet st = 0" "0 \<le> total_key (sl_unmet st)"
  using assms unfolding price_inv_def by blast+

text \<open>The next block of the heap, and what granting \<open>a\<close> units of it does.\<close>

lemma price_pop:
  assumes inv: "price_inv all res st" and div: "divisible_all all" and pop: "heap_pop (sl_heap st) = Some (nx, heap)"
  shows "cd_slot nx < length all" "cd_index nx < length (all ! cd_slot nx)" "cd_block nx = all ! cd_slot nx ! cd_index nx"
    "cd_per_unit nx = in_per_unit (cd_block nx)" "covered res (sl_targets st) (cd_slot nx) = first_units (all ! cd_slot nx) (cd_index nx)"
    "set heap \<subseteq> set (sl_heap st)" "cd_slot nx \<notin> cd_slot ` set heap" "distinct (map cd_slot heap)"
    "cd_slot ` set (sl_heap st) = insert (cd_slot nx) (cd_slot ` set heap)"
    "\<forall>c \<in> set (sl_heap st). total_key (cd_per_unit c) \<le> total_key (cd_per_unit nx)"
    "in_divisible (cd_block nx)" "\<not> f64_is_nan (cd_per_unit nx)" "falling (all ! cd_slot nx)"
proof -
  note p = heap_pop_Some [OF pop]
  show a: "cd_slot nx < length all" "cd_index nx < length (all ! cd_slot nx)" "cd_block nx = all ! cd_slot nx ! cd_index nx"
    "cd_per_unit nx = in_per_unit (cd_block nx)" "covered res (sl_targets st) (cd_slot nx) = first_units (all ! cd_slot nx) (cd_index nx)"
    using inv p(1) by (auto simp: price_inv_def)
  have "all ! cd_slot nx \<in> set all" "cd_block nx \<in> set (all ! cd_slot nx)"
    using nth_mem [OF a(1)] nth_mem [OF a(2)] a(3) by simp_all
  then show "in_divisible (cd_block nx)" "\<not> f64_is_nan (cd_per_unit nx)" "falling (all ! cd_slot nx)"
    using div a(4) by (auto simp: divisible_all_def)
  show "\<forall>c \<in> set (sl_heap st). total_key (cd_per_unit c) \<le> total_key (cd_per_unit nx)"
    using p(3) by (auto simp: candidate_key_def less_eq_prod_def)
  have d: "distinct (map cd_slot (sl_heap st))" using inv by (simp add: price_inv_def)
  obtain xs ys where h: "sl_heap st = xs @ nx # ys" "nx \<notin> set xs"
    using split_list_first [OF p(1)] by blast
  then have heap: "heap = xs @ ys" using p(2) by (simp add: remove1_append)
  show "set heap \<subseteq> set (sl_heap st)" "cd_slot nx \<notin> cd_slot ` set heap" "distinct (map cd_slot heap)"
    "cd_slot ` set (sl_heap st) = insert (cd_slot nx) (cd_slot ` set heap)"
    using d by (auto simp: h(1) heap)
qed

lemma price_grant:
  assumes inv: "price_inv all res st" and div: "divisible_all all" and pop: "heap_pop (sl_heap st) = Some (nx, heap)"
    and bal: "sum_amounts (sl_targets st) + unat a \<le> 2 ^ 64 - 1" and a: "a \<le> in_width (cd_block nx)"
  defines "T \<equiv> (sl_targets st)[cd_slot nx := saturating_add (sl_targets st ! cd_slot nx) a]"
  shows "covered res T (cd_slot nx) = first_units (all ! cd_slot nx) (cd_index nx) + unat a"
    "\<forall>s. s \<noteq> cd_slot nx \<longrightarrow> covered res T s = covered res (sl_targets st) s"
    "\<forall>s < length all. unat (res ! s) \<le> unat (T ! s)" "length T = length all"
    "\<forall>s < length all. \<forall>j < length (all ! s). first_units (all ! s) j < covered res T s \<longrightarrow>
       total_key (cd_per_unit nx) \<le> total_key (in_per_unit (all ! s ! j))"
proof -
  let ?s = "cd_slot nx" and ?k = "cd_index nx"
  note p = price_pop [OF inv div pop]
  have len: "length (sl_targets st) = length all" using inv by (simp add: price_inv_def)
  then show "length T = length all" by (simp add: T_def)
  have slot: "?s < length (sl_targets st)" using p(1) len by simp
  have low: "unat (res ! s) \<le> unat (sl_targets st ! s)" if "s < length all" for s
    using inv that by (simp add: price_inv_def)
  have T: "unat (T ! ?s) = unat (sl_targets st ! ?s) + unat a"
    using sum_amounts_update(1) [OF slot bal] slot by (simp add: T_def)
  then show cov: "covered res T ?s = first_units (all ! ?s) ?k + unat a"
    using p(5) low [OF p(1)] by (simp add: covered_def)
  show other: "\<forall>s. s \<noteq> ?s \<longrightarrow> covered res T s = covered res (sl_targets st) s"
    by (simp add: covered_def T_def)
  show "\<forall>s < length all. unat (res ! s) \<le> unat (T ! s)"
  proof (intro allI impI)
    fix s assume "s < length all"
    then show "unat (res ! s) \<le> unat (T ! s)"
      using low [of s] T by (cases "s = ?s") (simp_all add: T_def)
  qed
  show "\<forall>s < length all. \<forall>j < length (all ! s). first_units (all ! s) j < covered res T s \<longrightarrow>
      total_key (cd_per_unit nx) \<le> total_key (in_per_unit (all ! s ! j))"
  proof (intro allI impI)
    fix s j assume sj: "s < length all" "j < length (all ! s)" "first_units (all ! s) j < covered res T s"
    show "total_key (cd_per_unit nx) \<le> total_key (in_per_unit (all ! s ! j))"
    proof (cases "s = ?s")
      case True
      have "first_units (all ! ?s) j < first_units (all ! ?s) (Suc ?k)"
        using sj(3) True cov a p(3) by (simp add: first_units_Suc [OF p(2)] word_le_nat_alt)
      then have "j \<le> ?k"
        using first_units_mono [of "Suc ?k" j "all ! ?s"] by (meson not_less_eq_eq leD)
      then show ?thesis using p(2-4,13) True by (simp add: falling_def)
    next
      case False
      then have "first_units (all ! s) j < covered res (sl_targets st) s" using sj(3) other by simp
      then show ?thesis
        using price_invD(6) [OF inv sj(1,2)] heap_pop_Some(1) [OF pop] by blast
    qed
  qed
qed

text \<open>
  The state after a grant: the candidate is gone or replaced by the next block of its claim
  (\<open>extra\<close>).
\<close>

lemma price_moved:
  assumes inv: "price_inv all res st" and div: "divisible_all all" and pop: "heap_pop (sl_heap st) = Some (nx, heap)"
    and bal: "sum_amounts (sl_targets st) + unat a \<le> 2 ^ 64 - 1" and a: "a \<le> in_width (cd_block nx)"
    and T: "sl_targets st' = (sl_targets st)[cd_slot nx := saturating_add (sl_targets st ! cd_slot nx) a]"
    and heap': "sl_heap st' = extra @ heap" "length extra \<le> 1"
    and extra: "\<forall>c \<in> set extra. cd_slot c = cd_slot nx \<and> cd_index c = Suc (cd_index nx) \<and> Suc (cd_index nx) < length (all ! cd_slot nx) \<and>
      cd_block c = all ! cd_slot nx ! Suc (cd_index nx) \<and> cd_per_unit c = in_per_unit (cd_block c) \<and> a = in_width (cd_block nx)"
    and unmet: "sl_unmet st = 0" "total_key (sl_unmet st') \<le> total_key (cd_per_unit nx)" "0 \<le> total_key (sl_unmet st')"
      "sl_free st' \<noteq> 0 \<longrightarrow> sl_unmet st' = 0"
    and rest: "extra = [] \<longrightarrow> (\<forall>j < length (all ! cd_slot nx). first_units (all ! cd_slot nx) (cd_index nx) + unat a < first_units (all ! cd_slot nx) (Suc j) \<longrightarrow>
      total_key (in_per_unit (all ! cd_slot nx ! j)) \<le> total_key (sl_unmet st'))"
  shows "price_inv all res st'"
proof -
  let ?s = "cd_slot nx" and ?k = "cd_index nx" and ?v = "total_key (cd_per_unit nx)"
  note p = price_pop [OF inv div pop]
  note g = price_grant [OF inv div pop bal a, folded T]
  have new: "cd_slot c < length all \<and> cd_index c < length (all ! cd_slot c) \<and> cd_block c = all ! cd_slot c ! cd_index c \<and>
      cd_per_unit c = in_per_unit (cd_block c) \<and>
      covered res (sl_targets st') (cd_slot c) = first_units (all ! cd_slot c) (cd_index c) \<and> total_key (cd_per_unit c) \<le> ?v"
    if "c \<in> set (extra @ heap)" for c
  proof (cases "c \<in> set extra")
    case True
    then show ?thesis
      using extra p(1-4,13) g(1) by (auto simp: first_units_Suc [OF p(2)] falling_def)
  next
    case False
    then have "c \<in> set heap" using that by simp
    moreover from this have "cd_slot c \<noteq> ?s" using p(7) imageI by metis
    ultimately show ?thesis
      using price_invD(3) [OF inv, of c] p(6,10) g(2) by auto
  qed
  have refused: "total_key (in_per_unit (all ! s ! j)) \<le> total_key (sl_unmet st')"
    if "s < length all" "s \<notin> cd_slot ` set (extra @ heap)" "j < length (all ! s)"
      "covered res (sl_targets st') s < first_units (all ! s) (Suc j)" for s j
  proof (cases "s = ?s")
    case True
    have "extra = []"
    proof (cases extra)
      case (Cons c cs)
      then have "cd_slot c = ?s" using extra by simp
      then show ?thesis using Cons that(2) True by simp
    qed
    then show ?thesis using True that(3,4) rest g(1) by simp
  next
    case False
    then have "s \<notin> cd_slot ` set (sl_heap st)" "covered res (sl_targets st) s < first_units (all ! s) (Suc j)"
      using that(2,4) p(9) g(2) by auto
    then have "total_key (in_per_unit (all ! s ! j)) \<le> total_key (sl_unmet st)"
      using price_invD(5) [OF inv that(1) _ that(3)] by blast
    then show ?thesis using unmet(1,3) by simp
  qed
  have dist: "distinct (map cd_slot (extra @ heap))"
  proof (cases extra)
    case (Cons c cs)
    then have "cs = []" "cd_slot c = ?s" using heap'(2) extra by simp_all
    then show ?thesis using Cons p(7,8) by simp
  qed (use p(8) in simp)
  have granted: "w \<le> total_key (in_per_unit (all ! s ! j))"
    if "s < length all" "j < length (all ! s)" "first_units (all ! s) j < covered res (sl_targets st') s" "w \<le> ?v" for s j w
    using g(5) that by (meson order_trans)
  show ?thesis
    unfolding price_inv_def heap'(1)
  proof (intro conjI ballI allI impI)
    show "total_key (cd_per_unit c) \<le> total_key (in_per_unit (all ! s ! j))"
      if "s < length all" "j < length (all ! s)" "first_units (all ! s) j < covered res (sl_targets st') s"
        "c \<in> set (extra @ heap)" for s j c
      by (rule granted [OF that(1-3)]) (use new [OF that(4)] in blast)
    show "total_key (sl_unmet st') \<le> total_key (in_per_unit (all ! s ! j))"
      if "s < length all" "j < length (all ! s)" "first_units (all ! s) j < covered res (sl_targets st') s" for s j
      by (rule granted [OF that unmet(2)])
  qed (use dist g(3,4) new refused unmet(3,4) in \<open>simp_all only: simp_thms\<close>)
qed

lemma price_step:
  assumes inv: "price_inv all res st" and div: "divisible_all all" and bal: "balanced n st" "n < 2 ^ 64"
    and step: "solve_step all st = SN_More st'"
  shows "price_inv all res st'"
proof -
  have len: "length (sl_targets st) = length all" and low: "sl_free st \<noteq> 0 \<Longrightarrow> sl_unmet st = 0"
    using inv by (simp_all add: price_inv_def)
  have fit: "sum_amounts (sl_targets st) + unat a \<le> 2 ^ 64 - 1" if "a \<le> sl_free st" for a
    using bal that by (simp add: balanced_def word_le_nat_alt)
  from step show ?thesis
  proof (cases rule: solve_step_cases)
    case (skip nx heap)
    then show ?thesis using price_pop(11) [OF inv div skip(1)] by simp
  next
    case (part nx heap)
    note p = price_pop [OF inv div part(1)]
    have pos: "0 < total_key (cd_per_unit nx)" using part(2) p(12) by (simp add: f64_le_zero not_le)
    then have u: "total_key (sl_unmet st') = total_key (cd_per_unit nx)"
      using part(8) low [OF part(3)] by (simp add: total_key_note_unmet)
    have later: "total_key (in_per_unit (all ! cd_slot nx ! j)) \<le> total_key (cd_per_unit nx)"
      if "j < length (all ! cd_slot nx)" "first_units (all ! cd_slot nx) (cd_index nx) + x < first_units (all ! cd_slot nx) (Suc j)" for j x
    proof -
      have "cd_index nx \<le> j"
        using first_units_mono [of "Suc j" "cd_index nx" "all ! cd_slot nx"] that(2) by (meson add_lessD1 not_less_eq_eq leD)
      then show ?thesis using p(3,4,13) that(1) by (simp add: falling_def)
    qed
    show ?thesis
      by (rule price_moved [OF inv div part(1) fit [OF order_refl] less_imp_le [OF part(4)], where extra = "[]"])
        (use part p(1) len low pos u later in auto)
  next
    case (whole nx heap)
    note p = price_pop [OF inv div whole(1)]
    have pos: "0 < total_key (cd_per_unit nx)" using whole(2) p(12) by (simp add: f64_le_zero not_le)
    define extra where "extra = (case block_at all (cd_slot nx) (cd_index nx + 1) of None \<Rightarrow> []
      | Some b \<Rightarrow> [nx\<lparr> cd_index := cd_index nx + 1, cd_per_unit := in_per_unit b, cd_block := b \<rparr>])"
    have full: "first_units (all ! cd_slot nx) (Suc j) \<le> first_units (all ! cd_slot nx) (Suc (cd_index nx))"
      if "extra = []" "j < length (all ! cd_slot nx)" for j
      using that p(1) by (intro first_units_mono) (auto simp: extra_def block_at_def split: if_splits option.splits)
    have zero: "sl_unmet st = 0" "sl_unmet st' = 0" using low [OF whole(3)] whole(6) by simp_all
    have heap': "sl_heap st' = extra @ heap" using whole(7) by (auto simp: extra_def split: option.splits)
    show ?thesis
    proof (rule price_moved [OF inv div whole(1) fit [OF whole(4)] order_refl _ heap'])
      show "sl_targets st' = (sl_targets st)[cd_slot nx := saturating_add (sl_targets st ! cd_slot nx) (in_width (cd_block nx))]"
        using whole(8) p(1) len by simp
      show "length extra \<le> 1" by (simp add: extra_def split: option.splits)
      show "\<forall>c \<in> set extra. cd_slot c = cd_slot nx \<and> cd_index c = Suc (cd_index nx) \<and> Suc (cd_index nx) < length (all ! cd_slot nx) \<and>
          cd_block c = all ! cd_slot nx ! Suc (cd_index nx) \<and> cd_per_unit c = in_per_unit (cd_block c) \<and>
          in_width (cd_block nx) = in_width (cd_block nx)"
        by (auto simp: extra_def block_at_def split: if_splits option.splits)
      show "extra = [] \<longrightarrow> (\<forall>j < length (all ! cd_slot nx). first_units (all ! cd_slot nx) (cd_index nx) + unat (in_width (cd_block nx)) <
            first_units (all ! cd_slot nx) (Suc j) \<longrightarrow> total_key (in_per_unit (all ! cd_slot nx ! j)) \<le> total_key (sl_unmet st'))"
        using full p(3) by (simp add: first_units_Suc [OF p(2)] leD)
    qed (use zero pos in simp_all)
  qed
qed

text \<open>The loop starts in the invariant and ends with a price that separates.\<close>

lemma first_candidates_map:
  assumes "length all = length claims"
  shows "map cd_slot (first_candidates claims all) = filter (\<lambda>s. all ! s \<noteq> []) [0..<length claims]"
proof -
  let ?f = "\<lambda>(slot, c, bs). case bs of [] \<Rightarrow> []
    | b # _ \<Rightarrow> [\<lparr> cd_per_unit = in_per_unit b, cd_claim = fc_id c, cd_slot = slot, cd_index = 0, cd_block = b \<rparr>]"
  have "map cd_slot (concat (map ?f xs)) = map fst (filter (\<lambda>(s, c, bs). bs \<noteq> []) xs)" for xs :: "(nat \<times> claim \<times> increment list) list"
    by (induction xs) (auto split: list.splits)
  moreover have "zip [0..<length claims] (zip claims all) = map (\<lambda>s. (s, claims ! s, all ! s)) [0..<length claims]"
    using assms by (intro nth_equalityI) simp_all
  ultimately have "map cd_slot (first_candidates claims all) =
      map fst (filter (\<lambda>(s, c, bs). bs \<noteq> []) (map (\<lambda>s. (s, claims ! s, all ! s)) [0..<length claims]))"
    unfolding first_candidates_def by (simp only:)
  also have "\<dots> = filter (\<lambda>s. all ! s \<noteq> []) [0..<length claims]"
    by (simp add: filter_map comp_def)
  finally show ?thesis .
qed

lemma price_start:
  assumes "length all = length claims"
  shows "price_inv all (map reservation claims) \<lparr> sl_heap = first_candidates claims all, sl_free = f,
    sl_achieved = 0, sl_unmet = 0, sl_targets = map reservation claims \<rparr>"
proof -
  note m = first_candidates_map [OF assms]
  have "distinct (map cd_slot (first_candidates claims all))" unfolding m by simp
  moreover have slots: "cd_slot ` set (first_candidates claims all) = {s. s < length all \<and> all ! s \<noteq> []}"
    using arg_cong [OF m, of set] assms by auto
  moreover have none: "covered (map reservation claims) (map reservation claims) s = 0" for s
    by (simp add: covered_def)
  moreover note first_candidates_slots [OF _ assms]
  ultimately show ?thesis
    unfolding price_inv_def by (auto simp: assms)
qed

lemma price_end:
  assumes inv: "price_inv all res st" and div: "divisible_all all" and fin: "solve_step all st = SN_Done price"
    and s: "s < length all" and j: "j < length (all ! s)"
  shows "first_units (all ! s) j < covered res (sl_targets st) s \<Longrightarrow> total_key price \<le> total_key (in_per_unit (all ! s ! j))"
    "covered res (sl_targets st) s < first_units (all ! s) (Suc j) \<Longrightarrow> total_key (in_per_unit (all ! s ! j)) \<le> total_key price"
    "price \<noteq> 0 \<Longrightarrow> sl_free st = 0"
proof -
  have done_cases: "price = sl_unmet st \<and> (\<forall>c \<in> set (sl_heap st). total_key (cd_per_unit c) \<le> total_key price) \<or>
      sl_free st = 0 \<and> (\<exists>nx \<in> set (sl_heap st). total_key price = max (total_key (sl_unmet st)) (total_key (cd_per_unit nx)) \<and>
        (\<forall>c \<in> set (sl_heap st). total_key (cd_per_unit c) \<le> total_key (cd_per_unit nx)))"
  proof (cases "heap_pop (sl_heap st)")
    case None
    then have "sl_heap st = []" by (cases "sl_heap st") (auto simp: Let_def)
    then show ?thesis using fin None by (simp add: solve_step_def)
  next
    case (Some q)
    then obtain nx heap where p: "heap_pop (sl_heap st) = Some (nx, heap)" by (cases q) auto
    note nx = price_pop [OF inv div p]
    show ?thesis
    proof (cases "f64_le (cd_per_unit nx) 0")
      case True
      then have "total_key (cd_per_unit nx) \<le> 0" "price = sl_unmet st"
        using fin p by (simp_all add: f64_le_zero solve_step_def Let_def)
      then show ?thesis using nx(10) price_invD(9) [OF inv] by force
    next
      case False
      then have "sl_free st = 0" "price = note_unmet (sl_unmet st) (cd_per_unit nx)"
        using fin p by (auto simp: solve_step_def Let_def split: if_splits sum.splits)
      then show ?thesis using nx(10) heap_pop_Some(1) [OF p] by (auto simp: total_key_note_unmet)
    qed
  qed
  then have up: "total_key (sl_unmet st) \<le> total_key price" "\<forall>c \<in> set (sl_heap st). total_key (cd_per_unit c) \<le> total_key price"
    by force+
  show "total_key price \<le> total_key (in_per_unit (all ! s ! j))" if "first_units (all ! s) j < covered res (sl_targets st) s"
    using done_cases price_invD(6,7) [OF inv s j that] by auto
  show "price \<noteq> 0 \<Longrightarrow> sl_free st = 0"
    using done_cases price_invD(8) [OF inv] by blast
  show "total_key (in_per_unit (all ! s ! j)) \<le> total_key price" if r: "covered res (sl_targets st) s < first_units (all ! s) (Suc j)"
  proof (cases "s \<in> cd_slot ` set (sl_heap st)")
    case True
    then obtain c where c: "c \<in> set (sl_heap st)" "cd_slot c = s" by blast
    note h = price_invD(3) [OF inv c(1), unfolded c(2)]
    then have "cd_index c \<le> j"
      using r first_units_mono [of "Suc j" "cd_index c" "all ! s"] by (metis not_less_eq_eq leD)
    moreover have "falling (all ! s)" using div nth_mem [OF s] by (simp add: divisible_all_def)
    ultimately have "total_key (in_per_unit (all ! s ! j)) \<le> total_key (cd_per_unit c)"
      using h j by (simp add: falling_def)
    then show ?thesis using up(2) c(1) by force
  next
    case False
    then show ?thesis using price_invD(5) [OF inv s False j r] up(1) by simp
  qed
qed

section \<open>From the claims\<close>

text \<open>Claims the code admits, whose increments the shape lets the solver split.\<close>

definition splittable :: "shape \<Rightarrow> claim \<Rightarrow> bool" where
  "splittable shape c \<longleftrightarrow>
     validate_claim c = Inr () \<and> (case fc_floor c of FL_Optional a \<Rightarrow> a = 0 | _ \<Rightarrow> True) \<and>
     (\<forall>i \<in> set (fc_increments c). f64_is_finite (in_per_unit i) \<and> (in_divisible i \<or> shape = SH_Relaxed))"

lemma validate_falling:
  assumes "validate_increments at prev is = Inr ()"
  shows "falling is"
proof -
  have "sorted_wrt (\<lambda>a b. total_key (in_per_unit b) \<le> total_key (in_per_unit a)) is \<and>
      (\<forall>p i. prev = Some p \<and> i \<in> set is \<longrightarrow> total_key (in_per_unit i) \<le> total_key p)"
    using assms
    by (induction at prev "is" rule: validate_increments.induct)
      (force simp: value_gt_def not_less is_some_and_def split: if_splits option.splits)+
  then show ?thesis
    unfolding falling_def by (metis order_refl le_neq_implies_less sorted_wrt_nth_less)
qed

lemma finite_not_nan: "f64_is_finite v \<Longrightarrow> \<not> f64_is_nan v"
  by (simp add: f64_is_finite_def f64_is_nan_def)

lemma relax_nth:
  assumes "j < length bs"
  shows "in_per_unit (relax_blocks shape bs ! j) = in_per_unit (bs ! j)"
  using assms by (simp add: relax_blocks_def split: shape.splits)

lemma relax_length [simp]: "length (relax_blocks shape bs) = length bs"
  by (simp add: relax_blocks_def split: shape.splits)

lemma relax_units [simp]: "first_units (relax_blocks shape bs) j = first_units bs j"
  by (simp add: relax_blocks_def first_units_def take_map comp_def split: shape.splits)

lemma splittable_blocks:
  assumes "\<forall>c \<in> set claims. splittable shape c"
  shows "collect_blocks shape claims = Inr (map (\<lambda>c. relax_blocks shape (fc_increments c)) claims)"
    "divisible_all (map (\<lambda>c. relax_blocks shape (fc_increments c)) claims)"
proof -
  have "blocks c = Inr (fc_increments c)" if "splittable shape c" for c
    using that by (auto simp: splittable_def blocks_def split: floor.splits)
  then show "collect_blocks shape claims = Inr (map (\<lambda>c. relax_blocks shape (fc_increments c)) claims)"
    using assms by (induction claims) auto
  have "falling (relax_blocks shape (fc_increments c))" if "splittable shape c" for c
  proof -
    have "falling (fc_increments c)"
      using that by (auto simp: splittable_def validate_claim_def split: if_splits intro: validate_falling)
    then show ?thesis by (simp add: falling_def relax_nth)
  qed
  moreover have "in_divisible b \<and> \<not> f64_is_nan (in_per_unit b)"
    if "splittable shape c" "b \<in> set (relax_blocks shape (fc_increments c))" for b c
    using that by (auto simp: splittable_def relax_blocks_def finite_not_nan split: shape.splits)
  ultimately show "divisible_all (map (\<lambda>c. relax_blocks shape (fc_increments c)) claims)"
    using assms by (auto simp: divisible_all_def)
qed

text \<open>
  C11. The clearing price. Where the admitted claims can be split, the price the solver
  returns separates what is granted from what is refused: an increment of which any unit is
  granted is worth at least the price, an increment of which any unit is refused is worth at
  most the price, and a price other than zero means that nothing is left over. The targets
  and what is left over make up the capacity exactly.
\<close>

theorem cleared_by_price:
  assumes "solve n claims shape = Inr sol" "\<forall>c \<in> set claims. splittable shape c"
    and "sum_list (map (\<lambda>c. unat (reservation c)) claims) \<le> unat n"
    and "s < length claims" "j < length (fc_increments (claims ! s))"
  defines "incs \<equiv> fc_increments (claims ! s)"
    and "bought \<equiv> unat (so_targets sol ! s) - unat (reservation (claims ! s))"
  shows "(first_units incs j < bought \<longrightarrow> total_key (so_price sol) \<le> total_key (in_per_unit (incs ! j))) \<and>
    (bought < first_units incs (Suc j) \<longrightarrow> total_key (in_per_unit (incs ! j)) \<le> total_key (so_price sol)) \<and>
    (so_price sol \<noteq> 0 \<longrightarrow> so_unallocated sol = 0) \<and>
    sum_list (map unat (so_targets sol)) + unat (so_unallocated sol) = unat n"
proof -
  define all where "all = map (\<lambda>c. relax_blocks shape (fc_increments c)) claims"
  note sp = splittable_blocks [OF assms(2), folded all_def]
  have len: "length all = length claims" by (simp add: all_def)
  have fit: "sum_amounts (map reservation claims) \<le> unat n" using assms(3) by (simp add: sum_amounts_def comp_def)
  let ?st = "\<lparr> sl_heap = first_candidates claims all, sl_free = saturating_sub n (amount_sum (map reservation claims)),
       sl_achieved = 0, sl_unmet = 0, sl_targets = map reservation claims \<rparr>"
  have loop: "solve_loop all ?st = Inr sol" using assms(1) sp(1) by (simp add: solve_def Let_def)
  have n: "unat n < 2 ^ 64" using unsigned_less [of n] by simp
  have "price_inv all (map reservation claims) ?st \<and> balanced (unat n) ?st"
    using price_start [OF len] balanced_start [OF fit len] by blast
  then obtain st where st: "price_inv all (map reservation claims) st" "solve_step all st = SN_Done (so_price sol)"
      "so_targets sol = sl_targets st" "so_unallocated sol = sl_free st"
    by (rule solve_loop_end [OF loop, where P = "\<lambda>st. price_inv all (map reservation claims) st \<and> balanced (unat n) st"])
      (auto intro: price_step [OF _ sp(2) _ n] balanced_step [OF _ n])
  have s: "s < length all" and j: "j < length (all ! s)" using assms(4,5) by (simp_all add: all_def)
  have "covered (map reservation claims) (sl_targets st) s = bought" "first_units (all ! s) = first_units incs"
    "in_per_unit (all ! s ! j) = in_per_unit (incs ! j)"
    using assms(4,5) st(3) by (simp_all add: covered_def bought_def incs_def all_def relax_nth fun_eq_iff)
  then show ?thesis
    using price_end [OF st(1) sp(2) st(2) s j] solve_fills [OF assms(1) fit] st(4) by (simp add: sum_amounts_def)
qed

text \<open>Three claims over a capacity of three: 0.1, 0.1 and 0.4 per unit.\<close>

definition demo_unit :: "uuid \<Rightarrow> f64 \<Rightarrow> claim" where
  "demo_unit i v = demo_claim i FL_None [\<lparr> in_width = 1, in_per_unit = v, in_divisible = True \<rparr>]"

definition demo_three :: "claim list" where
  "demo_three = [demo_unit 1 0x3fb999999999999a, demo_unit 2 0x3fb999999999999a, demo_unit 3 0x3fd999999999999a]"

lemma demo_three_solved:
  "solve 2 demo_three SH_AsClaimed =
     Inr \<lparr> so_targets = [1, 0, 1], so_price = 0x3fb999999999999a, so_unallocated = 0, so_achieved = 0x3fe0000000000000 \<rparr>"
  by code_simp

lemma demo_three_splittable: "\<forall>c \<in> set demo_three. splittable SH_AsClaimed c"
  by code_simp

theorem cleared_by_price_witness:
  "total_key 0x3fb999999999999a \<le> total_key (in_per_unit (fc_increments (demo_three ! 2) ! 0))"
  using cleared_by_price [OF demo_three_solved demo_three_splittable, of 2 0]
  by (simp add: demo_three_def demo_unit_def demo_claim_def reservation_def)

text \<open>
  The upper bound can lie below what is achieved. The achieved value adds up the values
  of the claims in their order, and the bound adds up the values of the blocks in the order
  in which the relaxed clearing grants them, both in \<open>f64\<close>: with three claims of 0.1, 0.1
  and 0.4 per unit and room for all of them the two sums round differently, and the bound
  that is published is the smaller one.
\<close>

theorem upper_bound_below_achieved:
  "case tier_clear tier_new (CP_Measured 3 PV_Unmeasured) demo_three of
     (cg, t) \<Rightarrow> f64_less (cg_upper_bound cg) (cg_achieved cg)"
  by code_simp

end
