(* ===== verification/Lib_Route.thy ===== *)
theory Lib_Route
  imports Core_Transcript "HOL-Library.AList"
begin

text \<open>
  Choosing a transport (\<open>airc-lib/src/route/policy.rs\<close>, \<open>health.rs\<close>, \<open>resolver.rs\<close>,
  \<open>execution.rs\<close> and the resolution of a send in \<open>messaging.rs\<close>). Health samples become
  candidates, the policy filters and ranks them, and the route that is chosen is executed on
  an adapter or refused.
\<close>

section \<open>Policy\<close>

datatype route_class =
    RC_InviteAdvertise
  | RC_PeerRendezvous
  | RC_ControlInteractive
  | RC_DataInteractive
  | RC_DataBulk
  | RC_MediaSignaling
  | RC_PresenceEphemeral

datatype transport_kind =
    TK_LanTcp
  | TK_Tailscale
  | TK_Udp
  | TK_WebRtcDataChannel
  | TK_Reticulum
  | TK_Relay
  | TK_Ssh
  | TK_GhGist

datatype transport_role = TR_Direct | TR_Relay | TR_InviteBeacon | TR_Rendezvous | TR_Admin

record transport_candidate =
  tc_kind :: transport_kind
  tc_role :: transport_role
  tc_healthy :: bool

datatype route_decision = RD_Selected transport_kind | RD_NoRoute route_class

datatype route_target = RT_Broadcast | RT_Peer bool

definition is_live_class :: "route_class \<Rightarrow> bool" where
  "is_live_class class \<longleftrightarrow>
     class \<in> {RC_ControlInteractive, RC_DataInteractive, RC_DataBulk, RC_MediaSignaling, RC_PresenceEphemeral}"

definition allows :: "route_class \<Rightarrow> route_target \<Rightarrow> transport_candidate \<Rightarrow> bool" where
  "allows class target c =
     (let role = tc_role c in
      case tc_kind c of
        TK_GhGist \<Rightarrow>
          class = RC_InviteAdvertise \<and> role = TR_InviteBeacon \<or> class = RC_PeerRendezvous \<and> role = TR_Rendezvous
      | TK_LanTcp \<Rightarrow> role = TR_Direct \<and> (is_live_class class \<or> class = RC_PeerRendezvous)
      | TK_Tailscale \<Rightarrow> role = TR_Direct \<and> (is_live_class class \<or> class = RC_PeerRendezvous)
      | TK_Udp \<Rightarrow> role = TR_Direct \<and> class \<in> {RC_ControlInteractive, RC_MediaSignaling, RC_PresenceEphemeral}
      | TK_WebRtcDataChannel \<Rightarrow>
          role = TR_Direct \<and>
          (class \<in> {RC_ControlInteractive, RC_MediaSignaling, RC_PresenceEphemeral} \<or>
           class \<in> {RC_DataInteractive, RC_DataBulk} \<and> target = RT_Peer True)
      | TK_Reticulum \<Rightarrow>
          role = TR_Direct \<and> (is_live_class class \<or> class = RC_PeerRendezvous) \<or>
          class = RC_PeerRendezvous \<and> role = TR_Rendezvous
      | TK_Relay \<Rightarrow>
          role = TR_Relay \<and> is_live_class class \<or>
          class = RC_InviteAdvertise \<and> role = TR_InviteBeacon \<or> class = RC_PeerRendezvous \<and> role = TR_Rendezvous
      | TK_Ssh \<Rightarrow> False)"

definition control_priority :: "transport_kind \<Rightarrow> nat" where
  "control_priority kind =
     (case kind of TK_LanTcp \<Rightarrow> 0 | TK_Tailscale \<Rightarrow> 2 | TK_Udp \<Rightarrow> 3 | TK_WebRtcDataChannel \<Rightarrow> 4 | TK_Reticulum \<Rightarrow> 5
      | TK_Relay \<Rightarrow> 6 | TK_Ssh \<Rightarrow> 255 | TK_GhGist \<Rightarrow> 255)"

definition data_priority :: "transport_kind \<Rightarrow> nat" where
  "data_priority kind =
     (case kind of TK_LanTcp \<Rightarrow> 0 | TK_WebRtcDataChannel \<Rightarrow> 1 | TK_Tailscale \<Rightarrow> 2 | TK_Reticulum \<Rightarrow> 3 | TK_Relay \<Rightarrow> 4
      | TK_Udp \<Rightarrow> 255 | TK_Ssh \<Rightarrow> 255 | TK_GhGist \<Rightarrow> 255)"

definition media_priority :: "transport_kind \<Rightarrow> nat" where
  "media_priority kind =
     (case kind of TK_Udp \<Rightarrow> 1 | TK_WebRtcDataChannel \<Rightarrow> 2 | TK_LanTcp \<Rightarrow> 3 | TK_Tailscale \<Rightarrow> 4 | TK_Reticulum \<Rightarrow> 5
      | TK_Relay \<Rightarrow> 6 | TK_Ssh \<Rightarrow> 255 | TK_GhGist \<Rightarrow> 255)"

fun rendezvous_priority :: "transport_kind \<Rightarrow> transport_role \<Rightarrow> nat" where
  "rendezvous_priority TK_LanTcp TR_Direct = 0"
| "rendezvous_priority TK_Tailscale TR_Direct = 2"
| "rendezvous_priority TK_Reticulum TR_Direct = 3"
| "rendezvous_priority TK_Reticulum TR_Rendezvous = 4"
| "rendezvous_priority TK_Relay TR_Rendezvous = 5"
| "rendezvous_priority TK_GhGist TR_Rendezvous = 6"
| "rendezvous_priority _ _ = 255"

fun invite_priority :: "transport_kind \<Rightarrow> transport_role \<Rightarrow> nat" where
  "invite_priority TK_Relay TR_InviteBeacon = 0"
| "invite_priority TK_GhGist TR_InviteBeacon = 1"
| "invite_priority _ _ = 255"

definition priority :: "route_class \<Rightarrow> transport_kind \<Rightarrow> transport_role \<Rightarrow> nat" where
  "priority class kind role =
     (case class of
        RC_ControlInteractive \<Rightarrow> control_priority kind
      | RC_PresenceEphemeral \<Rightarrow> control_priority kind
      | RC_DataInteractive \<Rightarrow> data_priority kind
      | RC_MediaSignaling \<Rightarrow> media_priority kind
      | RC_DataBulk \<Rightarrow> data_priority kind
      | RC_PeerRendezvous \<Rightarrow> rendezvous_priority kind role
      | RC_InviteAdvertise \<Rightarrow> invite_priority kind role)"

text \<open>\<open>Iterator::min_by_key\<close>: the first of the least elements.\<close>

fun min_by_key :: "('a \<Rightarrow> 'k::linorder) \<Rightarrow> 'a list \<Rightarrow> 'a option" where
  "min_by_key key [] = None"
| "min_by_key key (x # xs) =
     (case min_by_key key xs of
        None \<Rightarrow> Some x
      | Some y \<Rightarrow> if key y < key x then Some y else Some x)"

definition choose_for_target :: "route_class \<Rightarrow> route_target \<Rightarrow> transport_candidate list \<Rightarrow> route_decision" where
  "choose_for_target class target candidates =
     (case min_by_key (\<lambda>c. priority class (tc_kind c) (tc_role c))
             (filter (allows class target) (filter tc_healthy candidates)) of
        Some c \<Rightarrow> RD_Selected (tc_kind c)
      | None \<Rightarrow> RD_NoRoute class)"

definition choose_route :: "route_class \<Rightarrow> transport_candidate list \<Rightarrow> route_decision" where
  "choose_route class candidates = choose_for_target class RT_Broadcast candidates"

datatype crypto_mode = CM_PerFrameSign | CM_SessionAead

definition crypto_mode_of :: "transport_kind \<Rightarrow> crypto_mode" where
  "crypto_mode_of kind =
     (case kind of TK_Udp \<Rightarrow> CM_SessionAead | TK_WebRtcDataChannel \<Rightarrow> CM_SessionAead | _ \<Rightarrow> CM_PerFrameSign)"

section \<open>Health\<close>

datatype transport_health_state = HS_Healthy | HS_Degraded | HS_Down

record transport_health_sample =
  hs_kind :: transport_kind
  hs_role :: transport_role
  hs_state :: transport_health_state
  hs_rtt_ms :: "32 word option"
  hs_success_ppm :: "32 word option"

definition sample_candidate :: "transport_health_sample \<Rightarrow> transport_candidate" where
  "sample_candidate s = \<lparr> tc_kind = hs_kind s, tc_role = hs_role s, tc_healthy = (hs_state s = HS_Healthy) \<rparr>"

definition healthy_direct :: "transport_kind \<Rightarrow> transport_health_sample" where
  "healthy_direct kind = \<lparr> hs_kind = kind, hs_role = TR_Direct, hs_state = HS_Healthy, hs_rtt_ms = None, hs_success_ppm = None \<rparr>"

definition sample_down :: "transport_kind \<Rightarrow> transport_role \<Rightarrow> transport_health_sample" where
  "sample_down kind role = \<lparr> hs_kind = kind, hs_role = role, hs_state = HS_Down, hs_rtt_ms = None, hs_success_ppm = None \<rparr>"

text \<open>The table holds one sample for each kind and role; it is listed in a fixed order.\<close>

type_synonym transport_health_table = "((transport_kind \<times> transport_role) \<times> transport_health_sample) list"

definition health_upsert :: "transport_health_sample \<Rightarrow> transport_health_table \<Rightarrow> transport_health_table" where
  "health_upsert s t = AList.update (hs_kind s, hs_role s) s t"

definition health_replace :: "transport_health_sample list \<Rightarrow> transport_health_table" where
  "health_replace samples = fold health_upsert samples []"

definition transport_kind_order :: "transport_kind \<Rightarrow> nat" where
  "transport_kind_order kind =
     (case kind of TK_LanTcp \<Rightarrow> 1 | TK_Tailscale \<Rightarrow> 2 | TK_Udp \<Rightarrow> 3 | TK_WebRtcDataChannel \<Rightarrow> 4 | TK_Reticulum \<Rightarrow> 5
      | TK_Relay \<Rightarrow> 6 | TK_Ssh \<Rightarrow> 7 | TK_GhGist \<Rightarrow> 8)"

definition transport_role_order :: "transport_role \<Rightarrow> nat" where
  "transport_role_order role =
     (case role of TR_Direct \<Rightarrow> 0 | TR_Relay \<Rightarrow> 1 | TR_InviteBeacon \<Rightarrow> 2 | TR_Rendezvous \<Rightarrow> 3 | TR_Admin \<Rightarrow> 4)"

definition health_samples :: "transport_health_table \<Rightarrow> transport_health_sample list" where
  "health_samples t =
     sort_key (\<lambda>s. 5 * transport_kind_order (hs_kind s) + transport_role_order (hs_role s)) (map snd t)"

section \<open>Resolution\<close>

definition resolve_for_target ::
  "transport_candidate list \<Rightarrow> route_class \<Rightarrow> route_target \<Rightarrow> route_decision + transport_kind" where
  "resolve_for_target candidates class target =
     (case choose_for_target class target candidates of
        RD_Selected kind \<Rightarrow> Inr kind
      | RD_NoRoute c \<Rightarrow> Inl (RD_NoRoute c))"

definition resolve_route :: "transport_candidate list \<Rightarrow> route_class \<Rightarrow> route_decision + transport_kind" where
  "resolve_route candidates class = resolve_for_target candidates class RT_Broadcast"

datatype frame_kind = FK_Message | FK_Event | FK_Control | FK_Command | FK_CommandResult | FK_Addressed

definition route_class_for_frame :: "frame_kind \<Rightarrow> route_class" where
  "route_class_for_frame kind =
     (case kind of
        FK_Message \<Rightarrow> RC_DataInteractive | FK_Command \<Rightarrow> RC_DataInteractive | FK_CommandResult \<Rightarrow> RC_DataInteractive
      | FK_Addressed \<Rightarrow> RC_DataInteractive | FK_Event \<Rightarrow> RC_ControlInteractive | FK_Control \<Rightarrow> RC_ControlInteractive)"

text \<open>
  The candidates of a send: the healthy samples, and the data channel to the peer when there
  is one. \<open>channel p\<close> is whether a channel to \<open>p\<close> is registered.
\<close>

definition route_target_of :: "(uuid \<Rightarrow> bool) \<Rightarrow> mention_target \<Rightarrow> route_target" where
  "route_target_of channel target =
     (case target of MT_Peer p \<Rightarrow> RT_Peer (channel p) | MT_All \<Rightarrow> RT_Broadcast | MT_Room _ \<Rightarrow> RT_Broadcast)"

definition send_candidates :: "transport_health_table \<Rightarrow> route_target \<Rightarrow> transport_candidate list" where
  "send_candidates table target =
     map sample_candidate (health_samples table) @
     (if target = RT_Peer True
      then [\<lparr> tc_kind = TK_WebRtcDataChannel, tc_role = TR_Direct, tc_healthy = True \<rparr>] else [])"

definition resolve_send_route ::
  "transport_health_table \<Rightarrow> (uuid \<Rightarrow> bool) \<Rightarrow> frame_kind \<Rightarrow> mention_target \<Rightarrow> route_decision + transport_kind" where
  "resolve_send_route table channel kind target =
     (let rt = route_target_of channel target
      in resolve_for_target (send_candidates table rt) (route_class_for_frame kind) rt)"

text \<open>The adapter a route is executed on.\<close>

datatype route_adapter = AD_Lan | AD_Udp | AD_WebRtc uuid | AD_Relay

datatype route_error = RE_NeedsPeer | RE_Unwired transport_kind

definition execute_send_route :: "transport_kind \<Rightarrow> mention_target \<Rightarrow> route_error + route_adapter" where
  "execute_send_route route target =
     (case route of
        TK_LanTcp \<Rightarrow> Inr AD_Lan
      | TK_Tailscale \<Rightarrow> Inr AD_Lan
      | TK_Udp \<Rightarrow> Inr AD_Udp
      | TK_WebRtcDataChannel \<Rightarrow>
          (case target of MT_Peer p \<Rightarrow> Inr (AD_WebRtc p) | MT_All \<Rightarrow> Inl RE_NeedsPeer | MT_Room _ \<Rightarrow> Inl RE_NeedsPeer)
      | TK_Reticulum \<Rightarrow> Inl (RE_Unwired route)
      | TK_Relay \<Rightarrow> Inr AD_Relay
      | TK_Ssh \<Rightarrow> Inl (RE_Unwired route)
      | TK_GhGist \<Rightarrow> Inl (RE_Unwired route))"

section \<open>What the policy chooses\<close>

lemma min_by_key_None: "min_by_key key xs = None \<longleftrightarrow> xs = []"
  by (induction xs) (auto split: option.splits)

lemma min_by_key_Some:
  assumes "min_by_key key xs = Some x"
  shows "x \<in> set xs" "\<forall>y \<in> set xs. key x \<le> key y"
proof -
  have "x \<in> set xs \<and> (\<forall>y \<in> set xs. key x \<le> key y)"
    using assms
  proof (induction xs arbitrary: x)
    case (Cons a xs)
    show ?case
    proof (cases "min_by_key key xs")
      case None
      then show ?thesis using Cons.prems by (simp add: min_by_key_None)
    next
      case (Some y)
      then show ?thesis
        using Cons.IH [OF Some] Cons.prems by (cases "key y < key a") (force simp: not_less)+
    qed
  qed simp
  then show "x \<in> set xs" "\<forall>y \<in> set xs. key x \<le> key y" by blast+
qed

definition admissible :: "route_class \<Rightarrow> route_target \<Rightarrow> transport_candidate \<Rightarrow> bool" where
  "admissible cls target c \<longleftrightarrow> tc_healthy c \<and> allows cls target c"

lemma choose_Selected:
  assumes "choose_for_target cls target cs = RD_Selected k"
  obtains c where "c \<in> set cs" "admissible cls target c" "tc_kind c = k"
    "\<forall>d \<in> set cs. admissible cls target d \<longrightarrow>
       priority cls (tc_kind c) (tc_role c) \<le> priority cls (tc_kind d) (tc_role d)"
proof -
  obtain c where c: "min_by_key (\<lambda>c. priority cls (tc_kind c) (tc_role c))
      (filter (allows cls target) (filter tc_healthy cs)) = Some c" "tc_kind c = k"
    using assms by (auto simp: choose_for_target_def split: option.splits)
  show ?thesis
    using that [of c] min_by_key_Some [OF c(1)] c(2) by (auto simp: admissible_def)
qed

lemma choose_NoRoute:
  "choose_for_target cls target cs = RD_NoRoute c \<longleftrightarrow> c = cls \<and> (\<forall>d \<in> set cs. \<not> admissible cls target d)"
proof (cases "min_by_key (\<lambda>c. priority cls (tc_kind c) (tc_role c)) (filter (allows cls target) (filter tc_healthy cs))")
  case None
  then have "\<forall>d \<in> set cs. \<not> admissible cls target d"
    by (auto simp: min_by_key_None filter_empty_conv admissible_def)
  then show ?thesis using None by (auto simp: choose_for_target_def)
next
  case (Some d)
  then show ?thesis
    using min_by_key_Some(1) [OF Some] by (auto simp: choose_for_target_def admissible_def)
qed

lemma frame_class_live: "is_live_class (route_class_for_frame kind)"
  by (cases kind) (simp_all add: route_class_for_frame_def is_live_class_def)

lemma live_class_kinds:
  "allows cls target c \<Longrightarrow> is_live_class cls \<Longrightarrow> tc_kind c \<noteq> TK_GhGist \<and> tc_kind c \<noteq> TK_Ssh"
  by (cases "tc_kind c") (auto simp: allows_def is_live_class_def Let_def)



text \<open>
  Outside that table the policy itself admits a data channel for a broadcast of a control,
  media or presence class, and prefers it to a relay; its execution then fails.
\<close>

lemma broadcast_admits_data_channel:
  "choose_route RC_ControlInteractive
     [\<lparr> tc_kind = TK_WebRtcDataChannel, tc_role = TR_Direct, tc_healthy = True \<rparr>,
      \<lparr> tc_kind = TK_Relay, tc_role = TR_Relay, tc_healthy = True \<rparr>] = RD_Selected TK_WebRtcDataChannel \<and>
   execute_send_route TK_WebRtcDataChannel MT_All = Inl RE_NeedsPeer"
  by code_simp

end
