(* ===== verification/Lib_Dial.thy ===== *)
theory Lib_Dial
  imports Airc_Prelude
begin

text \<open>
  What the dialer remembers: failed endpoints (\<open>airc-lib/src/route/dial_quarantine.rs\<close>) and the
  frames that were acknowledged (\<open>airc-lib/src/route/delivery_ledger.rs\<close>). The hash maps are
  partial functions, and finite lists of their entries where the code iterates.
\<close>

type_synonym u32 = "32 word"

section \<open>Quarantine\<close>

datatype socket_addr = SA_V4 u32 "16 word" | SA_V6 "128 word" "16 word" u32 u32

type_synonym quarantine_key = "uuid \<times> socket_addr"

definition INITIAL_BACKOFF_MS :: u64 where
  "INITIAL_BACKOFF_MS = 15000"

definition MAX_BACKOFF_MS :: u64 where
  "MAX_BACKOFF_MS = 120000"

definition QUARANTINE_RETENTION_MS :: u64 where
  "QUARANTINE_RETENTION_MS = 600000"

definition DEAD_AFTER_CONSECUTIVE_FAILURES :: u32 where
  "DEAD_AFTER_CONSECUTIVE_FAILURES = 5"

datatype dial_gate = DG_Dial | DG_Backoff u64 | DG_Dead u32

record quarantine_entry =
  qe_failed_at_ms :: u64
  qe_backoff_ms :: u64
  qe_consecutive_failures :: u32
  qe_advert_stamp_ms :: u64
  qe_terminal :: bool

definition saturating_mul :: "'a::len word \<Rightarrow> 'a word \<Rightarrow> 'a word" where
  "saturating_mul a b = (if uint a * uint b < 2 ^ LENGTH('a) then a * b else - 1)"

definition entry_remaining_ms :: "quarantine_entry \<Rightarrow> u64 \<Rightarrow> u64 option" where
  "entry_remaining_ms e now_ms =
     (let elapsed = saturating_sub now_ms (qe_failed_at_ms e)
      in if elapsed \<le> qe_backoff_ms e \<and> 0 < qe_backoff_ms e - elapsed then Some (qe_backoff_ms e - elapsed) else None)"

type_synonym dial_quarantine = "quarantine_key \<rightharpoonup> quarantine_entry"

definition quarantine_remaining_ms :: "dial_quarantine \<Rightarrow> quarantine_key \<Rightarrow> u64 \<Rightarrow> u64 option" where
  "quarantine_remaining_ms q key now_ms = Option.bind (q key) (\<lambda>e. entry_remaining_ms e now_ms)"

definition quarantine_gate :: "dial_quarantine \<Rightarrow> quarantine_key \<Rightarrow> u64 \<Rightarrow> u64 \<Rightarrow> u64 \<Rightarrow> dial_gate" where
  "quarantine_gate q key now_ms current_advert_stamp_ms proof_of_life_ms =
     (case q key of
        None \<Rightarrow> DG_Dial
      | Some e \<Rightarrow>
          let advert_fresher = (qe_advert_stamp_ms e < current_advert_stamp_ms);
              alive_since_failure = (\<not> qe_terminal e \<and> qe_failed_at_ms e < proof_of_life_ms)
          in if DEAD_AFTER_CONSECUTIVE_FAILURES \<le> qe_consecutive_failures e \<and> \<not> advert_fresher \<and> \<not> alive_since_failure
             then DG_Dead (qe_consecutive_failures e)
             else case entry_remaining_ms e now_ms of
               Some remaining_ms \<Rightarrow> DG_Backoff remaining_ms
             | None \<Rightarrow> DG_Dial)"

definition quarantine_sweep :: "u64 \<Rightarrow> dial_quarantine \<Rightarrow> dial_quarantine" where
  "quarantine_sweep now_ms q =
     (\<lambda>key. case q key of
        None \<Rightarrow> None
      | Some e \<Rightarrow> if saturating_sub now_ms (qe_failed_at_ms e) \<le> QUARANTINE_RETENTION_MS then Some e else None)"

definition record_failure :: "dial_quarantine \<Rightarrow> quarantine_key \<Rightarrow> u64 \<Rightarrow> u64 \<Rightarrow> dial_quarantine" where
  "record_failure q key now_ms advert_stamp_ms =
     (let q = quarantine_sweep now_ms q;
          (backoff_ms, consecutive_failures, prev_stamp) =
            (case q key of
               Some prev \<Rightarrow>
                 (min (saturating_mul (qe_backoff_ms prev) 2) MAX_BACKOFF_MS,
                  saturating_add (qe_consecutive_failures prev) 1,
                  qe_advert_stamp_ms prev)
             | None \<Rightarrow> (INITIAL_BACKOFF_MS, 1, 0))
      in q(key \<mapsto> \<lparr> qe_failed_at_ms = now_ms, qe_backoff_ms = backoff_ms, qe_consecutive_failures = consecutive_failures,
                    qe_advert_stamp_ms = max prev_stamp advert_stamp_ms, qe_terminal = False \<rparr>))"

definition record_terminal_failure :: "dial_quarantine \<Rightarrow> quarantine_key \<Rightarrow> u64 \<Rightarrow> u64 \<Rightarrow> dial_quarantine" where
  "record_terminal_failure q key now_ms advert_stamp_ms =
     (let q = quarantine_sweep now_ms q;
          prev_stamp = (case q key of None \<Rightarrow> 0 | Some prev \<Rightarrow> qe_advert_stamp_ms prev)
      in q(key \<mapsto> \<lparr> qe_failed_at_ms = now_ms, qe_backoff_ms = MAX_BACKOFF_MS,
                    qe_consecutive_failures = DEAD_AFTER_CONSECUTIVE_FAILURES,
                    qe_advert_stamp_ms = max prev_stamp advert_stamp_ms, qe_terminal = True \<rparr>))"

definition record_success :: "dial_quarantine \<Rightarrow> quarantine_key \<Rightarrow> dial_quarantine" where
  "record_success q key = q(key := None)"

section \<open>Delivery ledger\<close>

definition SUSPECT_UNACKED_ATTEMPTS :: u32 where
  "SUSPECT_UNACKED_ATTEMPTS = 2"

record peer_delivery_stats =
  pd_attempts :: u64
  pd_acked :: u64
  pd_attempts_since_ack :: u32
  pd_last_attempt_ms :: "u64 option"
  pd_last_ack_ms :: "u64 option"
  pd_rtt_ema_ms :: "u32 option"

definition stats_default :: peer_delivery_stats where
  "stats_default = \<lparr> pd_attempts = 0, pd_acked = 0, pd_attempts_since_ack = 0, pd_last_attempt_ms = None,
     pd_last_ack_ms = None, pd_rtt_ema_ms = None \<rparr>"

definition suspect :: "peer_delivery_stats \<Rightarrow> bool" where
  "suspect s \<longleftrightarrow> SUSPECT_UNACKED_ATTEMPTS \<le> pd_attempts_since_ack s"

record delivery_aggregate =
  da_attempts :: u64
  da_acked :: u64
  da_success_ppm :: u32
  da_best_rtt_ms :: "u32 option"
  da_all_suspect :: bool

type_synonym delivery_ledger = "(uuid, peer_delivery_stats) btree"

definition ledger_entry :: "delivery_ledger \<Rightarrow> uuid \<Rightarrow> peer_delivery_stats" where
  "ledger_entry l peer = (case map_of l peer of Some s \<Rightarrow> s | None \<Rightarrow> stats_default)"

definition record_attempt :: "delivery_ledger \<Rightarrow> uuid \<Rightarrow> u64 \<Rightarrow> delivery_ledger" where
  "record_attempt l peer now_ms =
     (let s = ledger_entry l peer
      in bt_insert peer (s\<lparr> pd_attempts := pd_attempts s + 1,
           pd_attempts_since_ack := saturating_add (pd_attempts_since_ack s) 1, pd_last_attempt_ms := Some now_ms \<rparr>) l)"

definition rtt_ema :: "u32 option \<Rightarrow> u32 \<Rightarrow> u32" where
  "rtt_ema ema sample =
     (case ema of
        Some e \<Rightarrow> saturating_add (saturating_mul (e div 4) 3) (sample div 4)
      | None \<Rightarrow> sample)"

definition record_ack :: "delivery_ledger \<Rightarrow> uuid \<Rightarrow> u64 \<Rightarrow> u32 option \<Rightarrow> delivery_ledger" where
  "record_ack l peer now_ms rtt_ms =
     (let s = ledger_entry l peer;
          s = s\<lparr> pd_acked := pd_acked s + 1, pd_attempts_since_ack := 0, pd_last_ack_ms := Some now_ms \<rparr>
      in bt_insert peer (case rtt_ms of
           None \<Rightarrow> s
         | Some sample \<Rightarrow> s\<lparr> pd_rtt_ema_ms := Some (rtt_ema (pd_rtt_ema_ms s) sample) \<rparr>) l)"

definition is_suspect :: "delivery_ledger \<Rightarrow> uuid \<Rightarrow> bool" where
  "is_suspect l peer = (case map_of l peer of Some s \<Rightarrow> suspect s | None \<Rightarrow> False)"

definition note_purged :: "delivery_ledger \<Rightarrow> uuid \<Rightarrow> delivery_ledger" where
  "note_purged l peer =
     (case map_of l peer of Some s \<Rightarrow> bt_insert peer (s\<lparr> pd_attempts_since_ack := 0 \<rparr>) l | None \<Rightarrow> l)"

text \<open>The entries in the order of the peers, which is the order of the map.\<close>

definition ledger_snapshot :: "delivery_ledger \<Rightarrow> (uuid \<times> peer_delivery_stats) list" where
  "ledger_snapshot l = l"

definition attempted :: "delivery_ledger \<Rightarrow> peer_delivery_stats list" where
  "attempted l = filter (\<lambda>s. pd_attempts s \<noteq> 0) (bt_values l)"

definition best_rtt :: "peer_delivery_stats list \<Rightarrow> u32 option" where
  "best_rtt ss = fold (\<lambda>s best. case pd_rtt_ema_ms s of
       None \<Rightarrow> best
     | Some rtt \<Rightarrow> Some (case best of None \<Rightarrow> rtt | Some b \<Rightarrow> min b rtt)) ss None"

definition ledger_aggregate :: "delivery_ledger \<Rightarrow> delivery_aggregate option" where
  "ledger_aggregate l =
     (let ss = attempted l;
          attempts = sum_list (map pd_attempts ss); acked = sum_list (map pd_acked ss);
          ppm = saturating_mul acked 1000000 div attempts;
          success_ppm = (if ppm < 2 ^ 32 then ucast ppm else 1000000 :: u32)
      in if attempts = 0 then None
         else Some \<lparr> da_attempts = attempts, da_acked = acked, da_success_ppm = min success_ppm 1000000,
                     da_best_rtt_ms = best_rtt ss, da_all_suspect = (ss \<noteq> [] \<and> list_all suspect ss) \<rparr>)"

section \<open>The gate as a function of the history\<close>

datatype dial_event =
    DE_Failure quarantine_key u64 u64
  | DE_Terminal quarantine_key u64 u64
  | DE_Success quarantine_key

fun dial_step :: "dial_event \<Rightarrow> dial_quarantine \<Rightarrow> dial_quarantine" where
  "dial_step (DE_Failure key now stamp) q = record_failure q key now stamp"
| "dial_step (DE_Terminal key now stamp) q = record_terminal_failure q key now stamp"
| "dial_step (DE_Success key) q = record_success q key"

definition dial_run :: "dial_event list \<Rightarrow> dial_quarantine" where
  "dial_run es = fold dial_step es Map.empty"

text \<open>
  The failures of an endpoint that count: those since its last success, all forgotten when
  any failure is recorded more than ten minutes after the last of them.
\<close>

type_synonym dial_failure = "u64 \<times> u64 \<times> bool"

definition forget :: "u64 \<Rightarrow> dial_failure list \<Rightarrow> dial_failure list" where
  "forget now fs = (if fs \<noteq> [] \<and> 600000 < unat now - unat (fst (last fs)) then [] else fs)"

fun streak_step :: "quarantine_key \<Rightarrow> dial_event \<Rightarrow> dial_failure list \<Rightarrow> dial_failure list" where
  "streak_step key (DE_Failure k now stamp) fs = (if k = key then forget now fs @ [(now, stamp, False)] else forget now fs)"
| "streak_step key (DE_Terminal k now stamp) fs = (if k = key then forget now fs @ [(now, stamp, True)] else forget now fs)"
| "streak_step key (DE_Success k) fs = (if k = key then [] else fs)"

definition streak :: "quarantine_key \<Rightarrow> dial_event list \<Rightarrow> dial_failure list" where
  "streak key es = fold (streak_step key) es []"

definition strikes :: "dial_failure list \<Rightarrow> nat" where
  "strikes fs = fold (\<lambda>(_, _, terminal) n. if terminal then 5 else Suc n) fs 0"

definition backoff_of :: "dial_failure list \<Rightarrow> nat" where
  "backoff_of fs = (if \<exists>f \<in> set fs. snd (snd f) then 120000 else min (15000 * 2 ^ (length fs - 1)) 120000)"

definition newest_stamp :: "dial_failure list \<Rightarrow> u64" where
  "newest_stamp fs = fold (\<lambda>(_, stamp, _). max stamp) fs 0"

definition entry_rep :: "quarantine_entry \<Rightarrow> dial_failure list \<Rightarrow> bool" where
  "entry_rep e fs \<longleftrightarrow>
     fs \<noteq> [] \<and> qe_failed_at_ms e = fst (last fs) \<and> unat (qe_backoff_ms e) = backoff_of fs \<and>
     unat (qe_consecutive_failures e) = min (strikes fs) (2 ^ 32 - 1) \<and>
     qe_advert_stamp_ms e = newest_stamp fs \<and> qe_terminal e = snd (snd (last fs))"

definition quarantine_rep :: "quarantine_entry option \<Rightarrow> dial_failure list \<Rightarrow> bool" where
  "quarantine_rep entry fs \<longleftrightarrow> (case entry of None \<Rightarrow> fs = [] | Some e \<Rightarrow> entry_rep e fs)"

lemma strikes_snoc: "strikes (fs @ [(t, s, terminal)]) = (if terminal then 5 else Suc (strikes fs))"
  by (simp add: strikes_def)

lemma newest_stamp_snoc: "newest_stamp (fs @ [(t, s, terminal)]) = max (newest_stamp fs) s"
  by (simp add: newest_stamp_def max.commute)

lemma backoff_snoc:
  "backoff_of (fs @ [(t, s, terminal)]) = (if terminal then 120000 else if fs = [] then 15000 else min (2 * backoff_of fs) 120000)"
proof (cases "terminal \<or> fs = [] \<or> (\<exists>f \<in> set fs. snd (snd f))")
  case False
  then obtain n where "length fs = Suc n" by (cases fs) auto
  then show ?thesis using False by (auto simp: backoff_of_def min_def)
qed (auto simp: backoff_of_def)

lemma sweep_rep:
  assumes "quarantine_rep (q key) fs"
  shows "quarantine_rep (quarantine_sweep now q key) (forget now fs)"
  using assms
  by (auto simp: quarantine_rep_def quarantine_sweep_def entry_rep_def forget_def QUARANTINE_RETENTION_MS_def
      word_le_nat_alt unat_saturating_sub split: option.splits)

lemma unat_doubled_backoff:
  assumes "unat (b :: u64) \<le> 120000"
  shows "unat (min (saturating_mul b 2) MAX_BACKOFF_MS) = min (2 * unat b) 120000"
proof -
  have "unat (saturating_mul b 2) = 2 * unat b"
  proof -
    have "int (unat b) \<le> int 120000" using assms unfolding of_nat_le_iff .
    then have small: "uint b * uint (2 :: u64) < 2 ^ 64" by simp
    have "unat (b * 2) = unat b * unat (2 :: u64)"
      by (rule unat_mult_lem [THEN iffD1]) (use assms in simp)
    then show ?thesis using small by (simp add: saturating_mul_def)
  qed
  then show ?thesis by (auto simp: MAX_BACKOFF_MS_def min_def word_le_nat_alt)
qed

lemma backoff_of_le: "backoff_of fs \<le> 120000"
  by (simp add: backoff_of_def)

lemma failure_rep:
  assumes "quarantine_rep (q key) fs"
  shows "quarantine_rep (record_failure q key now stamp key) (forget now fs @ [(now, stamp, False)])"
    "quarantine_rep (record_terminal_failure q key now stamp key) (forget now fs @ [(now, stamp, True)])"
proof -
  note rep = sweep_rep [of q key fs now, OF assms]
  show "quarantine_rep (record_failure q key now stamp key) (forget now fs @ [(now, stamp, False)])"
  proof (cases "quarantine_sweep now q key")
    case None
    then have "forget now fs = []" using rep by (simp add: quarantine_rep_def)
    then show ?thesis
      using None by (simp add: record_failure_def quarantine_rep_def entry_rep_def strikes_def newest_stamp_def
          backoff_of_def INITIAL_BACKOFF_MS_def)
  next
    case (Some e)
    then have e: "entry_rep e (forget now fs)" using rep by (simp add: quarantine_rep_def)
    then have "unat (qe_backoff_ms e) \<le> 120000" using backoff_of_le by (simp add: entry_rep_def)
    from unat_doubled_backoff [OF this] show ?thesis
      using Some e by (simp add: record_failure_def quarantine_rep_def entry_rep_def strikes_snoc newest_stamp_snoc
          backoff_snoc unat_saturating_add)
  qed
  show "quarantine_rep (record_terminal_failure q key now stamp key) (forget now fs @ [(now, stamp, True)])"
  proof (cases "quarantine_sweep now q key")
    case None
    then have "forget now fs = []" using rep by (simp add: quarantine_rep_def)
    then show ?thesis
      using None by (simp add: record_terminal_failure_def quarantine_rep_def entry_rep_def strikes_def newest_stamp_def
          backoff_of_def MAX_BACKOFF_MS_def DEAD_AFTER_CONSECUTIVE_FAILURES_def)
  next
    case (Some e)
    then have "entry_rep e (forget now fs)" using rep by (simp add: quarantine_rep_def)
    then show ?thesis
      using Some by (simp add: record_terminal_failure_def quarantine_rep_def entry_rep_def strikes_snoc newest_stamp_snoc
          backoff_snoc MAX_BACKOFF_MS_def DEAD_AFTER_CONSECUTIVE_FAILURES_def)
  qed
qed

lemma dial_step_rep:
  assumes "quarantine_rep (q key) fs"
  shows "quarantine_rep (dial_step e q key) (streak_step key e fs)"
proof (cases e)
  case (DE_Failure k now stamp)
  then show ?thesis
    using failure_rep(1) [of q key fs, OF assms] sweep_rep [of q key fs now, OF assms]
    by (cases "k = key") (simp_all add: record_failure_def Let_def split_beta)
next
  case (DE_Terminal k now stamp)
  then show ?thesis
    using failure_rep(2) [of q key fs, OF assms] sweep_rep [of q key fs now, OF assms]
    by (cases "k = key") (simp_all add: record_terminal_failure_def Let_def)
next
  case (DE_Success k)
  then show ?thesis using assms by (simp add: record_success_def quarantine_rep_def)
qed

lemma dial_run_rep: "quarantine_rep (dial_run es key) (streak key es)"
proof (induction es rule: rev_induct)
  case (snoc e es)
  then show ?case using dial_step_rep by (simp add: dial_run_def streak_def)
qed (simp add: dial_run_def streak_def quarantine_rep_def)

text \<open>
  C7. The dial gate is a function of the endpoint's own history. An endpoint of a peer is
  dead when it has five strikes (a terminal failure counts as five) and neither a newer
  advertisement nor, unless the last failure was terminal, a sign of life since the last
  failure; the passing of time alone never changes that. Otherwise it waits out a backoff
  that starts at 15 seconds, doubles with each failure and stays at two minutes, and is
  dialed after that. Other endpoints matter only in that a failure of any of them, ten
  minutes after the last failure of this one, makes it forgotten.
\<close>

theorem dial_gate_exact:
  "quarantine_gate (dial_run es) key now advert alive =
     (let fs = streak key es; (failed_at, _, terminal) = last fs;
          elapsed = unat now - unat failed_at
      in if fs = [] then DG_Dial
         else if 5 \<le> strikes fs \<and> advert \<le> newest_stamp fs \<and> (terminal \<or> alive \<le> failed_at)
         then DG_Dead (of_nat (min (strikes fs) (2 ^ 32 - 1)))
         else if elapsed < backoff_of fs then DG_Backoff (of_nat (backoff_of fs - elapsed))
         else DG_Dial)"
proof (cases "dial_run es key")
  case None
  then have "streak key es = []" using dial_run_rep [of es key] by (simp add: quarantine_rep_def)
  then show ?thesis using None by (simp add: quarantine_gate_def)
next
  case (Some e)
  then have e: "entry_rep e (streak key es)" using dial_run_rep [of es key] by (simp add: quarantine_rep_def)
  then have ne: "streak key es \<noteq> []" by (simp add: entry_rep_def)
  have dead: "DEAD_AFTER_CONSECUTIVE_FAILURES \<le> qe_consecutive_failures e \<longleftrightarrow> 5 \<le> strikes (streak key es)"
    using e by (auto simp: entry_rep_def DEAD_AFTER_CONSECUTIVE_FAILURES_def word_le_nat_alt)
  have count: "qe_consecutive_failures e = of_nat (min (strikes (streak key es)) (2 ^ 32 - 1))"
    using arg_cong [of _ _ "of_nat :: nat \<Rightarrow> u32", OF conjunct1 [OF conjunct2 [OF conjunct2 [OF conjunct2 [OF e [unfolded entry_rep_def]]]]]] by simp
  have "entry_remaining_ms e now =
      (let elapsed = unat now - unat (qe_failed_at_ms e)
       in if elapsed < backoff_of (streak key es) then Some (of_nat (backoff_of (streak key es) - elapsed)) else None)"
  proof -
    define d where "d = saturating_sub now (qe_failed_at_ms e)"
    have d: "unat d = unat now - unat (qe_failed_at_ms e)" by (simp add: d_def unat_saturating_sub)
    have b: "unat (qe_backoff_ms e) = backoff_of (streak key es)" using e by (simp add: entry_rep_def)
    have "d \<le> qe_backoff_ms e \<and> 0 < qe_backoff_ms e - d \<longleftrightarrow> unat d < unat (qe_backoff_ms e)"
      by (auto simp: word_le_nat_alt word_less_nat_alt unat_sub)
    moreover have "qe_backoff_ms e - d = of_nat (unat (qe_backoff_ms e) - unat d)" if "unat d < unat (qe_backoff_ms e)"
      using that by (simp add: of_nat_diff)
    ultimately show ?thesis by (simp add: entry_remaining_ms_def Let_def d_def [symmetric] d [symmetric] b [symmetric])
  qed
  then show ?thesis
    using Some e ne dead count
    by (auto simp: quarantine_gate_def Let_def entry_rep_def not_less split_beta)
qed

section \<open>Suspicion as a function of the history\<close>

datatype ledger_event = LE_Attempt uuid u64 | LE_Ack uuid u64 "u32 option" | LE_Purged uuid

fun ledger_step :: "ledger_event \<Rightarrow> delivery_ledger \<Rightarrow> delivery_ledger" where
  "ledger_step (LE_Attempt p now) l = record_attempt l p now"
| "ledger_step (LE_Ack p now rtt) l = record_ack l p now rtt"
| "ledger_step (LE_Purged p) l = note_purged l p"

fun unacked_step :: "uuid \<Rightarrow> ledger_event \<Rightarrow> nat \<Rightarrow> nat" where
  "unacked_step peer (LE_Attempt p now) n = (if p = peer then Suc n else n)"
| "unacked_step peer (LE_Ack p now rtt) n = (if p = peer then 0 else n)"
| "unacked_step peer (LE_Purged p) n = (if p = peer then 0 else n)"

lemma ledger_run_unacked:
  "unat (pd_attempts_since_ack (ledger_entry (fold ledger_step es []) peer)) = min (fold (unacked_step peer) es 0) (2 ^ 32 - 1)"
proof (induction es rule: rev_induct)
  case (snoc e es)
  let ?l = "fold ledger_step es []"
  show ?case
  proof (cases e)
    case (LE_Attempt p now)
    then show ?thesis
      using snoc.IH by (auto simp: record_attempt_def ledger_entry_def Let_def map_of_bt_insert unat_saturating_add)
  next
    case (LE_Ack p now rtt)
    then show ?thesis
      using snoc.IH by (auto simp: record_ack_def ledger_entry_def Let_def map_of_bt_insert split: option.splits)
  next
    case (LE_Purged p)
    then show ?thesis
      using snoc.IH by (auto simp: note_purged_def ledger_entry_def map_of_bt_insert stats_default_def split: option.splits)
  qed
qed (simp add: ledger_entry_def stats_default_def)

text \<open>
  A peer is suspect exactly when at least two frames were flushed to it since its last
  acknowledgement or purge.
\<close>

lemma suspect_exact: "is_suspect (fold ledger_step es []) peer \<longleftrightarrow> 2 \<le> fold (unacked_step peer) es 0"
proof -
  have "is_suspect l peer = suspect (ledger_entry l peer)" for l
    by (simp add: is_suspect_def ledger_entry_def suspect_def SUSPECT_UNACKED_ATTEMPTS_def stats_default_def split: option.splits)
  then show ?thesis
    using ledger_run_unacked [of es peer]
    by (auto simp: suspect_def SUSPECT_UNACKED_ATTEMPTS_def word_le_nat_alt)
qed

text \<open>
  The average of equal round trips loses the remainder of the division by four, so a route
  of three milliseconds reads zero from its second acknowledgement on.
\<close>

lemma rtt_ema_constant: "rtt_ema (Some 3) 3 = 0 \<and> rtt_ema (Some 0) 3 = 0"
  by (simp add: rtt_ema_def saturating_mul_def saturating_add_def)

end
