(* ===== verification/Rust_Parse.thy ===== *)
theory Rust_Parse
  imports Rust_Str Rust_F64
begin

text \<open>
  Reading and printing numbers as Rust's standard library does, and the string functions
  around it: \<open>lines\<close>, \<open>split_once\<close>, \<open>contains\<close>, the parsers of \<open>u64\<close> and \<open>f64\<close>, the rendering of
  an \<open>f64\<close> with three decimals, and the conversions between \<open>f64\<close> and integers. A model of the
  language; no line of the repository is its source.
\<close>

section \<open>Strings\<close>

text \<open>The lines of a text, without their ends; a last empty line is not one.\<close>

definition strip_cr :: "string \<Rightarrow> string" where
  "strip_cr s = (if s \<noteq> [] \<and> last s = CHR 0x0D then butlast s else s)"

fun split_lines :: "string \<Rightarrow> string \<Rightarrow> string list" where
  "split_lines acc [] = (if acc = [] then [] else [rev acc])"
| "split_lines acc (c # s) = (if c = CHR 0x0A then strip_cr (rev acc) # split_lines [] s else split_lines (c # acc) s)"

definition str_lines :: "string \<Rightarrow> string list" where
  "str_lines s = split_lines [] s"

fun split_once :: "char \<Rightarrow> string \<Rightarrow> (string \<times> string) option" where
  "split_once c [] = None"
| "split_once c (d # s) = (if d = c then Some ([], s) else map_option (\<lambda>(a, b). (d # a, b)) (split_once c s))"

fun starts_with :: "string \<Rightarrow> string \<Rightarrow> bool" where
  "starts_with [] s = True"
| "starts_with (c # p) [] = False"
| "starts_with (c # p) (d # s) = (c = d \<and> starts_with p s)"

fun str_contains :: "string \<Rightarrow> string \<Rightarrow> bool" where
  "str_contains p [] = (p = [])"
| "str_contains p (c # s) = (starts_with p (c # s) \<or> str_contains p s)"

text \<open>\<open>replace\<close> of the line ends, and \<open>find\<close> with \<open>split_at\<close>.\<close>

fun replace_crlf :: "string \<Rightarrow> string" where
  "replace_crlf (c # d # s) = (if c = CHR 0x0D \<and> d = CHR 0x0A then CHR 0x0A # replace_crlf s else c # replace_crlf (d # s))"
| "replace_crlf s = s"

fun split_at_find :: "string \<Rightarrow> string \<Rightarrow> (string \<times> string) option" where
  "split_at_find p [] = (if p = [] then Some ([], []) else None)"
| "split_at_find p (c # s) =
     (if starts_with p (c # s) then Some ([], c # s) else map_option (\<lambda>(a, b). (c # a, b)) (split_at_find p s))"

section \<open>Integers\<close>

definition is_digit :: "char \<Rightarrow> bool" where
  "is_digit c = (48 \<le> byte_of c \<and> byte_of c \<le> 57)"

fun read_int :: "int \<Rightarrow> string \<Rightarrow> int" where
  "read_int acc [] = acc"
| "read_int acc (c # s) = read_int (10 * acc + (int (byte_of c) - 48)) s"

definition parse_u64 :: "string \<Rightarrow> u64 option" where
  "parse_u64 s =
     (let ds = (case s of [] \<Rightarrow> [] | c # r \<Rightarrow> if c = CHR ''+'' then r else s)
      in if ds = [] \<or> \<not> list_all is_digit ds \<or> 2 ^ 64 \<le> read_int 0 ds then None else Some (word_of_int (read_int 0 ds)))"

section \<open>Floating point\<close>

definition strip_sign :: "string \<Rightarrow> bool \<times> string" where
  "strip_sign s =
     (case s of
        [] \<Rightarrow> (False, [])
      | c # r \<Rightarrow> if c = CHR ''-'' then (True, r) else if c = CHR ''+'' then (False, r) else (False, s))"

definition scaled_f64 :: "bool \<Rightarrow> int \<Rightarrow> int \<Rightarrow> f64" where
  "scaled_f64 neg m e = (if 0 \<le> e then f64_round neg (m * 10 ^ nat e) 1 else f64_round neg m (10 ^ nat (- e)))"

definition parse_exponent :: "string \<Rightarrow> int option" where
  "parse_exponent s =
     (case s of
        [] \<Rightarrow> Some 0
      | c # r \<Rightarrow>
          let (neg, ds) = strip_sign r
          in if (c = CHR ''e'' \<or> c = CHR ''E'') \<and> ds \<noteq> [] \<and> list_all is_digit ds
             then Some (if neg then - read_int 0 ds else read_int 0 ds) else None)"

definition parse_f64 :: "string \<Rightarrow> f64 option" where
  "parse_f64 s =
     (let (neg, t) = strip_sign s; low = to_ascii_lowercase t
      in if low = ''inf'' \<or> low = ''infinity'' then Some (f64_inf neg)
         else if low = ''nan'' then Some (f64_pack neg (2047 * 2 ^ 52 + 2 ^ 51))
         else
           let whole = takeWhile is_digit t; r = dropWhile is_digit t;
               (frac, r) = (case r of
                   c # r' \<Rightarrow> if c = CHR ''.'' then (takeWhile is_digit r', dropWhile is_digit r') else ([], r)
                 | [] \<Rightarrow> ([], r))
           in if whole = [] \<and> frac = [] then None
              else map_option (\<lambda>e. scaled_f64 neg (read_int 0 (whole @ frac)) (e - int (length frac))) (parse_exponent r))"

text \<open>The value that the rendering with three decimals reads back as.\<close>

definition round_milli :: "f64 \<Rightarrow> f64" where
  "round_milli x =
     (if f64_is_finite x then
        (case f64_fraction x of (p, q) \<Rightarrow> f64_round (f64_neg_bit x) (round_half_even (1000 * p, q)) 1000)
      else x)"

text \<open>\<open>x as i64\<close> and \<open>x.ceil() as i64\<close>: saturating, with NaN as zero.\<close>

definition clamp_i64 :: "int \<Rightarrow> int" where
  "clamp_i64 n = max (- (2 ^ 63)) (min n (2 ^ 63 - 1))"

definition f64_to_i64 :: "f64 \<Rightarrow> int" where
  "f64_to_i64 x =
     (if f64_is_nan x then 0
      else if f64_is_inf x then (if f64_neg_bit x then - (2 ^ 63) else 2 ^ 63 - 1)
      else case f64_fraction x of (p, q) \<Rightarrow> clamp_i64 (if f64_neg_bit x then - (p div q) else p div q))"

definition f64_ceil_i64 :: "f64 \<Rightarrow> int" where
  "f64_ceil_i64 x =
     (if f64_is_nan x then 0
      else if f64_is_inf x then (if f64_neg_bit x then - (2 ^ 63) else 2 ^ 63 - 1)
      else case f64_fraction x of (p, q) \<Rightarrow> clamp_i64 (- ((if f64_neg_bit x then p else - p) div q)))"

definition f64_of_int :: "int \<Rightarrow> f64" where
  "f64_of_int n = f64_round (n < 0) \<bar>n\<bar> 1"

text \<open>\<open>f64::max\<close> and \<open>f64::min\<close> pass over a NaN.\<close>

definition f64_max :: "f64 \<Rightarrow> f64 \<Rightarrow> f64" where
  "f64_max a b = (if f64_is_nan a then b else if f64_is_nan b then a else if f64_less a b then b else a)"

definition f64_min :: "f64 \<Rightarrow> f64 \<Rightarrow> f64" where
  "f64_min a b = (if f64_is_nan a then b else if f64_is_nan b then a else if f64_less b a then b else a)"

end
