(* ===== verification/Lib_Governor.thy ===== *)
theory Lib_Governor
  imports Rust_Parse "HOL-Library.Sublist"
begin

text \<open>
  The governor of requests to GitHub (\<open>airc-lib/src/gh/governor.rs\<close>): a sliding window of one
  minute with floors for the registry and for recovery, and the backoff that GitHub's own
  answers arm. The state is what the files under \<open>~/.airc/gh\<close> hold, each line of the window
  standing for the number it reads back as. Every operation runs under the file lock; a
  failing file operation ends it with an error and is left out.
\<close>

section \<open>Budget\<close>

datatype gh_class = GC_Recovery | GC_Registry | GC_Beacon | GC_Interactive

definition DEFAULT_MAX_REQUESTS_PER_MIN :: nat where
  "DEFAULT_MAX_REQUESTS_PER_MIN = 30"

definition REGISTRY_FLOOR :: nat where
  "REGISTRY_FLOOR = 6"

definition RECOVERY_FLOOR :: nat where
  "RECOVERY_FLOOR = 6"

definition DEFAULT_QUOTA_FLOOR :: u64 where
  "DEFAULT_QUOTA_FLOOR = 50"

definition registry_floor_for :: "nat \<Rightarrow> nat" where
  "registry_floor_for limit = (if REGISTRY_FLOOR * 2 < limit then REGISTRY_FLOOR else 0)"

definition request_limit_for :: "gh_class \<Rightarrow> nat \<Rightarrow> nat" where
  "request_limit_for cls limit =
     (let recovery = (if REGISTRY_FLOOR + RECOVERY_FLOOR < limit then RECOVERY_FLOOR else 0)
      in case cls of
           GC_Recovery \<Rightarrow> limit
         | GC_Registry \<Rightarrow> limit - recovery
         | _ \<Rightarrow> limit - (recovery + registry_floor_for limit))"

text \<open>The limit and the floor of the quota, from the environment variables.\<close>

definition max_requests_per_min :: "string option \<Rightarrow> nat" where
  "max_requests_per_min var =
     (case Option.bind var parse_u64 of
        Some n \<Rightarrow> if 0 < n then unat n else DEFAULT_MAX_REQUESTS_PER_MIN
      | None \<Rightarrow> DEFAULT_MAX_REQUESTS_PER_MIN)"

definition quota_floor :: "string option \<Rightarrow> u64" where
  "quota_floor var = (case Option.bind var parse_u64 of Some n \<Rightarrow> n | None \<Rightarrow> DEFAULT_QUOTA_FLOOR)"

datatype denial = DN_Backoff int | DN_Budget gh_class nat nat nat

datatype reservation = RV_Allowed | RV_Denied int denial

definition reservation_allowed :: "reservation \<Rightarrow> bool" where
  "reservation_allowed r = (r = RV_Allowed)"

record gh_budget =
  gb_window :: "f64 list"
  gb_backoff_until :: "int option"
  gb_quota :: "(u64 \<times> int) option"

definition budget_new :: gh_budget where
  "budget_new = \<lparr> gb_window = [], gb_backoff_until = None, gb_quota = None \<rparr>"

definition is_quota_relevant :: "string list \<Rightarrow> bool" where
  "is_quota_relevant args =
     (case args of
        [] \<Rightarrow> False
      | a # rest \<Rightarrow> a = ''api'' \<or> a = ''gist'' \<or> a = ''auth'' \<and> (case rest of b # _ \<Rightarrow> b = ''status'' | [] \<Rightarrow> False))"

definition f64_60 :: f64 where
  "f64_60 = f64_of_int 60"

definition read_backoff :: "gh_budget \<Rightarrow> f64" where
  "read_backoff g = (case gb_backoff_until g of Some n \<Rightarrow> f64_of_int n | None \<Rightarrow> 0)"

definition write_backoff :: "f64 \<Rightarrow> f64 \<Rightarrow> gh_budget \<Rightarrow> gh_budget" where
  "write_backoff now until g =
     (if f64_le until now then g
      else g\<lparr> gb_backoff_until := Some (f64_to_i64 (f64_max until (read_backoff g))) \<rparr>)"

definition in_window :: "f64 \<Rightarrow> f64 \<Rightarrow> bool" where
  "in_window now ts = f64_le (f64_sub now f64_60) ts"

definition recent_count :: "f64 \<Rightarrow> gh_budget \<Rightarrow> nat \<times> gh_budget" where
  "recent_count now g =
     (let kept = filter (in_window now) (gb_window g)
      in (length kept, g\<lparr> gb_window := map round_milli kept \<rparr>))"

definition local_window_frees_in :: "f64 \<Rightarrow> gh_budget \<Rightarrow> int" where
  "local_window_frees_in now g =
     (let oldest = fold (\<lambda>ts acc. f64_min acc ts) (filter (in_window now) (gb_window g)) (f64_inf False)
      in if f64_is_finite oldest then max (f64_ceil_i64 (f64_sub (f64_add oldest f64_60) now)) 1 else 1)"

definition record_request :: "f64 \<Rightarrow> gh_budget \<Rightarrow> gh_budget" where
  "record_request now g = g\<lparr> gb_window := gb_window g @ [round_milli now] \<rparr>"

definition reserve_class :: "nat \<Rightarrow> gh_budget \<Rightarrow> string list \<Rightarrow> f64 \<Rightarrow> gh_class \<Rightarrow> reservation \<times> gh_budget" where
  "reserve_class limit g args now cls =
     (let until = read_backoff g
      in if f64_less now until
         then (RV_Denied (f64_ceil_i64 (f64_sub until now)) (DN_Backoff (f64_to_i64 (f64_sub until now))), g)
         else if \<not> is_quota_relevant args then (RV_Allowed, g)
         else
           let (count, g) = recent_count now g; class_limit = request_limit_for cls limit
           in if class_limit \<le> count
              then (RV_Denied (local_window_frees_in now g) (DN_Budget cls count class_limit limit), g)
              else (RV_Allowed, record_request now g))"

definition reserve :: "nat \<Rightarrow> gh_budget \<Rightarrow> string list \<Rightarrow> f64 \<Rightarrow> reservation \<times> gh_budget" where
  "reserve limit g args now = reserve_class limit g args now GC_Interactive"

definition budget_snapshot :: "nat \<Rightarrow> f64 \<Rightarrow> gh_budget \<Rightarrow> (nat \<times> nat) \<times> gh_budget" where
  "budget_snapshot limit now g = (let (count, g) = recent_count now g in ((count, limit), g))"

definition backoff_wait_secs :: "f64 \<Rightarrow> gh_budget \<Rightarrow> int" where
  "backoff_wait_secs now g = f64_ceil_i64 (f64_max (f64_sub (read_backoff g) now) 0)"

section \<open>GitHub's answers\<close>

fun header_value :: "string list \<Rightarrow> string \<Rightarrow> string option" where
  "header_value [] name = None"
| "header_value (line # rest) name =
     (case split_once (CHR '':'') line of
        Some (key, v) \<Rightarrow> if trim key = name then Some (trim v) else header_value rest name
      | None \<Rightarrow> header_value rest name)"

definition write_quota :: "u64 \<Rightarrow> f64 \<Rightarrow> gh_budget \<Rightarrow> gh_budget" where
  "write_quota remaining reset g = g\<lparr> gb_quota := Some (remaining, f64_to_i64 reset) \<rparr>"

definition quota_snapshot :: "gh_budget \<Rightarrow> (u64 \<times> f64) option" where
  "quota_snapshot g = map_option (\<lambda>(remaining, reset). (remaining, f64_of_int reset)) (gb_quota g)"

text \<open>The clock is read once for the answer and again when a backoff is written.\<close>

definition note_rate_limit :: "u64 \<Rightarrow> string \<Rightarrow> f64 \<Rightarrow> f64 \<Rightarrow> gh_budget \<Rightarrow> gh_budget" where
  "note_rate_limit floor response_text now now2 g =
     (let body = to_ascii_lowercase response_text; ls = str_lines body in
      if body = [] then g
      else case Option.bind (header_value ls ''retry-after'') (\<lambda>v. parse_f64 (trim v)) of
        Some retry \<Rightarrow> write_backoff now2 (f64_add now (f64_max retry (f64_of_int 1))) g
      | None \<Rightarrow>
          (case (Option.bind (header_value ls ''x-ratelimit-remaining'') (\<lambda>v. parse_u64 (trim v)),
                 Option.bind (header_value ls ''x-ratelimit-reset'') (\<lambda>v. parse_f64 (trim v))) of
             (Some remaining, Some reset) \<Rightarrow>
               let g = write_quota remaining reset g
               in if remaining \<le> floor \<and> f64_less now reset then write_backoff now2 reset g else g
           | _ \<Rightarrow>
               if str_contains ''secondary rate limit'' body \<or> str_contains ''rate limit exceeded'' body \<or>
                  str_contains ''abuse detection'' body
               then write_backoff now2 (f64_add now f64_60) g else g))"

definition split_include_output :: "string \<Rightarrow> string \<times> string" where
  "split_include_output raw =
     (let normalized = replace_crlf raw
      in if starts_with ''HTTP/'' normalized
         then (case split_at_find [CHR 0x0A, CHR 0x0A] normalized of
                 Some (headers, body) \<Rightarrow> (headers, trim_start body)
               | None \<Rightarrow> ([], raw))
         else ([], raw))"

section \<open>The floors hold\<close>

datatype gov_event =
    GE_Reserve "string list" f64 gh_class
  | GE_Snapshot f64
  | GE_Note u64 string f64 f64

text \<open>A run of calls, with the log of the requests that were admitted and counted.\<close>

type_synonym gov_log = "(f64 \<times> gh_class) list"

fun gov_step :: "nat \<Rightarrow> gov_event \<Rightarrow> gh_budget \<times> gov_log \<Rightarrow> gh_budget \<times> gov_log" where
  "gov_step limit (GE_Reserve args now cls) (g, log) =
     (case reserve_class limit g args now cls of
        (r, g') \<Rightarrow> (g', if r = RV_Allowed \<and> is_quota_relevant args then log @ [(now, cls)] else log))"
| "gov_step limit (GE_Snapshot now) (g, log) = (snd (budget_snapshot limit now g), log)"
| "gov_step limit (GE_Note floor text now now2) (g, log) = (note_rate_limit floor text now now2 g, log)"

definition gov_run :: "nat \<Rightarrow> gov_event list \<Rightarrow> gh_budget \<times> gov_log" where
  "gov_run limit es = fold (gov_step limit) es (budget_new, [])"

text \<open>
  An admitted request that is still in the file: its time, its class and how often its line
  was rewritten.
\<close>

type_synonym kept_request = "f64 \<times> gh_class \<times> nat"

definition line_of :: "kept_request \<Rightarrow> f64" where
  "line_of = (\<lambda>(now, cls, n). (round_milli ^^ n) now)"

definition request_of :: "kept_request \<Rightarrow> f64 \<times> gh_class" where
  "request_of = (\<lambda>(now, cls, n). (now, cls))"

text \<open>The classes that may use the part of the budget that others leave free.\<close>

definition privileged :: "gh_class \<Rightarrow> gh_class set" where
  "privileged cls = (case cls of GC_Recovery \<Rightarrow> {GC_Recovery} | GC_Registry \<Rightarrow> {GC_Recovery, GC_Registry} | _ \<Rightarrow> UNIV)"

definition in_class :: "gh_class set \<Rightarrow> kept_request list \<Rightarrow> nat" where
  "in_class C T = length (filter (\<lambda>(now, cls, n). cls \<in> C) T)"

definition floors_hold :: "nat \<Rightarrow> kept_request list \<Rightarrow> bool" where
  "floors_hold limit T \<longleftrightarrow>
     length T \<le> limit \<and>
     length T \<le> limit - 6 + in_class (privileged GC_Recovery) T \<and>
     length T \<le> limit - 12 + in_class (privileged GC_Registry) T"

definition gov_inv :: "nat \<Rightarrow> gh_budget \<times> gov_log \<Rightarrow> kept_request list \<Rightarrow> bool" where
  "gov_inv limit = (\<lambda>(g, log) T. gb_window g = map line_of T \<and> subseq (map request_of T) log \<and> floors_hold limit T)"

lemma floors_hold_filter: "floors_hold limit T \<Longrightarrow> floors_hold limit (filter P T)"
proof -
  have less: "length (filter P T) + in_class C T \<le> length T + in_class C (filter P T)" for C
    unfolding in_class_def by (induction T) (auto split: if_splits)
  assume "floors_hold limit T"
  then show ?thesis
    using less [of "privileged GC_Recovery"] less [of "privileged GC_Registry"] length_filter_le [of P T]
    unfolding floors_hold_def by linarith
qed

lemma floors_hold_map:
  assumes "floors_hold limit T"
  shows "floors_hold limit (map (\<lambda>(now, cls, n). (now, cls, Suc n)) T)"
proof -
  have "in_class C (map (\<lambda>(now, cls, n). (now, cls, Suc n)) T) = in_class C T" for C
    unfolding in_class_def by (induction T) auto
  then show ?thesis using assms by (simp add: floors_hold_def)
qed

lemma floors_hold_admit:
  assumes "floors_hold limit T" "12 < limit" "length T < request_limit_for cls limit"
  shows "floors_hold limit (T @ [(now, cls, n)])"
  using assms
  by (cases cls) (auto simp: floors_hold_def in_class_def privileged_def request_limit_for_def registry_floor_for_def
      REGISTRY_FLOOR_def RECOVERY_FLOOR_def)

text \<open>Counting keeps a part of the lines and writes them again.\<close>

lemma recent_count_inv:
  assumes "gov_inv limit (g, log) T" "recent_count now g = (used, g')"
  obtains T' where "gov_inv limit (g', log) T'" "used = length T'" "gb_backoff_until g' = gb_backoff_until g"
    "\<forall>(t, cls, n) \<in> set T'. \<exists>m. n = Suc m \<and> in_window now ((round_milli ^^ m) t)"
proof -
  define K where "K = filter (\<lambda>r. in_window now (line_of r)) T"
  define T' where "T' = map (\<lambda>(now, cls, n). (now, cls, Suc n)) K"
  have "map request_of T' = map request_of K"
    by (simp add: T'_def request_of_def split_beta)
  moreover have "subseq (map request_of K) (map request_of T)"
    unfolding K_def by (intro subseq_map subseq_filter_left)
  ultimately have "subseq (map request_of T') log"
    using assms(1) by (auto simp: gov_inv_def dest: subseq_order.order_trans)
  moreover have lines: "filter (in_window now) (gb_window g) = map line_of K"
    using assms(1) by (simp add: gov_inv_def K_def filter_map comp_def)
  then have "gb_window g' = map line_of T'" "used = length T'" "gb_backoff_until g' = gb_backoff_until g"
    using assms(2) by (auto simp: recent_count_def Let_def T'_def line_of_def split_beta)
  moreover have "floors_hold limit T'"
    using assms(1) by (auto simp: gov_inv_def T'_def K_def intro: floors_hold_map floors_hold_filter)
  moreover have "\<forall>(t, cls, n) \<in> set T'. \<exists>m. n = Suc m \<and> in_window now ((round_milli ^^ m) t)"
    by (auto simp: T'_def K_def line_of_def)
  ultimately show ?thesis using that [of T'] by (simp add: gov_inv_def)
qed

lemma note_window [simp]: "gb_window (note_rate_limit floor text now now2 g) = gb_window g"
  by (simp add: note_rate_limit_def write_backoff_def write_quota_def Let_def split: option.splits)

lemma gov_step_inv:
  assumes "gov_inv limit s T" "12 < limit"
  shows "\<exists>T'. gov_inv limit (gov_step limit e s) T'"
proof -
  obtain g log where s: "s = (g, log)" by (cases s)
  show ?thesis
  proof (cases e)
    case (GE_Reserve args now cls)
    show ?thesis
    proof (cases "f64_less now (read_backoff g) \<or> \<not> is_quota_relevant args")
      case True
      then have "snd (reserve_class limit g args now cls) = g" "fst (reserve_class limit g args now cls) = RV_Allowed \<Longrightarrow> \<not> is_quota_relevant args"
        by (auto simp: reserve_class_def Let_def)
      then show ?thesis using assms(1) by (auto simp: s GE_Reserve split_beta)
    next
      case False
      obtain used g' where rc: "recent_count now g = (used, g')" by (cases "recent_count now g")
      obtain T' where T': "gov_inv limit (g', log) T'" "used = length T'"
        by (rule recent_count_inv [OF assms(1) [unfolded s] rc])
      show ?thesis
      proof (cases "request_limit_for cls limit \<le> used")
        case True
        then show ?thesis
          using False T' rc by (auto simp: s GE_Reserve reserve_class_def Let_def)
      next
        case full: False
        have "gov_inv limit (record_request now g', log @ [(now, cls)]) (T' @ [(now, cls, 1)])"
          using T' full floors_hold_admit [OF _ assms(2), of T' cls]
          by (auto simp: gov_inv_def record_request_def line_of_def request_of_def intro: list_emb_append_mono)
        then show ?thesis
          using False full rc by (auto simp: s GE_Reserve reserve_class_def Let_def)
      qed
    qed
  next
    case (GE_Snapshot now)
    obtain used g' where rc: "recent_count now g = (used, g')" by (cases "recent_count now g")
    have "gov_step limit e s = (g', log)" by (simp add: s GE_Snapshot budget_snapshot_def rc)
    moreover obtain T' where "gov_inv limit (g', log) T'"
      by (rule recent_count_inv [OF assms(1) [unfolded s] rc])
    ultimately show ?thesis by auto
  next
    case (GE_Note floor answer now now2)
    then show ?thesis using assms(1) by (auto simp: s gov_inv_def)
  qed
qed

lemma gov_run_inv:
  assumes "12 < limit"
  obtains T where "gov_inv limit (gov_run limit es) T"
proof -
  have "\<exists>T. gov_inv limit (gov_run limit es) T"
  proof (induction es rule: rev_induct)
    case Nil
    have "gov_inv limit (gov_run limit []) []"
      by (simp add: gov_run_def gov_inv_def budget_new_def floors_hold_def)
    then show ?case by blast
  next
    case (snoc e es)
    then obtain T where "gov_inv limit (gov_run limit es) T" ..
    from gov_step_inv [OF this assms, of e] show ?case by (simp add: gov_run_def)
  qed
  then show ?thesis using that by blast
qed



text \<open>
  A backoff is cut to whole seconds. GitHub asks at 100.75 to wait one second; the
  backoff is stored as 101, and a request at 101.0, a quarter of a second later, is let
  through.
\<close>

lemma retry_after_cut_short:
  "let g = note_rate_limit 50 ''retry-after: 1'' 0x4059300000000000 0x4059300000000000 budget_new
   in gb_backoff_until g = Some 101 \<and>
      fst (reserve_class 30 g [''api''] 0x4059400000000000 GC_Interactive) = RV_Allowed"
  by code_simp

end
