(* ===== verification/Spec2Isabelle.thy ===== *)
theory Spec2Isabelle
  imports Work_Board_Props Work_Drain Work_Replay Store_Memory Bus_Progress Proto_Session_Props Trust_Registry
    Sql_Bus_Refine Sql_Store_Props Flex_Ownership Flex_Price
    Lib_Route Lib_Dial Lib_Governor
begin

text \<open>
  Verification of airc, a local-first message bus for agents with a replicated work board.

  \<^bold>\<open>The program\<close>. Peers exchange envelopes on channels. In each daemon an event router
  (crate \<open>airc-bus\<close>) numbers an envelope, keeps it in a bounded hot ring or an ephemeral cache,
  fans it out to live subscribers and hands durables to a write-behind task that persists
  them to a durable sink; readers merge ring and sink. Transcript events (crate \<open>airc-core\<close>)
  are kept by an event store (crate \<open>airc-store\<close>), paged and counted. Work events (crate
  \<open>airc-work\<close>) travel in transcript events; every peer replays them into a work board of
  cards, claims, submissions, reviews, workspaces and pull requests (\<open>airc-work-store\<close> drives the
  replay from an event store). Frames between daemons travel in encrypted stream sessions
  that a signed handshake keys (crate \<open>airc-protocol\<close>), under identity keys that the trust
  registry keeps and rotates (\<open>airc-trust\<close>). The store and the durable sink have a SQLite
  backend next to the in-memory one (\<open>airc-store\<close>). The crate \<open>flex\<close> shares a measured resource
  among claims. The client library (\<open>airc-lib\<close>) picks the transport of a send, remembers
  dial failures and acknowledgements, and keeps requests to GitHub within a budget.

  \<^bold>\<open>Prelude\<close>. \<open>Airc_Prelude\<close> has what the components share: Rust's \<open>Result\<close> as a sum with
  \<open>res_bind\<close> for the question mark, wrapping and saturating \<open>u64\<close>, \<open>Option\<close> combinators, and
  \<open>BTreeMap\<close> as a sorted association list with its laws as a locale and its interpretation.
  \<open>Rust_Str\<close> has strings as byte lists, \<open>Rust_Utf8\<close> their characters with the proof that byte
  order is character order, \<open>Rust_F64\<close> the \<open>f64\<close> of IEEE 754 with its rounding, \<open>Rust_Parse\<close> the
  reading and printing of numbers. These four model the language.

  \<^bold>\<open>Work board\<close> (\<open>crates/airc-work/src\<close>). \<open>Work_Model\<close> (\<open>ids.rs\<close>, \<open>model.rs\<close>), \<open>Work_Card_Event\<close>,
  \<open>Work_Infra_Event\<close> and \<open>Work_Event\<close> (\<open>event.rs\<close>, \<open>goal.rs\<close>, \<open>goal_event.rs\<close>) hold the data and the
  admission rules. \<open>Work_Board\<close> (\<open>projection.rs\<close>, \<open>projection/apply.rs\<close>) has the board record and
  one definition for each \<open>apply_*\<close> handler, with replay and windowed replay. \<open>Work_Board_Inv\<close>
  proves the board invariant for every handler; \<open>Work_Board_Props\<close> has the properties of the
  board: who may take a held card, what history is kept, when a review is admitted, what a
  windowed replay loses, leases and their arithmetic. \<open>Work_Drain\<close> (\<open>drain_policy.rs\<close>) is the
  workspace removal policy. \<open>Work_Codec\<close> (\<open>codec\<close>) and \<open>Work_Replay\<close> (\<open>replay.rs\<close>,
  \<open>airc-work-store/src/lib.rs\<close>) go from transcript events to a board: authentication of
  authorship, order independence, and paging through a store to its end.

  \<^bold>\<open>Transcripts\<close> (\<open>crates/airc-core/src\<close>, \<open>crates/airc-store/src/memory.rs\<close>). \<open>Core_Headers\<close>,
  \<open>Core_Transcript\<close>, \<open>Core_Select\<close> and \<open>Core_Addressing\<close> have headers and their filters, events,
  pages, bounded selection, capped counts and addressing; \<open>Store_Memory\<close> has the in-memory
  event store, whose reads are exact and whose cursors only move forward.

  \<^bold>\<open>Event router\<close> (\<open>crates/airc-bus/src\<close>). \<open>Bus_Envelope\<close> (envelopes, cursors, filters, sequence
  numbers), \<open>Bus_Ring\<close> (\<open>ring.rs\<close>), \<open>Bus_Ephemeral\<close> (\<open>ephemeral.rs\<close>), \<open>Bus_Index\<close>
  (\<open>subscriber_index.rs\<close>) and \<open>Bus_Sink\<close> (\<open>sink.rs\<close>) are the tiers; each states its contract as a
  locale (\<open>recent_cache\<close>, \<open>subscriber_registry\<close>, \<open>durable_sink\<close>) and interprets it on its
  definitions. \<open>Bus_Router\<close> (\<open>router.rs\<close>, \<open>router/write_behind.rs\<close>) has the router as explicit
  state with the operations on it. \<open>Bus_Router_Inv\<close> makes a step relation of publishers,
  write-behind task, subscribers and forwarder, together with the history the proofs need;
  \<open>Bus_Reach\<close> proves the store and delivery invariants of all reachable states inside the
  \<open>durable_sink\<close> contract. \<open>Bus_History\<close> (\<open>router/history.rs\<close>) has the reads that merge ring and
  sink, \<open>Bus_Subscribe\<close> (\<open>router/subscribe.rs\<close>) the three legs of a stream, \<open>Bus_Exactly_Once\<close>
  a subscription over its whole life. \<open>Bus_Props\<close> and \<open>Bus_Progress\<close> state what the router
  promises on the in-memory sink: no accepted durable is lost, reads are exact, streams are
  exactly-once for durables, admission precedes every effect, publishing if new is
  idempotent, the write-behind task drains; and two interleavings in which a live stream
  misses an envelope.

  \<^bold>\<open>Sessions and keys\<close> (\<open>crates/airc-protocol/src\<close>). \<open>Proto_Keys\<close> (\<open>keypair.rs\<close>, \<open>signature.rs\<close>,
  \<open>assertion.rs\<close>, \<open>addressed_attach.rs\<close>) has identity keys and signed statements, \<open>Proto_Session\<close>
  (\<open>session.rs\<close>) the replay window with sealing and opening, \<open>Proto_Handshake\<close> (\<open>handshake.rs\<close>) the
  signed key exchange, \<open>Proto_Session_Manager\<close> (\<open>session_manager.rs\<close>) the state per peer. The
  window is proved equal to a filter that remembers every counter (locale \<open>anti_replay\<close>),
  so a stream delivers every frame at most once, and exactly those the window covers; no
  nonce is used twice. \<open>Proto_Session_Props\<close> has two managers together: handshakes and crossed
  handshakes link the ends, an accepted init is inert when replayed, a response proves
  what its signer answered; and two runs in which the ends disagree.

  \<^bold>\<open>Trust\<close> (\<open>airc-protocol/src/trust_rotation.rs\<close>, \<open>airc-store/src/peer_trust.rs\<close>,
  \<open>sqlite/trust_ops.rs\<close>, \<open>crates/airc-trust/src/lib.rs\<close>). \<open>Trust_Store\<close> has rotations and the two
  tables, \<open>Trust_Registry\<close> the registry over them: a key changes only by a rotation its
  predecessor signed, an applied rotation is refused for ever, every reachable table
  decodes, and a rotation interrupted between its two writes cannot be taken up again.

  \<^bold>\<open>SQLite backends\<close> (\<open>crates/airc-store/src\<close>). \<open>Store_Rows\<close> has the errors, checked conversions and
  typed rows of all backends, \<open>Store_Memory_Tables\<close> the remaining tables of the in-memory
  store. \<open>Sql_Header_Query\<close> (\<open>header_query.rs\<close>) and \<open>Sql_Event_Table\<close> (\<open>event_table.rs\<close>, a locale for
  the trait) are shared by \<open>Sql_Bus_Sink\<close> (\<open>bus_sink.rs\<close>, \<open>bus_epoch_store.rs\<close>) and
  \<open>Sql_Event_Store\<close> with \<open>Sql_Store_Tables\<close> (\<open>sqlite.rs\<close>, \<open>sqlite/event_store.rs\<close>, \<open>event_query.rs\<close>,
  \<open>history_count.rs\<close>). \<open>Sql_Bus_Refine\<close> and \<open>Sql_Store_Refine\<close> prove that each answers every read
  as the in-memory backend does; \<open>Sql_Store_Props\<close> has checkpoints over the whole range of
  \<open>u64\<close>, the refresh lock among other processes, and where the identity card goes.

  \<^bold>\<open>Resource solver\<close> (\<open>crates/flex/src\<close>). \<open>Flex_Claim\<close> (\<open>amount.rs\<close>, \<open>value.rs\<close>, \<open>provenance.rs\<close>,
  \<open>claim.rs\<close>), \<open>Flex_Solve\<close> (\<open>solve.rs\<close>) and \<open>Flex_Tier\<close> (\<open>tier.rs\<close>) are the code. \<open>Flex_Growth\<close>
  shows that a clearing takes from no one and charges at most the capacity,
  \<open>Flex_Ownership\<close> that physical use stays within capacity whatever order grants and reports
  arrive in, \<open>Flex_Price\<close> that the price separates what is granted from what is refused.

  \<^bold>\<open>Client library\<close> (\<open>crates/airc-lib/src\<close>). \<open>Lib_Route\<close> (\<open>route/policy.rs\<close>, \<open>health.rs\<close>,
  \<open>resolver.rs\<close>, \<open>execution.rs\<close>) shows which transport a send takes and when it is refused,
  \<open>Lib_Dial\<close> (\<open>route/dial_quarantine.rs\<close>, \<open>route/delivery_ledger.rs\<close>) gives the dial gate as a
  closed form of the history of an endpoint, \<open>Lib_Governor\<close> (\<open>gh/governor.rs\<close>) shows that the
  request budget is kept and that background requests never starve the registry.

  \<^bold>\<open>Interleaving\<close>. Operations that hold one lock throughout are one step. A publish is cut at
  the points where the code holds no lock (reserve, stamp, deliver, enqueue, forward); the
  step relation of \<open>Bus_Router_Inv\<close> runs these in one go, and \<open>inverted_delivery_lost\<close> runs
  two publishes interleaved. The write-behind task is four kinds of steps. A router read is
  taken in one state; the deep replay of a stream takes each of its queries in whatever
  state the sink has by then. A session operation holds its peer's entry and is one step;
  frames in between may be lost, repeated and reordered. A database transaction is one
  step, and calls of several statements (rotation, refresh lock) have the effects of
  others between them. Governor operations run under their file lock.

  \<^bold>\<open>Bounds and termination\<close>. Integers have the width of the code where arithmetic on them
  matters (\<open>u64\<close> counters, instants and counts); lengths of in-memory collections (\<open>usize\<close>) are
  natural numbers. Sequence counters and subscription ids are assumed not to wrap at the
  steps that draw them. Counters of the solver wrap as in a release build, and the steps
  of \<open>Flex_Ownership\<close> are those where they do not (\<open>counters_fit\<close>). The SQLite log agrees with the
  in-memory one while lamports are below \<open>2 ^ 63\<close>, the range of its signed column. The floors
  of the governor are below a limit above twelve requests. No definition uses fuel: loops are structural or have a measure
  (eviction of the ring, paging through a store), and the deep replay, which ends only if
  the sink does not outgrow it forever, is a partial function that is proved to return.

  \<^bold>\<open>Parameters\<close>. serde_json, CBOR, base64, uuid rendering and Unicode character tables are
  parameters, with round-trip laws as hypotheses where they are used. So are the ciphers,
  curves and hashes (\<open>session_crypto\<close>, \<open>sign_crypto\<close>, \<open>proto_crypto\<close>), with the laws \<open>aead_correct\<close>,
  \<open>sign_correct\<close> and \<open>crypto_correct\<close>; every such hypothesis has an instance in a witness. Random
  draws, readings of the clock, environment variables, the admission of a write and the
  answers of the database driver are arguments of the operations.

  \<^bold>\<open>Not modelled\<close>. Sockets, TLS, key files and generated wire code; the opening, migration,
  custody and retention of databases; the daemon's process and async glue; the rest of the
  client library and the command line over it; tracing, diagnostics and retry delays;
  serde shapes and random id generation.
\<close>

end
